(* ===== verification/Prelude.thy ===== *)
theory Prelude
  imports Main "HOL-Library.Word"
begin

text \<open>
  Shared vocabulary of the development: fallible computations as sums (\<open>Inl\<close> the raised
  exception), Python's string operations on char lists (\<open>str.split\<close>, \<open>startswith\<close>,
  \<open>rpartition\<close>, \<open>isspace\<close>, decimal and hexadecimal formatting), and the generic lemmas the
  component theories use about them. A Python \<open>str\<close> is a \<open>string\<close>, so a code point is one
  of 0..255; every check of the program treats all code points above 127 alike.
\<close>

named_theorems result_simps \<open>rewriting of fallible computations\<close>
named_theorems py_string_simps \<open>the model's Python string operations\<close>

section \<open>Fallible computations\<close>

type_synonym ('e, 'a) result = "'e + 'a"

definition bind_r :: "('e, 'a) result \<Rightarrow> ('a \<Rightarrow> ('e, 'b) result) \<Rightarrow> ('e, 'b) result" where
  "bind_r m f = (case m of Inl e \<Rightarrow> Inl e | Inr x \<Rightarrow> f x)"

definition require :: "bool \<Rightarrow> 'e \<Rightarrow> ('e, unit) result" where
  "require c e = (if c then Inr () else Inl e)"

definition of_option :: "'e \<Rightarrow> 'a option \<Rightarrow> ('e, 'a) result" where
  "of_option e x = (case x of None \<Rightarrow> Inl e | Some v \<Rightarrow> Inr v)"

definition is_ok :: "('e, 'a) result \<Rightarrow> bool" where
  "is_ok r = (case r of Inl _ \<Rightarrow> False | Inr _ \<Rightarrow> True)"

section \<open>Python strings\<close>

definition ord :: "char \<Rightarrow> nat" where
  "ord c = of_char c"

definition is_ascii :: "string \<Rightarrow> bool" where
  "is_ascii s = list_all (\<lambda>c. ord c < 128) s"

text \<open>\<open>str.isspace\<close> of one character, on the code points 0..255.\<close>

definition isspace :: "char \<Rightarrow> bool" where
  "isspace c = (let n = ord c in (9 \<le> n \<and> n \<le> 13) \<or> (28 \<le> n \<and> n \<le> 32) \<or> n = 133 \<or> n = 160)"

definition is_printable :: "char \<Rightarrow> bool" where
  "is_printable c = (32 \<le> ord c \<and> ord c \<le> 126)"

definition is_digit :: "char \<Rightarrow> bool" where
  "is_digit c = (48 \<le> ord c \<and> ord c \<le> 57)"

definition is_upper :: "char \<Rightarrow> bool" where
  "is_upper c = (65 \<le> ord c \<and> ord c \<le> 90)"

definition is_lower :: "char \<Rightarrow> bool" where
  "is_lower c = (97 \<le> ord c \<and> ord c \<le> 122)"

definition is_alpha :: "char \<Rightarrow> bool" where
  "is_alpha c = (is_upper c \<or> is_lower c)"

definition startswith :: "string \<Rightarrow> string \<Rightarrow> bool" where
  "startswith s p = (take (length p) s = p)"

definition endswith :: "string \<Rightarrow> string \<Rightarrow> bool" where
  "endswith s p = (length p \<le> length s \<and> drop (length s - length p) s = p)"

definition lstrip :: "string \<Rightarrow> string" where
  "lstrip s = dropWhile isspace s"

definition strip :: "string \<Rightarrow> string" where
  "strip s = rev (lstrip (rev (lstrip s)))"

text \<open>\<open>s.split(sep)\<close> for a one-character separator: never empty, keeps empty pieces.\<close>

fun split_on :: "char \<Rightarrow> string \<Rightarrow> string list" where
  "split_on d [] = [[]]"
| "split_on d (c # cs) =
     (if c = d then [] # split_on d cs
      else (case split_on d cs of [] \<Rightarrow> [[c]] | p # ps \<Rightarrow> (c # p) # ps))"

text \<open>\<open>s.split(sep, 1)\<close>: the text before the first separator and, if there is one, the rest.\<close>

definition split_first :: "char \<Rightarrow> string \<Rightarrow> string \<times> string option" where
  "split_first d s =
     (let p = takeWhile (\<lambda>c. c \<noteq> d) s
      in (p, case dropWhile (\<lambda>c. c \<noteq> d) s of [] \<Rightarrow> None | _ # r \<Rightarrow> Some r))"

text \<open>\<open>s.rpartition(sep)\<close>: the text before and after the last separator, if there is one.\<close>

definition rpartition :: "char \<Rightarrow> string \<Rightarrow> (string \<times> string) option" where
  "rpartition d s =
     (case dropWhile (\<lambda>c. c \<noteq> d) (rev s) of
        [] \<Rightarrow> None
      | _ # r \<Rightarrow> Some (rev r, rev (takeWhile (\<lambda>c. c \<noteq> d) (rev s))))"

fun join :: "char \<Rightarrow> string list \<Rightarrow> string" where
  "join d [] = []"
| "join d [p] = p"
| "join d (p # ps) = p @ d # join d ps"

text \<open>Decimal rendering \<open>str(n)\<close> and its inverse \<open>int(s)\<close> on digit strings.\<close>

definition digit_char :: "nat \<Rightarrow> char" where
  "digit_char n = char_of (48 + n)"

fun nat_str :: "nat \<Rightarrow> string" where
  "nat_str n = (if n < 10 then [digit_char n] else nat_str (n div 10) @ [digit_char (n mod 10)])"

declare nat_str.simps [simp del]

definition int_str :: "int \<Rightarrow> string" where
  "int_str i = (if i < 0 then CHR ''-'' # nat_str (nat (- i)) else nat_str (nat i))"

definition digit_val :: "char \<Rightarrow> nat" where
  "digit_val c = ord c - 48"

definition dec_val :: "string \<Rightarrow> nat" where
  "dec_val s = foldl (\<lambda>acc c. 10 * acc + digit_val c) 0 s"

definition hex_char :: "nat \<Rightarrow> char" where
  "hex_char n = (if n < 10 then char_of (48 + n) else char_of (55 + n))"

definition is_hex_upper :: "char \<Rightarrow> bool" where
  "is_hex_upper c = (is_digit c \<or> (65 \<le> ord c \<and> ord c \<le> 70))"

text \<open>\<open>f"{n:04X}"\<close> for a 16-bit value.\<close>

definition hex4 :: "nat \<Rightarrow> string" where
  "hex4 n = [hex_char (n div 4096 mod 16), hex_char (n div 256 mod 16),
             hex_char (n div 16 mod 16), hex_char (n mod 16)]"

section \<open>Lemmas on fallible computations\<close>

lemma bind_r_simps [simp, result_simps]:
  "bind_r (Inl e) f = Inl e"
  "bind_r (Inr x) f = f x"
  by (simp_all add: bind_r_def)

lemma bind_r_eq_Inr [result_simps]:
  "(bind_r m f = Inr y) \<longleftrightarrow> (\<exists>x. m = Inr x \<and> f x = Inr y)"
  by (cases m) auto

lemma bind_r_eq_Inl [result_simps]:
  "(bind_r m f = Inl e) \<longleftrightarrow> (m = Inl e \<or> (\<exists>x. m = Inr x \<and> f x = Inl e))"
  by (cases m) auto

lemma require_eq_Inr [simp, result_simps]: "(require c e = Inr u) \<longleftrightarrow> c"
  by (simp add: require_def)

lemma require_eq_Inl [simp, result_simps]: "(require c e = Inl e') \<longleftrightarrow> (\<not> c \<and> e' = e)"
  by (auto simp: require_def)

lemma require_simps [simp]: "require True e = Inr ()" "require False e = Inl e"
  by (simp_all add: require_def)

lemma of_option_eq [simp, result_simps]:
  "(of_option e x = Inr v) \<longleftrightarrow> x = Some v"
  "(of_option e x = Inl e') \<longleftrightarrow> (x = None \<and> e' = e)"
  by (auto simp: of_option_def split: option.splits)

lemma of_option_simps [simp]: "of_option e (Some v) = Inr v" "of_option e None = Inl e"
  by (simp_all add: of_option_def)

lemma is_ok_simps [simp]: "is_ok (Inr x)" "\<not> is_ok (Inl e)"
  by (simp_all add: is_ok_def)

lemma is_ok_iff: "is_ok r \<longleftrightarrow> (\<exists>x. r = Inr x)"
  by (cases r) auto

section \<open>Lemmas on strings\<close>

lemma ord_less_256 [simp]: "ord c < 256"
  by (simp add: ord_def)

lemma ord_char_of [simp]: "n < 256 \<Longrightarrow> ord (char_of n) = n"
  by (simp add: ord_def)

lemma ord_eq_iff: "ord a = ord b \<longleftrightarrow> a = b"
  by (simp add: ord_def)

lemma startswith_append [simp, py_string_simps]: "startswith (p @ s) p"
  by (simp add: startswith_def)

lemma startswith_Nil [simp, py_string_simps]: "startswith s []"
  by (simp add: startswith_def)

lemma startswith_Cons [simp, py_string_simps]:
  "startswith (c # s) (d # p) \<longleftrightarrow> c = d \<and> startswith s p"
  "\<not> startswith [] (d # p)"
  by (auto simp: startswith_def)

lemma startswith_iff: "startswith s p \<longleftrightarrow> (\<exists>r. s = p @ r)"
  by (metis append_eq_conv_conj append_take_drop_id startswith_def)

lemma split_on_nonempty [simp]: "split_on d s \<noteq> []"
  by (induction s) (auto split: list.splits)

lemma split_on_no_sep: "d \<notin> set s \<Longrightarrow> split_on d s = [s]"
  by (induction s) auto

lemma split_on_append: "d \<notin> set p \<Longrightarrow> split_on d (p @ d # s) = p # split_on d s"
  by (induction p) auto

lemma split_on_join:
  "ps \<noteq> [] \<Longrightarrow> \<forall>p\<in>set ps. d \<notin> set p \<Longrightarrow> split_on d (join d ps) = ps"
  by (induction d ps rule: join.induct) (auto simp: split_on_no_sep split_on_append)

lemma join_split_on: "join d (split_on d s) = s"
proof (induction s)
  case (Cons c s)
  then show ?case
    by (cases "split_on d s") (auto, metis append_Cons join.simps(2,3) list.exhaust)+
qed simp

lemma split_on_pieces: "p \<in> set (split_on d s) \<Longrightarrow> d \<notin> set p"
  by (induction s arbitrary: p) (auto split: list.splits if_splits)

lemma split_first_append [simp]: "d \<notin> set p \<Longrightarrow> split_first d (p @ d # s) = (p, Some s)"
  by (simp add: split_first_def takeWhile_tail takeWhile_append dropWhile_append)

lemma split_first_no_sep [simp]: "d \<notin> set p \<Longrightarrow> split_first d p = (p, None)"
proof -
  assume "d \<notin> set p"
  then show ?thesis by (induction p) (auto simp: split_first_def)
qed

lemma split_firstD:
  assumes "split_first d s = (p, r)"
  shows "s = p @ (case r of None \<Rightarrow> [] | Some x \<Rightarrow> d # x)" and "d \<notin> set p"
proof -
  have "s = p @ (case r of None \<Rightarrow> [] | Some x \<Rightarrow> d # x) \<and> d \<notin> set p"
  proof (cases "d \<in> set s")
    case True
    then obtain a b where "s = a @ d # b" "d \<notin> set a" by (auto dest: split_list_first)
    with assms show ?thesis by auto
  next
    case False
    with assms show ?thesis by simp
  qed
  then show "s = p @ (case r of None \<Rightarrow> [] | Some x \<Rightarrow> d # x)" "d \<notin> set p" by auto
qed

lemma rpartition_append [simp]: "d \<notin> set s \<Longrightarrow> rpartition d (p @ d # s) = Some (p, s)"
  by (simp add: rpartition_def takeWhile_append dropWhile_append)

lemma rpartition_None: "rpartition d s = None \<longleftrightarrow> d \<notin> set s"
proof -
  have "rpartition d s = None \<longleftrightarrow> dropWhile (\<lambda>c. c \<noteq> d) (rev s) = []"
    unfolding rpartition_def by (simp only: list.case_eq_if) simp
  then show ?thesis by auto
qed

lemma rpartition_SomeD:
  assumes "rpartition d s = Some (a, b)"
  shows "s = a @ d # b" and "d \<notin> set b"
proof -
  have ne: "dropWhile (\<lambda>c. c \<noteq> d) (rev s) \<noteq> []"
    using assms rpartition_None [of d s] by auto
  then have "hd (dropWhile (\<lambda>c. c \<noteq> d) (rev s)) = d"
    using hd_dropWhile [OF ne] by simp
  then obtain r where r: "dropWhile (\<lambda>c. c \<noteq> d) (rev s) = d # r"
    using ne by (metis list.collapse)
  have ab: "a = rev r" "b = rev (takeWhile (\<lambda>c. c \<noteq> d) (rev s))"
    using assms r by (auto simp: rpartition_def)
  have "rev s = takeWhile (\<lambda>c. c \<noteq> d) (rev s) @ d # r"
    using takeWhile_dropWhile_id [of "\<lambda>c. c \<noteq> d" "rev s"] r by simp
  then have "s = rev (takeWhile (\<lambda>c. c \<noteq> d) (rev s) @ d # r)"
    by (metis rev_rev_ident)
  then show "s = a @ d # b" by (simp add: ab)
  show "d \<notin> set b" by (auto simp: ab dest: set_takeWhileD)
qed

section \<open>Lemmas on numerals\<close>

lemma digit_char_ord [simp]: "n < 10 \<Longrightarrow> ord (digit_char n) = 48 + n"
  by (simp add: digit_char_def)

lemma digit_char_is_digit [simp]: "n < 10 \<Longrightarrow> is_digit (digit_char n)"
  by (simp add: is_digit_def)

lemma digit_val_char [simp]: "n < 10 \<Longrightarrow> digit_val (digit_char n) = n"
  by (simp add: digit_val_def)

lemma digit_char_0 [simp]: "digit_char 0 = CHR ''0''"
  by (simp add: digit_char_def char_of_def bit_0)

lemma nat_str_0 [simp]: "nat_str 0 = ''0''"
  by (simp add: nat_str.simps [of 0])

lemma nat_str_digits: "\<forall>c\<in>set (nat_str n). is_digit c"
proof (induction n rule: nat_str.induct)
  case (1 n)
  then show ?case
    by (subst nat_str.simps) (auto simp: nat_str.simps [of n])
qed

lemma nat_str_nonempty [simp]: "nat_str n \<noteq> []"
  by (subst nat_str.simps) simp

lemma dec_val_snoc: "dec_val (s @ [c]) = 10 * dec_val s + digit_val c"
  by (simp add: dec_val_def)

lemma dec_val_nat_str [simp]: "dec_val (nat_str n) = n"
proof (induction n rule: nat_str.induct)
  case (1 n)
  show ?case
  proof (cases "n < 10")
    case True
    then show ?thesis by (subst nat_str.simps) (simp add: dec_val_def)
  next
    case False
    then have "nat_str n = nat_str (n div 10) @ [digit_char (n mod 10)]"
      by (subst nat_str.simps) simp
    with 1 [OF False] show ?thesis by (simp add: dec_val_snoc)
  qed
qed

lemma nat_str_inj: "nat_str m = nat_str n \<Longrightarrow> m = n"
  by (metis dec_val_nat_str)

text \<open>A decimal numeral has no superfluous leading zero.\<close>

lemma nat_str_hd: "hd (nat_str n) = digit_char 0 \<Longrightarrow> n = 0"
proof (induction n rule: nat_str.induct)
  case (1 n)
  show ?case
  proof (cases "n < 10")
    case True
    with 1(2) have "digit_char n = digit_char 0" by (simp add: nat_str.simps [of n])
    then show ?thesis using True digit_val_char [of n] digit_val_char [of 0] by (metis zero_less_numeral)
  next
    case False
    with 1 show ?thesis by (simp add: nat_str.simps [of n])
  qed
qed

lemma digit_range: "is_digit c \<Longrightarrow> digit_val c < 10 \<and> digit_char (digit_val c) = c"
  by (auto simp: is_digit_def digit_val_def digit_char_def ord_def)

lemma nat_str_length_mono: "length (nat_str n) \<le> k \<longleftrightarrow> n < 10 ^ k \<and> k > 0"
proof (induction k arbitrary: n)
  case 0
  then show ?case by simp
next
  case (Suc k)
  show ?case
  proof (cases "n < 10")
    case True
    then have "(n::nat) < 10 ^ Suc k" by (simp add: order_less_le_trans)
    with True show ?thesis by (simp add: nat_str.simps [of n])
  next
    case False
    then have len: "length (nat_str n) = Suc (length (nat_str (n div 10)))"
      by (simp add: nat_str.simps [of n])
    have "n div 10 < 10 ^ k \<longleftrightarrow> n < 10 ^ Suc k"
      by (simp add: div_less_iff_less_mult mult.commute)
    moreover have "k = 0 \<Longrightarrow> \<not> n < 10 ^ Suc k" using False by simp
    ultimately show ?thesis using Suc [of "n div 10"] len by auto
  qed
qed

lemma hex_char_upper [simp]: "n < 16 \<Longrightarrow> is_hex_upper (hex_char n)"
  by (auto simp: hex_char_def is_hex_upper_def is_digit_def)

lemma hex_char_inj: "m < 16 \<Longrightarrow> n < 16 \<Longrightarrow> hex_char m = hex_char n \<Longrightarrow> m = n"
proof -
  assume "m < 16" "n < 16" "hex_char m = hex_char n"
  then have "ord (hex_char m) = ord (hex_char n)" by simp
  with \<open>m < 16\<close> \<open>n < 16\<close> show "m = n" by (auto simp: hex_char_def split: if_splits)
qed

lemma hex4_length [simp]: "length (hex4 n) = 4"
  by (simp add: hex4_def)

lemma hex4_upper: "list_all is_hex_upper (hex4 n)"
  by (simp add: hex4_def)

lemma hex4_inj:
  assumes "m < 65536" "n < 65536" "hex4 m = hex4 n"
  shows "m = n"
proof -
  have eqs: "m div 4096 mod 16 = n div 4096 mod 16" "m div 256 mod 16 = n div 256 mod 16"
    "m div 16 mod 16 = n div 16 mod 16" "m mod 16 = n mod 16"
    using assms(3) by (auto simp: hex4_def intro!: hex_char_inj)
  have expand: "k = 4096 * (k div 4096 mod 16) + 256 * (k div 256 mod 16)
      + 16 * (k div 16 mod 16) + k mod 16" if "k < 65536" for k :: nat
  proof -
    have "k div 16 = k div 16 div 16 * 16 + k div 16 mod 16" by simp
    moreover have "k div 256 = k div 256 div 16 * 16 + k div 256 mod 16" by simp
    moreover have "k div 4096 mod 16 = k div 4096" using that by simp
    moreover have "k div 16 div 16 = k div 256" "k div 256 div 16 = k div 4096"
      by (simp_all flip: div_mult2_eq)
    moreover have "k = k div 16 * 16 + k mod 16" by simp
    ultimately show ?thesis by linarith
  qed
  show ?thesis using expand [OF assms(1)] expand [OF assms(2)] eqs by simp
qed

end
