(* ===== verification/Crc.thy ===== *)
theory Crc
  imports Prelude
begin

unbundle bit_operations_syntax

text \<open>
  The CRC-16/CCITT-FALSE of \<open>host/src/cs71_protocol/crc.py\<close>: the bitwise checksum loop, the
  four-digit suffix, and the check that guards every protected frame. The lemmas show that one
  byte step is a bijection of the 16-bit register, linear over XOR, and hence that a corruption
  confined to one byte or to two adjacent bytes never goes unnoticed.
\<close>

section \<open>Errors of the protocol library\<close>

text \<open>
  The exception classes of \<open>errors.py\<close>, with the built-in exceptions the library raises or lets
  through. Messages are left out except where later code reads them.
\<close>

datatype protocol_error =
    ProtocolError
  | FramingError
  | ParseError
  | CrcError
  | TimeoutError
  | RecoveryError bool
  | RequestStateError
  | RequestInterruptedError
  | OSError
  | ValueError

section \<open>Definitions\<close>

type_synonym byte = "8 word"

definition encode_ascii :: "string \<Rightarrow> byte list" where
  "encode_ascii s = map (\<lambda>c. word_of_nat (ord c)) s"

definition crc_bit :: "16 word \<Rightarrow> 16 word" where
  "crc_bit crc =
     (if crc AND 0x8000 \<noteq> 0 then push_bit 1 crc XOR 0x1021 else push_bit 1 crc)"

fun crc_rounds :: "nat \<Rightarrow> 16 word \<Rightarrow> 16 word" where
  "crc_rounds 0 crc = crc"
| "crc_rounds (Suc n) crc = crc_rounds n (crc_bit crc)"

definition crc_byte :: "16 word \<Rightarrow> byte \<Rightarrow> 16 word" where
  "crc_byte crc b = crc_rounds 8 (crc XOR push_bit 8 (ucast b))"

definition crc16_ccitt_false :: "byte list \<Rightarrow> 16 word" where
  "crc16_ccitt_false data = foldl crc_byte 0xFFFF data"

definition format_crc :: "byte list \<Rightarrow> string" where
  "format_crc data = hex4 (unat (crc16_ccitt_false data))"

definition append_crc :: "string \<Rightarrow> (protocol_error, string) result" where
  "append_crc frame =
     (if is_ascii frame then Inr (frame @ CHR ''*'' # format_crc (encode_ascii frame))
      else Inl ParseError)"

definition remove_and_verify_crc :: "string \<Rightarrow> bool \<Rightarrow> (protocol_error, string) result" where
  "remove_and_verify_crc frame required =
     (case rpartition CHR ''*'' frame of
        None \<Rightarrow> if required then Inl CrcError else Inr frame
      | Some (body, supplied) \<Rightarrow>
          if \<not> required then Inl CrcError
          else if length supplied \<noteq> 4 \<or> \<not> list_all is_hex_upper supplied then Inl CrcError
          else if \<not> is_ascii body then Inl CrcError
          else if supplied \<noteq> format_crc (encode_ascii body) then Inl CrcError
          else Inr body)"

section \<open>The register step is linear and bijective\<close>

lemma bit_8000: "bit (0x8000 :: 16 word) n \<longleftrightarrow> n = 15"
proof -
  have "(0x8000 :: 16 word) = push_bit 15 1" by simp
  then show ?thesis by (simp only: bit_push_bit_iff) (auto simp: bit_1_iff)
qed

lemma and_8000: "x AND 0x8000 \<noteq> 0 \<longleftrightarrow> bit (x :: 16 word) 15"
proof
  have "x AND 0x8000 = 0" if "\<not> bit x 15"
    using that by (intro bit_eqI) (simp only: bit_and_iff bit_8000 bit_0_eq, auto)
  then show "x AND 0x8000 \<noteq> 0 \<Longrightarrow> bit x 15" by blast
next
  assume "bit x 15"
  then have "bit (x AND 0x8000) 15" by (simp only: bit_and_iff bit_8000)
  then show "x AND 0x8000 \<noteq> 0" by auto
qed

lemma crc_bit_alt: "crc_bit x = push_bit 1 x XOR (if bit x 15 then 0x1021 else 0)"
  by (simp add: crc_bit_def and_8000)

lemma push_bit_xor16: "push_bit n (x XOR y) = push_bit n x XOR push_bit n (y :: 16 word)"
  by (rule bit_eqI) (auto simp: bit_push_bit_iff bit_xor_iff)

lemma crc_bit_xor: "crc_bit (x XOR y) = crc_bit x XOR crc_bit y"
  by (simp add: crc_bit_alt bit_xor_iff push_bit_xor16 xor.assoc xor.left_commute)

lemma crc_bit_0 [simp]: "crc_bit 0 = 0"
  by (simp add: crc_bit_def)

lemma crc_rounds_xor: "crc_rounds n (x XOR y) = crc_rounds n x XOR crc_rounds n y"
  by (induction n arbitrary: x y) (simp_all add: crc_bit_xor)

lemma crc_bit_eq_0: "crc_bit x = 0 \<longleftrightarrow> x = 0"
proof
  assume z: "crc_bit x = 0"
  have low: "bit (crc_bit x) 0 \<longleftrightarrow> bit x 15"
    by (simp only: crc_bit_alt bit_xor_iff bit_push_bit_iff) simp
  with z have msb: "\<not> bit x 15" by simp
  then have p: "push_bit 1 x = 0" using z by (simp add: crc_bit_alt)
  show "x = 0"
  proof (rule bit_eqI)
    fix n
    assume len: "possible_bit TYPE(16 word) n"
    have "bit (push_bit 1 x) (Suc n) \<longleftrightarrow> Suc n < 16 \<and> bit x n"
      by (simp only: bit_push_bit_iff) auto
    then have "Suc n < 16 \<Longrightarrow> \<not> bit x n" using p by simp
    moreover have "\<not> Suc n < 16 \<Longrightarrow> n = 15" using len by simp
    ultimately show "bit x n = bit (0 :: 16 word) n" using msb by auto
  qed
qed simp

lemma crc_rounds_eq_0: "crc_rounds n x = 0 \<longleftrightarrow> x = 0"
  by (induction n arbitrary: x) (simp_all add: crc_bit_eq_0)

lemma xor_eq_0_16: "x XOR y = 0 \<longleftrightarrow> x = (y :: 16 word)"
  by (metis xor.right_neutral xor_self_eq xor.assoc)

lemma crc_rounds_inj: "crc_rounds n x = crc_rounds n y \<longleftrightarrow> x = y"
  by (metis crc_rounds_eq_0 crc_rounds_xor xor_eq_0_16)

lemma xor_cancel16: "x XOR c = y XOR c \<longleftrightarrow> x = (y :: 16 word)"
proof
  assume "x XOR c = y XOR c"
  then have "(x XOR c) XOR c = (y XOR c) XOR c" by simp
  then show "x = y" by (simp add: xor.assoc)
qed simp

lemma crc_byte_state_inj: "crc_byte x b = crc_byte y b \<Longrightarrow> x = y"
  by (simp add: crc_byte_def crc_rounds_inj xor_cancel16)

lemma crc_fold_state_inj: "foldl crc_byte x bs = foldl crc_byte y bs \<Longrightarrow> x = y"
  by (induction bs arbitrary: x y) (auto dest: crc_byte_state_inj)

section \<open>Errors in one or two adjacent bytes\<close>

text \<open>The register after two bytes depends on them only through their concatenation.\<close>

lemma crc_bit_low: "\<not> bit x 15 \<Longrightarrow> crc_bit x = push_bit 1 x"
  by (simp add: crc_bit_alt)

lemma crc_rounds_shift:
  "(\<And>k. 16 - n \<le> k \<Longrightarrow> k < 16 \<Longrightarrow> \<not> bit x k) \<Longrightarrow> n \<le> 16 \<Longrightarrow> crc_rounds n x = push_bit n x"
proof (induction n arbitrary: x)
  case (Suc n)
  have msb: "\<not> bit x 15" using Suc.prems by simp
  have "crc_rounds n (push_bit 1 x) = push_bit n (push_bit 1 x)"
  proof (rule Suc.IH)
    fix k :: nat
    assume "16 - n \<le> k" "k < 16"
    then show "\<not> bit (push_bit 1 x) k"
      using Suc.prems(1) [of "k - 1"] Suc.prems(2) by (simp only: bit_push_bit_iff) auto
  qed (use Suc.prems in simp)
  then show ?case using msb by (simp add: crc_bit_low)
qed simp

lemma crc_rounds_byte: "crc_rounds 8 (ucast (b :: byte)) = push_bit 8 (ucast b)"
  by (rule crc_rounds_shift) (auto simp: bit_ucast_iff dest: bit_imp_le_length)

definition byte_pair :: "byte \<Rightarrow> byte \<Rightarrow> 16 word" where
  "byte_pair a b = push_bit 8 (ucast a) XOR ucast b"

lemma crc_byte_pair:
  "crc_byte (crc_byte s a) b = crc_rounds 8 (crc_rounds 8 (s XOR byte_pair a b))"
proof -
  have "crc_rounds 8 (s XOR byte_pair a b)
      = crc_rounds 8 (s XOR push_bit 8 (ucast a)) XOR push_bit 8 (ucast b)"
    by (simp only: byte_pair_def crc_rounds_byte [symmetric] crc_rounds_xor xor.assoc)
  then show ?thesis by (simp only: crc_byte_def)
qed

lemma byte_pair_inj: "byte_pair a b = byte_pair a' b' \<Longrightarrow> a = a' \<and> b = b'"
proof -
  assume eq: "byte_pair a b = byte_pair a' b'"
  have hi: "bit (byte_pair a b) (n + 8) = bit a n" if "n < 8" for n and a b :: byte
    using that
    by (auto simp: byte_pair_def bit_xor_iff bit_push_bit_iff bit_ucast_iff dest: bit_imp_le_length)
  have lo: "bit (byte_pair a b) n = bit b n" if "n < 8" for n and a b :: byte
    using that by (auto simp: byte_pair_def bit_xor_iff bit_push_bit_iff bit_ucast_iff)
  have "a = a'" by (rule bit_eqI) (use eq hi in \<open>simp, metis\<close>)
  moreover have "b = b'" by (rule bit_eqI) (use eq lo in \<open>simp, metis\<close>)
  ultimately show ?thesis ..
qed

lemma crc_byte_pair_inj:
  "crc_byte (crc_byte s a) b = crc_byte (crc_byte s a') b' \<Longrightarrow> a = a' \<and> b = b'"
  by (metis byte_pair_inj crc_byte_pair crc_rounds_inj xor_cancel16 xor.commute)

lemma crc16_pair_differs:
  assumes "crc16_ccitt_false (p @ a # b # q) = crc16_ccitt_false (p @ a' # b' # q)"
  shows "a = a' \<and> b = b'"
proof -
  have "foldl crc_byte (crc_byte (crc_byte (foldl crc_byte 0xFFFF p) a) b) q
      = foldl crc_byte (crc_byte (crc_byte (foldl crc_byte 0xFFFF p) a') b') q"
    using assms by (simp add: crc16_ccitt_false_def)
  from crc_fold_state_inj [OF this] show ?thesis by (rule crc_byte_pair_inj)
qed

section \<open>The protected frame\<close>

lemma encode_ascii_append [simp]:
  "encode_ascii (s @ t) = encode_ascii s @ encode_ascii t"
  "encode_ascii (c # s) = word_of_nat (ord c) # encode_ascii s"
  by (simp_all add: encode_ascii_def)

lemma ord_word_inj: "(word_of_nat (ord c) :: byte) = word_of_nat (ord d) \<longleftrightarrow> c = d"
proof
  assume "(word_of_nat (ord c) :: byte) = word_of_nat (ord d)"
  then have "unat (word_of_nat (ord c) :: byte) = unat (word_of_nat (ord d) :: byte)" by simp
  then have "ord c = ord d" by (simp add: unat_of_nat)
  then show "c = d" by (simp add: ord_eq_iff)
qed simp

lemma hex_upper_not_star: "is_hex_upper c \<Longrightarrow> c \<noteq> CHR ''*''"
  by (auto simp: is_hex_upper_def is_digit_def ord_def)

lemma format_crc_suffix:
  "length (format_crc d) = 4" "list_all is_hex_upper (format_crc d)" "CHR ''*'' \<notin> set (format_crc d)"
proof -
  show hex: "list_all is_hex_upper (format_crc d)" by (simp add: format_crc_def hex4_upper)
  then show "CHR ''*'' \<notin> set (format_crc d)"
    using hex_upper_not_star by (auto simp: list_all_iff)
qed (simp add: format_crc_def)

lemma format_crc_inj: "format_crc d = format_crc e \<longleftrightarrow> crc16_ccitt_false d = crc16_ccitt_false e"
proof
  assume eq: "format_crc d = format_crc e"
  have bound: "unat (w :: 16 word) < 65536" for w using unsigned_less [of w] by simp
  from eq have "unat (crc16_ccitt_false d) = unat (crc16_ccitt_false e)"
    unfolding format_crc_def by (rule hex4_inj [OF bound bound])
  then show "crc16_ccitt_false d = crc16_ccitt_false e" by (simp add: word_unat_eq_iff)
qed (simp add: format_crc_def)

text \<open>Evaluation of the checksum on concrete frames.\<close>

lemma crc_rounds_8:
  "crc_rounds 8 x =
     crc_bit (crc_bit (crc_bit (crc_bit (crc_bit (crc_bit (crc_bit (crc_bit x)))))))"
  by (simp add: eval_nat_numeral)

lemmas crc_eval = append_crc_def is_ascii_def encode_ascii_def format_crc_def
  crc16_ccitt_false_def crc_byte_def crc_rounds_8 crc_bit_def hex4_def hex_char_def ord_def
  char_of_def bit_0

lemma crc_accepts_iff:
  "remove_and_verify_crc frame True = Inr body \<longleftrightarrow> append_crc body = Inr frame"
proof
  assume ok: "remove_and_verify_crc frame True = Inr body"
  then obtain supplied where part: "rpartition CHR ''*'' frame = Some (body, supplied)"
    and rest: "is_ascii body" "supplied = format_crc (encode_ascii body)"
    by (auto simp: remove_and_verify_crc_def split: option.splits if_splits)
  from part have "frame = body @ CHR ''*'' # supplied" by (rule rpartition_SomeD)
  with rest show "append_crc body = Inr frame" by (simp add: append_crc_def)
next
  assume "append_crc body = Inr frame"
  then have "is_ascii body" "frame = body @ CHR ''*'' # format_crc (encode_ascii body)"
    by (auto simp: append_crc_def split: if_splits)
  then show "remove_and_verify_crc frame True = Inr body"
    using format_crc_suffix by (simp add: remove_and_verify_crc_def)
qed

text \<open>
  C31: with protection in force, \<open>remove_and_verify_crc\<close> accepts a received frame and returns a
  body exactly when \<open>append_crc\<close> makes that frame out of that body: nothing else is ever taken
  for a protected frame, and every frame the library protects is read back unchanged.
\<close>

theorem crc_accepts_exactly_appended:
  "remove_and_verify_crc frame True = Inr body \<longleftrightarrow> append_crc body = Inr frame"
  by (rule crc_accepts_iff)

text \<open>
  a protected frame whose body is damaged in one character, or in two adjacent ones, in
  transit is always refused with \<open>CrcError\<close>, whatever the damage.
\<close>

theorem crc_detects_adjacent_damage:
  assumes "append_crc (p @ a # b # q) = Inr (p @ a # b # q @ sfx)"
    and "(a', b') \<noteq> (a, b)"
  shows "remove_and_verify_crc (p @ a' # b' # q @ sfx) True = Inl CrcError"
proof -
  let ?good = "p @ a # b # q" and ?bad = "p @ a' # b' # q"
  have sfx: "sfx = CHR ''*'' # format_crc (encode_ascii ?good)"
    using assms(1) by (auto simp: append_crc_def split: if_splits)
  have part: "rpartition CHR ''*'' (p @ a' # b' # q @ sfx)
      = Some (?bad, format_crc (encode_ascii ?good))"
    using rpartition_append [of "CHR ''*''" "format_crc (encode_ascii ?good)" ?bad]
      format_crc_suffix(3) by (simp add: sfx)
  have "crc16_ccitt_false (encode_ascii ?good) \<noteq> crc16_ccitt_false (encode_ascii ?bad)"
  proof
    assume "crc16_ccitt_false (encode_ascii ?good) = crc16_ccitt_false (encode_ascii ?bad)"
    then have "(word_of_nat (ord a) :: byte) = word_of_nat (ord a')
        \<and> (word_of_nat (ord b) :: byte) = word_of_nat (ord b')"
      by (intro crc16_pair_differs) simp
    with assms(2) show False by (simp add: ord_word_inj)
  qed
  then have "format_crc (encode_ascii ?good) \<noteq> format_crc (encode_ascii ?bad)"
    by (simp only: format_crc_inj not_False_eq_True)
  with part show ?thesis by (simp add: remove_and_verify_crc_def)
qed

theorem crc_detects_adjacent_damage_witness:
  "append_crc (''@1 '' @ CHR ''d'' # CHR ''o'' # ''ne'')
     = Inr (''@1 '' @ CHR ''d'' # CHR ''o'' # ''ne'' @ ''*7EE5'')
   \<and> remove_and_verify_crc (''@1 '' @ CHR ''o'' # CHR ''d'' # ''ne'' @ ''*7EE5'') True = Inl CrcError"
proof -
  have ok: "append_crc (''@1 '' @ CHR ''d'' # CHR ''o'' # ''ne'')
     = Inr (''@1 '' @ CHR ''d'' # CHR ''o'' # ''ne'' @ ''*7EE5'')"
    by (simp add: crc_eval)
  show ?thesis using ok crc_detects_adjacent_damage [OF ok, of "CHR ''o''" "CHR ''d''"] by simp
qed

end
