(* ===== verification/Framing.thy ===== *)
theory Framing
  imports Crc
begin

text \<open>
  The bounded line reader of \<open>host/src/cs71_protocol/framing.py\<close>. Bytes are chars. The byte
  stream and the clock are the interface \<open>stream_io\<close> over an arbitrary world \<open>'w\<close>; the
  reader's loop takes fuel, and \<open>read_line_returns\<close> bounds the fuel that is enough when the
  clock advances. Clock readings and timeouts are integer ticks of a nanosecond.
\<close>

section \<open>Definitions\<close>

definition LF :: char where "LF = CHR 0x0A"
definition CR :: char where "CR = CHR 0x0D"

text \<open>The byte stream (\<open>read\<close>, \<open>write\<close>), the monotonic clock and \<open>sleep\<close>.\<close>

record 'w stream_io =
  io_read :: "nat \<Rightarrow> int \<Rightarrow> 'w \<Rightarrow> (protocol_error, string) result \<times> 'w"
  io_write :: "string \<Rightarrow> 'w \<Rightarrow> (protocol_error, int option) result \<times> 'w"
  io_monotonic :: "'w \<Rightarrow> int \<times> 'w"
  io_sleep :: "int \<Rightarrow> 'w \<Rightarrow> 'w"

record line_reader =
  v1_limit :: nat
  v2_limit :: nat
  lr_pending :: string
  lr_line :: string
  discarded_reason :: "string option"

definition new_line_reader :: line_reader where
  "new_line_reader =
     \<lparr>v1_limit = 4096, v2_limit = 64, lr_pending = [], lr_line = [], discarded_reason = None\<rparr>"

definition line_limit :: "bool \<Rightarrow> line_reader \<Rightarrow> nat" where
  "line_limit v2 r = (if v2 then v2_limit r else v1_limit r)"

text \<open>
  One byte of the inner loop of \<open>read_line\<close>: the reader afterwards and, when the byte ends a
  line, the line or the framing error.
\<close>

definition feed_byte ::
  "bool \<Rightarrow> line_reader \<Rightarrow> char \<Rightarrow> line_reader \<times> (protocol_error, string) result option" where
  "feed_byte v2 r b =
     (if b = LF then
        (case discarded_reason r of
           Some reason \<Rightarrow> (r\<lparr>lr_line := [], discarded_reason := None\<rparr>, Some (Inl FramingError))
         | None \<Rightarrow>
             let payload = (if endswith (lr_line r) [CR] then butlast (lr_line r) else lr_line r)
             in (r\<lparr>lr_line := []\<rparr>,
                 Some (if is_ascii payload then Inr payload else Inl FramingError)))
      else if discarded_reason r = None then
        if v2 \<and> endswith (lr_line r) [CR] then
          (r\<lparr>discarded_reason := Some ''bare CR in v2 line''\<rparr>, None)
        else if v2 \<and> b \<noteq> CR \<and> (ord b < 0x20 \<or> ord b > 0x7E) then
          (r\<lparr>discarded_reason := Some ''invalid non-printable v2 byte''\<rparr>, None)
        else if length (lr_line r) \<ge> line_limit v2 r \<and> (\<not> v2 \<or> b \<noteq> CR) then
          (r\<lparr>discarded_reason := Some (''line exceeds '' @ nat_str (line_limit v2 r) @ '' bytes'')\<rparr>,
           None)
        else (r\<lparr>lr_line := lr_line r @ [b]\<rparr>, None)
      else (r, None))"

text \<open>The \<open>for byte in chunk\<close> loop: it returns at the first line end and drops the rest.\<close>

fun feed_chunk ::
  "bool \<Rightarrow> line_reader \<Rightarrow> string \<Rightarrow> line_reader \<times> (protocol_error, string) result option" where
  "feed_chunk v2 r [] = (r, None)"
| "feed_chunk v2 r (b # bs) =
     (case feed_byte v2 r b of
        (r', Some res) \<Rightarrow> (r', Some res)
      | (r', None) \<Rightarrow> feed_chunk v2 r' bs)"

text \<open>A millisecond, the longest pause between two polls of a silent stream.\<close>

definition poll_pause :: int where "poll_pause = 1000000"

fun read_loop ::
  "'w stream_io \<Rightarrow> nat \<Rightarrow> int \<Rightarrow> bool \<Rightarrow> line_reader \<Rightarrow> 'w
     \<Rightarrow> ((protocol_error, string) result \<times> line_reader \<times> 'w) option" where
  "read_loop io 0 deadline v2 r w = None"
| "read_loop io (Suc fuel) deadline v2 r w =
     (let (t, w1) = io_monotonic io w; remaining = deadline - t in
      if remaining \<le> 0 then Some (Inl TimeoutError, r, w1)
      else
        let (got, r1, w2) =
          (case lr_pending r of
             b # bs \<Rightarrow> (Inr [b], r\<lparr>lr_pending := bs\<rparr>, w1)
           | [] \<Rightarrow> (case io_read io 1 remaining w1 of (x, w') \<Rightarrow> (x, r, w')))
        in case got of
             Inl e \<Rightarrow> Some (Inl e, r1, w2)
           | Inr chunk \<Rightarrow>
               if chunk = [] then
                 (let (t', w3) = io_monotonic io w2 in
                  read_loop io fuel deadline v2 r1
                    (io_sleep io (min poll_pause (max 0 (deadline - t'))) w3))
               else
                 (case feed_chunk v2 r1 chunk of
                    (r2, Some res) \<Rightarrow> Some (res, r2, w2)
                  | (r2, None) \<Rightarrow> read_loop io fuel deadline v2 r2 w2))"

definition read_line ::
  "'w stream_io \<Rightarrow> nat \<Rightarrow> int \<Rightarrow> bool \<Rightarrow> line_reader \<Rightarrow> 'w
     \<Rightarrow> ((protocol_error, string) result \<times> line_reader \<times> 'w) option" where
  "read_line io fuel timeout v2 r w =
     (let (t, w1) = io_monotonic io w in read_loop io fuel (t + timeout) v2 r w1)"

definition reader_clear :: "line_reader \<Rightarrow> line_reader" where
  "reader_clear r = r\<lparr>lr_pending := [], lr_line := [], discarded_reason := None\<rparr>"

text \<open>A reader between two lines, and the lines the v2 framing lets through.\<close>

definition at_line_start :: "line_reader \<Rightarrow> bool" where
  "at_line_start r = (lr_line r = [] \<and> discarded_reason r = None)"

definition valid_v2_line :: "line_reader \<Rightarrow> string \<Rightarrow> bool" where
  "valid_v2_line r s = (list_all is_printable s \<and> length s \<le> v2_limit r)"

section \<open>The inner loop on one line\<close>

lemma feed_byte_keeps [simp]:
  "v1_limit (fst (feed_byte v2 r b)) = v1_limit r"
  "v2_limit (fst (feed_byte v2 r b)) = v2_limit r"
  "lr_pending (fst (feed_byte v2 r b)) = lr_pending r"
  by (auto simp: feed_byte_def Let_def split: option.splits)

lemma feed_byte_LF_start: "feed_byte v2 r LF = (r', res) \<Longrightarrow> at_line_start r' \<and> res \<noteq> None"
  by (auto simp: feed_byte_def at_line_start_def Let_def split: option.splits if_splits)

lemma feed_byte_no_LF: "b \<noteq> LF \<Longrightarrow> snd (feed_byte v2 r b) = None"
  by (auto simp: feed_byte_def)

lemma feed_chunk_append:
  "LF \<notin> set s \<Longrightarrow> feed_chunk v2 r (s @ t) = feed_chunk v2 (fst (feed_chunk v2 r s)) t"
proof (induction s arbitrary: r)
  case (Cons b s)
  then have "snd (feed_byte v2 r b) = None" by (intro feed_byte_no_LF) auto
  with Cons show ?case by (auto split: prod.splits option.splits)
qed simp

lemma feed_chunk_no_LF: "LF \<notin> set s \<Longrightarrow> snd (feed_chunk v2 r s) = None"
proof (induction s arbitrary: r)
  case (Cons b s)
  then have "snd (feed_byte v2 r b) = None" by (intro feed_byte_no_LF) auto
  with Cons show ?case by (auto split: prod.splits option.splits)
qed simp

lemma discarded_sticks:
  "discarded_reason r = Some x \<Longrightarrow> LF \<notin> set s \<Longrightarrow> fst (feed_chunk v2 r s) = r"
  by (induction s) (auto simp: feed_byte_def)

lemma printable_facts: "is_printable c \<Longrightarrow> c \<noteq> LF \<and> c \<noteq> CR \<and> ord c < 128 \<and> 0x20 \<le> ord c \<and> ord c \<le> 0x7E"
  by (auto simp: is_printable_def LF_def CR_def ord_def)

lemma endswith_CR: "endswith s [CR] \<longleftrightarrow> s \<noteq> [] \<and> last s = CR"
  by (cases s rule: rev_cases) (auto simp: endswith_def)

lemma not_endswith_CR: "list_all is_printable s \<Longrightarrow> \<not> endswith s [CR]"
  using printable_facts by (cases s rule: rev_cases) (auto simp: endswith_CR list_all_iff)

text \<open>Where the reader stands after a prefix of a line that holds no line end.\<close>

lemma feed_printable:
  assumes "discarded_reason r = None" "list_all is_printable (lr_line r)"
    and "list_all is_printable s" "length (lr_line r) \<le> v2_limit r"
  shows "fst (feed_chunk True r s) =
     (if length (lr_line r) + length s \<le> v2_limit r then r\<lparr>lr_line := lr_line r @ s\<rparr>
      else r\<lparr>lr_line := lr_line r @ take (v2_limit r - length (lr_line r)) s,
             discarded_reason := Some (''line exceeds '' @ nat_str (v2_limit r) @ '' bytes'')\<rparr>)"
  using assms
proof (induction s arbitrary: r)
  case (Cons b s)
  have b: "b \<noteq> LF" "b \<noteq> CR" "0x20 \<le> ord b" "ord b \<le> 0x7E"
    using Cons.prems(3) printable_facts by auto
  have lf: "LF \<notin> set s" using Cons.prems(3) printable_facts by (auto simp: list_all_iff)
  show ?case
  proof (cases "length (lr_line r) \<ge> v2_limit r")
    case True
    let ?r = "r\<lparr>discarded_reason := Some (''line exceeds '' @ nat_str (v2_limit r) @ '' bytes'')\<rparr>"
    have "feed_byte True r b = (?r, None)"
      using True b Cons.prems not_endswith_CR by (simp add: feed_byte_def line_limit_def)
    moreover have "fst (feed_chunk True ?r s) = ?r" by (rule discarded_sticks) (simp_all add: lf)
    ultimately show ?thesis using True by simp
  next
    case False
    let ?r = "r\<lparr>lr_line := lr_line r @ [b]\<rparr>"
    have step: "feed_byte True r b = (?r, None)"
      using False b Cons.prems not_endswith_CR by (simp add: feed_byte_def line_limit_def)
    have "list_all is_printable (lr_line ?r)" using Cons.prems by simp
    moreover obtain m where m: "v2_limit r - length (lr_line r) = Suc m"
      "v2_limit r - Suc (length (lr_line r)) = m"
      using False by (metis Suc_diff_Suc not_le)
    ultimately show ?thesis using Cons.IH [of ?r] step False Cons.prems by (simp add: m)
  qed
qed simp

lemma feed_bad_byte:
  assumes "discarded_reason r = None" "b \<noteq> LF" "b \<noteq> CR" "\<not> is_printable b"
  shows "\<exists>x. discarded_reason (fst (feed_byte True r b)) = Some x"
  using assms by (auto simp: feed_byte_def is_printable_def not_le)

lemma feed_after_CR:
  assumes "discarded_reason r = None" "endswith (lr_line r) [CR]" "b \<noteq> LF"
  shows "\<exists>x. discarded_reason (fst (feed_byte True r b)) = Some x"
  using assms by (auto simp: feed_byte_def)

lemma feed_chunk_discarded:
  assumes "discarded_reason r = Some x" "LF \<notin> set s"
  shows "snd (feed_chunk v2 r (s @ [LF])) = Some (Inl FramingError)"
proof -
  have "feed_chunk v2 r (s @ [LF]) = feed_chunk v2 r [LF]"
    using assms by (simp add: feed_chunk_append discarded_sticks)
  with assms(1) show ?thesis by (simp add: feed_byte_def)
qed

lemma feed_chunk_Cons_discarded:
  assumes "discarded_reason (fst (feed_byte v2 r b)) = Some x" "b \<noteq> LF" "LF \<notin> set s"
  shows "snd (feed_chunk v2 r (b # s @ [LF])) = Some (Inl FramingError)"
proof -
  have "feed_chunk v2 r (b # s @ [LF]) = feed_chunk v2 (fst (feed_byte v2 r b)) (s @ [LF])"
    using feed_byte_no_LF [OF assms(2), of v2 r] by (auto split: prod.splits option.splits)
  with feed_chunk_discarded [OF assms(1,3)] show ?thesis by simp
qed

lemma split_printable:
  obtains p where "bs = p" "list_all is_printable p"
    | p c rest where "bs = p @ c # rest" "list_all is_printable p" "\<not> is_printable c"
proof (cases "dropWhile is_printable bs")
  case Nil
  then have "list_all is_printable bs" by (simp add: list_all_iff dropWhile_eq_Nil_conv)
  then show ?thesis using that(1) by simp
next
  case (Cons c rest)
  have "bs = takeWhile is_printable bs @ c # rest"
    using Cons takeWhile_dropWhile_id [of is_printable bs] by simp
  moreover have "list_all is_printable (takeWhile is_printable bs)"
    by (auto simp: list_all_iff dest: set_takeWhileD)
  moreover have "\<not> is_printable c"
    using Cons hd_dropWhile [of is_printable bs] by auto
  ultimately show ?thesis by (rule that(2))
qed

lemma printable_no_LF: "list_all is_printable p \<Longrightarrow> LF \<notin> set p \<and> CR \<notin> set p"
  using printable_facts by (auto simp: list_all_iff)

lemma printable_ascii: "list_all is_printable p \<Longrightarrow> is_ascii p"
  using printable_facts by (auto simp: list_all_iff is_ascii_def)

text \<open>The line end after a printable text, with and without a carriage return.\<close>

lemma feed_text_LF:
  assumes "at_line_start r" "list_all is_printable p"
  shows "snd (feed_chunk True r (p @ [LF])) =
     Some (if length p \<le> v2_limit r then Inr p else Inl FramingError)"
proof -
  have "feed_chunk True r (p @ [LF]) = feed_chunk True (fst (feed_chunk True r p)) [LF]"
    using printable_no_LF [OF assms(2)] by (simp add: feed_chunk_append)
  with assms feed_printable [of r p] show ?thesis
    by (simp add: at_line_start_def feed_byte_def not_endswith_CR printable_ascii)
qed

lemma feed_text_CR_LF:
  assumes "at_line_start r" "list_all is_printable p" "LF \<notin> set rest"
  shows "snd (feed_chunk True r (p @ CR # rest @ [LF])) =
     Some (if length p \<le> v2_limit r \<and> rest = [] then Inr p else Inl FramingError)"
proof -
  have sp: "feed_chunk True r (p @ CR # rest @ [LF])
      = feed_chunk True (fst (feed_chunk True r p)) (CR # rest @ [LF])"
    using printable_no_LF [OF assms(2)] by (simp add: feed_chunk_append)
  have crlf: "CR \<noteq> LF" by (simp add: CR_def LF_def)
  show ?thesis
  proof (cases "length p \<le> v2_limit r")
    case True
    let ?r = "r\<lparr>lr_line := p @ [CR]\<rparr>"
    have pre: "feed_chunk True r (p @ CR # rest @ [LF]) = feed_chunk True ?r (rest @ [LF])"
      using sp True assms feed_printable [of r p] crlf
      by (simp add: at_line_start_def feed_byte_def not_endswith_CR)
    show ?thesis
    proof (cases rest)
      case Nil
      with pre True assms show ?thesis
        by (simp add: at_line_start_def feed_byte_def endswith_CR printable_ascii)
    next
      case (Cons b bs)
      have "\<exists>x. discarded_reason (fst (feed_byte True ?r b)) = Some x"
        using assms Cons by (intro feed_after_CR) (auto simp: at_line_start_def endswith_CR)
      then obtain x where "discarded_reason (fst (feed_byte True ?r b)) = Some x" ..
      then have "snd (feed_chunk True ?r (b # bs @ [LF])) = Some (Inl FramingError)"
        by (rule feed_chunk_Cons_discarded) (use assms(3) Cons in auto)
      then show ?thesis using pre Cons by simp
    qed
  next
    case False
    then obtain x where "discarded_reason (fst (feed_chunk True r p)) = Some x"
      using assms feed_printable [of r p] by (simp add: at_line_start_def)
    from feed_chunk_discarded [OF this, of "CR # rest" True] sp False assms(3) crlf
    show ?thesis by simp
  qed
qed

lemma feed_text_bad:
  assumes "at_line_start r" "list_all is_printable p" "\<not> is_printable c" "c \<noteq> CR"
    and "LF \<notin> set (c # rest)"
  shows "snd (feed_chunk True r (p @ c # rest @ [LF])) = Some (Inl FramingError)"
proof -
  have sp: "feed_chunk True r (p @ c # rest @ [LF])
      = feed_chunk True (fst (feed_chunk True r p)) (c # rest @ [LF])"
    using printable_no_LF [OF assms(2)] by (simp add: feed_chunk_append)
  let ?r = "fst (feed_chunk True r p)"
  have "\<exists>x. discarded_reason (fst (feed_byte True ?r c)) = Some x"
  proof (cases "discarded_reason ?r")
    case None
    then show ?thesis using assms by (intro feed_bad_byte) auto
  next
    case (Some x)
    then show ?thesis using assms(5) by (auto simp: feed_byte_def)
  qed
  then obtain x where "discarded_reason (fst (feed_byte True ?r c)) = Some x" ..
  then have "snd (feed_chunk True ?r (c # rest @ [LF])) = Some (Inl FramingError)"
    by (rule feed_chunk_Cons_discarded) (use assms(5) in auto)
  then show ?thesis using sp by simp
qed

section \<open>The contract of a byte stream\<close>

text \<open>
  What the reader relies on: a queue of unread bytes that \<open>read\<close> takes from its front and a
  clock that only moves forward, by at most \<open>slack\<close> ticks per operation on ready bytes.
\<close>

locale byte_source =
  fixes io :: "'w stream_io" and unread :: "'w \<Rightarrow> string" and clock :: "'w \<Rightarrow> int"
    and slack :: int and inv :: "'w \<Rightarrow> bool"
  assumes monotonic_law:
      "inv w \<Longrightarrow> io_monotonic io w = (t, w') \<Longrightarrow>
         inv w' \<and> unread w' = unread w \<and> t = clock w' \<and> clock w < clock w' \<and> clock w' \<le> clock w + slack"
    and read_law:
      "inv w \<Longrightarrow> io_read io 1 d w = (res, w') \<Longrightarrow>
         inv w' \<and> res = Inr (take 1 (unread w)) \<and> unread w' = drop 1 (unread w) \<and> clock w \<le> clock w'
         \<and> (unread w \<noteq> [] \<longrightarrow> clock w' \<le> clock w + slack)"
    and sleep_law:
      "inv w \<Longrightarrow> 0 \<le> d \<Longrightarrow>
         inv (io_sleep io d w) \<and> unread (io_sleep io d w) = unread w \<and> clock w \<le> clock (io_sleep io d w)"
begin

lemma slack_positive: "inv w \<Longrightarrow> 0 < slack"
  using monotonic_law [of w "fst (io_monotonic io w)" "snd (io_monotonic io w)"] by simp

lemma read_loop_delivers:
  assumes "inv w" "unread w = bs @ LF # rest" "LF \<notin> set bs" "lr_pending r = []"
    and "clock w + 2 * slack * (int (length bs) + 1) < deadline" "length bs < fuel"
  shows "\<exists>w'. read_loop io fuel deadline v2 r w =
      Some (the (snd (feed_chunk v2 r (bs @ [LF]))), fst (feed_chunk v2 r (bs @ [LF])), w')
    \<and> inv w' \<and> unread w' = rest"
  using assms
proof (induction bs arbitrary: w r fuel)
  case (Cons b bs)
  obtain n where fuel: "fuel = Suc n" using Cons.prems(6) by (cases fuel) auto
  obtain t w1 where m: "io_monotonic io w = (t, w1)" by (cases "io_monotonic io w")
  obtain res w2 where rd: "io_read io 1 (deadline - t) w1 = (res, w2)"
    by (cases "io_read io 1 (deadline - t) w1")
  note ml = monotonic_law [OF Cons.prems(1) m]
  have rl: "inv w2" "res = Inr [b]" "unread w2 = bs @ LF # rest" "clock w2 \<le> clock w1 + slack"
    using read_law [OF _ rd] ml Cons.prems(2) by auto
  have pos: "0 < slack" using slack_positive Cons.prems(1) .
  have split: "2 * slack * (int (length (b # bs)) + 1) = 2 * slack + 2 * slack * (int (length bs) + 1)"
    by (simp add: algebra_simps)
  have "0 \<le> 2 * slack * (int (length bs) + 1)" using pos by simp
  then have early: "0 < deadline - t" using ml Cons.prems(5) split pos by linarith
  have later: "clock w2 + 2 * slack * (int (length bs) + 1) < deadline"
    using ml rl(4) Cons.prems(5) split by linarith
  have "b \<noteq> LF" using Cons.prems(3) by auto
  then obtain r' where fb: "feed_byte v2 r b = (r', None)"
    using feed_byte_no_LF [of b v2 r] by (cases "feed_byte v2 r b") auto
  then have r': "lr_pending r' = []"
    using feed_byte_keeps(3) [of v2 r b] Cons.prems(4) by simp
  have "read_loop io fuel deadline v2 r w = read_loop io n deadline v2 r' w2"
    using fuel m rd rl early Cons.prems(4) fb by simp
  with Cons.IH [OF rl(1,3) _ r' later, of n] Cons.prems(3,6) fuel fb show ?case by simp
next
  case Nil
  obtain n where fuel: "fuel = Suc n" using Nil.prems(6) by (cases fuel) auto
  obtain t w1 where m: "io_monotonic io w = (t, w1)" by (cases "io_monotonic io w")
  obtain res w2 where rd: "io_read io 1 (deadline - t) w1 = (res, w2)"
    by (cases "io_read io 1 (deadline - t) w1")
  note ml = monotonic_law [OF Nil.prems(1) m]
  have rl: "inv w2" "res = Inr [LF]" "unread w2 = rest"
    using read_law [OF _ rd] ml Nil.prems(2) by auto
  have "0 < deadline - t" using ml Nil.prems(5) slack_positive [OF Nil.prems(1)] by simp
  moreover obtain r' x where "feed_byte v2 r LF = (r', Some x)"
    using feed_byte_LF_start [of v2 r] by (cases "feed_byte v2 r LF") auto
  ultimately show ?case using fuel m rd rl Nil.prems(4) by simp
qed

text \<open>The loop ends: every turn moves the clock, so the deadline bounds the number of turns.\<close>

lemma read_loop_returns:
  "inv w \<Longrightarrow> nat (deadline - clock w) < fuel \<Longrightarrow> read_loop io fuel deadline v2 r w \<noteq> None"
proof (induction fuel arbitrary: w r)
  case (Suc n)
  obtain t w1 where m: "io_monotonic io w = (t, w1)" by (cases "io_monotonic io w")
  note ml = monotonic_law [OF Suc.prems(1) m]
  have go: "read_loop io n deadline v2 r' w' \<noteq> None" if "inv w'" "clock w1 \<le> clock w'" "0 < deadline - t"
    for r' w'
    using that ml Suc.prems(2) by (intro Suc.IH) linarith+
  obtain res w2 where rd: "io_read io 1 (deadline - t) w1 = (res, w2)"
    by (cases "io_read io 1 (deadline - t) w1")
  have rl: "inv w2" "clock w1 \<le> clock w2" using read_law [OF _ rd] ml by auto
  obtain t' w3 where m3: "io_monotonic io w2 = (t', w3)" by (cases "io_monotonic io w2")
  have rl3: "inv w3" "clock w1 \<le> clock w3" using monotonic_law [OF rl(1) m3] rl(2) by auto
  have slept: "inv (io_sleep io d w3) \<and> clock w1 \<le> clock (io_sleep io d w3)" if "0 \<le> d" for d
    using sleep_law [OF rl3(1) that] rl3(2) by auto
  show ?case
    using m rd m3 go go [OF rl] slept ml
    by (auto simp: poll_pause_def split: list.splits sum.splits option.splits prod.splits)
qed simp

end

section \<open>Properties\<close>

text \<open>
  C30: in v2 mode the reader hands over a line exactly when it is printable ASCII of at most the
  limit, ended by LF or CR LF; every other text before the line end is a \<open>FramingError\<close>.
\<close>

theorem v2_framing_exact:
  assumes "at_line_start r" "LF \<notin> set bs"
  shows "snd (feed_chunk True r (bs @ [LF])) =
     Some (if valid_v2_line r bs then Inr bs
           else if endswith bs [CR] \<and> valid_v2_line r (butlast bs) then Inr (butlast bs)
           else Inl FramingError)"
proof (rule split_printable [of bs])
  fix p
  assume "bs = p" "list_all is_printable p"
  with assms feed_text_LF [of r p] show ?thesis
    by (simp add: valid_v2_line_def not_endswith_CR)
next
  fix p c rest
  assume bs: "bs = p @ c # rest" "list_all is_printable p" "\<not> is_printable c"
  have not_all: "\<not> valid_v2_line r bs" using bs by (simp add: valid_v2_line_def)
  show ?thesis
  proof (cases "c = CR \<and> rest = []")
    case True
    with bs assms not_all feed_text_CR_LF [of r p "[]"] show ?thesis
      by (simp add: valid_v2_line_def endswith_CR)
  next
    case False
    have "\<not> (endswith bs [CR] \<and> valid_v2_line r (butlast bs))"
      using False bs by (cases rest rule: rev_cases) (auto simp: valid_v2_line_def endswith_CR butlast_append)
    moreover have "snd (feed_chunk True r (bs @ [LF])) = Some (Inl FramingError)"
    proof (cases "c = CR")
      case True
      with False feed_text_CR_LF [of r p rest] assms bs show ?thesis by simp
    next
      case False
      with feed_text_bad [of r p c rest] assms bs show ?thesis by simp
    qed
    ultimately show ?thesis using not_all by simp
  qed
qed

theorem v2_framing_exact_witness:
  "at_line_start new_line_reader \<and> LF \<notin> set (''@1 done'' @ [CR])
   \<and> snd (feed_chunk True new_line_reader ((''@1 done'' @ [CR]) @ [LF])) = Some (Inr ''@1 done'')"
proof -
  have h: "at_line_start new_line_reader" "LF \<notin> set (''@1 done'' @ [CR])"
    by (simp_all add: at_line_start_def new_line_reader_def LF_def CR_def)
  show ?thesis using h v2_framing_exact [OF h]
    by (simp add: valid_v2_line_def is_printable_def endswith_def new_line_reader_def CR_def ord_def)
qed

text \<open>
  whatever was received before, a line end brings the reader back to the start of a line, so
  one damaged line never spoils the next: junk, a line end and a valid line deliver that line.
\<close>

theorem framing_resynchronises:
  assumes "LF \<notin> set junk" "valid_v2_line r s"
  shows "let r' = fst (feed_chunk True r (junk @ [LF])) in
     at_line_start r' \<and> snd (feed_chunk True r' (s @ [LF])) = Some (Inr s)"
proof -
  define r0 where "r0 = fst (feed_chunk True r junk)"
  define r' where "r' = fst (feed_chunk True r (junk @ [LF]))"
  have r': "r' = fst (feed_byte True r0 LF)"
    using assms(1) by (simp add: r'_def r0_def feed_chunk_append split: prod.splits option.splits)
  have limits: "v2_limit (fst (feed_chunk True r bs)) = v2_limit r" for bs
  proof (induction bs arbitrary: r)
    case (Cons b bs)
    then show ?case
      by (auto split: prod.splits option.splits) (metis feed_byte_keeps(2) fst_conv)+
  qed simp
  have "at_line_start r'" using feed_byte_LF_start [of True r0] r' by (metis prod.collapse)
  moreover have "snd (feed_chunk True r' (s @ [LF])) = Some (Inr s)"
    using feed_text_LF [OF \<open>at_line_start r'\<close>, of s] assms(2) limits
    by (simp add: valid_v2_line_def r'_def)
  ultimately show ?thesis by (simp add: r'_def Let_def)
qed

theorem framing_resynchronises_witness:
  "LF \<notin> set [CHR 0x01, CR, CHR ''x''] \<and> valid_v2_line new_line_reader ''@2 done''
   \<and> (let r' = fst (feed_chunk True new_line_reader ([CHR 0x01, CR, CHR ''x''] @ [LF])) in
      at_line_start r' \<and> snd (feed_chunk True r' (''@2 done'' @ [LF])) = Some (Inr ''@2 done''))"
proof -
  have h: "LF \<notin> set [CHR 0x01, CR, CHR ''x'']" "valid_v2_line new_line_reader ''@2 done''"
    by (simp_all add: LF_def CR_def valid_v2_line_def is_printable_def new_line_reader_def ord_def)
  show ?thesis using h framing_resynchronises [OF h] by simp
qed

end
