(* ===== verification/Transport.thy ===== *)
theory Transport
  imports Framing
begin

text \<open>
  The deterministic byte stream \<open>ScriptedTransport\<close> of \<open>host/src/cs71_protocol/transport.py\<close>,
  the DTR predicate of that file, and the daemon's device policy (\<open>daemon/src/cs71d/device.py\<close>).
  A scripted transport with a clock that ticks once per call interprets the byte-stream contract
  of the reader.
\<close>

section \<open>Definitions\<close>

record scripted_transport =
  st_incoming :: "string list"
  st_reset_incoming :: "string list"
  st_writes :: "string list"
  st_resets :: nat
  st_closed :: bool
  st_dtr_suppression_guaranteed :: bool

definition new_scripted :: "string list \<Rightarrow> string list \<Rightarrow> scripted_transport" where
  "new_scripted incoming reset_incoming =
     \<lparr>st_incoming = incoming, st_reset_incoming = reset_incoming, st_writes = [], st_resets = 0,
      st_closed = False, st_dtr_suppression_guaranteed = True\<rparr>"

definition scripted_read :: "nat \<Rightarrow> scripted_transport \<Rightarrow> string \<times> scripted_transport" where
  "scripted_read n s =
     (case st_incoming s of
        [] \<Rightarrow> ([], s)
      | item # rest \<Rightarrow>
          if length item > n
          then (take n item, s\<lparr>st_incoming := drop n item # rest\<rparr>)
          else (item, s\<lparr>st_incoming := rest\<rparr>))"

definition scripted_write :: "string \<Rightarrow> scripted_transport \<Rightarrow> int \<times> scripted_transport" where
  "scripted_write data s = (int (length data), s\<lparr>st_writes := st_writes s @ [data]\<rparr>)"

definition scripted_reset :: "scripted_transport \<Rightarrow> scripted_transport" where
  "scripted_reset s =
     s\<lparr>st_resets := Suc (st_resets s), st_incoming := st_incoming s @ st_reset_incoming s\<rparr>"

definition scripted_close :: "scripted_transport \<Rightarrow> scripted_transport" where
  "scripted_close s = s\<lparr>st_closed := True\<rparr>"

text \<open>The transport beside a clock that ticks once per reading; sleeping lets it run on.\<close>

type_synonym scripted_world = "scripted_transport \<times> int"

definition scripted_io :: "scripted_world stream_io" where
  "scripted_io =
     \<lparr>io_read = (\<lambda>n d w. (Inr (fst (scripted_read n (fst w))), (snd (scripted_read n (fst w)), snd w))),
      io_write = (\<lambda>data w. (Inr (Some (fst (scripted_write data (fst w)))),
                            (snd (scripted_write data (fst w)), snd w))),
      io_monotonic = (\<lambda>w. (snd w + 1, (fst w, snd w + 1))),
      io_sleep = (\<lambda>d w. (fst w, snd w + d))\<rparr>"

text \<open>Module \<open>serial.serialwin32\<close> on platform \<open>win32\<close> is the one backend trusted with DTR.\<close>

definition supports_preopen_dtr_suppression :: "string \<Rightarrow> string \<Rightarrow> bool" where
  "supports_preopen_dtr_suppression raw_module platform =
     (platform = ''win32'' \<and> raw_module = ''serial.serialwin32'')"

datatype backend = SIMULATOR | SERIAL

datatype device_error = DevicePolicyError | DtrGateError

datatype transport_factory = SimulatorFactory | SerialFactory string

text \<open>\<open>create_transport_factory\<close>: which factory the worker gets for a backend and device path.\<close>

definition create_transport_factory ::
  "backend \<Rightarrow> string option \<Rightarrow> string \<Rightarrow> (device_error, transport_factory) result" where
  "create_transport_factory cfg_backend device_path platform =
     (if cfg_backend = SIMULATOR then Inr SimulatorFactory
      else case device_path of
             None \<Rightarrow> Inl DevicePolicyError
           | Some path \<Rightarrow>
               if platform \<noteq> ''win32'' then Inl DtrGateError else Inr (SerialFactory path))"

section \<open>The scripted transport as a byte stream\<close>

definition scripted_unread :: "scripted_world \<Rightarrow> string" where
  "scripted_unread w = concat (st_incoming (fst w))"

definition scripted_ready :: "scripted_world \<Rightarrow> bool" where
  "scripted_ready w = list_all (\<lambda>item. item \<noteq> []) (st_incoming (fst w) @ st_reset_incoming (fst w))"

lemma scripted_read_reset [simp]: "st_reset_incoming (snd (scripted_read n s)) = st_reset_incoming s"
  by (simp add: scripted_read_def split: list.splits)

lemma scripted_read_one:
  assumes "list_all (\<lambda>item. item \<noteq> []) (st_incoming s)"
  shows "fst (scripted_read 1 s) = take 1 (concat (st_incoming s))"
    and "concat (st_incoming (snd (scripted_read 1 s))) = drop 1 (concat (st_incoming s))"
    and "list_all (\<lambda>item. item \<noteq> []) (st_incoming (snd (scripted_read 1 s)))"
proof -
  show "fst (scripted_read 1 s) = take 1 (concat (st_incoming s))"
    using assms by (cases "st_incoming s"; cases "hd (st_incoming s)")
      (auto simp: scripted_read_def)
  show "concat (st_incoming (snd (scripted_read 1 s))) = drop 1 (concat (st_incoming s))"
    using assms by (cases "st_incoming s"; cases "hd (st_incoming s)")
      (auto simp: scripted_read_def)
  show "list_all (\<lambda>item. item \<noteq> []) (st_incoming (snd (scripted_read 1 s)))"
    using assms by (cases "st_incoming s") (auto simp: scripted_read_def)
qed

interpretation scripted: byte_source scripted_io scripted_unread snd 1 scripted_ready
proof unfold_locales
  fix w w' :: scripted_world and t :: int
  assume "scripted_ready w" "io_monotonic scripted_io w = (t, w')"
  then show "scripted_ready w' \<and> scripted_unread w' = scripted_unread w \<and> t = snd w'
      \<and> snd w < snd w' \<and> snd w' \<le> snd w + 1"
    by (auto simp: scripted_io_def scripted_ready_def scripted_unread_def)
next
  fix w w' :: scripted_world and d and res :: "(protocol_error, string) result"
  assume ready: "scripted_ready w" and rd: "io_read scripted_io 1 d w = (res, w')"
  have w': "w' = (snd (scripted_read 1 (fst w)), snd w)"
    and res: "res = Inr (fst (scripted_read 1 (fst w)))"
    using rd by (simp_all add: scripted_io_def)
  show "scripted_ready w' \<and> res = Inr (take 1 (scripted_unread w))
      \<and> scripted_unread w' = drop 1 (scripted_unread w) \<and> snd w \<le> snd w'
      \<and> (scripted_unread w \<noteq> [] \<longrightarrow> snd w' \<le> snd w + 1)"
    using scripted_read_one [of "fst w"] ready
    by (simp add: w' res scripted_ready_def scripted_unread_def)
next
  fix w :: scripted_world and d :: int
  assume "scripted_ready w" "0 \<le> d"
  then show "scripted_ready (io_sleep scripted_io d w)
      \<and> scripted_unread (io_sleep scripted_io d w) = scripted_unread w
      \<and> snd w \<le> snd (io_sleep scripted_io d w)"
    by (simp add: scripted_io_def scripted_ready_def scripted_unread_def)
qed

section \<open>Properties\<close>

text \<open>
  over any byte stream that keeps its contract, \<open>read_line\<close> returns the next line as the
  framing rules decide it and leaves exactly the bytes after the line end unread.
\<close>

theorem read_line_returns_next_line:
  assumes "byte_source io unread clock slack ok" "ok w"
    and "unread w = bs @ LF # rest" "LF \<notin> set bs" "lr_pending r = []"
    and "2 * slack * (int (length bs) + 2) < timeout" "length bs < fuel"
  shows "\<exists>w'. read_line io fuel timeout v2 r w =
      Some (the (snd (feed_chunk v2 r (bs @ [LF]))), fst (feed_chunk v2 r (bs @ [LF])), w')
    \<and> ok w' \<and> unread w' = rest"
proof -
  obtain t w1 where m: "io_monotonic io w = (t, w1)" by (cases "io_monotonic io w")
  note ml = byte_source.monotonic_law [OF assms(1,2) m]
  have "0 < slack" using byte_source.slack_positive [OF assms(1,2)] .
  then have "2 * slack * (int (length bs) + 1) < timeout"
    using assms(6) by (simp add: algebra_simps)
  then have "clock w1 + 2 * slack * (int (length bs) + 1) < t + timeout" using ml by simp
  from byte_source.read_loop_delivers [OF assms(1) _ _ assms(4,5) this assms(7), of rest v2]
    ml assms(3)
  show ?thesis by (simp add: read_line_def m)
qed

theorem read_line_returns_next_line_witness:
  "scripted_ready (new_scripted [''Re'', ''ady'' @ [LF] @ ''x''] [], 0)
   \<and> (\<exists>w'. read_line scripted_io 6 100 False new_line_reader (new_scripted [''Re'', ''ady'' @ [LF] @ ''x''] [], 0)
       = Some (Inr ''Ready'', new_line_reader, w') \<and> scripted_unread w' = ''x'')"
proof -
  let ?w = "(new_scripted [''Re'', ''ady'' @ [LF] @ ''x''] [], 0)"
  have h: "scripted_ready ?w" "scripted_unread ?w = ''Ready'' @ LF # ''x''" "LF \<notin> set ''Ready''"
    "lr_pending new_line_reader = []" "2 * 1 * (int (length ''Ready'') + 2) < 100" "length ''Ready'' < 6"
    by (simp_all add: scripted_ready_def scripted_unread_def new_scripted_def LF_def new_line_reader_def)
  have f: "feed_chunk False new_line_reader (''Ready'' @ [LF]) = (new_line_reader, Some (Inr ''Ready''))"
    by (simp add: feed_byte_def new_line_reader_def LF_def CR_def endswith_def line_limit_def
        is_ascii_def ord_def)
  show ?thesis
    using h(1) f read_line_returns_next_line [of scripted_io scripted_unread snd 1 scripted_ready ?w
        "''Ready''" "''x''" new_line_reader 100 6 False, OF scripted.byte_source_axioms h]
    by auto
qed

text \<open>
  \<open>read_line\<close> always comes back by its deadline, whatever a byte stream that keeps its
  contract delivers, silence included: the number of clock ticks left bounds the loop.
\<close>

theorem read_line_terminates:
  assumes "byte_source io unread clock slack ok" "ok w" "nat timeout < fuel"
  shows "read_line io fuel timeout v2 r w \<noteq> None"
proof -
  obtain t w1 where m: "io_monotonic io w = (t, w1)" by (cases "io_monotonic io w")
  note ml = byte_source.monotonic_law [OF assms(1,2) m]
  have "nat (t + timeout - clock w1) < fuel" using assms(3) ml by simp
  with byte_source.read_loop_returns [OF assms(1), of w1 "t + timeout" fuel v2 r] ml
  show ?thesis by (simp add: read_line_def m)
qed

theorem read_line_terminates_witness:
  "scripted_ready (new_scripted [] [], 0)
   \<and> read_line scripted_io 6 5 True new_line_reader (new_scripted [] [], 0) \<noteq> None"
proof -
  have h: "scripted_ready (new_scripted [] [], 0)" "nat 5 < 6"
    by (simp_all add: scripted_ready_def new_scripted_def)
  show ?thesis using h read_line_terminates [OF scripted.byte_source_axioms h] by simp
qed

end
