(* ===== verification/Models.thy ===== *)
theory Models
  imports Crc
begin

text \<open>
  The typed values of \<open>host/src/cs71_protocol/models.py\<close>: strict decimal and bit fields, the
  response and event records, and the snapshots \<open>Status\<close>, \<open>Capabilities\<close> and
  \<open>QueueSnapshot\<close> decoded from \<open>key=value\<close> fields. A Python dict of fields is an association
  list in insertion order with distinct keys.
\<close>

section \<open>Definitions\<close>

type_synonym fields = "(string \<times> string) list"

definition uint_match :: "string \<Rightarrow> bool" where
  "uint_match s =
     (s = ''0'' \<or> (s \<noteq> [] \<and> is_digit (hd s) \<and> hd s \<noteq> CHR ''0'' \<and> list_all is_digit (tl s)))"

definition uint_text :: "string \<Rightarrow> nat \<Rightarrow> nat option \<Rightarrow> (protocol_error, nat) result" where
  "uint_text value minimum maximum =
     (if \<not> uint_match value then Inl ParseError
      else let result = dec_val value in
        if result < minimum \<or> (case maximum of None \<Rightarrow> False | Some m \<Rightarrow> result > m) then Inl ParseError
        else Inr result)"

definition bit_field :: "string \<Rightarrow> (protocol_error, bool) result" where
  "bit_field value =
     (if value \<noteq> ''0'' \<and> value \<noteq> ''1'' then Inl ParseError else Inr (value = ''1''))"

datatype session_mode = SM_UNCERTAIN | SM_V1 | SM_V2

datatype response_kind = RK_ACCEPTED | RK_PROGRESS | RK_DATA | RK_DONE | RK_ERROR

datatype event_kind = EK_STATE | EK_FAULT | EK_REJECT

record response =
  request_id :: nat
  r_kind :: response_kind
  r_fields :: fields
  r_code :: "nat option"
  r_name :: "string option"

definition terminal :: "response \<Rightarrow> bool" where
  "terminal r = (r_kind r = RK_DONE \<or> r_kind r = RK_ERROR)"

record event =
  e_sequence :: nat
  e_kind :: event_kind
  e_fields :: fields
  e_code :: "nat option"
  e_name :: "string option"

record fault =
  f_code :: nat
  f_name :: string
  f_fields :: fields

record completion =
  c_request_id :: nat
  c_succeeded :: bool
  c_fields :: fields
  c_responses :: "response list"
  c_error :: "fault option"

text \<open>\<open>responses[-1]\<close> raises on an empty tuple; that \<open>IndexError\<close> is \<open>ValueError\<close> here.\<close>

definition terminal_response :: "completion \<Rightarrow> (protocol_error, response) result" where
  "terminal_response c =
     (if c_responses c = [] then Inl ValueError
      else let r = last (c_responses c) in if terminal r then Inr r else Inl ParseError)"

definition terminal_fields :: "completion \<Rightarrow> (protocol_error, fields) result" where
  "terminal_fields c = bind_r (terminal_response c) (\<lambda>r. Inr (r_fields r))"

definition fault_from_response :: "response \<Rightarrow> (protocol_error, fault) result" where
  "fault_from_response r =
     (case (r_kind r, r_code r, r_name r) of
        (RK_ERROR, Some code, Some name) \<Rightarrow>
          Inr \<lparr>f_code = code, f_name = name, f_fields = r_fields r\<rparr>
      | _ \<Rightarrow> Inl ParseError)"

definition fault_from_event :: "event \<Rightarrow> (protocol_error, fault) result" where
  "fault_from_event e =
     (case (e_kind e, e_code e, e_name e) of
        (EK_FAULT, Some code, Some name) \<Rightarrow>
          Inr \<lparr>f_code = code, f_name = name, f_fields = e_fields e\<rparr>
      | _ \<Rightarrow> Inl ParseError)"

definition field :: "fields \<Rightarrow> string \<Rightarrow> (protocol_error, string) result" where
  "field fs k = of_option ParseError (map_of fs k)"

definition extras :: "string list \<Rightarrow> fields \<Rightarrow> fields" where
  "extras required fs = filter (\<lambda>(k, v). k \<notin> set required) fs"

definition all_present :: "string list \<Rightarrow> fields \<Rightarrow> bool" where
  "all_present required fs = list_all (\<lambda>k. k \<in> fst ` set fs) required"

record status =
  s_mode :: string
  s_phase :: string
  s_feed_homed :: bool
  s_sort_homed :: bool
  s_motor_enabled :: bool
  s_active_id :: "nat option"
  s_fault_code :: nat
  s_queue_previous :: nat
  s_queue_next :: nat
  s_config_generation :: nat
  s_extras :: fields

definition status_required :: "string list" where
  "status_required = [''mode'', ''phase'', ''feed_homed'', ''sort_homed'', ''motor_enabled'',
     ''active_id'', ''fault_code'', ''queue_previous'', ''queue_next'', ''config_generation'']"

definition status_modes :: "string list" where
  "status_modes = [''running'', ''recovering'', ''stopped'']"

definition status_phases :: "string list" where
  "status_phases = [''idle'', ''feed_wait'', ''feed_move'', ''feed_home'', ''sort_move'',
     ''sort_home'', ''settling'', ''airdrop'', ''diagnostic'']"

definition status_from_fields :: "fields \<Rightarrow> (protocol_error, status) result" where
  "status_from_fields fs =
     bind_r (require (all_present status_required fs) ParseError) (\<lambda>_.
     bind_r (field fs ''mode'') (\<lambda>mode.
     bind_r (require (mode \<in> set status_modes) ParseError) (\<lambda>_.
     bind_r (field fs ''phase'') (\<lambda>phase.
     bind_r (require (phase \<in> set status_phases) ParseError) (\<lambda>_.
     bind_r (field fs ''active_id'') (\<lambda>active_text.
     bind_r (if active_text = ''none'' then Inr None
             else bind_r (uint_text active_text 0 (Some 65535)) (\<lambda>i. Inr (Some i))) (\<lambda>active.
     bind_r (bind_r (field fs ''feed_homed'') bit_field) (\<lambda>feed_homed.
     bind_r (bind_r (field fs ''sort_homed'') bit_field) (\<lambda>sort_homed.
     bind_r (bind_r (field fs ''motor_enabled'') bit_field) (\<lambda>motor_enabled.
     bind_r (bind_r (field fs ''fault_code'') (\<lambda>v. uint_text v 0 None)) (\<lambda>fault_code.
     bind_r (bind_r (field fs ''queue_previous'') (\<lambda>v. uint_text v 0 None)) (\<lambda>queue_previous.
     bind_r (bind_r (field fs ''queue_next'') (\<lambda>v. uint_text v 0 None)) (\<lambda>queue_next.
     bind_r (bind_r (field fs ''config_generation'') (\<lambda>v. uint_text v 0 None)) (\<lambda>config_generation.
       Inr \<lparr>s_mode = mode, s_phase = phase, s_feed_homed = feed_homed, s_sort_homed = sort_homed,
            s_motor_enabled = motor_enabled, s_active_id = active, s_fault_code = fault_code,
            s_queue_previous = queue_previous, s_queue_next = queue_next,
            s_config_generation = config_generation, s_extras = extras status_required fs\<rparr>))))))))))))))"

record capabilities =
  cap_protocol :: nat
  cap_max_line :: nat
  cap_crc :: string
  cap_queue_depth :: nat
  cap_slot_max :: nat
  cap_slot_count :: nat
  cap_pwm :: bool
  cap_airdrop :: bool
  cap_feed_sensor :: bool
  cap_feed_home :: bool
  cap_sort_home :: bool
  cap_extras :: fields

definition capabilities_required :: "string list" where
  "capabilities_required = [''protocol'', ''max_line'', ''crc'', ''queue_depth'', ''slot_max'',
     ''slot_count'', ''pwm'', ''airdrop'', ''feed_sensor'', ''feed_home'', ''sort_home'']"

definition capabilities_from_fields :: "fields \<Rightarrow> (protocol_error, capabilities) result" where
  "capabilities_from_fields fs =
     bind_r (require (all_present capabilities_required fs) ParseError) (\<lambda>_.
     bind_r (bind_r (field fs ''protocol'') (\<lambda>v. uint_text v 0 None)) (\<lambda>protocol.
     bind_r (bind_r (field fs ''max_line'') (\<lambda>v. uint_text v 0 None)) (\<lambda>max_line.
     bind_r (field fs ''crc'') (\<lambda>crc.
     bind_r (require (protocol = 2 \<and> max_line = 64 \<and> (crc = ''none'' \<or> crc = ''optional'')) ParseError) (\<lambda>_.
     bind_r (bind_r (field fs ''queue_depth'') (\<lambda>v. uint_text v 1 None)) (\<lambda>queue_depth.
     bind_r (bind_r (field fs ''slot_max'') (\<lambda>v. uint_text v 0 None)) (\<lambda>slot_max.
     bind_r (bind_r (field fs ''slot_count'') (\<lambda>v. uint_text v 0 None)) (\<lambda>slot_count.
     bind_r (bind_r (field fs ''pwm'') bit_field) (\<lambda>pwm.
     bind_r (bind_r (field fs ''airdrop'') bit_field) (\<lambda>airdrop.
     bind_r (bind_r (field fs ''feed_sensor'') bit_field) (\<lambda>feed_sensor.
     bind_r (bind_r (field fs ''feed_home'') bit_field) (\<lambda>feed_home.
     bind_r (bind_r (field fs ''sort_home'') bit_field) (\<lambda>sort_home.
       Inr \<lparr>cap_protocol = protocol, cap_max_line = 64, cap_crc = crc, cap_queue_depth = queue_depth,
            cap_slot_max = slot_max, cap_slot_count = slot_count, cap_pwm = pwm, cap_airdrop = airdrop,
            cap_feed_sensor = feed_sensor, cap_feed_home = feed_home, cap_sort_home = sort_home,
            cap_extras = extras capabilities_required fs\<rparr>)))))))))))))"

record queue_snapshot =
  q_queue_depth :: nat
  q_queue_previous :: nat
  q_queue_next :: nat
  q_extras :: fields

definition queue_required :: "string list" where
  "queue_required = [''queue_depth'', ''queue_previous'', ''queue_next'']"

definition queue_from_fields :: "fields \<Rightarrow> (protocol_error, queue_snapshot) result" where
  "queue_from_fields fs =
     bind_r (require (all_present queue_required fs) ParseError) (\<lambda>_.
     bind_r (bind_r (field fs ''queue_depth'') (\<lambda>v. uint_text v 1 None)) (\<lambda>depth.
     bind_r (bind_r (field fs ''queue_previous'') (\<lambda>v. uint_text v 0 None)) (\<lambda>previous.
     bind_r (bind_r (field fs ''queue_next'') (\<lambda>v. uint_text v 0 None)) (\<lambda>next_slot.
       Inr \<lparr>q_queue_depth = depth, q_queue_previous = previous, q_queue_next = next_slot,
            q_extras = extras queue_required fs\<rparr>))))"

section \<open>Decimal fields\<close>

lemma uint_match_nat_str [simp]: "uint_match (nat_str n)"
proof (cases "n = 0")
  case True
  then show ?thesis by (simp add: uint_match_def)
next
  case False
  obtain c cs where s: "nat_str n = c # cs" by (cases "nat_str n") auto
  have "c \<noteq> CHR ''0''" using nat_str_hd [of n] s False by auto
  then show ?thesis using nat_str_digits [of n] s by (simp add: uint_match_def list_all_iff)
qed

lemma uint_text_nat_str:
  "uint_text (nat_str n) minimum maximum =
     (if n < minimum \<or> (case maximum of None \<Rightarrow> False | Some m \<Rightarrow> n > m) then Inl ParseError else Inr n)"
  by (simp add: uint_text_def Let_def)

lemma dec_val_digits: "c \<noteq> CHR ''0'' \<Longrightarrow> list_all is_digit (c # cs) \<Longrightarrow> nat_str (dec_val (c # cs)) = c # cs"
proof (induction cs rule: rev_induct)
  case Nil
  have "digit_val c < 10" "digit_char (digit_val c) = c" using Nil digit_range by auto
  then show ?case by (simp add: dec_val_def nat_str.simps [of "digit_val c"])
next
  case (snoc d cs)
  let ?n = "dec_val (c # cs)"
  have d: "digit_val d < 10" "digit_char (digit_val d) = d" using snoc.prems digit_range by auto
  have IH: "nat_str ?n = c # cs" using snoc by simp
  have "?n \<noteq> 0"
  proof
    assume "?n = 0"
    then show False using IH snoc.prems by simp
  qed
  then have "\<not> 10 * ?n + digit_val d < 10" by simp
  moreover have "dec_val (c # cs @ [d]) = 10 * ?n + digit_val d"
    using dec_val_snoc [of "c # cs" d] by simp
  ultimately show ?case using IH d by (simp add: nat_str.simps [of "10 * ?n + digit_val d"])
qed

text \<open>The strict pattern admits exactly the canonical decimal numerals.\<close>

lemma uint_match_iff: "uint_match s \<longleftrightarrow> (\<exists>n. s = nat_str n)"
proof
  assume m: "uint_match s"
  show "\<exists>n. s = nat_str n"
  proof (cases "s = ''0''")
    case True
    then have "s = nat_str 0" by simp
    then show ?thesis ..
  next
    case False
    then obtain c cs where "s = c # cs" "c \<noteq> CHR ''0''" "list_all is_digit (c # cs)"
      using m by (cases s) (auto simp: uint_match_def)
    then have "s = nat_str (dec_val s)" by (simp add: dec_val_digits)
    then show ?thesis ..
  qed
qed auto

lemma uint_text_InrD:
  "uint_text s lo hi = Inr n \<Longrightarrow> s = nat_str n \<and> lo \<le> n \<and> (\<forall>m. hi = Some m \<longrightarrow> n \<le> m)"
  using uint_match_iff [of s] by (auto simp: uint_text_def Let_def split: if_splits option.splits)

end
