(* ===== verification/Parsing.thy ===== *)
theory Parsing
  imports Models
begin

text \<open>
  The strict v2 parsers and the request formatter of \<open>host/src/cs71_protocol/parsing.py\<close>, with
  a printer of well-formed items as the reference they are inverse to. \<open>classify_v1_response\<close>,
  which labels legacy lines and needs a JSON decoder, is in \<open>Switcher\<close>.
\<close>

section \<open>Definitions\<close>

definition name_match :: "string \<Rightarrow> bool" where
  "name_match s =
     (s \<noteq> [] \<and> is_alpha (hd s) \<and> list_all (\<lambda>c. is_alpha c \<or> is_digit c \<or> c = CHR ''_'') (tl s))"

datatype discovery_reply = AVAILABLE | LEGACY

definition classify_discovery :: "string \<Rightarrow> (protocol_error, discovery_reply) result" where
  "classify_discovery line =
     (if line = ''protocol:2 available'' then Inr AVAILABLE
      else if line = ''ok'' then Inr LEGACY
      else Inl ParseError)"

text \<open>One token of \<open>parse_fields\<close>: the key and the value, or an error.\<close>

definition parse_token :: "string \<Rightarrow> (protocol_error, string \<times> string) result" where
  "parse_token token =
     (case split_on CHR ''='' token of
        [key, val] \<Rightarrow>
          if \<not> name_match key \<or> val = [] \<or> list_ex isspace val then Inl ParseError
          else Inr (key, val)
      | _ \<Rightarrow> Inl ParseError)"

fun parse_tokens :: "fields \<Rightarrow> string list \<Rightarrow> (protocol_error, fields) result" where
  "parse_tokens acc [] = Inr acc"
| "parse_tokens acc (t # ts) =
     bind_r (parse_token t) (\<lambda>(key, val).
       if key \<in> fst ` set acc then Inl ParseError else parse_tokens (acc @ [(key, val)]) ts)"

definition parse_fields :: "string \<Rightarrow> (protocol_error, fields) result" where
  "parse_fields text = (if text = [] then Inr [] else parse_tokens [] (split_on CHR '' '' text))"

definition nonempty_fields :: "string \<Rightarrow> (protocol_error, fields) result" where
  "nonempty_fields text = (if text = [] then Inl ParseError else parse_fields text)"

text \<open>\<open>_error\<close>: \<open>error:code:name\<close> (or \<open>fault:\<close>, \<open>reject:\<close>), then optional fields.\<close>

definition error_form :: "string \<Rightarrow> (protocol_error, nat \<times> string \<times> fields) result" where
  "error_form text =
     (let (head, rest) = split_first CHR '' '' text in
      case split_on CHR '':'' head of
        [tag, code, name] \<Rightarrow>
          if tag \<notin> {''error'', ''fault'', ''reject''} \<or> \<not> name_match name then Inl ParseError
          else
            bind_r (uint_text code 1 (Some 65535)) (\<lambda>n.
            bind_r (parse_fields (case rest of None \<Rightarrow> [] | Some r \<Rightarrow> r)) (\<lambda>fs.
              Inr (n, name, fs)))
      | _ \<Rightarrow> Inl ParseError)"

definition plain_response :: "nat \<Rightarrow> response_kind \<Rightarrow> fields \<Rightarrow> response" where
  "plain_response i k fs = \<lparr>request_id = i, r_kind = k, r_fields = fs, r_code = None, r_name = None\<rparr>"

definition response_body :: "nat \<Rightarrow> string \<Rightarrow> (protocol_error, response) result" where
  "response_body i body =
     (if body = ''accepted'' then Inr (plain_response i RK_ACCEPTED [])
      else if startswith body ''accepted:'' then
        bind_r (nonempty_fields (drop 9 body)) (\<lambda>fs. Inr (plain_response i RK_ACCEPTED fs))
      else if startswith body ''progress:'' then
        bind_r (nonempty_fields (drop 9 body)) (\<lambda>fs. Inr (plain_response i RK_PROGRESS fs))
      else if startswith body ''data:'' then
        bind_r (nonempty_fields (drop 5 body)) (\<lambda>fs. Inr (plain_response i RK_DATA fs))
      else if startswith body ''done:'' then
        bind_r (nonempty_fields (drop 5 body)) (\<lambda>fs. Inr (plain_response i RK_DONE fs))
      else if body = ''done'' then Inr (plain_response i RK_DONE [])
      else if startswith body ''error:'' then
        bind_r (error_form body) (\<lambda>(code, name, fs).
          Inr \<lparr>request_id = i, r_kind = RK_ERROR, r_fields = fs, r_code = Some code, r_name = Some name\<rparr>)
      else Inl ParseError)"

definition event_body :: "nat \<Rightarrow> string \<Rightarrow> (protocol_error, event) result" where
  "event_body n body =
     (if startswith body ''state:'' then
        bind_r (nonempty_fields (drop 6 body)) (\<lambda>fs.
          Inr \<lparr>e_sequence = n, e_kind = EK_STATE, e_fields = fs, e_code = None, e_name = None\<rparr>)
      else if startswith body ''fault:'' \<or> startswith body ''reject:'' then
        bind_r (error_form body) (\<lambda>(code, name, fs).
          Inr \<lparr>e_sequence = n, e_kind = (if startswith body ''fault:'' then EK_FAULT else EK_REJECT),
               e_fields = fs, e_code = Some code, e_name = Some name\<rparr>)
      else Inl ParseError)"

datatype v2_item = V2_Response response | V2_Event event | V2_Stopped

text \<open>The pattern \<open>([0-9]+) (.+)\<close> behind the frame's first character.\<close>

definition id_and_body :: "string \<Rightarrow> (string \<times> string) option" where
  "id_and_body s =
     (case split_first CHR '' '' s of
        (digits, Some rest) \<Rightarrow>
          if digits \<noteq> [] \<and> list_all is_digit digits \<and> rest \<noteq> [] then Some (digits, rest) else None
      | _ \<Rightarrow> None)"

definition parse_v2_line :: "string \<Rightarrow> bool \<Rightarrow> (protocol_error, v2_item) result" where
  "parse_v2_line line crc_required =
     (if line = [] \<or> length line > 64 \<or> \<not> list_all is_printable line then Inl ParseError
      else if line = ''stopped'' then Inr V2_Stopped
      else bind_r (remove_and_verify_crc line crc_required) (\<lambda>body.
        case body of
          [] \<Rightarrow> Inl ParseError
        | c # cs \<Rightarrow>
            if c = CHR ''@'' then
              (case id_and_body cs of
                 None \<Rightarrow> Inl ParseError
               | Some (digits, rest) \<Rightarrow>
                   bind_r (uint_text digits 0 (Some 65535)) (\<lambda>i.
                   bind_r (response_body i rest) (\<lambda>r. Inr (V2_Response r))))
            else if c = CHR ''!'' then
              (case id_and_body cs of
                 None \<Rightarrow> Inl ParseError
               | Some (digits, rest) \<Rightarrow>
                   bind_r (uint_text digits 1 (Some 65535)) (\<lambda>n.
                   bind_r (event_body n rest) (\<lambda>e. Inr (V2_Event e))))
            else Inl ParseError))"

definition format_request :: "int \<Rightarrow> string \<Rightarrow> bool \<Rightarrow> (protocol_error, string) result" where
  "format_request i command crc =
     (if \<not> (1 \<le> i \<and> i \<le> 65535) then Inl ParseError
      else if command = [] \<or> command \<noteq> strip command \<or> CHR ''*'' \<in> set command
              \<or> \<not> list_all is_printable command then Inl ParseError
      else
        let frame = CHR ''@'' # int_str i @ CHR '' '' # command in
        if \<not> is_ascii frame then Inl ParseError
        else bind_r (if crc then append_crc frame else Inr frame) (\<lambda>formatted.
          if length formatted > 64 then Inl ParseError else Inr formatted))"

section \<open>Reference printer\<close>

definition print_field :: "string \<times> string \<Rightarrow> string" where
  "print_field kv = fst kv @ CHR ''='' # snd kv"

definition print_fields :: "fields \<Rightarrow> string" where
  "print_fields fs = join CHR '' '' (map print_field fs)"

definition print_tagged :: "string \<Rightarrow> fields \<Rightarrow> string" where
  "print_tagged tag fs = (if fs = [] then tag else tag @ CHR '':'' # print_fields fs)"

definition print_error :: "string \<Rightarrow> nat \<Rightarrow> string \<Rightarrow> fields \<Rightarrow> string" where
  "print_error tag code name fs =
     tag @ CHR '':'' # nat_str code @ CHR '':'' # name @
     (if fs = [] then [] else CHR '' '' # print_fields fs)"

fun kind_tag :: "response_kind \<Rightarrow> string" where
  "kind_tag RK_ACCEPTED = ''accepted''"
| "kind_tag RK_PROGRESS = ''progress''"
| "kind_tag RK_DATA = ''data''"
| "kind_tag RK_DONE = ''done''"
| "kind_tag RK_ERROR = ''error''"

definition print_response_body :: "response \<Rightarrow> string" where
  "print_response_body r =
     (if r_kind r = RK_ERROR
      then print_error ''error'' (the (r_code r)) (the (r_name r)) (r_fields r)
      else print_tagged (kind_tag (r_kind r)) (r_fields r))"

definition print_response :: "response \<Rightarrow> string" where
  "print_response r = CHR ''@'' # nat_str (request_id r) @ CHR '' '' # print_response_body r"

definition wf_field :: "string \<times> string \<Rightarrow> bool" where
  "wf_field kv =
     (name_match (fst kv) \<and> snd kv \<noteq> [] \<and> \<not> list_ex isspace (snd kv) \<and> CHR ''='' \<notin> set (snd kv))"

definition wf_fields :: "fields \<Rightarrow> bool" where
  "wf_fields fs = (distinct (map fst fs) \<and> list_all wf_field fs)"

text \<open>What the protocol calls a response: only progress and data lines must carry fields.\<close>

definition wf_response :: "response \<Rightarrow> bool" where
  "wf_response r =
     (request_id r \<le> 65535 \<and> wf_fields (r_fields r) \<and>
      (if r_kind r = RK_ERROR
       then (\<exists>code name. r_code r = Some code \<and> r_name r = Some name \<and> 1 \<le> code \<and> code \<le> 65535
               \<and> name_match name)
       else r_code r = None \<and> r_name r = None
            \<and> (r_kind r \<in> {RK_PROGRESS, RK_DATA} \<longrightarrow> r_fields r \<noteq> [])))"

section \<open>Fields\<close>

lemma name_match_no_sep:
  "name_match s \<Longrightarrow> CHR ''='' \<notin> set s \<and> CHR '' '' \<notin> set s \<and> CHR '':'' \<notin> set s \<and> s \<noteq> []"
  by (cases s) (auto simp: name_match_def list_all_iff is_alpha_def is_upper_def is_lower_def
      is_digit_def ord_def)

lemma space_isspace [simp]: "isspace CHR '' ''"
  by (simp add: isspace_def ord_def)

lemma parse_token_print: "wf_field kv \<Longrightarrow> parse_token (print_field kv) = Inr kv"
proof -
  assume wf: "wf_field kv"
  then have "split_on CHR ''='' (print_field kv) = [fst kv, snd kv]"
    using name_match_no_sep by (simp add: print_field_def wf_field_def split_on_append split_on_no_sep)
  with wf show ?thesis by (simp add: parse_token_def wf_field_def)
qed

lemma parse_token_InrD:
  assumes "parse_token t = Inr kv"
  shows "wf_field kv \<and> t = print_field kv"
proof -
  obtain key val where sp: "split_on CHR ''='' t = [key, val]" and kv: "kv = (key, val)"
    and ok: "name_match key" "val \<noteq> []" "\<not> list_ex isspace val"
    using assms by (auto simp: parse_token_def split: list.splits if_splits)
  have "CHR ''='' \<notin> set val" using split_on_pieces [of val "CHR ''=''" t] sp by simp
  moreover have "t = join CHR ''='' [key, val]" using join_split_on [of "CHR ''=''" t] sp by simp
  ultimately show ?thesis using ok kv by (simp add: wf_field_def print_field_def)
qed

lemma parse_tokens_print:
  "list_all wf_field fs \<Longrightarrow> distinct (map fst (acc @ fs)) \<Longrightarrow>
     parse_tokens acc (map print_field fs) = Inr (acc @ fs)"
  by (induction fs arbitrary: acc) (auto simp: parse_token_print)

lemma parse_tokens_InrD:
  "parse_tokens acc ts = Inr fs \<Longrightarrow> wf_fields acc \<Longrightarrow>
     \<exists>gs. fs = acc @ gs \<and> ts = map print_field gs \<and> wf_fields fs"
proof (induction ts arbitrary: acc)
  case (Cons t ts)
  then obtain kv where t: "parse_token t = Inr kv" by (auto simp: bind_r_eq_Inr)
  with Cons.prems have new: "fst kv \<notin> fst ` set acc" and rest: "parse_tokens (acc @ [kv]) ts = Inr fs"
    by (auto split: prod.splits if_splits)
  note tk = parse_token_InrD [OF t]
  have "wf_fields (acc @ [kv])" using Cons.prems(2) tk new by (auto simp: wf_fields_def)
  from Cons.IH [OF rest this] tk show ?case by force
qed simp

lemma wf_field_no_space: "wf_field kv \<Longrightarrow> CHR '' '' \<notin> set (print_field kv)"
  using name_match_no_sep [of "fst kv"] space_isspace
  by (auto simp: wf_field_def print_field_def list_ex_iff)

lemma print_fields_nonempty: "wf_fields fs \<Longrightarrow> fs \<noteq> [] \<Longrightarrow> print_fields fs \<noteq> []"
  by (cases fs; cases "tl fs") (auto simp: print_fields_def print_field_def)

lemma split_print_fields:
  "wf_fields fs \<Longrightarrow> fs \<noteq> [] \<Longrightarrow> split_on CHR '' '' (print_fields fs) = map print_field fs"
  unfolding print_fields_def
  by (rule split_on_join) (auto simp: wf_fields_def list_all_iff wf_field_no_space)

lemma parse_print_fields: "wf_fields fs \<Longrightarrow> fs \<noteq> [] \<Longrightarrow> parse_fields (print_fields fs) = Inr fs"
  using print_fields_nonempty [of fs] parse_tokens_print [of fs "[]"]
  by (simp add: parse_fields_def split_print_fields wf_fields_def)

lemma parse_fields_InrD:
  assumes "parse_fields text = Inr fs"
  shows "wf_fields fs \<and> text = print_fields fs"
proof (cases "text = []")
  case True
  with assms show ?thesis by (simp add: parse_fields_def wf_fields_def print_fields_def)
next
  case False
  with assms obtain gs where "fs = gs" "split_on CHR '' '' text = map print_field gs" "wf_fields fs"
    using parse_tokens_InrD [of "[]" "split_on CHR '' '' text" fs]
    by (auto simp: parse_fields_def wf_fields_def)
  then show ?thesis using join_split_on [of "CHR '' ''" "text"] by (simp add: print_fields_def)
qed

lemma nonempty_fields_InrD:
  "nonempty_fields text = Inr fs \<Longrightarrow> wf_fields fs \<and> fs \<noteq> [] \<and> text = print_fields fs"
  using parse_fields_InrD [of "text" fs]
  by (auto simp: nonempty_fields_def print_fields_def split: if_splits)

lemma nonempty_fields_print: "wf_fields fs \<Longrightarrow> fs \<noteq> [] \<Longrightarrow> nonempty_fields (print_fields fs) = Inr fs"
  by (simp add: nonempty_fields_def parse_print_fields print_fields_nonempty)

section \<open>Bodies\<close>

lemma error_form_print:
  assumes "tag \<in> {''error'', ''fault'', ''reject''}" "1 \<le> code" "code \<le> 65535"
    and "name_match name" "wf_fields fs"
  shows "error_form (print_error tag code name fs) = Inr (code, name, fs)"
proof -
  let ?head = "tag @ CHR '':'' # nat_str code @ CHR '':'' # name"
  have digits: "CHR '':'' \<notin> set (nat_str code) \<and> CHR '' '' \<notin> set (nat_str code)"
    using nat_str_digits [of code] by (auto simp: is_digit_def ord_def)
  have tagc: "CHR '':'' \<notin> set tag \<and> CHR '' '' \<notin> set tag" using assms(1) by auto
  have nm: "CHR '':'' \<notin> set name \<and> CHR '' '' \<notin> set name" using name_match_no_sep assms(4) by auto
  have sp: "split_on CHR '':'' ?head = [tag, nat_str code, name]"
    using tagc digits nm by (simp add: split_on_append split_on_no_sep)
  have "split_first CHR '' '' (print_error tag code name fs)
      = (?head, if fs = [] then None else Some (print_fields fs))"
  proof (cases "fs = []")
    case True
    then show ?thesis
      using split_first_no_sep [of "CHR '' ''" ?head] tagc digits nm by (simp add: print_error_def)
  next
    case False
    then show ?thesis
      using split_first_append [of "CHR '' ''" ?head "print_fields fs"] tagc digits nm
      by (simp add: print_error_def)
  qed
  then show ?thesis
    using assms sp parse_print_fields [of fs]
    by (auto simp: error_form_def uint_text_nat_str parse_fields_def)
qed

lemma error_form_InrD:
  assumes "error_form s = Inr (code, name, fs)"
  shows "1 \<le> code \<and> code \<le> 65535 \<and> name_match name \<and> wf_fields fs \<and>
    (\<exists>tag \<in> {''error'', ''fault'', ''reject''}.
       s = print_error tag code name fs \<or> (fs = [] \<and> s = print_error tag code name fs @ '' ''))"
proof -
  obtain head rest where sf: "split_first CHR '' '' s = (head, rest)" by (cases "split_first CHR '' '' s")
  then obtain tag ctext where parts: "split_on CHR '':'' head = [tag, ctext, name]"
    and tag: "tag \<in> {''error'', ''fault'', ''reject''}" and nm: "name_match name"
    and u: "uint_text ctext 1 (Some 65535) = Inr code"
    and pf: "parse_fields (case rest of None \<Rightarrow> [] | Some r \<Rightarrow> r) = Inr fs"
    using assms
    by (auto simp: error_form_def bind_r_eq_Inr split: list.splits if_splits)
  have head: "head = print_error tag code name []"
    using join_split_on [of "CHR '':''" head] parts uint_text_InrD [OF u] by (simp add: print_error_def)
  have fsd: "wf_fields fs" "(case rest of None \<Rightarrow> [] | Some r \<Rightarrow> r) = print_fields fs"
    using parse_fields_InrD [OF pf] by auto
  have s: "s = head @ (case rest of None \<Rightarrow> [] | Some r \<Rightarrow> CHR '' '' # r)"
    using sf by (rule split_firstD)
  have "s = print_error tag code name fs \<or> (fs = [] \<and> s = print_error tag code name fs @ '' '')"
  proof (cases rest)
    case None
    then have "print_fields fs = []" using fsd(2) by simp
    then have "fs = []" using print_fields_nonempty fsd(1) by blast
    then show ?thesis using s head None by simp
  next
    case (Some r)
    show ?thesis using s head Some fsd(2)
      by (cases "fs = []") (auto simp: print_error_def print_fields_def)
  qed
  then show ?thesis using tag nm fsd(1) uint_text_InrD [OF u] by auto
qed

lemma print_response_body_parse:
  assumes "wf_response r"
  shows "response_body (request_id r) (print_response_body r) = Inr r"
proof (cases "r_kind r = RK_ERROR")
  case True
  then obtain code name where cn: "r_code r = Some code" "r_name r = Some name" "1 \<le> code"
    "code \<le> 65535" "name_match name" using assms by (auto simp: wf_response_def)
  have "error_form (print_error ''error'' code name (r_fields r)) = Inr (code, name, r_fields r)"
    using cn assms by (intro error_form_print) (auto simp: wf_response_def)
  then show ?thesis using True cn
    by (simp add: response_body_def print_response_body_def print_error_def)
next
  case False
  have wf: "wf_fields (r_fields r)" and plain: "r_code r = None" "r_name r = None"
    and nonempty: "r_kind r \<in> {RK_PROGRESS, RK_DATA} \<Longrightarrow> r_fields r \<noteq> []"
    using assms False by (auto simp: wf_response_def)
  have eq: "r = plain_response (request_id r) (r_kind r) (r_fields r)"
    using plain by (simp add: plain_response_def)
  show ?thesis
  proof (cases "r_fields r = []")
    case True
    then have "r_kind r = RK_ACCEPTED \<or> r_kind r = RK_DONE"
      using False nonempty by (cases "r_kind r") auto
    then show ?thesis using False True eq
      by (auto simp: print_response_body_def print_tagged_def response_body_def)
  next
    case nonnil: False
    then show ?thesis using False eq nonempty_fields_print [OF wf nonnil]
      by (cases "r_kind r") (simp_all add: print_response_body_def print_tagged_def response_body_def)
  qed
qed

lemma tagged_InrD:
  assumes "startswith body (tag @ '':'')" "nonempty_fields (drop (length tag + 1) body) = Inr fs"
  shows "wf_fields fs \<and> fs \<noteq> [] \<and> body = print_tagged tag fs"
proof -
  obtain rest where "body = tag @ CHR '':'' # rest" using assms(1) by (auto simp: startswith_iff)
  then show ?thesis using assms(2) nonempty_fields_InrD [of rest fs]
    by (simp add: print_tagged_def)
qed

lemma response_body_InrD:
  assumes "response_body i body = Inr r" "i \<le> 65535"
  shows "request_id r = i \<and> wf_response r \<and>
    (body = print_response_body r
     \<or> (r_kind r = RK_ERROR \<and> r_fields r = [] \<and> body = print_response_body r @ '' ''))"
proof (cases "startswith body ''error:''")
  case True
  then obtain code name fs where ef: "error_form body = Inr (code, name, fs)"
    and r: "r = \<lparr>request_id = i, r_kind = RK_ERROR, r_fields = fs, r_code = Some code, r_name = Some name\<rparr>"
    using assms(1) by (auto simp: response_body_def bind_r_eq_Inr startswith_iff split: if_splits)
  note efd = error_form_InrD [OF ef]
  then obtain tag where tag: "tag \<in> {''error'', ''fault'', ''reject''}"
    and b: "body = print_error tag code name fs \<or> (fs = [] \<and> body = print_error tag code name fs @ '' '')"
    by blast
  have "tag = ''error''" using True tag b by (auto simp: print_error_def)
  then show ?thesis using b r efd assms(2) by (auto simp: wf_response_def print_response_body_def)
next
  case False
  have step: "request_id r = i \<and> wf_response r \<and> body = print_response_body r"
    if "startswith body (kind_tag k @ '':'')" "k \<noteq> RK_ERROR"
      "bind_r (nonempty_fields (drop n body)) (\<lambda>fs. Inr (plain_response i k fs)) = Inr r"
      "n = length (kind_tag k) + 1" for k n
  proof -
    note hyps = that
    obtain fs where fs: "nonempty_fields (drop (length (kind_tag k) + 1) body) = Inr fs"
      "r = plain_response i k fs" using hyps(3,4) by (auto simp: bind_r_eq_Inr)
    from tagged_InrD [OF hyps(1) fs(1)] hyps(2) fs(2) assms(2) show ?thesis
      by (simp add: plain_response_def wf_response_def print_response_body_def)
  qed
  have plain: "request_id r = i \<and> wf_response r \<and> body = print_response_body r"
    if "r = plain_response i k []" "k = RK_ACCEPTED \<or> k = RK_DONE" "body = kind_tag k" for k
    using that assms(2)
    by (auto simp: plain_response_def wf_response_def wf_fields_def print_response_body_def print_tagged_def)
  have c1: ?thesis if "body = ''accepted''"
    using assms(1) that plain [of RK_ACCEPTED] by (simp add: response_body_def)
  have c2: ?thesis if "startswith body ''accepted:''" "\<not> body = ''accepted''"
    using assms(1) that step [of RK_ACCEPTED 9] by (simp add: response_body_def eval_nat_numeral)
  have c3: ?thesis if "startswith body ''progress:''" "\<not> body = ''accepted''" "\<not> startswith body ''accepted:''"
    using assms(1) that step [of RK_PROGRESS 9] by (simp add: response_body_def eval_nat_numeral)
  have c4: ?thesis if "startswith body ''data:''" "\<not> body = ''accepted''" "\<not> startswith body ''accepted:''" "\<not> startswith body ''progress:''"
    using assms(1) that step [of RK_DATA 5] by (simp add: response_body_def eval_nat_numeral)
  have c5: ?thesis if "startswith body ''done:''" "\<not> body = ''accepted''" "\<not> startswith body ''accepted:''" "\<not> startswith body ''progress:''" "\<not> startswith body ''data:''"
    using assms(1) that step [of RK_DONE 5] by (simp add: response_body_def eval_nat_numeral)
  have c6: ?thesis if "body = ''done''" "\<not> body = ''accepted''" "\<not> startswith body ''accepted:''" "\<not> startswith body ''progress:''" "\<not> startswith body ''data:''" "\<not> startswith body ''done:''"
    using assms(1) that plain [of RK_DONE] by (simp add: response_body_def)
  have c7: ?thesis if "\<not> body = ''accepted''" "\<not> startswith body ''accepted:''" "\<not> startswith body ''progress:''" "\<not> startswith body ''data:''" "\<not> startswith body ''done:''" "\<not> body = ''done''"
    using assms(1) that False by (simp add: response_body_def)
  show ?thesis
  proof (rule ccontr)
    assume no: "\<not> ?thesis"
    have n1: "\<not> body = ''accepted''" using no c1 by (rule contrapos_nn)
    have n2: "\<not> startswith body ''accepted:''" using no c2 [OF _ n1] by (rule contrapos_nn)
    have n3: "\<not> startswith body ''progress:''" using no c3 [OF _ n1 n2] by (rule contrapos_nn)
    have n4: "\<not> startswith body ''data:''" using no c4 [OF _ n1 n2 n3] by (rule contrapos_nn)
    have n5: "\<not> startswith body ''done:''" using no c5 [OF _ n1 n2 n3 n4] by (rule contrapos_nn)
    have n6: "\<not> body = ''done''" using no c6 [OF _ n1 n2 n3 n4 n5] by (rule contrapos_nn)
    show False using no c7 [OF n1 n2 n3 n4 n5 n6] by (rule notE)
  qed
qed

section \<open>Whole lines\<close>

text \<open>The sending side of a frame: with protection in force the CRC suffix is appended.\<close>

definition protect :: "bool \<Rightarrow> string \<Rightarrow> (protocol_error, string) result" where
  "protect crc frame = (if crc then append_crc frame else Inr frame)"

lemma remove_crc_iff:
  "remove_and_verify_crc line crc = Inr body \<longleftrightarrow>
     protect crc body = Inr line \<and> (crc \<or> CHR ''*'' \<notin> set line)"
proof (cases crc)
  case True
  then show ?thesis by (simp add: crc_accepts_iff protect_def)
next
  case False
  then show ?thesis using rpartition_None [of "CHR ''*''" line]
    by (auto simp: remove_and_verify_crc_def protect_def split: option.splits)
qed

lemma id_and_body_append:
  "rest \<noteq> [] \<Longrightarrow> id_and_body (nat_str n @ CHR '' '' # rest) = Some (nat_str n, rest)"
proof -
  assume "rest \<noteq> []"
  moreover have "CHR '' '' \<notin> set (nat_str n)" "list_all is_digit (nat_str n)"
    using nat_str_digits [of n] by (auto simp: is_digit_def ord_def list_all_iff)
  ultimately show ?thesis by (simp add: id_and_body_def)
qed

lemma id_and_bodyD: "id_and_body s = Some (digits, rest) \<Longrightarrow> s = digits @ CHR '' '' # rest"
  by (auto simp: id_and_body_def split: prod.splits option.splits if_splits
      dest!: split_firstD(1))

lemma print_response_body_nonempty: "print_response_body r \<noteq> []"
  by (cases "r_kind r") (simp_all add: print_response_body_def print_error_def print_tagged_def)

lemma parse_printed_response:
  assumes "wf_response r" "protect crc (print_response r) = Inr line"
    and "length line \<le> 64" "list_all is_printable line" "crc \<or> CHR ''*'' \<notin> set line"
  shows "parse_v2_line line crc = Inr (V2_Response r)"
proof -
  have "remove_and_verify_crc line crc = Inr (print_response r)"
    using assms(2,5) by (simp add: remove_crc_iff)
  moreover have "hd line = CHR ''@''" "line \<noteq> []"
    using assms(2) by (auto simp: protect_def append_crc_def print_response_def split: if_splits)
  moreover have "uint_text (nat_str (request_id r)) 0 (Some 65535) = Inr (request_id r)"
    using assms(1) by (simp add: uint_text_nat_str wf_response_def)
  moreover have "id_and_body (nat_str (request_id r) @ CHR '' '' # print_response_body r)
      = Some (nat_str (request_id r), print_response_body r)"
    by (rule id_and_body_append) (rule print_response_body_nonempty)
  ultimately show ?thesis
    using assms(3,4) print_response_body_parse [OF assms(1)]
    by (auto simp: parse_v2_line_def print_response_def)
qed



lemma parse_v2_responseD:
  assumes "parse_v2_line line crc = Inr (V2_Response r)"
  shows "wf_response r \<and> length line \<le> 64 \<and> list_all is_printable line \<and>
    (\<exists>frame. protect crc frame = Inr line \<and>
       (frame = print_response r
        \<or> (r_kind r = RK_ERROR \<and> r_fields r = [] \<and> frame = print_response r @ '' '')))"
proof -
  have size: "length line \<le> 64" "list_all is_printable line"
    using assms by (auto simp: parse_v2_line_def split: if_splits)
  obtain body where body: "remove_and_verify_crc line crc = Inr body"
    using assms by (auto simp: parse_v2_line_def bind_r_eq_Inr split: if_splits)
  obtain cs where cs: "body = CHR ''@'' # cs"
    using assms body
    by (cases body) (auto simp: parse_v2_line_def bind_r_eq_Inr split: if_splits option.splits)
  obtain digits rest where db: "id_and_body cs = Some (digits, rest)"
    using assms body cs
    by (cases "id_and_body cs") (auto simp: parse_v2_line_def split: if_splits)
  obtain i where ui: "uint_text digits 0 (Some 65535) = Inr i" and rr: "response_body i rest = Inr r"
    using assms body cs db by (auto simp: parse_v2_line_def bind_r_eq_Inr split: if_splits)
  note frame = body cs db ui rr
  note u = uint_text_InrD [OF frame(4)]
  have rb: "request_id r = i \<and> wf_response r \<and>
    (rest = print_response_body r
     \<or> (r_kind r = RK_ERROR \<and> r_fields r = [] \<and> rest = print_response_body r @ '' ''))"
    using u by (intro response_body_InrD [OF frame(5)]) simp
  have "body = CHR ''@'' # nat_str i @ CHR '' '' # rest"
    using frame(2) id_and_bodyD [OF frame(3)] u by simp
  moreover have "protect crc body = Inr line" using frame(1) by (simp add: remove_crc_iff)
  ultimately show ?thesis using rb size by (auto simp: print_response_def)
qed



end
