(* ===== verification/Tracking.thy ===== *)
theory Tracking
  imports Models
begin

text \<open>
  Request identifiers and event order (\<open>host/src/cs71_protocol/tracking.py\<close>). The lemmas show
  that allocation finds an identifier whenever one is free, that a terminal response is accepted
  at most once per allocation, and that a gap in the event numbering is never forgotten before
  the status is replaced.
\<close>

section \<open>Definitions\<close>

record request_tracker =
  active_ids :: "nat set"
  terminal_ids :: "nat set"
  next_id :: nat

definition new_request_tracker :: request_tracker where
  "new_request_tracker = \<lparr>active_ids = {}, terminal_ids = {}, next_id = 1\<rparr>"

definition next_request_id :: "nat \<Rightarrow> nat" where
  "next_request_id candidate = (if candidate = 65535 then 1 else candidate + 1)"

fun allocate_loop :: "nat \<Rightarrow> request_tracker \<Rightarrow> (protocol_error, nat) result \<times> request_tracker" where
  "allocate_loop 0 t = (Inl RequestStateError, t)"
| "allocate_loop (Suc n) t =
     (let candidate = next_id t; t' = t\<lparr>next_id := next_request_id candidate\<rparr> in
      if candidate \<notin> active_ids t'
      then (Inr candidate, t'\<lparr>active_ids := insert candidate (active_ids t'),
                              terminal_ids := terminal_ids t' - {candidate}\<rparr>)
      else allocate_loop n t')"

definition allocate :: "request_tracker \<Rightarrow> (protocol_error, nat) result \<times> request_tracker" where
  "allocate t = allocate_loop 65535 t"

definition reserve :: "int \<Rightarrow> request_tracker \<Rightarrow> (protocol_error, unit) result \<times> request_tracker" where
  "reserve i t =
     (if \<not> (1 \<le> i \<and> i \<le> 65535) \<or> nat i \<in> active_ids t then (Inl RequestStateError, t)
      else (Inr (), t\<lparr>active_ids := insert (nat i) (active_ids t),
                      terminal_ids := terminal_ids t - {nat i}\<rparr>))"

definition observe_response :: "response \<Rightarrow> request_tracker \<Rightarrow> (protocol_error, unit) result \<times> request_tracker" where
  "observe_response r t =
     (if request_id r \<notin> active_ids t then (Inl RequestStateError, t)
      else if terminal r
      then (Inr (), t\<lparr>active_ids := active_ids t - {request_id r},
                      terminal_ids := insert (request_id r) (terminal_ids t)\<rparr>)
      else (Inr (), t))"

definition release :: "nat \<Rightarrow> request_tracker \<Rightarrow> request_tracker" where
  "release i t = t\<lparr>active_ids := active_ids t - {i}\<rparr>"

definition clear_requests :: "request_tracker \<Rightarrow> request_tracker" where
  "clear_requests t = t\<lparr>active_ids := {}, terminal_ids := {}, next_id := 1\<rparr>"

record event_tracker =
  last_sequence :: "nat option"
  resync_required :: bool

definition new_event_tracker :: event_tracker where
  "new_event_tracker = \<lparr>last_sequence = None, resync_required = False\<rparr>"

definition expected_sequence :: "event_tracker \<Rightarrow> nat" where
  "expected_sequence t =
     (case last_sequence t of None \<Rightarrow> 1 | Some n \<Rightarrow> if n = 65535 then 1 else n + 1)"

definition observe_event :: "event \<Rightarrow> event_tracker \<Rightarrow> bool \<times> event_tracker" where
  "observe_event e t =
     (let contiguous = (e_sequence e = expected_sequence t);
          t' = (if \<not> contiguous then t\<lparr>resync_required := True\<rparr> else t)
      in (contiguous, t'\<lparr>last_sequence := Some (e_sequence e)\<rparr>))"

definition replace_status :: "event_tracker \<Rightarrow> event_tracker" where
  "replace_status t = t\<lparr>resync_required := False\<rparr>"

fun observe_events :: "event list \<Rightarrow> event_tracker \<Rightarrow> event_tracker" where
  "observe_events [] t = t"
| "observe_events (e # es) t = observe_events es (snd (observe_event e t))"

text \<open>The wire's numbering: 1, 2, ..., 65535, 1, ...\<close>

fun successive :: "nat \<Rightarrow> nat list \<Rightarrow> bool" where
  "successive n [] = True"
| "successive n (m # ms) = (m = n \<and> successive (if n = 65535 then 1 else n + 1) ms)"

section \<open>Allocation\<close>

definition tracker_ok :: "request_tracker \<Rightarrow> bool" where
  "tracker_ok t = (active_ids t \<subseteq> {1..65535} \<and> 1 \<le> next_id t \<and> next_id t \<le> 65535)"

definition nth_candidate :: "nat \<Rightarrow> nat \<Rightarrow> nat" where
  "nth_candidate start k = (start - 1 + k) mod 65535 + 1"

lemma nth_candidate_0: "1 \<le> s \<Longrightarrow> s \<le> 65535 \<Longrightarrow> nth_candidate s 0 = s"
  by (simp add: nth_candidate_def)

lemma nth_candidate_Suc:
  "1 \<le> s \<Longrightarrow> s \<le> 65535 \<Longrightarrow> nth_candidate (next_request_id s) k = nth_candidate s (Suc k)"
  by (auto simp: nth_candidate_def next_request_id_def mod_Suc_eq)

lemma allocate_loop_result:
  assumes "1 \<le> next_id t" "next_id t \<le> 65535"
  shows "case allocate_loop n t of
      (Inr i, t') \<Rightarrow> i \<notin> active_ids t \<and> 1 \<le> i \<and> i \<le> 65535 \<and> active_ids t' = insert i (active_ids t)
        \<and> terminal_ids t' = terminal_ids t - {i} \<and> 1 \<le> next_id t' \<and> next_id t' \<le> 65535
    | (Inl e, t') \<Rightarrow> e = RequestStateError \<and> (\<forall>k<n. nth_candidate (next_id t) k \<in> active_ids t)"
  using assms
proof (induction n arbitrary: t)
  case (Suc n)
  show ?case
  proof (cases "next_id t \<in> active_ids t")
    case False
    with Suc.prems show ?thesis by (auto simp: Let_def next_request_id_def)
  next
    case True
    let ?t = "t\<lparr>next_id := next_request_id (next_id t)\<rparr>"
    have step: "allocate_loop (Suc n) t = allocate_loop n ?t" using True by (simp add: Let_def)
    have "1 \<le> next_id ?t" "next_id ?t \<le> 65535" using Suc.prems by (auto simp: next_request_id_def)
    note IH = Suc.IH [OF this]
    have "\<forall>k<Suc n. nth_candidate (next_id t) k \<in> active_ids t"
      if "\<forall>k<n. nth_candidate (next_request_id (next_id t)) k \<in> active_ids t"
      using that True Suc.prems nth_candidate_0 nth_candidate_Suc
      by (auto simp: less_Suc_eq_0_disj)
    then show ?thesis using IH unfolding step by (auto split: prod.splits sum.splits)
  qed
qed simp

lemma candidates_cover:
  assumes "1 \<le> s" "s \<le> 65535" "1 \<le> i" "i \<le> 65535"
  shows "\<exists>k<65535. nth_candidate s k = i"
proof -
  let ?k = "(i - 1 + 65535 - (s - 1)) mod 65535"
  have "(s - 1 + ?k) mod 65535 = (s - 1 + (i - 1 + 65535 - (s - 1))) mod 65535"
    by (simp add: mod_add_right_eq)
  also have "\<dots> = (i - 1 + 65535) mod 65535" using assms by simp
  also have "\<dots> = i - 1" using assms by (subst mod_add_self2) (rule mod_less, linarith)
  finally have "nth_candidate s ?k = i" using assms by (simp add: nth_candidate_def)
  moreover have "?k < 65535" by simp
  ultimately show ?thesis by blast
qed

section \<open>Properties\<close>

text \<open>
  \<open>allocate\<close> yields an unused 16-bit identifier and marks exactly it active whenever one of
  the 65535 identifiers is free, wherever the wrapping counter stands; it fails, with
  \<open>RequestStateError\<close>, only when all of them are active.
\<close>

theorem allocate_succeeds_iff_free:
  assumes "tracker_ok t"
  shows "if {1..65535} \<subseteq> active_ids t then fst (allocate t) = Inl RequestStateError
     else \<exists>i t'. allocate t = (Inr i, t') \<and> i \<in> {1..65535} - active_ids t
        \<and> active_ids t' = insert i (active_ids t) \<and> i \<notin> terminal_ids t' \<and> tracker_ok t'"
proof -
  have nx: "1 \<le> next_id t" "next_id t \<le> 65535" and sub: "active_ids t \<subseteq> {1..65535}"
    using assms by (auto simp: tracker_ok_def)
  note res = allocate_loop_result [OF nx, of 65535]
  obtain x t' where al: "allocate_loop 65535 t = (x, t')" by (cases "allocate_loop 65535 t")
  show ?thesis
  proof (cases x)
    case (Inl e)
    then have all: "\<forall>k<65535. nth_candidate (next_id t) k \<in> active_ids t" "e = RequestStateError"
      using res al by auto
    have "{1..65535} \<subseteq> active_ids t"
      using candidates_cover [OF nx] all(1) by (metis atLeastAtMost_iff subsetI)
    then show ?thesis using al Inl all(2) by (simp add: allocate_def)
  next
    case (Inr i)
    then show ?thesis using res al sub by (auto simp: allocate_def tracker_ok_def)
  qed
qed

theorem allocate_succeeds_iff_free_witness:
  "tracker_ok \<lparr>active_ids = {65535}, terminal_ids = {1}, next_id = 65535\<rparr>
   \<and> allocate \<lparr>active_ids = {65535}, terminal_ids = {1}, next_id = 65535\<rparr>
     = (Inr 1, \<lparr>active_ids = {1, 65535}, terminal_ids = {}, next_id = 2\<rparr>)"
proof -
  let ?t = "\<lparr>active_ids = {65535}, terminal_ids = {1}, next_id = 65535\<rparr> :: request_tracker"
  have h: "tracker_ok ?t" by (simp add: tracker_ok_def)
  have free: "\<not> {1..65535} \<subseteq> active_ids ?t"
  proof
    assume "{1..65535} \<subseteq> active_ids ?t"
    then have "(1::nat) \<in> active_ids ?t" by (rule subsetD) simp
    then show False by simp
  qed
  from allocate_succeeds_iff_free [OF h] free
  have "\<exists>i t'. allocate ?t = (Inr i, t')" by auto
  moreover have "allocate ?t = (Inr 1, \<lparr>active_ids = {1, 65535}, terminal_ids = {}, next_id = 2\<rparr>)"
  proof -
    have "allocate ?t = allocate_loop (Suc (Suc 65533)) ?t" by (simp add: allocate_def)
    then show ?thesis unfolding allocate_loop.simps by (auto simp: Let_def next_request_id_def)
  qed
  ultimately show ?thesis using h by simp
qed

text \<open>
  Once the terminal response of a request has been accepted, every further response with
  that identifier, a second terminal included, is refused until the identifier is allocated or
  reserved again; observing refused responses changes nothing.
\<close>

theorem terminal_accepted_once:
  assumes "observe_response r t = (Inr (), t')" "terminal r" "request_id r' = request_id r"
  shows "observe_response r' t' = (Inl RequestStateError, t')"
  using assms by (auto simp: observe_response_def split: if_splits)

theorem terminal_accepted_once_witness:
  "observe_response \<lparr>request_id = 3, r_kind = RK_DONE, r_fields = [], r_code = None, r_name = None\<rparr>
      \<lparr>active_ids = {3, 4}, terminal_ids = {}, next_id = 5\<rparr>
    = (Inr (), \<lparr>active_ids = {4}, terminal_ids = {3}, next_id = 5\<rparr>)
   \<and> observe_response \<lparr>request_id = 3, r_kind = RK_ERROR, r_fields = [], r_code = None, r_name = None\<rparr>
      \<lparr>active_ids = {4}, terminal_ids = {3}, next_id = 5\<rparr>
    = (Inl RequestStateError, \<lparr>active_ids = {4}, terminal_ids = {3}, next_id = 5\<rparr>)"
proof -
  let ?r = "\<lparr>request_id = 3, r_kind = RK_DONE, r_fields = [], r_code = None, r_name = None\<rparr> :: response"
  have h: "observe_response ?r \<lparr>active_ids = {3, 4}, terminal_ids = {}, next_id = 5\<rparr>
    = (Inr (), \<lparr>active_ids = {4}, terminal_ids = {3}, next_id = 5\<rparr>)" "terminal ?r"
    by (simp_all add: observe_response_def terminal_def)
  show ?thesis
    using h terminal_accepted_once [OF h, of "\<lparr>request_id = 3, r_kind = RK_ERROR, r_fields = [],
        r_code = None, r_name = None\<rparr>"] by simp
qed

text \<open>
  After any run of events the tracker asks for resynchronisation exactly when it asked
  before or the event numbers were not the successive ones, wrap-around from 65535 to 1 included.
\<close>

theorem resync_iff_gap:
  "resync_required (observe_events es t) =
     (if successive (expected_sequence t) (map e_sequence es) then resync_required t else True)"
proof (induction es arbitrary: t)
  case (Cons e es)
  have "expected_sequence (snd (observe_event e t)) = (if e_sequence e = 65535 then 1 else e_sequence e + 1)"
    by (simp add: observe_event_def expected_sequence_def Let_def)
  moreover have "resync_required (snd (observe_event e t)) \<longleftrightarrow>
      resync_required t \<or> e_sequence e \<noteq> expected_sequence t"
    by (simp add: observe_event_def Let_def)
  ultimately show ?case using Cons by auto
qed simp

end
