(* ===== verification/Client.thy ===== *)
theory Client
  imports Transport Parsing Tracking "HOL-Library.Code_Target_Nat"
begin

text \<open>
  The protocol client (\<open>host/src/cs71_protocol/client.py\<close>): discovery, activation, correlated
  requests, out-of-band stop and recovery. A method maps the client's state to its result or
  exception and the new state, or to \<open>None\<close> when the fuel of one of its loops runs out; the
  transport, the clock and the reset hook act on a world of their own. The observer callbacks
  are absent, as in the daemon.
\<close>

section \<open>State and calls\<close>

record 'w client_env =
  ce_io :: "'w stream_io"
  ce_reset :: "('w \<Rightarrow> (protocol_error, unit) result \<times> 'w) option"
  ce_timeout :: int
  ce_fuel :: nat

record 'w client =
  cl_world :: 'w
  cl_reader :: line_reader
  cl_mode :: session_mode
  cl_crc_enabled :: bool
  cl_requests :: request_tracker
  cl_events :: event_tracker
  cl_status :: "status option"

definition new_client :: "'w \<Rightarrow> 'w client" where
  "new_client w = \<lparr> cl_world = w, cl_reader = new_line_reader, cl_mode = SM_V1, cl_crc_enabled = False,
     cl_requests = new_request_tracker, cl_events = new_event_tracker, cl_status = None \<rparr>"

type_synonym ('w, 'a) ccall = "'w client \<Rightarrow> ((protocol_error, 'a) result \<times> 'w client) option"

definition cbind :: "('w, 'a) ccall \<Rightarrow> ('a \<Rightarrow> ('w, 'b) ccall) \<Rightarrow> ('w, 'b) ccall" where
  "cbind m f c =
     (case m c of
        None \<Rightarrow> None
      | Some (Inl e, c') \<Rightarrow> Some (Inl e, c')
      | Some (Inr x, c') \<Rightarrow> f x c')"

text \<open>\<open>try: ... except Exception as exc: ...\<close>\<close>

definition ccatch :: "('w, 'a) ccall \<Rightarrow> (protocol_error \<Rightarrow> ('w, 'a) ccall) \<Rightarrow> ('w, 'a) ccall" where
  "ccatch m h c = (case m c of Some (Inl e, c') \<Rightarrow> h e c' | r \<Rightarrow> r)"

text \<open>\<open>try: x = ... except Exception as exc: ...\<close> followed by the code that uses \<open>x\<close>.\<close>

definition cbranch :: "('w, 'a) ccall \<Rightarrow> (protocol_error \<Rightarrow> ('w, 'b) ccall) \<Rightarrow> ('a \<Rightarrow> ('w, 'b) ccall) \<Rightarrow> ('w, 'b) ccall" where
  "cbranch m h f c =
     (case m c of
        None \<Rightarrow> None
      | Some (Inl e, c') \<Rightarrow> h e c'
      | Some (Inr x, c') \<Rightarrow> f x c')"

definition creturn :: "'a \<Rightarrow> ('w, 'a) ccall" where
  "creturn x c = Some (Inr x, c)"

definition craise :: "protocol_error \<Rightarrow> ('w, 'a) ccall" where
  "craise e c = Some (Inl e, c)"

definition clift :: "(protocol_error, 'a) result \<Rightarrow> ('w, 'a) ccall" where
  "clift r c = Some (r, c)"

definition cupdate :: "('w client \<Rightarrow> 'w client) \<Rightarrow> ('w, unit) ccall" where
  "cupdate f c = Some (Inr (), f c)"

definition crequests :: "(request_tracker \<Rightarrow> (protocol_error, 'a) result \<times> request_tracker) \<Rightarrow> ('w, 'a) ccall" where
  "crequests f c = (case f (cl_requests c) of (r, t) \<Rightarrow> Some (r, c\<lparr> cl_requests := t \<rparr>))"

definition cmonotonic :: "'w client_env \<Rightarrow> ('w, int) ccall" where
  "cmonotonic env c = (case io_monotonic (ce_io env) (cl_world c) of (t, w) \<Rightarrow> Some (Inr t, c\<lparr> cl_world := w \<rparr>))"

definition cread_line :: "'w client_env \<Rightarrow> int \<Rightarrow> bool \<Rightarrow> ('w, string) ccall" where
  "cread_line env timeout v2 c =
     (case read_line (ce_io env) (ce_fuel env) timeout v2 (cl_reader c) (cl_world c) of
        None \<Rightarrow> None
      | Some (r, reader, w) \<Rightarrow> Some (r, c\<lparr> cl_reader := reader, cl_world := w \<rparr>))"

section \<open>Bytes and lines\<close>

definition write_bytes :: "'w client_env \<Rightarrow> string \<Rightarrow> ('w, unit) ccall" where
  "write_bytes env data c =
     (case io_write (ce_io env) data (cl_world c) of
        (Inl e, w) \<Rightarrow> Some (Inl e, c\<lparr> cl_world := w \<rparr>)
      | (Inr written, w) \<Rightarrow>
          Some (if written \<noteq> None \<and> written \<noteq> Some (int (length data)) then Inl OSError else Inr (),
                c\<lparr> cl_world := w \<rparr>))"

text \<open>\<open>UnicodeEncodeError\<close> is a \<open>ValueError\<close>.\<close>

definition write_v1 :: "'w client_env \<Rightarrow> string \<Rightarrow> ('w, unit) ccall" where
  "write_v1 env command =
     (if LF \<in> set command \<or> CR \<in> set command then craise ParseError
      else if \<not> is_ascii command then craise ValueError
      else write_bytes env (command @ [LF]))"

definition read_v1 :: "'w client_env \<Rightarrow> int option \<Rightarrow> ('w, string) ccall" where
  "read_v1 env timeout =
     cread_line env (case timeout of None \<Rightarrow> ce_timeout env | Some t \<Rightarrow> t) False"

definition read_v2 :: "'w client_env \<Rightarrow> bool option \<Rightarrow> int \<Rightarrow> ('w, v2_item) ccall" where
  "read_v2 env crc_required timeout =
     cbind (cread_line env timeout True) (\<lambda>line c.
       clift (parse_v2_line line (case crc_required of None \<Rightarrow> cl_crc_enabled c | Some b \<Rightarrow> b)) c)"

definition wait_ready :: "'w client_env \<Rightarrow> ('w, unit) ccall" where
  "wait_ready env = cbind (read_v1 env None) (\<lambda>line.
     if line \<noteq> ''Ready'' then craise ParseError else creturn ())"

section \<open>Recovery\<close>

text \<open>The loop that waits for the exact line \<open>stopped\<close> until a deadline.\<close>

fun await_stopped :: "'w client_env \<Rightarrow> nat \<Rightarrow> int \<Rightarrow> ('w, unit) ccall" where
  "await_stopped env 0 deadline = (\<lambda>c. None)"
| "await_stopped env (Suc n) deadline =
     cbind (cmonotonic env) (\<lambda>t.
       if deadline - t \<le> 0 then craise TimeoutError
       else cbind (cread_line env (deadline - t) False) (\<lambda>line.
         if line = ''stopped'' then creturn () else await_stopped env n deadline))"

definition send_stop :: "'w client_env \<Rightarrow> ('w, unit) ccall" where
  "send_stop env =
     cbind (write_v1 env ''stop'') (\<lambda>_.
     cbind (cmonotonic env) (\<lambda>t. await_stopped env (ce_fuel env) (t + ce_timeout env)))"

definition verify_v1 :: "'w client_env \<Rightarrow> int \<Rightarrow> ('w, unit) ccall" where
  "verify_v1 env verify_deadline =
     cbind (cmonotonic env) (\<lambda>t.
       if verify_deadline - t \<le> 0 then craise TimeoutError
       else cbind (read_v1 env (Some (verify_deadline - t))) (\<lambda>line.
         if line \<noteq> ''Ready'' then craise ParseError
         else cbind (write_v1 env ''ping'') (\<lambda>_.
              cbind (cmonotonic env) (\<lambda>t.
                if verify_deadline - t \<le> 0 then craise TimeoutError
                else cbind (read_v1 env (Some (verify_deadline - t))) (\<lambda>line.
                  if line \<noteq> '' ok'' then craise ParseError else creturn ())))))"

definition creset :: "('w \<Rightarrow> (protocol_error, unit) result \<times> 'w) \<Rightarrow> ('w, unit) ccall" where
  "creset hook c = (case hook (cl_world c) of (r, w) \<Rightarrow> Some (r, c\<lparr> cl_world := w \<rparr>))"

definition recover_to_v1 :: "'w client_env \<Rightarrow> ('w, unit) ccall" where
  "recover_to_v1 env =
     cbind (cupdate (\<lambda>c. c\<lparr> cl_requests := clear_requests (cl_requests c), cl_mode := SM_UNCERTAIN,
                           cl_crc_enabled := False \<rparr>)) (\<lambda>_.
     cbind (ccatch (send_stop env) (\<lambda>_. creturn ())) (\<lambda>_.
     case ce_reset env of
       None \<Rightarrow> craise (RecoveryError False)
     | Some hook \<Rightarrow>
         cbind (ccatch (creset hook) (\<lambda>_. craise (RecoveryError False))) (\<lambda>_.
         cbind (cupdate (\<lambda>c. c\<lparr> cl_reader := reader_clear (cl_reader c) \<rparr>)) (\<lambda>_.
         cbind (cmonotonic env) (\<lambda>t.
         cbind (ccatch (verify_v1 env (t + ce_timeout env)) (\<lambda>_. craise (RecoveryError False))) (\<lambda>_.
           cupdate (\<lambda>c. c\<lparr> cl_mode := SM_V1, cl_crc_enabled := False,
             cl_requests := clear_requests (cl_requests c), cl_events := new_event_tracker,
             cl_status := None \<rparr>)))))))"

text \<open>\<open>_fail_request\<close> never returns: a failed recovery is the only other exception of
  \<open>recover_to_v1\<close>.\<close>

definition fail_request :: "'w client_env \<Rightarrow> ('w, 'a) ccall" where
  "fail_request env =
     cbind (cupdate (\<lambda>c. c\<lparr> cl_requests := clear_requests (cl_requests c) \<rparr>)) (\<lambda>_.
     cbind (ccatch (recover_to_v1 env) (\<lambda>e. craise (case e of RecoveryError _ \<Rightarrow> RecoveryError False | _ \<Rightarrow> e)))
       (\<lambda>_. craise (RecoveryError True)))"

definition v1_ping_barrier :: "'w client_env \<Rightarrow> ('w, unit) ccall" where
  "v1_ping_barrier env =
     ccatch (cbind (write_v1 env ''ping'') (\<lambda>_. cbind (read_v1 env None) (\<lambda>line.
               if line \<noteq> '' ok'' then craise ParseError else creturn ())))
       (\<lambda>_. fail_request env)"

text \<open>\<open>except RecoveryError: raise\<close> before \<open>except Exception\<close>.\<close>

definition cguard :: "('w, 'a) ccall \<Rightarrow> ('w, 'a) ccall \<Rightarrow> ('w, 'a) ccall" where
  "cguard m h = ccatch m (\<lambda>e. case e of RecoveryError b \<Rightarrow> craise (RecoveryError b) | _ \<Rightarrow> h)"

definition discover :: "'w client_env \<Rightarrow> ('w, bool) ccall" where
  "discover env =
     cguard (cbind (write_v1 env ''protocol:2?'') (\<lambda>_. cbind (read_v1 env None) (\<lambda>line.
       if line = ''error:busy'' then
         cbind (v1_ping_barrier env) (\<lambda>_.
         cbind (write_v1 env ''protocol:2?'') (\<lambda>_. cbind (read_v1 env None) (\<lambda>line.
           cbind (clift (classify_discovery line)) (\<lambda>reply. creturn (reply = AVAILABLE)))))
       else cbind (clift (classify_discovery line)) (\<lambda>reply. creturn (reply = AVAILABLE)))))
     (fail_request env)"

definition out_of_band_stop :: "'w client_env \<Rightarrow> ('w, unit) ccall" where
  "out_of_band_stop env =
     ccatch (cbind (send_stop env) (\<lambda>_. cupdate (\<lambda>c. c\<lparr> cl_requests := clear_requests (cl_requests c) \<rparr>)))
       (\<lambda>_. fail_request env)"

section \<open>Requests\<close>

definition start_request :: "'w client_env \<Rightarrow> string \<Rightarrow> int option \<Rightarrow> ('w, nat) ccall" where
  "start_request env command wanted c =
     (if cl_mode c \<noteq> SM_V2 then craise ProtocolError c
      else cbind (case wanted of
                    None \<Rightarrow> crequests allocate
                  | Some i \<Rightarrow> cbind (crequests (reserve i)) (\<lambda>_. creturn (nat i))) (\<lambda>i.
           cbind (ccatch (\<lambda>c. clift (format_request (int i) command (cl_crc_enabled c)) c)
                   (\<lambda>e. cbind (cupdate (\<lambda>c. c\<lparr> cl_requests := release i (cl_requests c) \<rparr>)) (\<lambda>_. craise e))) (\<lambda>frame.
           cbind (ccatch (write_bytes env (frame @ [LF])) (\<lambda>_. fail_request env)) (\<lambda>_.
             creturn i))) c)"

text \<open>\<open>fields.update(...)\<close> over all responses, later values replacing earlier ones in place.\<close>

fun dict_set :: "fields \<Rightarrow> string \<Rightarrow> string \<Rightarrow> fields" where
  "dict_set [] k v = [(k, v)]"
| "dict_set ((k', v') # rest) k v = (if k' = k then (k, v) # rest else (k', v') # dict_set rest k v)"

definition merged_fields :: "response list \<Rightarrow> fields" where
  "merged_fields rs = fold (\<lambda>r acc. fold (\<lambda>(k, v) d. dict_set d k v) (r_fields r) acc) rs []"

definition make_completion :: "nat \<Rightarrow> response list \<Rightarrow> response \<Rightarrow> (protocol_error, completion) result" where
  "make_completion i responses item =
     bind_r (if r_kind item = RK_DONE then Inr None else bind_r (fault_from_response item) (\<lambda>f. Inr (Some f))) (\<lambda>error.
       Inr \<lparr> c_request_id = i, c_succeeded = (r_kind item = RK_DONE), c_fields = merged_fields responses,
             c_responses = responses, c_error = error \<rparr>)"

record 'w request_options =
  ro_timeout :: "int option"
  ro_response_crc :: "bool option"
  ro_interrupt :: "('w \<Rightarrow> (protocol_error, bool) result \<times> 'w) option"
  ro_poll :: int

definition default_options :: "'w request_options" where
  "default_options = \<lparr> ro_timeout = None, ro_response_crc = None, ro_interrupt = None, ro_poll = 10000000 \<rparr>"

text \<open>The interruption check of one turn: the time left afterwards, or an exception. Only a
  trusted stop interrupts the request.\<close>

definition check_interrupt ::
    "'w client_env \<Rightarrow> 'w request_options \<Rightarrow> int \<Rightarrow> int \<Rightarrow> ('w, int) ccall" where
  "check_interrupt env opts deadline remaining =
     (case ro_interrupt opts of
        None \<Rightarrow> creturn remaining
      | Some requested \<Rightarrow>
          cbind (ccatch (\<lambda>c. case requested (cl_world c) of (r, w) \<Rightarrow> Some (r, c\<lparr> cl_world := w \<rparr>))
                   (\<lambda>_. fail_request env)) (\<lambda>should_interrupt.
          cbind (cmonotonic env) (\<lambda>t.
            if deadline - t \<le> 0 then fail_request env
            else if should_interrupt then
              cbind (out_of_band_stop env) (\<lambda>_. craise RequestInterruptedError)
            else creturn (deadline - t))))"

text \<open>One received item: \<open>Some r\<close> is a response of this request, \<open>None\<close> an event.\<close>

definition accept_item :: "'w client_env \<Rightarrow> nat \<Rightarrow> v2_item \<Rightarrow> ('w, response option) ccall" where
  "accept_item env i item =
     (case item of
        V2_Event e \<Rightarrow>
          cbind (cupdate (\<lambda>c. c\<lparr> cl_events := snd (observe_event e (cl_events c)) \<rparr>)) (\<lambda>_. creturn None)
      | V2_Stopped \<Rightarrow> fail_request env
      | V2_Response r \<Rightarrow>
          ccatch (cbind (crequests (observe_response r)) (\<lambda>_.
                    if request_id r \<noteq> i then craise ProtocolError else creturn (Some r)))
            (\<lambda>_. fail_request env))"

fun request_loop ::
    "'w client_env \<Rightarrow> 'w request_options \<Rightarrow> nat \<Rightarrow> nat \<Rightarrow> int \<Rightarrow> response list \<Rightarrow> ('w, completion) ccall" where
  "request_loop env opts i 0 deadline responses = (\<lambda>c. None)"
| "request_loop env opts i (Suc n) deadline responses =
     cbind (cmonotonic env) (\<lambda>t.
       if deadline - t \<le> 0 then fail_request env
       else cbind (check_interrupt env opts deadline (deadline - t)) (\<lambda>remaining.
         cbranch (read_v2 env (ro_response_crc opts)
                    (if ro_interrupt opts = None then remaining else min remaining (ro_poll opts)))
           (\<lambda>e. if e = TimeoutError \<and> ro_interrupt opts \<noteq> None then
                   cbind (cmonotonic env) (\<lambda>t.
                     if deadline - t > 0 then request_loop env opts i n deadline responses
                     else fail_request env)
                 else fail_request env)
           (\<lambda>item. cbind (accept_item env i item) (\<lambda>accepted.
              case accepted of
                None \<Rightarrow> request_loop env opts i n deadline responses
              | Some r \<Rightarrow>
                  if terminal r then clift (make_completion i (responses @ [r]) r)
                  else request_loop env opts i n deadline (responses @ [r])))))"

definition request :: "'w client_env \<Rightarrow> 'w request_options \<Rightarrow> string \<Rightarrow> int option \<Rightarrow> ('w, completion) ccall" where
  "request env opts command wanted =
     (if ro_poll opts \<le> 0 then craise ValueError
      else let effective_timeout = (case ro_timeout opts of None \<Rightarrow> ce_timeout env | Some t \<Rightarrow> t) in
        if effective_timeout \<le> 0 then craise ValueError
        else cbind (start_request env command wanted) (\<lambda>i.
             cbind (cmonotonic env) (\<lambda>t. request_loop env opts i (ce_fuel env) (t + effective_timeout) [])))"

section \<open>Queries, CRC and activation\<close>

definition query :: "'w client_env \<Rightarrow> int option \<Rightarrow> string \<Rightarrow> (fields \<Rightarrow> (protocol_error, 'a) result) \<Rightarrow> ('w, 'a) ccall" where
  "query env wanted command decode =
     cbind (request env default_options command wanted) (\<lambda>completion.
       if \<not> c_succeeded completion then craise ProtocolError else clift (decode (c_fields completion)))"

definition get_status :: "'w client_env \<Rightarrow> int option \<Rightarrow> ('w, status) ccall" where
  "get_status env wanted = cbind (query env wanted ''status'' status_from_fields) (\<lambda>s.
     cbind (cupdate (\<lambda>c. c\<lparr> cl_status := Some s, cl_events := replace_status (cl_events c) \<rparr>)) (\<lambda>_. creturn s))"

definition decode_protocol_version :: "fields \<Rightarrow> (protocol_error, nat) result" where
  "decode_protocol_version fs =
     bind_r (of_option ParseError (map_of fs ''protocol'')) (\<lambda>text.
     bind_r (uint_text text 0 None) (\<lambda>version. if version \<noteq> 2 then Inl ParseError else Inr version))"

definition get_protocol_version :: "'w client_env \<Rightarrow> int option \<Rightarrow> ('w, nat) ccall" where
  "get_protocol_version env wanted = query env wanted ''protocolversion'' decode_protocol_version"

definition get_capabilities :: "'w client_env \<Rightarrow> int option \<Rightarrow> ('w, capabilities) ccall" where
  "get_capabilities env wanted = query env wanted ''capabilities'' capabilities_from_fields"

definition get_queue :: "'w client_env \<Rightarrow> int option \<Rightarrow> ('w, queue_snapshot) ccall" where
  "get_queue env wanted = query env wanted ''queue'' queue_from_fields"

definition confirms :: "completion \<Rightarrow> string \<Rightarrow> string \<Rightarrow> (protocol_error, bool) result" where
  "confirms completion name value =
     (if \<not> c_succeeded completion then Inr False
      else bind_r (terminal_fields completion) (\<lambda>fs. Inr (map_of fs name = Some value)))"

definition enable_crc :: "'w client_env \<Rightarrow> int option \<Rightarrow> ('w, completion) ccall" where
  "enable_crc env wanted c =
     (if cl_crc_enabled c then craise ProtocolError c
      else cbind (request env (default_options\<lparr> ro_response_crc := Some True \<rparr>) ''crc:on'' wanted) (\<lambda>completion.
           cbind (clift (confirms completion ''crc'' ''on'')) (\<lambda>ok.
             if \<not> ok then fail_request env
             else cbind (cupdate (\<lambda>c. c\<lparr> cl_crc_enabled := True \<rparr>)) (\<lambda>_. creturn completion))) c)"

definition disable_crc :: "'w client_env \<Rightarrow> int option \<Rightarrow> ('w, completion) ccall" where
  "disable_crc env wanted c =
     (if \<not> cl_crc_enabled c then craise ProtocolError c
      else cbind (request env default_options ''crc:off'' wanted) (\<lambda>completion.
           cbind (clift (confirms completion ''crc'' ''off'')) (\<lambda>ok.
             if \<not> ok then fail_request env
             else cbind (cupdate (\<lambda>c. c\<lparr> cl_crc_enabled := False \<rparr>)) (\<lambda>_. creturn completion))) c)"

text \<open>Recover and report: \<open>recovered\<close> tells whether v1 was verified.\<close>

definition recover_and_raise :: "'w client_env \<Rightarrow> ('w, 'a) ccall" where
  "recover_and_raise env =
     cbind (ccatch (recover_to_v1 env) (\<lambda>e. craise (case e of RecoveryError _ \<Rightarrow> RecoveryError False | _ \<Rightarrow> e)))
       (\<lambda>_. craise (RecoveryError True))"

text \<open>\<open>leave_v2\<close> catches \<open>ProtocolError\<close> only; \<open>OSError\<close> and \<open>ValueError\<close> are not among its
  subclasses.\<close>

definition leave_v2 :: "'w client_env \<Rightarrow> int option \<Rightarrow> ('w, completion) ccall" where
  "leave_v2 env wanted =
     cbind (ccatch
       (cbind (request env default_options ''protocol:1'' wanted) (\<lambda>completion.
        cbind (clift (confirms completion ''protocol'' ''1'')) (\<lambda>ok.
          if \<not> ok then craise ProtocolError else creturn completion)))
       (\<lambda>e. case e of
          RecoveryError b \<Rightarrow> craise (RecoveryError b)
        | OSError \<Rightarrow> craise OSError
        | ValueError \<Rightarrow> craise ValueError
        | _ \<Rightarrow> recover_and_raise env)) (\<lambda>completion.
     cbind (cupdate (\<lambda>c. c\<lparr> cl_mode := SM_V1, cl_crc_enabled := False,
       cl_requests := clear_requests (cl_requests c), cl_events := new_event_tracker \<rparr>)) (\<lambda>_.
       creturn completion))"

definition activate_known_available :: "'w client_env \<Rightarrow> ('w, bool) ccall" where
  "activate_known_available env =
     cguard
       (cbind (write_v1 env ''protocol:2'') (\<lambda>_. cbind (read_v1 env None) (\<lambda>line.
          if line \<noteq> ''protocol:2 ready'' then craise ParseError
          else cbind (cupdate (\<lambda>c. c\<lparr> cl_mode := SM_V2, cl_crc_enabled := False,
                 cl_requests := clear_requests (cl_requests c), cl_events := new_event_tracker \<rparr>)) (\<lambda>_.
               cbind (get_protocol_version env None) (\<lambda>_. cbind (get_capabilities env None) (\<lambda>_.
               cbind (get_status env None) (\<lambda>_. creturn True)))))))
       (recover_and_raise env)"

definition activate :: "'w client_env \<Rightarrow> ('w, bool) ccall" where
  "activate env = cbind (discover env) (\<lambda>available.
     if \<not> available then creturn False else activate_known_available env)"

section \<open>A program logic for calls\<close>

text \<open>Partial correctness: what holds after a return and after an exception.\<close>

definition triple ::
    "('w client \<Rightarrow> bool) \<Rightarrow> ('w, 'a) ccall \<Rightarrow> ('a \<Rightarrow> 'w client \<Rightarrow> bool) \<Rightarrow> (protocol_error \<Rightarrow> 'w client \<Rightarrow> bool) \<Rightarrow> bool" where
  "triple P m Q E = (\<forall>c r c'. P c \<longrightarrow> m c = Some (r, c') \<longrightarrow> (case r of Inl e \<Rightarrow> E e c' | Inr x \<Rightarrow> Q x c'))"

named_theorems triple_intros \<open>rules of the program logic\<close>

lemma tripleD: "triple P m Q E \<Longrightarrow> P c \<Longrightarrow> m c = Some (r, c') \<Longrightarrow> (case r of Inl e \<Rightarrow> E e c' | Inr x \<Rightarrow> Q x c')"
  by (simp add: triple_def)

lemma triple_conseq:
  "triple P m Q E \<Longrightarrow> (\<And>c. P' c \<Longrightarrow> P c) \<Longrightarrow> (\<And>x c. Q x c \<Longrightarrow> Q' x c) \<Longrightarrow> (\<And>e c. E e c \<Longrightarrow> E' e c) \<Longrightarrow> triple P' m Q' E'"
  unfolding triple_def by (auto split: sum.splits) blast+

lemma triple_pre: "triple P m Q E \<Longrightarrow> (\<And>c. P' c \<Longrightarrow> P c) \<Longrightarrow> triple P' m Q E"
  by (erule triple_conseq) auto

lemma triple_bind [triple_intros]:
  assumes "triple P m Q E" "\<And>x. triple (Q x) (f x) R E"
  shows "triple P (cbind m f) R E"
proof (unfold triple_def, intro allI impI)
  fix c r c' assume "P c" "cbind m f c = Some (r, c')"
  then obtain r1 c1 where m: "m c = Some (r1, c1)"
    by (auto simp: cbind_def split: option.splits)
  from tripleD [OF assms(1) \<open>P c\<close> m] \<open>cbind m f c = _\<close> m
  show "case r of Inl e \<Rightarrow> E e c' | Inr x \<Rightarrow> R x c'"
    by (cases r1) (auto simp: cbind_def dest: tripleD [OF assms(2)])
qed

lemma triple_catch [triple_intros]:
  assumes "triple P m Q E'" "\<And>e. triple (E' e) (h e) Q E"
  shows "triple P (ccatch m h) Q E"
proof (unfold triple_def, intro allI impI)
  fix c r c' assume "P c" "ccatch m h c = Some (r, c')"
  then obtain r1 c1 where m: "m c = Some (r1, c1)"
    by (auto simp: ccatch_def split: option.splits)
  from tripleD [OF assms(1) \<open>P c\<close> m] \<open>ccatch m h c = _\<close> m
  show "case r of Inl e \<Rightarrow> E e c' | Inr x \<Rightarrow> Q x c'"
    by (cases r1) (auto simp: ccatch_def dest: tripleD [OF assms(2)])
qed

lemma triple_return: "(\<And>c. P c \<Longrightarrow> Q x c) \<Longrightarrow> triple P (creturn x) Q E"
  by (auto simp: triple_def creturn_def)

lemma triple_raise: "(\<And>c. P c \<Longrightarrow> E e c) \<Longrightarrow> triple P (craise e) Q E"
  by (auto simp: triple_def craise_def)

lemma triple_lift:
  "(\<And>c x. P c \<Longrightarrow> r = Inr x \<Longrightarrow> Q x c) \<Longrightarrow> (\<And>c e. P c \<Longrightarrow> r = Inl e \<Longrightarrow> E e c) \<Longrightarrow> triple P (clift r) Q E"
  by (auto simp: triple_def clift_def split: sum.splits)

lemma triple_update: "(\<And>c. P c \<Longrightarrow> Q () (f c)) \<Longrightarrow> triple P (cupdate f) Q E"
  by (auto simp: triple_def cupdate_def)

lemma triple_None: "triple P (\<lambda>c. None) Q E"
  by (simp add: triple_def)

lemma triple_if [triple_intros]:
  "(b \<Longrightarrow> triple P m Q E) \<Longrightarrow> (\<not> b \<Longrightarrow> triple P m' Q E) \<Longrightarrow> triple P (if b then m else m') Q E"
  by simp

text \<open>The session part of the state, which input and output do not touch.\<close>

definition session :: "'w client \<Rightarrow> session_mode \<times> bool \<times> request_tracker" where
  "session c = (cl_mode c, cl_crc_enabled c, cl_requests c)"

definition io_keeps :: "('w, 'a) ccall \<Rightarrow> bool" where
  "io_keeps m = (\<forall>c r c'. m c = Some (r, c') \<longrightarrow> session c' = session c)"

lemma io_keeps_triple:
  "io_keeps m \<Longrightarrow> triple (\<lambda>c. P (session c)) m (\<lambda>_ c. P (session c)) (\<lambda>_ c. P (session c))"
  by (auto simp: io_keeps_def triple_def split: sum.splits)

lemma io_keeps_bind: "io_keeps m \<Longrightarrow> (\<And>x. io_keeps (f x)) \<Longrightarrow> io_keeps (cbind m f)"
  unfolding io_keeps_def cbind_def by (fastforce split: option.splits sum.splits prod.splits)

lemma io_keeps_catch: "io_keeps m \<Longrightarrow> (\<And>e. io_keeps (h e)) \<Longrightarrow> io_keeps (ccatch m h)"
  unfolding io_keeps_def ccatch_def by (fastforce split: option.splits sum.splits prod.splits)

lemma io_keeps_pure: "io_keeps (creturn x)" "io_keeps (craise e)" "io_keeps (clift r)" "io_keeps (\<lambda>c. None)"
  by (simp_all add: io_keeps_def creturn_def craise_def clift_def)

lemma io_keeps_if: "io_keeps m \<Longrightarrow> io_keeps m' \<Longrightarrow> io_keeps (if b then m else m')"
  by simp

lemma io_keeps_basic:
  "io_keeps (cmonotonic env)" "io_keeps (cread_line env t v2)" "io_keeps (write_bytes env data)"
  "io_keeps (creset hook)"
  by (auto simp: io_keeps_def session_def cmonotonic_def cread_line_def write_bytes_def creset_def
      split: prod.splits option.splits sum.splits if_splits)

lemmas io_keeps_intros = io_keeps_bind io_keeps_catch io_keeps_if io_keeps_pure io_keeps_basic

lemma io_keeps_write_v1: "io_keeps (write_v1 env command)"
  unfolding write_v1_def by (intro io_keeps_intros)

lemma io_keeps_await: "io_keeps (await_stopped env n deadline)"
proof (induction n)
  case (Suc n)
  then show ?case unfolding await_stopped.simps by (intro io_keeps_intros)
qed (simp only: await_stopped.simps io_keeps_pure)

lemma io_keeps_send_stop: "io_keeps (send_stop env)"
  unfolding send_stop_def by (intro io_keeps_intros io_keeps_write_v1 io_keeps_await)

lemma io_keeps_verify: "io_keeps (verify_v1 env deadline)"
  unfolding verify_v1_def read_v1_def by (intro io_keeps_intros io_keeps_write_v1)

lemma io_keeps_read_v2: "io_keeps (read_v2 env crc t)"
proof -
  have "io_keeps (\<lambda>c. clift (g c) c)" for g :: "'w client \<Rightarrow> (protocol_error, 'b) result"
    by (simp add: io_keeps_def clift_def)
  then show ?thesis unfolding read_v2_def by (intro io_keeps_bind io_keeps_basic)
qed

section \<open>Recovery\<close>

definition idle :: "request_tracker \<Rightarrow> bool" where
  "idle t = (active_ids t = {})"

lemma idle_clear [simp]: "idle (clear_requests t)"
  by (simp add: idle_def clear_requests_def)

text \<open>A client whose session is given up: nothing is outstanding and no CRC is assumed.\<close>

definition given_up :: "session_mode \<Rightarrow> session_mode \<times> bool \<times> request_tracker \<Rightarrow> bool" where
  "given_up mode s = (fst s = mode \<and> \<not> fst (snd s) \<and> idle (snd (snd s)))"

lemma recover_to_v1_outcome:
  "triple (\<lambda>_. True) (recover_to_v1 env) (\<lambda>_ c. given_up SM_V1 (session c))
     (\<lambda>e c. e = RecoveryError False \<and> given_up SM_UNCERTAIN (session c))"
proof -
  have keep: "triple (\<lambda>c. given_up SM_UNCERTAIN (session c)) m (\<lambda>_ c. given_up SM_UNCERTAIN (session c))
      (\<lambda>e c. e = RecoveryError False \<and> given_up SM_UNCERTAIN (session c))"
    if "io_keeps m" "\<And>c e c'. m c \<noteq> Some (Inl e, c') \<or> e = RecoveryError False" for m :: "('a, 'b) ccall"
    using that unfolding io_keeps_def triple_def by (fastforce split: sum.splits)
  have nofail: "ccatch m (\<lambda>_. creturn ()) c \<noteq> Some (Inl e, c')" for m :: "('a, unit) ccall" and c e c'
    by (auto simp: ccatch_def creturn_def split: option.splits prod.splits sum.splits)
  have refail: "ccatch m (\<lambda>_. craise x) c \<noteq> Some (Inl e, c') \<or> e = x" for m :: "('a, 'b) ccall" and c e c' x
    by (auto simp: ccatch_def craise_def split: option.splits prod.splits sum.splits)
  have start: "triple (\<lambda>_. True) (cupdate (\<lambda>c. c\<lparr> cl_requests := clear_requests (cl_requests c),
      cl_mode := SM_UNCERTAIN, cl_crc_enabled := False \<rparr>)) (\<lambda>_ c. given_up SM_UNCERTAIN (session c)) E" for E
    by (rule triple_update) (simp add: given_up_def session_def)
  show ?thesis
  proof (cases "ce_reset env")
    case None
    show ?thesis unfolding recover_to_v1_def None option.case
      by (rule triple_bind [OF start], rule triple_bind [OF keep])
        (auto intro!: io_keeps_intros io_keeps_send_stop triple_raise simp: nofail)
  next
    case (Some hook)
    have fin: "triple (\<lambda>c. given_up SM_UNCERTAIN (session c))
        (cupdate (\<lambda>c. c\<lparr> cl_mode := SM_V1, cl_crc_enabled := False,
           cl_requests := clear_requests (cl_requests c), cl_events := new_event_tracker, cl_status := None \<rparr>))
        (\<lambda>_ c. given_up SM_V1 (session c)) E" for E
      by (rule triple_update) (simp add: given_up_def session_def)
    have clear: "triple (\<lambda>c. given_up SM_UNCERTAIN (session c))
        (cupdate (\<lambda>c. c\<lparr> cl_reader := reader_clear (cl_reader c) \<rparr>)) (\<lambda>_ c. given_up SM_UNCERTAIN (session c)) E" for E
      by (rule triple_update) (simp add: session_def)
    have mono: "cmonotonic env c \<noteq> Some (Inl e, c')" for c e c'
      by (simp add: cmonotonic_def split: prod.splits)
    show ?thesis unfolding recover_to_v1_def Some option.case
      by (rule triple_bind [OF start], rule triple_bind [OF keep], (rule io_keeps_intros io_keeps_send_stop)+,
          simp add: nofail, rule triple_bind [OF keep], (rule io_keeps_intros)+, rule refail,
          rule triple_bind [OF clear], rule triple_bind [OF keep], rule io_keeps_basic, simp add: mono,
          rule triple_bind [OF keep], (rule io_keeps_intros io_keeps_verify)+, rule refail, rule fin)
  qed
qed

text \<open>Giving a request up either verified v1 again or leaves the session uncertain.\<close>

definition failed_closed :: "protocol_error \<Rightarrow> 'w client \<Rightarrow> bool" where
  "failed_closed e c = (\<exists>b. e = RecoveryError b \<and> given_up (if b then SM_V1 else SM_UNCERTAIN) (session c))"

lemma recover_and_raise_outcome:
  "triple (\<lambda>_. True) (recover_and_raise env) Q failed_closed"
  unfolding recover_and_raise_def
proof (rule triple_bind [OF triple_catch [OF recover_to_v1_outcome]])
  show "triple (\<lambda>c. e = RecoveryError False \<and> given_up SM_UNCERTAIN (session c))
      (craise (case e of RecoveryError _ \<Rightarrow> RecoveryError False | _ \<Rightarrow> e))
      (\<lambda>_ c. given_up SM_V1 (session c)) failed_closed" for e
    by (rule triple_raise) (auto simp: failed_closed_def)
  show "triple (\<lambda>c. given_up SM_V1 (session c)) (craise (RecoveryError True)) Q failed_closed"
    by (rule triple_raise) (auto simp: failed_closed_def intro: exI [of _ True])
qed

lemma fail_request_unfold:
  "fail_request env = cbind (cupdate (\<lambda>c. c\<lparr> cl_requests := clear_requests (cl_requests c) \<rparr>))
     (\<lambda>_. recover_and_raise env)"
  by (simp add: fail_request_def recover_and_raise_def)

lemma fail_request_outcome: "triple P (fail_request env) Q failed_closed"
  unfolding fail_request_unfold
  by (rule triple_bind [OF triple_update recover_and_raise_outcome], rule TrueI)

lemma triple_branch:
  assumes "triple P m Q E'" "\<And>e. triple (E' e) (h e) R E" "\<And>x. triple (Q x) (f x) R E"
  shows "triple P (cbranch m h f) R E"
proof (unfold triple_def, intro allI impI)
  fix c r c' assume "P c" "cbranch m h f c = Some (r, c')"
  then obtain r1 c1 where m: "m c = Some (r1, c1)"
    by (auto simp: cbranch_def split: option.splits)
  from tripleD [OF assms(1) \<open>P c\<close> m] \<open>cbranch m h f c = _\<close> m
  show "case r of Inl e \<Rightarrow> E e c' | Inr x \<Rightarrow> R x c'"
    by (cases r1) (auto simp: cbranch_def dest: tripleD [OF assms(2)] tripleD [OF assms(3)])
qed

section \<open>Requests\<close>

text \<open>How a request that was sent may end other than by its completion.\<close>

definition ended_closed :: "protocol_error \<Rightarrow> 'w client \<Rightarrow> bool" where
  "ended_closed e c = (failed_closed e c \<or>
     (e = RequestInterruptedError \<and> cl_mode c = SM_V2 \<and> idle (cl_requests c)))"

lemma fail_request_ended: "triple P (fail_request env) Q ended_closed"
  by (rule triple_conseq [OF fail_request_outcome]) (auto simp: ended_closed_def)

abbreviation in_v2 :: "'w client \<Rightarrow> bool" where
  "in_v2 c \<equiv> fst (session c) = SM_V2"

lemma out_of_band_stop_outcome:
  "triple in_v2 (out_of_band_stop env) (\<lambda>_ c. in_v2 c \<and> idle (cl_requests c)) ended_closed"
proof -
  have "triple in_v2 (cbind (send_stop env) (\<lambda>_. cupdate (\<lambda>c. c\<lparr> cl_requests := clear_requests (cl_requests c) \<rparr>)))
      (\<lambda>_ c. in_v2 c \<and> idle (cl_requests c)) (\<lambda>_ c. in_v2 c)"
    by (rule triple_bind [OF io_keeps_triple [OF io_keeps_send_stop]], rule triple_update) (simp add: session_def)
  then show ?thesis unfolding out_of_band_stop_def
    by (rule triple_catch) (rule fail_request_ended)
qed

lemma io_v2: "io_keeps m \<Longrightarrow> triple in_v2 m (\<lambda>_. in_v2) (\<lambda>_. in_v2)"
  by (rule io_keeps_triple [where P = "\<lambda>s. fst s = SM_V2"])

lemma clock_v2: "triple in_v2 (cmonotonic env) (\<lambda>_. in_v2) E"
  by (auto simp: triple_def cmonotonic_def session_def split: prod.splits)

lemma check_interrupt_outcome: "triple in_v2 (check_interrupt env opts deadline remaining) (\<lambda>_. in_v2) ended_closed"
proof (cases "ro_interrupt opts")
  case None
  then show ?thesis by (auto simp: check_interrupt_def intro: triple_return)
next
  case (Some requested)
  have "io_keeps (\<lambda>c. case requested (cl_world c) of (r, w) \<Rightarrow> Some (r, c\<lparr> cl_world := w \<rparr>))"
    by (auto simp: io_keeps_def session_def split: prod.splits)
  then have poll: "triple in_v2 (ccatch (\<lambda>c. case requested (cl_world c) of (r, w) \<Rightarrow> Some (r, c\<lparr> cl_world := w \<rparr>))
      (\<lambda>_. fail_request env)) (\<lambda>_. in_v2) ended_closed"
    by (rule triple_catch [OF io_v2]) (rule fail_request_ended)
  have stop: "triple in_v2 (cbind (out_of_band_stop env) (\<lambda>_. craise RequestInterruptedError)) (\<lambda>_. in_v2) ended_closed"
    by (rule triple_bind [OF out_of_band_stop_outcome], rule triple_raise)
      (simp add: ended_closed_def session_def)
  show ?thesis unfolding check_interrupt_def Some option.case
    by (rule triple_bind [OF poll], rule triple_bind [OF clock_v2])
      (auto intro: fail_request_ended stop triple_return)
qed

text \<open>A received response is well formed, so an error terminal always has its fault.\<close>

definition item_ok :: "v2_item \<Rightarrow> bool" where
  "item_ok item = (case item of V2_Response r \<Rightarrow> wf_response r | _ \<Rightarrow> True)"

lemma parse_v2_item_ok: "parse_v2_line line crc = Inr item \<Longrightarrow> item_ok item"
  by (cases item) (auto simp: item_ok_def dest: parse_v2_responseD)

lemma read_v2_outcome: "triple in_v2 (read_v2 env crc t) (\<lambda>item c. in_v2 c \<and> item_ok item) (\<lambda>_. in_v2)"
proof -
  have "triple in_v2 (\<lambda>c. clift (parse_v2_line line (case crc of None \<Rightarrow> cl_crc_enabled c | Some b \<Rightarrow> b)) c)
      (\<lambda>item c. in_v2 c \<and> item_ok item) (\<lambda>_. in_v2)" for line
    by (auto simp: triple_def clift_def parse_v2_item_ok split: sum.splits)
  then show ?thesis unfolding read_v2_def by (intro triple_bind [OF io_v2] io_keeps_basic)
qed

lemma accept_item_outcome:
  assumes "item_ok item"
  shows "triple in_v2 (accept_item env i item)
    (\<lambda>accepted c. in_v2 c \<and> (\<forall>r. accepted = Some r \<longrightarrow> request_id r = i \<and> wf_response r)) ended_closed"
proof (cases item)
  case (V2_Event e)
  show ?thesis unfolding accept_item_def V2_Event v2_item.case
    by (rule triple_bind [OF triple_update [where Q = "\<lambda>_. in_v2"] triple_return]) (auto simp: session_def)
next
  case V2_Stopped
  then show ?thesis by (simp add: accept_item_def fail_request_ended)
next
  case (V2_Response r)
  have obs: "triple in_v2 (crequests (observe_response r)) (\<lambda>_. in_v2) (\<lambda>_. in_v2)"
    by (auto simp: triple_def crequests_def session_def split: prod.splits sum.splits)
  have "triple in_v2 (cbind (crequests (observe_response r)) (\<lambda>_.
        if request_id r \<noteq> i then craise ProtocolError else creturn (Some r)))
      (\<lambda>accepted c. in_v2 c \<and> (\<forall>r. accepted = Some r \<longrightarrow> request_id r = i \<and> wf_response r)) (\<lambda>_. in_v2)"
    using assms V2_Response
    by (intro triple_bind [OF obs]) (auto simp: item_ok_def intro: triple_raise triple_return)
  then show ?thesis unfolding accept_item_def V2_Response v2_item.case
    by (rule triple_catch) (rule fail_request_ended)
qed

text \<open>A completion that is the correlated terminal of its request.\<close>

definition correlated :: "nat \<Rightarrow> completion \<Rightarrow> bool" where
  "correlated i k = (c_request_id k = i \<and> c_responses k \<noteq> [] \<and> terminal (last (c_responses k)) \<and>
     (c_succeeded k \<longleftrightarrow> r_kind (last (c_responses k)) = RK_DONE) \<and>
     (c_error k = None \<longleftrightarrow> c_succeeded k) \<and>
     list_all (\<lambda>r. request_id r = i \<and> wf_response r) (c_responses k))"

lemma make_completion_correlated:
  assumes "wf_response r" "terminal r" "request_id r = i" "list_all (\<lambda>r. request_id r = i \<and> wf_response r) rs"
  shows "\<exists>k. make_completion i (rs @ [r]) r = Inr k \<and> correlated i k"
proof -
  have "r_kind r = RK_DONE \<or> (\<exists>f. fault_from_response r = Inr f)"
    using assms(1,2) by (auto simp: terminal_def wf_response_def fault_from_response_def)
  then show ?thesis using assms by (auto simp: make_completion_def correlated_def)
qed

lemma request_loop_outcome:
  "list_all (\<lambda>r. request_id r = i \<and> wf_response r) responses \<Longrightarrow>
    triple in_v2 (request_loop env opts i n deadline responses)
      (\<lambda>k c. in_v2 c \<and> correlated i k) ended_closed"
proof (induction n arbitrary: responses)
  case 0
  show ?case by (simp only: request_loop.simps) (rule triple_None)
next
  case (Suc n)
  have retry: "triple in_v2 (if e = TimeoutError \<and> ro_interrupt opts \<noteq> None then
        cbind (cmonotonic env) (\<lambda>t. if deadline - t > 0 then request_loop env opts i n deadline responses
          else fail_request env) else fail_request env) (\<lambda>k c. in_v2 c \<and> correlated i k) ended_closed" for e
    using Suc by (auto intro!: triple_bind [OF clock_v2] fail_request_ended)
  have use: "triple (\<lambda>c. in_v2 c \<and> (\<forall>r. accepted = Some r \<longrightarrow> request_id r = i \<and> wf_response r))
      (case accepted of None \<Rightarrow> request_loop env opts i n deadline responses
       | Some r \<Rightarrow> if terminal r then clift (make_completion i (responses @ [r]) r)
                  else request_loop env opts i n deadline (responses @ [r]))
      (\<lambda>k c. in_v2 c \<and> correlated i k) ended_closed" for accepted
  proof (cases accepted)
    case None
    then show ?thesis using Suc by (auto intro: triple_pre)
  next
    case (Some r)
    show ?thesis
    proof (cases "request_id r = i \<and> wf_response r")
      case True
      with Suc.prems have "list_all (\<lambda>r. request_id r = i \<and> wf_response r) (responses @ [r])" by simp
      with Suc.IH [OF this] show ?thesis
        using make_completion_correlated [of r i responses] Suc.prems True Some
        by (auto intro!: triple_lift intro: triple_pre)
    next
      case False
      then show ?thesis using Some by (auto simp: triple_def)
    qed
  qed
  have item: "triple (\<lambda>c. in_v2 c \<and> item_ok item) (cbind (accept_item env i item) (\<lambda>accepted.
        case accepted of None \<Rightarrow> request_loop env opts i n deadline responses
        | Some r \<Rightarrow> if terminal r then clift (make_completion i (responses @ [r]) r)
                   else request_loop env opts i n deadline (responses @ [r])))
      (\<lambda>k c. in_v2 c \<and> correlated i k) ended_closed" for item
  proof (cases "item_ok item")
    case True
    show ?thesis
      by (rule triple_pre [OF triple_bind [OF accept_item_outcome [OF True] use]]) simp
  qed (simp add: triple_def)
  show ?case unfolding request_loop.simps
    by (rule triple_bind [OF clock_v2], rule triple_if, rule fail_request_ended,
        rule triple_bind [OF check_interrupt_outcome],
        rule triple_branch [OF read_v2_outcome retry item])
qed

lemma start_request_outcome:
  "triple (\<lambda>c. cl_world c = w) (start_request env command wanted) (\<lambda>_. in_v2)
     (\<lambda>e c. ended_closed e c \<or> cl_world c = w)"
proof -
  define S where "S = (\<lambda>c :: 'a client. in_v2 c \<and> cl_world c = w)"
  have get: "triple S (case wanted of None \<Rightarrow> crequests allocate
      | Some i \<Rightarrow> cbind (crequests (reserve i)) (\<lambda>_. creturn (nat i))) (\<lambda>_. S) (\<lambda>_ c. cl_world c = w)"
    by (auto simp: S_def triple_def crequests_def cbind_def creturn_def session_def
        split: option.splits prod.splits sum.splits)
  have fmt: "triple S (ccatch (\<lambda>c. clift (format_request (int i) command (cl_crc_enabled c)) c)
      (\<lambda>e. cbind (cupdate (\<lambda>c. c\<lparr> cl_requests := release i (cl_requests c) \<rparr>)) (\<lambda>_. craise e)))
      (\<lambda>_. S) (\<lambda>_ c. cl_world c = w)" for i
    by (auto simp: S_def triple_def ccatch_def clift_def cbind_def cupdate_def craise_def session_def
        split: option.splits prod.splits sum.splits)
  have send: "triple S (ccatch (write_bytes env data) (\<lambda>_. fail_request env)) (\<lambda>_. in_v2) ended_closed" for data
    by (rule triple_pre [OF triple_catch [OF io_v2 [OF io_keeps_basic(3)] fail_request_ended]]) (simp add: S_def)
  have "triple S (cbind (case wanted of None \<Rightarrow> crequests allocate
      | Some i \<Rightarrow> cbind (crequests (reserve i)) (\<lambda>_. creturn (nat i))) (\<lambda>i.
        cbind (ccatch (\<lambda>c. clift (format_request (int i) command (cl_crc_enabled c)) c)
          (\<lambda>e. cbind (cupdate (\<lambda>c. c\<lparr> cl_requests := release i (cl_requests c) \<rparr>)) (\<lambda>_. craise e))) (\<lambda>frame.
        cbind (ccatch (write_bytes env (frame @ [LF])) (\<lambda>_. fail_request env)) (\<lambda>_. creturn i))))
      (\<lambda>_. in_v2) (\<lambda>e c. ended_closed e c \<or> cl_world c = w)"
    by (rule triple_bind [OF triple_conseq [OF get]], assumption, assumption, simp,
        rule triple_bind [OF triple_conseq [OF fmt]], assumption, assumption, simp,
        rule triple_bind [OF triple_conseq [OF send]], assumption, assumption, simp, rule triple_return)
  then show ?thesis unfolding start_request_def
    by (auto simp: triple_def S_def session_def craise_def)
qed

lemma request_outcome:
  "triple (\<lambda>c. cl_world c = w) (request env opts command wanted)
     (\<lambda>k c. in_v2 c \<and> (\<exists>i. correlated i k)) (\<lambda>e c. ended_closed e c \<or> cl_world c = w)"
  unfolding request_def Let_def
  by (rule triple_if, rule triple_raise, simp, rule triple_if, rule triple_raise, simp,
      rule triple_bind [OF start_request_outcome], rule triple_bind [OF clock_v2],
      rule triple_conseq [OF request_loop_outcome]) auto

section \<open>Every call comes back\<close>

text \<open>The contract of the client's world: the byte stream's, and that writing, resetting and the
  interruption check keep it and do not turn the clock back.\<close>

locale client_world = byte_source +
  fixes env :: "'a client_env"
  assumes env_io: "ce_io env = io"
    and env_fuel: "nat (ce_timeout env) < ce_fuel env"
    and write_law: "inv w \<Longrightarrow> io_write io data w = (r, w') \<Longrightarrow> inv w' \<and> clock w \<le> clock w'"
    and reset_law: "ce_reset env = Some hook \<Longrightarrow> inv w \<Longrightarrow> hook w = (r', w') \<Longrightarrow> inv w' \<and> clock w \<le> clock w'"
begin

definition returns_from :: "'a client \<Rightarrow> ('a, 'b) ccall \<Rightarrow> bool" where
  "returns_from c m = (\<exists>r c'. m c = Some (r, c') \<and> inv (cl_world c') \<and> clock (cl_world c) \<le> clock (cl_world c'))"

definition returns :: "('a, 'b) ccall \<Rightarrow> bool" where
  "returns m = (\<forall>c. inv (cl_world c) \<longrightarrow> returns_from c m)"

lemma returnsD: "returns m \<Longrightarrow> inv (cl_world c) \<Longrightarrow> returns_from c m"
  by (simp add: returns_def)

lemma returns_from_bind:
  assumes "returns_from c m"
    "\<And>x c'. m c = Some (Inr x, c') \<Longrightarrow> inv (cl_world c') \<Longrightarrow> clock (cl_world c) \<le> clock (cl_world c') \<Longrightarrow> returns_from c' (f x)"
  shows "returns_from c (cbind m f)"
proof -
  obtain r c' where m: "m c = Some (r, c')" "inv (cl_world c')" "clock (cl_world c) \<le> clock (cl_world c')"
    using assms(1) by (auto simp: returns_from_def)
  show ?thesis
  proof (cases r)
    case (Inr x)
    with assms(2) [of x c'] m show ?thesis by (auto simp: returns_from_def cbind_def)
  qed (use m in \<open>auto simp: returns_from_def cbind_def\<close>)
qed

lemma returns_from_branch:
  assumes "returns_from c m"
    "\<And>e c'. inv (cl_world c') \<Longrightarrow> clock (cl_world c) \<le> clock (cl_world c') \<Longrightarrow> returns_from c' (h e)"
    "\<And>x c'. inv (cl_world c') \<Longrightarrow> clock (cl_world c) \<le> clock (cl_world c') \<Longrightarrow> returns_from c' (f x)"
  shows "returns_from c (cbranch m h f)"
proof -
  obtain r c' where m: "m c = Some (r, c')" "inv (cl_world c')" "clock (cl_world c) \<le> clock (cl_world c')"
    using assms(1) by (auto simp: returns_from_def)
  have next_call: "returns_from c' g \<Longrightarrow> cbranch m h f c = g c' \<Longrightarrow> ?thesis" for g
    using m(3) by (auto simp: returns_from_def)
  show ?thesis
  proof (cases r)
    case (Inl e)
    then show ?thesis using m assms(2) [of c' e] by (intro next_call [of "h e"]) (simp_all add: cbranch_def)
  next
    case (Inr x)
    then show ?thesis using m assms(3) [of c' x] by (intro next_call [of "f x"]) (simp_all add: cbranch_def)
  qed
qed

lemma returns_bind:
  assumes "returns m" "\<And>x. returns (f x)"
  shows "returns (cbind m f)"
proof (unfold returns_def, intro allI impI)
  fix c :: "'a client" assume c: "inv (cl_world c)"
  show "returns_from c (cbind m f)"
    by (rule returns_from_bind [OF returnsD [OF assms(1) c]]) (rule returnsD [OF assms(2)])
qed

lemma returns_branch:
  assumes "returns m" "\<And>e. returns (h e)" "\<And>x. returns (f x)"
  shows "returns (cbranch m h f)"
proof (unfold returns_def, intro allI impI)
  fix c :: "'a client" assume c: "inv (cl_world c)"
  show "returns_from c (cbranch m h f)"
    by (rule returns_from_branch [OF returnsD [OF assms(1) c]])
      (rule returnsD [OF assms(2)] returnsD [OF assms(3)], assumption)+
qed

lemma catch_as_branch: "ccatch m h = cbranch m h creturn"
  by (rule ext) (auto simp: ccatch_def cbranch_def creturn_def split: option.splits prod.splits sum.splits)

lemma returns_return: "returns (creturn x)"
  by (auto simp: returns_def returns_from_def creturn_def)

lemma returns_raise: "returns (craise e)"
  by (auto simp: returns_def returns_from_def craise_def)

lemma returns_lift: "returns (clift r)"
  by (auto simp: returns_def returns_from_def clift_def)

lemma returns_update: "(\<And>c. cl_world (g c) = cl_world c) \<Longrightarrow> returns (cupdate g)"
  by (auto simp: returns_def returns_from_def cupdate_def)

lemma returns_requests: "returns (crequests t)"
  by (auto simp: returns_def returns_from_def crequests_def split: prod.splits)

lemmas returns_pure = returns_return returns_raise returns_lift returns_update returns_requests

lemma returns_catch: "returns m \<Longrightarrow> (\<And>e. returns (h e)) \<Longrightarrow> returns (ccatch m h)"
  unfolding catch_as_branch by (intro returns_branch returns_return)

lemma returns_if: "returns m \<Longrightarrow> returns m' \<Longrightarrow> returns (if b then m else m')"
  by simp

lemma returns_from_if: "(b \<Longrightarrow> returns_from c m) \<Longrightarrow> (\<not> b \<Longrightarrow> returns_from c m') \<Longrightarrow> returns_from c (if b then m else m')"
  by simp

lemma monotonic_from:
  assumes "inv (cl_world c)"
  shows "returns_from c (cmonotonic env)"
    "cmonotonic env c = Some (Inr t, c') \<Longrightarrow> t = clock (cl_world c') \<and> clock (cl_world c) < clock (cl_world c')"
  using monotonic_law [OF assms, of "fst (io_monotonic io (cl_world c))" "snd (io_monotonic io (cl_world c))"]
  by (auto simp: returns_from_def cmonotonic_def env_io split: prod.splits)

lemma returns_monotonic: "returns (cmonotonic env)"
  by (simp add: returns_def monotonic_from)

lemma read_loop_keeps:
  "read_loop io n deadline v2 r w = Some (res, r', w') \<Longrightarrow> inv w \<Longrightarrow> inv w' \<and> clock w \<le> clock w'"
proof (induction n arbitrary: r w)
  case (Suc n)
  obtain t w1 where m: "io_monotonic io w = (t, w1)" by force
  note ml = monotonic_law [OF Suc.prems(2) m]
  show ?case
  proof (cases "deadline - t \<le> 0")
    case True
    then show ?thesis using Suc.prems(1) m ml by auto
  next
    case False
    obtain got r1 w2 where got: "(case lr_pending r of
        b # bs \<Rightarrow> (Inr [b], r\<lparr>lr_pending := bs\<rparr>, w1)
      | [] \<Rightarrow> (case io_read io 1 (deadline - t) w1 of (x, w') \<Rightarrow> (x, r, w'))) = (got, r1, w2)"
      by (metis prod_cases3)
    have w2: "inv w2 \<and> clock w1 \<le> clock w2"
    proof (cases "lr_pending r")
      case Nil
      obtain x w3 where "io_read io 1 (deadline - t) w1 = (x, w3)" by force
      with read_law [of w1 "deadline - t" x w3] ml got Nil show ?thesis by auto
    qed (use got ml in auto)
    show ?thesis
    proof (cases got)
      case (Inl e)
      then show ?thesis using Suc.prems(1) m False got w2 ml by (auto simp: Let_def)
    next
      case (Inr chunk)
      show ?thesis
      proof (cases "chunk = []")
        case True
        obtain t' w3 where m3: "io_monotonic io w2 = (t', w3)" by force
        have w3: "inv w3 \<and> clock w2 < clock w3" using monotonic_law [of w2 t' w3] m3 w2 by auto
        define d where "d = min poll_pause (max 0 (deadline - t'))"
        have "0 \<le> d" by (simp add: d_def poll_pause_def)
        then have s: "inv (io_sleep io d w3) \<and> clock w3 \<le> clock (io_sleep io d w3)"
          using sleep_law [of w3 d] w3 by auto
        have "read_loop io n deadline v2 r1 (io_sleep io d w3) = Some (res, r', w')"
          using Suc.prems(1) m False got Inr True m3 by (simp add: Let_def d_def)
        from Suc.IH [OF this] s w3 w2 ml show ?thesis by auto
      next
        case False2: False
        obtain r2 done_line where f: "feed_chunk v2 r1 chunk = (r2, done_line)" by force
        show ?thesis
        proof (cases done_line)
          case None
          then have "read_loop io n deadline v2 r2 w2 = Some (res, r', w')"
            using Suc.prems(1) m False got Inr False2 f by (simp add: Let_def)
          from Suc.IH [OF this] w2 ml show ?thesis by auto
        next
          case (Some x)
          then show ?thesis using Suc.prems(1) m False got Inr False2 f w2 ml by (auto simp: Let_def)
        qed
      qed
    qed
  qed
qed simp

lemma read_line_from:
  assumes "inv (cl_world c)" "nat t < ce_fuel env"
  shows "returns_from c (cread_line env t v2)"
proof -
  obtain t0 w1 where m: "io_monotonic io (cl_world c) = (t0, w1)" by force
  note ml = monotonic_law [OF assms(1) m]
  have "read_loop io (ce_fuel env) (t0 + t) v2 (cl_reader c) w1 \<noteq> None"
    using ml assms(2) by (intro read_loop_returns) auto
  then obtain res r' w' where rl: "read_loop io (ce_fuel env) (t0 + t) v2 (cl_reader c) w1 = Some (res, r', w')"
    by auto
  have "cread_line env t v2 c = Some (res, c\<lparr> cl_reader := r', cl_world := w' \<rparr>)"
    by (simp add: cread_line_def read_line_def env_io m rl)
  with read_loop_keeps [OF rl] ml show ?thesis by (auto simp: returns_from_def)
qed

lemma returns_read: "nat t < ce_fuel env \<Longrightarrow> returns (cread_line env t v2)"
  by (simp add: returns_def read_line_from)

lemma returns_write: "returns (write_bytes env data)"
  unfolding returns_def returns_from_def write_bytes_def env_io
  by (auto split: prod.splits sum.splits) (meson write_law)+

lemma returns_write_v1: "returns (write_v1 env command)"
  unfolding write_v1_def by (intro returns_if returns_pure returns_write)

lemmas returns_intros = returns_bind returns_catch returns_if returns_pure returns_monotonic
  returns_write_v1 returns_write

lemma returns_read_v1: "returns (read_v1 env None)"
  unfolding read_v1_def using env_fuel by (intro returns_read) simp

text \<open>Each turn of the waiting loop reads the clock, so the ticks left bound the turns.\<close>

lemma await_from:
  "inv (cl_world c) \<Longrightarrow> nat (deadline - clock (cl_world c)) < n \<Longrightarrow> n \<le> ce_fuel env \<Longrightarrow>
    returns_from c (await_stopped env n deadline)"
proof (induction n arbitrary: c)
  case (Suc n)
  show ?case unfolding await_stopped.simps
  proof (rule returns_from_bind [OF monotonic_from(1) [OF Suc.prems(1)]])
    fix t and c1 :: "'a client" assume c1: "cmonotonic env c = Some (Inr t, c1)" "inv (cl_world c1)"
    note t = monotonic_from(2) [OF Suc.prems(1) c1(1)]
    have left: "nat (deadline - t) < n" if "\<not> deadline - t \<le> 0" using Suc.prems(2) t that by auto
    have "returns_from c1 (cbind (cread_line env (deadline - t) False) (\<lambda>line.
        if line = ''stopped'' then creturn () else await_stopped env n deadline))" if pos: "\<not> deadline - t \<le> 0"
    proof (rule returns_from_bind [OF read_line_from [OF c1(2)]])
      show "nat (deadline - t) < ce_fuel env" using left [OF pos] Suc.prems(3) by simp
      fix line and c2 :: "'a client" assume c2: "inv (cl_world c2)" "clock (cl_world c1) \<le> clock (cl_world c2)"
      have "returns_from c2 (await_stopped env n deadline)"
        using c2 t left [OF pos] Suc.prems(3) by (intro Suc.IH) auto
      then show "returns_from c2 (if line = ''stopped'' then creturn () else await_stopped env n deadline)"
        using returnsD [OF returns_return [of "()"] c2(1)] by simp
    qed
    then show "returns_from c1 (if deadline - t \<le> 0 then craise TimeoutError
        else cbind (cread_line env (deadline - t) False) (\<lambda>line.
          if line = ''stopped'' then creturn () else await_stopped env n deadline))"
      by (intro returns_from_if returnsD [OF returns_raise c1(2)])
  qed
qed simp

lemma after_clock:
  assumes "\<And>t c. inv (cl_world c) \<Longrightarrow> t = clock (cl_world c) \<Longrightarrow> returns_from c (f t)"
  shows "returns (cbind (cmonotonic env) f)"
proof (unfold returns_def, intro allI impI)
  fix c :: "'a client" assume c: "inv (cl_world c)"
  show "returns_from c (cbind (cmonotonic env) f)"
    by (rule returns_from_bind [OF monotonic_from(1) [OF c]]) (use monotonic_from(2) [OF c] assms in blast)
qed

lemma returns_send_stop: "returns (send_stop env)"
proof -
  have "returns (cbind (cmonotonic env) (\<lambda>t. await_stopped env (ce_fuel env) (t + ce_timeout env)))"
    using env_fuel by (intro after_clock await_from) auto
  then show ?thesis unfolding send_stop_def by (rule returns_bind [OF returns_write_v1])
qed

text \<open>The step of \<open>recover_to_v1\<close> that reads one line before a deadline and goes on.\<close>

lemma timed_read_from:
  assumes c: "inv (cl_world c)" and deadline: "deadline - clock (cl_world c) \<le> ce_timeout env"
    and k: "\<And>line c'. inv (cl_world c') \<Longrightarrow> clock (cl_world c) \<le> clock (cl_world c') \<Longrightarrow> returns_from c' (k line)"
  shows "returns_from c (cbind (cmonotonic env) (\<lambda>t. if deadline - t \<le> 0 then craise TimeoutError
     else cbind (read_v1 env (Some (deadline - t))) k))"
proof (rule returns_from_bind [OF monotonic_from(1) [OF c]])
  fix t and c1 :: "'a client" assume c1: "cmonotonic env c = Some (Inr t, c1)" "inv (cl_world c1)"
  note t = monotonic_from(2) [OF c c1(1)]
  have "nat (deadline - t) \<le> nat (ce_timeout env)" using t deadline by (intro nat_mono) simp
  then have "nat (deadline - t) < ce_fuel env" using env_fuel by simp
  then have "returns_from c1 (read_v1 env (Some (deadline - t)))"
    using read_line_from [OF c1(2)] by (simp add: read_v1_def)
  then have "returns_from c1 (cbind (read_v1 env (Some (deadline - t))) k)"
    by (rule returns_from_bind) (use k t in auto)
  then show "returns_from c1 (if deadline - t \<le> 0 then craise TimeoutError
     else cbind (read_v1 env (Some (deadline - t))) k)"
    by (intro returns_from_if returnsD [OF returns_raise c1(2)])
qed

lemma verify_from:
  assumes "inv (cl_world c)" "deadline - clock (cl_world c) \<le> ce_timeout env"
  shows "returns_from c (verify_v1 env deadline)"
  unfolding verify_v1_def
proof (intro timed_read_from assms returns_from_if)
  fix line and c1 :: "'a client" assume c1: "inv (cl_world c1)" "clock (cl_world c) \<le> clock (cl_world c1)"
  show "returns_from c1 (craise ParseError)" by (rule returnsD [OF returns_raise c1(1)])
  show "returns_from c1 (cbind (write_v1 env ''ping'') (\<lambda>_. cbind (cmonotonic env) (\<lambda>t.
      if deadline - t \<le> 0 then craise TimeoutError
      else cbind (read_v1 env (Some (deadline - t))) (\<lambda>line.
        if line \<noteq> '' ok'' then craise ParseError else creturn ()))))"
  proof (rule returns_from_bind [OF returnsD [OF returns_write_v1 c1(1)]], rule timed_read_from)
    fix u and c2 :: "'a client" assume c2: "inv (cl_world c2)" "clock (cl_world c1) \<le> clock (cl_world c2)"
    show "inv (cl_world c2)" "deadline - clock (cl_world c2) \<le> ce_timeout env" using c1 c2 assms(2) by auto
  qed (auto intro: returnsD returns_pure)
qed

lemma returns_reset: "ce_reset env = Some hook \<Longrightarrow> returns (creset hook)"
  unfolding returns_def returns_from_def creset_def by (auto split: prod.splits) (meson reset_law)+

lemma returns_catch_from:
  "returns_from c m \<Longrightarrow> (\<And>e. returns (h e)) \<Longrightarrow> returns_from c (ccatch m h)"
  unfolding catch_as_branch by (erule returns_from_branch) (auto intro: returnsD returns_pure)

lemma returns_recover: "returns (recover_to_v1 env)"
proof -
  have verify: "returns (cbind (cmonotonic env) (\<lambda>t.
      cbind (ccatch (verify_v1 env (t + ce_timeout env)) (\<lambda>_. craise (RecoveryError False))) (\<lambda>_. cupdate g)))"
    if "\<And>c. cl_world (g c) = cl_world c" for g
    by (intro after_clock returns_from_bind returns_catch_from verify_from)
      (auto intro: returnsD returns_pure that)
  show ?thesis unfolding recover_to_v1_def
    by (cases "ce_reset env") (auto intro!: returns_intros returns_send_stop returns_reset verify)
qed

lemma returns_fail_request: "returns (fail_request env)"
  unfolding fail_request_def by (intro returns_intros returns_recover) simp

lemma fail_request_raises: "fail_request env c \<noteq> Some (Inr x, c')"
  using tripleD [OF fail_request_outcome [where P = "\<lambda>_. True" and Q = "\<lambda>_ _. False"], of env c "Inr x" c'] by auto

lemma returns_out_of_band_stop: "returns (out_of_band_stop env)"
  unfolding out_of_band_stop_def
  by (rule returns_catch [OF returns_bind [OF returns_send_stop returns_update] returns_fail_request]) simp

lemma returns_accept_item: "returns (accept_item env i item)"
  unfolding accept_item_def
  by (cases item) (auto intro!: returns_intros returns_fail_request)

lemma cbind_assoc: "cbind (cbind m f) g = cbind m (\<lambda>x. cbind (f x) g)"
  by (rule ext) (auto simp: cbind_def split: option.splits prod.splits sum.splits)

lemma fail_request_then: "inv (cl_world c) \<Longrightarrow> returns_from c (cbind (fail_request env) k)"
  by (rule returns_from_bind [OF returnsD [OF returns_fail_request]]) (simp_all add: fail_request_raises)

text \<open>The interruption check comes back, and never with more time than was left.\<close>

lemma check_interrupt_from:
  assumes law: "\<And>f w r w'. ro_interrupt opts = Some f \<Longrightarrow> inv w \<Longrightarrow> f w = (r, w') \<Longrightarrow> inv w' \<and> clock w \<le> clock w'"
    and c: "inv (cl_world c)" and remaining: "remaining \<le> deadline - clock (cl_world c)"
    and k: "\<And>x c'. inv (cl_world c') \<Longrightarrow> clock (cl_world c) \<le> clock (cl_world c') \<Longrightarrow>
      x \<le> deadline - clock (cl_world c) \<Longrightarrow> returns_from c' (k x)"
  shows "returns_from c (cbind (check_interrupt env opts deadline remaining) k)"
proof (cases "ro_interrupt opts")
  case None
  then have "cbind (check_interrupt env opts deadline remaining) k c = k remaining c"
    by (simp add: check_interrupt_def cbind_def creturn_def)
  with k [OF c _ remaining] show ?thesis by (simp add: returns_from_def)
next
  case (Some requested)
  let ?ask = "\<lambda>c. case requested (cl_world c) of (r, w) \<Rightarrow> Some (r, c\<lparr> cl_world := w \<rparr>)"
  have "returns ?ask"
    using law [OF Some] by (auto simp: returns_def returns_from_def split: prod.splits)
  then have ask: "returns (ccatch ?ask (\<lambda>_. fail_request env))"
    by (rule returns_catch) (rule returns_fail_request)
  have stop: "returns_from c2 (cbind (cbind (out_of_band_stop env) (\<lambda>_. craise RequestInterruptedError)) k)"
    if "inv (cl_world c2)" for c2 :: "'a client"
    by (rule returns_from_bind [OF returnsD [OF returns_bind [OF returns_out_of_band_stop returns_raise] that]])
      (auto simp: cbind_def craise_def split: option.splits prod.splits sum.splits)
  show ?thesis
    unfolding check_interrupt_def Some option.case cbind_assoc
  proof (rule returns_from_bind [OF returnsD [OF ask c]])
    fix b and c1 :: "'a client" assume c1: "inv (cl_world c1)" "clock (cl_world c) \<le> clock (cl_world c1)"
    show "returns_from c1 (cbind (cmonotonic env) (\<lambda>t. cbind (if deadline - t \<le> 0 then fail_request env
        else if b then cbind (out_of_band_stop env) (\<lambda>_. craise RequestInterruptedError)
        else creturn (deadline - t)) k))"
    proof (rule returns_from_bind [OF monotonic_from(1) [OF c1(1)]])
      fix t and c2 :: "'a client" assume c2: "cmonotonic env c1 = Some (Inr t, c2)" "inv (cl_world c2)"
      have later: "clock (cl_world c) \<le> clock (cl_world c2)" "deadline - t \<le> deadline - clock (cl_world c)"
        using monotonic_from(2) [OF c1(1) c2(1)] c1(2) by auto
      have "returns_from c2 (cbind (creturn (deadline - t)) k)"
        by (rule returns_from_bind [OF returnsD [OF returns_return c2(2)]])
          (use later k in \<open>auto simp: creturn_def\<close>)
      then show "returns_from c2 (cbind (if deadline - t \<le> 0 then fail_request env
        else if b then cbind (out_of_band_stop env) (\<lambda>_. craise RequestInterruptedError)
        else creturn (deadline - t)) k)"
        using fail_request_then [OF c2(2), of k] stop [OF c2(2)] by simp
    qed
  qed
qed

lemma read_v2_from: "inv (cl_world c) \<Longrightarrow> nat t < ce_fuel env \<Longrightarrow> returns_from c (read_v2 env crc t)"
  unfolding read_v2_def by (rule returns_from_bind [OF read_line_from]) (auto simp: returns_from_def clift_def)

lemma request_loop_from:
  assumes law: "\<And>f w r w'. ro_interrupt opts = Some f \<Longrightarrow> inv w \<Longrightarrow> f w = (r, w') \<Longrightarrow> inv w' \<and> clock w \<le> clock w'"
  shows "inv (cl_world c) \<Longrightarrow> nat (deadline - clock (cl_world c)) < n \<Longrightarrow> n \<le> ce_fuel env \<Longrightarrow>
    returns_from c (request_loop env opts i n deadline rs)"
proof (induction n arbitrary: c rs)
  case (Suc n)
  show ?case unfolding request_loop.simps
  proof (rule returns_from_bind [OF monotonic_from(1) [OF Suc.prems(1)]])
    fix t and c1 :: "'a client" assume c1: "cmonotonic env c = Some (Inr t, c1)" "inv (cl_world c1)"
    note t = monotonic_from(2) [OF Suc.prems(1) c1(1)]
    show "returns_from c1 (if deadline - t \<le> 0 then fail_request env
       else cbind (check_interrupt env opts deadline (deadline - t)) (\<lambda>remaining.
         cbranch (read_v2 env (ro_response_crc opts)
                    (if ro_interrupt opts = None then remaining else min remaining (ro_poll opts)))
           (\<lambda>e. if e = TimeoutError \<and> ro_interrupt opts \<noteq> None then
                   cbind (cmonotonic env) (\<lambda>t.
                     if deadline - t > 0 then request_loop env opts i n deadline rs
                     else fail_request env)
                 else fail_request env)
           (\<lambda>item. cbind (accept_item env i item) (\<lambda>accepted.
              case accepted of
                None \<Rightarrow> request_loop env opts i n deadline rs
              | Some r \<Rightarrow>
                  if terminal r then clift (make_completion i (rs @ [r]) r)
                  else request_loop env opts i n deadline (rs @ [r])))))"
    proof (rule returns_from_if [OF returnsD [OF returns_fail_request c1(2)]], rule check_interrupt_from [OF _ c1(2)])
      assume pos: "\<not> deadline - t \<le> 0"
      have again: "returns_from c2 (request_loop env opts i n deadline rs')"
        if "inv (cl_world c2)" "clock (cl_world c1) \<le> clock (cl_world c2)" for rs' and c2 :: "'a client"
        using that t pos Suc.prems by (intro Suc.IH) auto
      fix x and c2 :: "'a client"
      assume c2: "inv (cl_world c2)" "clock (cl_world c1) \<le> clock (cl_world c2)" "x \<le> deadline - clock (cl_world c1)"
      let ?t = "if ro_interrupt opts = None then x else min x (ro_poll opts)"
      have "nat ?t \<le> nat (deadline - clock (cl_world c))" using c2(3) t by (intro nat_mono) auto
      then have fuel: "nat ?t < ce_fuel env" using Suc.prems by simp
      show "returns_from c2 (cbranch (read_v2 env (ro_response_crc opts) ?t)
           (\<lambda>e. if e = TimeoutError \<and> ro_interrupt opts \<noteq> None then
                   cbind (cmonotonic env) (\<lambda>t.
                     if deadline - t > 0 then request_loop env opts i n deadline rs
                     else fail_request env)
                 else fail_request env)
           (\<lambda>item. cbind (accept_item env i item) (\<lambda>accepted.
              case accepted of
                None \<Rightarrow> request_loop env opts i n deadline rs
              | Some r \<Rightarrow>
                  if terminal r then clift (make_completion i (rs @ [r]) r)
                  else request_loop env opts i n deadline (rs @ [r]))))"
        by (rule returns_from_branch [OF read_v2_from [OF c2(1) fuel]])
          (use c2(2) again in \<open>auto intro!: returns_from_if returnsD [OF returns_fail_request] returnsD [OF returns_lift]
             returns_from_bind [OF monotonic_from(1)] returns_from_bind [OF returnsD [OF returns_accept_item]]
             split: option.split\<close>)
    qed (use t in \<open>auto dest: law\<close>)
  qed
qed simp

lemma returns_start_request: "returns (start_request env command wanted)"
proof -
  have frame: "returns (\<lambda>c. clift (format_request i command (cl_crc_enabled c)) c)" for i
    by (simp add: returns_def returns_from_def clift_def)
  have "returns (cbind (case wanted of None \<Rightarrow> crequests allocate
        | Some i \<Rightarrow> cbind (crequests (reserve i)) (\<lambda>_. creturn (nat i))) (\<lambda>i.
      cbind (ccatch (\<lambda>c. clift (format_request (int i) command (cl_crc_enabled c)) c)
        (\<lambda>e. cbind (cupdate (\<lambda>c. c\<lparr> cl_requests := release i (cl_requests c) \<rparr>)) (\<lambda>_. craise e))) (\<lambda>frame.
      cbind (ccatch (write_bytes env (frame @ [LF])) (\<lambda>_. fail_request env)) (\<lambda>_. creturn i))))"
    by (cases wanted) (auto intro!: returns_intros returns_fail_request frame)
  then show ?thesis
    by (auto simp: returns_def returns_from_def start_request_def craise_def)
qed

lemma returns_request:
  assumes "\<And>f w r w'. ro_interrupt opts = Some f \<Longrightarrow> inv w \<Longrightarrow> f w = (r, w') \<Longrightarrow> inv w' \<and> clock w \<le> clock w'"
    and "nat (case ro_timeout opts of None \<Rightarrow> ce_timeout env | Some t \<Rightarrow> t) < ce_fuel env"
  shows "returns (request env opts command wanted)"
  unfolding request_def Let_def
  by (intro returns_if returns_raise returns_bind returns_start_request after_clock request_loop_from)
    (use assms in auto)

end

section \<open>Worked examples\<close>

definition scripted_env :: "scripted_world client_env" where
  "scripted_env = \<lparr> ce_io = scripted_io,
     ce_reset = Some (\<lambda>w. (Inr (), (scripted_reset (fst w), snd w))), ce_timeout = 60, ce_fuel = 70 \<rparr>"

text \<open>A v2 session over a controller that will send these lines, and these after a reset.\<close>

definition scripted_client :: "string list \<Rightarrow> string list \<Rightarrow> scripted_world client" where
  "scripted_client lines reset_lines =
     (new_client (new_scripted (map (\<lambda>l. l @ [LF]) lines) (map (\<lambda>l. l @ [LF]) reset_lines), 0))\<lparr> cl_mode := SM_V2 \<rparr>"

definition demo_request :: "string list \<Rightarrow> string list \<Rightarrow> ((protocol_error, completion) result \<times> scripted_world client) option" where
  "demo_request lines reset_lines =
     request scripted_env default_options ''sortto:3'' None (scripted_client lines reset_lines)"

lemma map_sum_Inl: "map_sum f g x = Inl y \<Longrightarrow> (\<And>a. x = Inl a \<Longrightarrow> f a = y \<Longrightarrow> P) \<Longrightarrow> P"
  by (cases x) auto

lemma map_sum_Inr: "map_sum f g x = Inr y \<Longrightarrow> (\<And>a. x = Inr a \<Longrightarrow> g a = y \<Longrightarrow> P) \<Longrightarrow> P"
  by (cases x) auto

lemma demo_request_done:
  "map_option (map_sum id c_succeeded \<circ> fst) (demo_request [''@1 accepted'', ''@1 done:slot=3''] []) = Some (Inr True)"
  by code_simp

lemma demo_request_garbled:
  "map_option (\<lambda>(r, c). (map_sum id c_succeeded r, cl_mode c, st_resets (fst (cl_world c))))
     (demo_request [''@2 done'', ''stopped''] [''Ready'', '' ok'']) = Some (Inl (RecoveryError True), SM_V1, 1)"
  by code_simp

interpretation scripted_session: client_world scripted_io scripted_unread snd 1 scripted_ready scripted_env
proof unfold_locales
  show "ce_io scripted_env = scripted_io" "nat (ce_timeout scripted_env) < ce_fuel scripted_env"
    by (simp_all add: scripted_env_def)
next
  fix w w' :: scripted_world and data r assume "scripted_ready w" "io_write scripted_io data w = (r, w')"
  then show "scripted_ready w' \<and> snd w \<le> snd w'"
    by (auto simp: scripted_io_def scripted_ready_def scripted_write_def)
next
  fix w w' :: scripted_world and hook r' assume "ce_reset scripted_env = Some hook" "scripted_ready w" "hook w = (r', w')"
  then show "scripted_ready w' \<and> snd w \<le> snd w'"
    by (auto simp: scripted_env_def scripted_ready_def scripted_reset_def)
qed

section \<open>Properties\<close>



text \<open>
  C4: a completion is correlated: when \<open>request\<close> returns, every response it collected carries
  the identifier of the request and is well formed, the last one is its terminal, and success
  means that terminal is \<open>done\<close>.
\<close>

theorem request_completion_correlated:
  assumes "request env opts command wanted c = Some (Inr k, c')"
  shows "c_responses k \<noteq> [] \<and> terminal (last (c_responses k)) \<and>
    list_all (\<lambda>r. request_id r = c_request_id k \<and> wf_response r) (c_responses k) \<and>
    (c_succeeded k \<longleftrightarrow> r_kind (last (c_responses k)) = RK_DONE) \<and> cl_mode c' = SM_V2"
  using tripleD [OF request_outcome refl assms] by (auto simp: correlated_def session_def)

theorem request_completion_correlated_witness:
  "\<exists>k c'. demo_request [''@1 accepted'', ''@1 done:slot=3''] [] = Some (Inr k, c') \<and> c_succeeded k \<and>
     r_kind (last (c_responses k)) = RK_DONE"
proof -
  obtain k c' where k: "demo_request [''@1 accepted'', ''@1 done:slot=3''] [] = Some (Inr k, c')" "c_succeeded k"
    using demo_request_done by (auto elim: map_sum_Inr)
  with request_completion_correlated [OF k(1) [unfolded demo_request_def]] show ?thesis by blast
qed



end
