(* ===== verification/Operations.thy ===== *)
theory Operations
  imports Prelude "HOL-Library.Char_ord" "HOL-Library.List_Lexorder"
begin

text \<open>
  The vocabulary of durable operations (\<open>operations.py\<close>): error classes, actions, lifecycle
  states and the permitted transitions, the validated records, and the canonical request
  encoding behind the idempotency fingerprint. A \<open>datetime\<close> is naive or denotes an instant (in
  microseconds); \<open>astimezone(UTC)\<close> keeps the instant. Messages of exceptions are not kept.
\<close>

section \<open>Errors, actions and states\<close>

datatype error_kind = ValidationError | NotReadyError | UnsupportedOperationError
  | InvalidTransitionError | StaleGenerationError | IdempotencyConflictError
  | OperationQueueFullError | DeadlineInvalidError | DeadlineExpiredError
  | JournalUnavailableError

text \<open>An exception of the daemon's operation layers. A \<open>DomainError\<close> may name the operation
  that was recorded; \<open>JournalError\<close> is not a \<open>DomainError\<close>; any other exception is given by the
  name of its class.\<close>

datatype daemon_error = DomainError error_kind "string option" | JournalError | OtherError string

fun error_code :: "error_kind \<Rightarrow> string" where
  "error_code ValidationError = ''VALIDATION_FAILED''"
| "error_code NotReadyError = ''NOT_READY''"
| "error_code UnsupportedOperationError = ''UNSUPPORTED''"
| "error_code InvalidTransitionError = ''INTERNAL_ERROR''"
| "error_code StaleGenerationError = ''STALE_GENERATION''"
| "error_code IdempotencyConflictError = ''IDEMPOTENCY_CONFLICT''"
| "error_code OperationQueueFullError = ''QUEUE_FULL''"
| "error_code DeadlineInvalidError = ''DEADLINE_INVALID''"
| "error_code DeadlineExpiredError = ''DEADLINE_EXPIRED''"
| "error_code JournalUnavailableError = ''JOURNAL_UNAVAILABLE''"

abbreviation validation_error :: daemon_error where
  "validation_error \<equiv> DomainError ValidationError None"

abbreviation invalid_transition :: daemon_error where
  "invalid_transition \<equiv> DomainError InvalidTransitionError None"

datatype operation_action = OA_connect | OA_recover | OA_home | OA_sort | OA_feed | OA_stop
  | OA_configure

fun action_value :: "operation_action \<Rightarrow> string" where
  "action_value OA_connect = ''connect''"
| "action_value OA_recover = ''recover''"
| "action_value OA_home = ''home''"
| "action_value OA_sort = ''sort''"
| "action_value OA_feed = ''feed''"
| "action_value OA_stop = ''stop''"
| "action_value OA_configure = ''configure''"

datatype operation_state = OS_queued | OS_accepted | OS_running | OS_succeeded | OS_failed
  | OS_cancelled | OS_uncertain

fun state_value :: "operation_state \<Rightarrow> string" where
  "state_value OS_queued = ''queued''"
| "state_value OS_accepted = ''accepted''"
| "state_value OS_running = ''running''"
| "state_value OS_succeeded = ''succeeded''"
| "state_value OS_failed = ''failed''"
| "state_value OS_cancelled = ''cancelled''"
| "state_value OS_uncertain = ''uncertain''"

definition TERMINAL_STATES :: "operation_state list" where
  "TERMINAL_STATES = [OS_succeeded, OS_failed, OS_cancelled, OS_uncertain]"

definition UNRESOLVED :: "operation_state list" where
  "UNRESOLVED = [OS_failed, OS_cancelled, OS_uncertain]"

fun ALLOWED_TRANSITIONS :: "operation_state \<Rightarrow> operation_state list" where
  "ALLOWED_TRANSITIONS OS_queued = OS_accepted # UNRESOLVED"
| "ALLOWED_TRANSITIONS OS_accepted = OS_running # UNRESOLVED"
| "ALLOWED_TRANSITIONS OS_running = OS_succeeded # UNRESOLVED"
| "ALLOWED_TRANSITIONS OS_succeeded = []"
| "ALLOWED_TRANSITIONS OS_failed = []"
| "ALLOWED_TRANSITIONS OS_cancelled = []"
| "ALLOWED_TRANSITIONS OS_uncertain = []"

definition is_terminal :: "operation_state \<Rightarrow> bool" where
  "is_terminal s = (s \<in> set TERMINAL_STATES)"

definition can_transition :: "operation_state \<Rightarrow> operation_state \<Rightarrow> bool" where
  "can_transition from_state to_state = (to_state \<in> set (ALLOWED_TRANSITIONS from_state))"

section \<open>Times\<close>

datatype datetime = Naive int | Aware int

fun instant :: "datetime \<Rightarrow> int" where
  "instant (Naive t) = t"
| "instant (Aware t) = t"

fun after_us :: "datetime \<Rightarrow> int \<Rightarrow> datetime" where
  "after_us (Naive t) d = Naive (t + d)"
| "after_us (Aware t) d = Aware (t + d)"

fun require_utc :: "datetime \<Rightarrow> (daemon_error, datetime) result" where
  "require_utc (Naive t) = Inl validation_error"
| "require_utc (Aware t) = Inr (Aware t)"

section \<open>Validated text\<close>

definition MAX_ACTOR_FIELD_LENGTH :: nat where "MAX_ACTOR_FIELD_LENGTH = 64"
definition MAX_IDEMPOTENCY_KEY_LENGTH :: nat where "MAX_IDEMPOTENCY_KEY_LENGTH = 200"
definition MAX_BODY_FIELDS :: nat where "MAX_BODY_FIELDS = 16"
definition MAX_BODY_STRING_LENGTH :: nat where "MAX_BODY_STRING_LENGTH = 128"
definition MAX_REASON_LENGTH :: nat where "MAX_REASON_LENGTH = 512"
definition MAX_TERMINAL_FIELDS :: nat where "MAX_TERMINAL_FIELDS = 16"
definition MAX_TERMINAL_VALUE_LENGTH :: nat where "MAX_TERMINAL_VALUE_LENGTH = 64"

lemmas operation_limits = MAX_ACTOR_FIELD_LENGTH_def MAX_IDEMPOTENCY_KEY_LENGTH_def
  MAX_BODY_FIELDS_def MAX_BODY_STRING_LENGTH_def MAX_REASON_LENGTH_def
  MAX_TERMINAL_FIELDS_def MAX_TERMINAL_VALUE_LENGTH_def

definition actor_field_match :: "string \<Rightarrow> bool" where
  "actor_field_match s = (case s of [] \<Rightarrow> False
     | c # cs \<Rightarrow> (is_alpha c \<or> is_digit c) \<and>
         list_all (\<lambda>d. is_alpha d \<or> is_digit d \<or> d \<in> set ''_.:@-'') cs)"

text \<open>\<open>_BODY_FIELD\<close> and \<open>_TERMINAL_FIELD\<close> are the same expression.\<close>

definition snake_match :: "string \<Rightarrow> bool" where
  "snake_match s = (case s of [] \<Rightarrow> False
     | c # cs \<Rightarrow> is_lower c \<and> list_all (\<lambda>d. is_lower d \<or> is_digit d \<or> d = CHR ''_'') cs)"

definition idempotency_key_match :: "string \<Rightarrow> bool" where
  "idempotency_key_match s = (s \<noteq> [] \<and> list_all (\<lambda>c. 33 \<le> ord c \<and> ord c \<le> 126) s)"

definition require_token :: "string \<Rightarrow> (daemon_error, string) result" where
  "require_token s =
     (if \<not> actor_field_match s then Inl validation_error
      else if length s > MAX_ACTOR_FIELD_LENGTH then Inl validation_error
      else Inr s)"

definition require_idempotency_key :: "string \<Rightarrow> (daemon_error, string) result" where
  "require_idempotency_key key =
     (if \<not> idempotency_key_match key then Inl validation_error
      else if length key > MAX_IDEMPOTENCY_KEY_LENGTH then Inl validation_error
      else Inr key)"

definition require_reason :: "string \<Rightarrow> (daemon_error, string) result" where
  "require_reason reason =
     (if strip reason = [] then Inl validation_error
      else if length reason > MAX_REASON_LENGTH then Inl validation_error
      else Inr reason)"

type_synonym fields = "(string \<times> string) list"

fun check_terminal_fields :: "fields \<Rightarrow> bool" where
  "check_terminal_fields [] = True"
| "check_terminal_fields ((name, value) # rest) =
     (if \<not> snake_match name then False
      else if length value > MAX_TERMINAL_VALUE_LENGTH then False
      else check_terminal_fields rest)"

definition require_terminal_fields :: "fields \<Rightarrow> (daemon_error, fields) result" where
  "require_terminal_fields fs =
     (if length fs > MAX_TERMINAL_FIELDS then Inl validation_error
      else if \<not> check_terminal_fields fs then Inl validation_error
      else Inr fs)"

section \<open>Attributed records\<close>

record actor =
  a_user_id :: string
  a_role :: string

definition make_actor :: "string \<Rightarrow> string \<Rightarrow> (daemon_error, actor) result" where
  "make_actor user_id role =
     bind_r (require_token user_id) (\<lambda>_. bind_r (require_token role) (\<lambda>_.
       Inr \<lparr> a_user_id = user_id, a_role = role \<rparr>))"

text \<open>\<open>uuid.UUID(s)\<close>: \<open>urn:\<close> and \<open>uuid:\<close> removed, braces stripped, dashes removed; 32
  characters that \<open>int(_, 16)\<close> reads as a number that is not negative.\<close>

function replace_all :: "string \<Rightarrow> string \<Rightarrow> string" where
  "replace_all p s =
     (if p = [] \<or> s = [] then s
      else if startswith s p then replace_all p (drop (length p) s)
      else hd s # replace_all p (tl s))"
  by pat_completeness auto
termination
  by (relation "measure (length o snd)") (auto simp: startswith_def)

declare replace_all.simps [simp del]

definition is_hex :: "char \<Rightarrow> bool" where
  "is_hex c = (is_digit c \<or> (65 \<le> ord c \<and> ord c \<le> 70) \<or> (97 \<le> ord c \<and> ord c \<le> 102))"

definition hex_digits :: "string \<Rightarrow> bool" where
  "hex_digits s = list_all (\<lambda>p. p \<noteq> [] \<and> list_all is_hex p) (split_on (CHR ''_'') s)"

definition int_base16 :: "string \<Rightarrow> bool" where
  "int_base16 s =
     (let t = strip s;
          neg = startswith t ''-'';
          u = (if neg \<or> startswith t ''+'' then tl t else t);
          v = (if startswith u ''0x'' \<or> startswith u ''0X''
               then (if startswith (drop 2 u) ''_'' then drop 3 u else drop 2 u) else u)
      in hex_digits v \<and> (neg \<longrightarrow> list_all (\<lambda>c. c = CHR ''0'' \<or> c = CHR ''_'') v))"

definition uuid_valid :: "string \<Rightarrow> bool" where
  "uuid_valid s =
     (let a = replace_all ''uuid:'' (replace_all ''urn:'' s);
          b = rev (dropWhile (\<lambda>c. c \<in> set ''{}'') (rev (dropWhile (\<lambda>c. c \<in> set ''{}'') a)));
          h = filter (\<lambda>c. c \<noteq> CHR ''-'') b
      in length h = 32 \<and> int_base16 h)"

record operation_record =
  o_operation_id :: string
  o_action :: operation_action
  o_fingerprint :: string
  o_state :: operation_state
  o_generation :: int
  o_created_at :: datetime
  o_deadline_at :: datetime
  o_actor :: actor
  o_trusted_terminal :: bool
  o_outcome :: "string option"
  o_terminal_at :: "datetime option"
  o_protocol_request_id :: "nat option"
  o_terminal_fields :: "fields option"

definition optionally :: "('a \<Rightarrow> ('e, 'b) result) \<Rightarrow> 'a option \<Rightarrow> ('e, 'b option) result" where
  "optionally f x = (case x of None \<Rightarrow> Inr None | Some v \<Rightarrow> bind_r (f v) (\<lambda>w. Inr (Some w)))"

text \<open>\<open>OperationRecord.__post_init__\<close>: the checks of a freshly built record, in order.\<close>

definition make_operation_record :: "operation_record \<Rightarrow> (daemon_error, operation_record) result" where
  "make_operation_record r =
     bind_r (require (uuid_valid (o_operation_id r)) validation_error) (\<lambda>_.
     bind_r (require (\<not> o_generation r < 1) validation_error) (\<lambda>_.
     bind_r (require_utc (o_created_at r)) (\<lambda>created_at.
     bind_r (require_utc (o_deadline_at r)) (\<lambda>deadline_at.
     bind_r (require (\<not> instant deadline_at \<le> instant created_at) validation_error) (\<lambda>_.
     bind_r (optionally require_utc (o_terminal_at r)) (\<lambda>terminal_at.
     bind_r (require (\<not> (o_trusted_terminal r \<and> o_state r \<noteq> OS_succeeded)) validation_error) (\<lambda>_.
     bind_r (require (\<not> (o_state r = OS_succeeded \<and> \<not> o_trusted_terminal r)) validation_error) (\<lambda>_.
     bind_r (optionally require_terminal_fields (o_terminal_fields r)) (\<lambda>terminal_fields.
       Inr (r\<lparr> o_created_at := created_at, o_deadline_at := deadline_at,
               o_terminal_at := terminal_at, o_terminal_fields := terminal_fields \<rparr>))))))))))"

definition expired_at :: "operation_record \<Rightarrow> datetime \<Rightarrow> (daemon_error, bool) result" where
  "expired_at r moment = bind_r (require_utc moment) (\<lambda>m. Inr (instant m \<ge> instant (o_deadline_at r)))"

record transition_record =
  t_transition_id :: nat
  t_operation_id :: string
  t_from_state :: "operation_state option"
  t_to_state :: operation_state
  t_generation :: int
  t_occurred_at :: datetime
  t_reason :: string

record idempotency_record =
  i_key :: string
  i_fingerprint :: string
  i_operation_id :: string
  i_created_at :: datetime
  i_expires_at :: datetime

definition make_idempotency_record :: "idempotency_record \<Rightarrow> (daemon_error, idempotency_record) result" where
  "make_idempotency_record r =
     bind_r (require_idempotency_key (i_key r)) (\<lambda>_.
     bind_r (require_utc (i_created_at r)) (\<lambda>created_at.
     bind_r (require_utc (i_expires_at r)) (\<lambda>expires_at.
     bind_r (require (\<not> instant expires_at \<le> instant created_at) validation_error) (\<lambda>_.
       Inr (r\<lparr> i_created_at := created_at, i_expires_at := expires_at \<rparr>)))))"

definition live_at :: "idempotency_record \<Rightarrow> datetime \<Rightarrow> (daemon_error, bool) result" where
  "live_at r moment = bind_r (require_utc moment) (\<lambda>m. Inr (instant m < instant (i_expires_at r)))"

section \<open>The canonical request\<close>

datatype body_value = BV_none | BV_bool bool | BV_int int | BV_str string

type_synonym request_body = "(string \<times> body_value) list"

definition require_body_value :: "body_value \<Rightarrow> (daemon_error, body_value) result" where
  "require_body_value v =
     (case v of
        BV_none \<Rightarrow> Inr v
      | BV_bool _ \<Rightarrow> Inr v
      | BV_int i \<Rightarrow> if - (2 ^ 31) \<le> i \<and> i < 2 ^ 31 then Inr v else Inl validation_error
      | BV_str t \<Rightarrow> if length t > MAX_BODY_STRING_LENGTH then Inl validation_error else Inr v)"

text \<open>\<open>json.dumps\<close> of a scalar with \<open>ensure_ascii\<close>, on code points 0..255.\<close>

definition hex_char_lower :: "nat \<Rightarrow> char" where
  "hex_char_lower n = (if n < 10 then char_of (48 + n) else char_of (87 + n))"

definition json_escape :: "char \<Rightarrow> string" where
  "json_escape c =
     (if c = CHR 0x22 then [CHR 0x5C, CHR 0x22]
      else if c = CHR 0x5C then [CHR 0x5C, CHR 0x5C]
      else if is_printable c then [c]
      else if ord c = 10 then [CHR 0x5C, CHR ''n'']
      else if ord c = 13 then [CHR 0x5C, CHR ''r'']
      else if ord c = 9 then [CHR 0x5C, CHR ''t'']
      else if ord c = 12 then [CHR 0x5C, CHR ''f'']
      else if ord c = 8 then [CHR 0x5C, CHR ''b'']
      else CHR 0x5C # ''u00'' @ [hex_char_lower (ord c div 16), hex_char_lower (ord c mod 16)])"

definition json_string :: "string \<Rightarrow> string" where
  "json_string s = CHR 0x22 # concat (map json_escape s) @ [CHR 0x22]"

fun json_value :: "body_value \<Rightarrow> string" where
  "json_value BV_none = ''null''"
| "json_value (BV_bool b) = (if b then ''true'' else ''false'')"
| "json_value (BV_int i) = int_str i"
| "json_value (BV_str s) = json_string s"

fun json_members :: "request_body \<Rightarrow> string" where
  "json_members [] = []"
| "json_members [(n, v)] = json_string n @ CHR '':'' # json_value v"
| "json_members ((n, v) # rest) = json_string n @ CHR '':'' # json_value v @ CHR '','' # json_members rest"

definition json_object :: "request_body \<Rightarrow> string" where
  "json_object fs = CHR ''{'' # json_members (sort_key fst fs) @ ''}''"

fun encode_body :: "request_body \<Rightarrow> (daemon_error, request_body) result" where
  "encode_body [] = Inr []"
| "encode_body ((name, value) # rest) =
     (if \<not> snake_match name then Inl validation_error
      else bind_r (require_body_value value) (\<lambda>v.
           bind_r (encode_body rest) (\<lambda>vs. Inr ((name, v) # vs))))"

text \<open>The keys of the outer object sort as action, actor, body; those of the actor as role,
  user id.\<close>

definition canonical_request ::
    "operation_action \<Rightarrow> request_body \<Rightarrow> actor \<Rightarrow> (daemon_error, string) result" where
  "canonical_request action body actor =
     bind_r (require (\<not> length body > MAX_BODY_FIELDS) validation_error) (\<lambda>_.
     bind_r (encode_body body) (\<lambda>encoded.
       Inr (CHR ''{'' # json_string ''action'' @ CHR '':'' # json_string (action_value action)
            @ CHR '','' # json_string ''actor'' @ '':{'' @ json_string ''role'' @ CHR '':''
            # json_string (a_role actor) @ CHR '','' # json_string ''user_id'' @ CHR '':''
            # json_string (a_user_id actor) @ ''},'' @ json_string ''body'' @ CHR '':''
            # json_object encoded @ ''}'')))"

text \<open>\<open>sha256(...).hexdigest()\<close> is the parameter.\<close>

definition request_fingerprint ::
    "(string \<Rightarrow> string) \<Rightarrow> operation_action \<Rightarrow> request_body \<Rightarrow> actor \<Rightarrow> (daemon_error, string) result" where
  "request_fingerprint sha256 action body actor =
     bind_r (canonical_request action body actor) (\<lambda>text. Inr (sha256 text))"

section \<open>The lifecycle\<close>

lemmas lifecycle_defs = can_transition_def is_terminal_def TERMINAL_STATES_def UNRESOLVED_def

text \<open>A list of states in which each one may follow the one before it.\<close>

fun legal_chain :: "operation_state list \<Rightarrow> bool" where
  "legal_chain [] = True"
| "legal_chain [s] = True"
| "legal_chain (s # t # rest) = (can_transition s t \<and> legal_chain (t # rest))"

lemma terminal_no_transition: "is_terminal s \<Longrightarrow> \<not> can_transition s t"
  by (cases s) (auto simp: lifecycle_defs)

lemma terminal_iff_stuck: "is_terminal s \<longleftrightarrow> (\<forall>t. \<not> can_transition s t)"
proof -
  have "\<not> is_terminal s \<Longrightarrow> can_transition s OS_failed"
    by (cases s) (auto simp: lifecycle_defs)
  then show ?thesis using terminal_no_transition by blast
qed

lemma can_transition_succeeded [simp]: "can_transition s OS_succeeded \<longleftrightarrow> s = OS_running"
  by (cases s) (auto simp: lifecycle_defs)

lemma legal_chain_terminal_last:
  "legal_chain (s # rest) \<Longrightarrow> is_terminal s \<Longrightarrow> rest = []"
  by (cases rest) (auto simp: terminal_no_transition)

lemma legal_chain_snoc:
  "legal_chain (ss @ [s]) \<Longrightarrow> can_transition s t \<Longrightarrow> legal_chain (ss @ [s, t])"
  by (induction ss rule: legal_chain.induct) auto

fun remaining :: "operation_state \<Rightarrow> nat" where
  "remaining OS_queued = 3"
| "remaining OS_accepted = 2"
| "remaining OS_running = 1"
| "remaining _ = 0"

lemma can_transition_remaining: "can_transition s t \<Longrightarrow> remaining t < remaining s"
  by (cases s; cases t) (auto simp: lifecycle_defs)

lemma legal_chain_length: "legal_chain (s # rest) \<Longrightarrow> length rest \<le> remaining s"
proof (induction rest arbitrary: s)
  case (Cons t rest)
  then show ?case using can_transition_remaining [of s t] by fastforce
qed simp

lemma legal_chain_to_success:
  assumes "legal_chain (s # rest)" "last (s # rest) = OS_succeeded"
  shows "s # rest = drop (3 - remaining s) [OS_queued, OS_accepted, OS_running, OS_succeeded]"
  using assms
proof (induction rest arbitrary: s)
  case (Cons t rest)
  have IH: "t # rest = drop (3 - remaining t) [OS_queued, OS_accepted, OS_running, OS_succeeded]"
    using Cons by (metis last_ConsR legal_chain.simps(3) list.distinct(1))
  have "can_transition s t" using Cons.prems(1) by simp
  with IH show ?case by (cases s; cases t) (auto simp: lifecycle_defs)
qed (cases s; simp)

section \<open>The canonical request determines the request\<close>

lemma ord_less_16_split: "ord c div 16 < 16" "ord c mod 16 < 16"
  using ord_less_256 [of c] by (auto simp: less_mult_imp_div_less)

lemma hex_char_lower_inj:
  "m < 16 \<Longrightarrow> n < 16 \<Longrightarrow> hex_char_lower m = hex_char_lower n \<Longrightarrow> m = n"
proof -
  assume "m < 16" "n < 16" "hex_char_lower m = hex_char_lower n"
  then have "ord (hex_char_lower m) = ord (hex_char_lower n)" by simp
  with \<open>m < 16\<close> \<open>n < 16\<close> show "m = n" by (auto simp: hex_char_lower_def split: if_splits)
qed

text \<open>The second character tells the escapes apart.\<close>

lemma json_escape_cases:
  obtains (plain) "json_escape c = [c]" "c \<noteq> CHR 0x22" "c \<noteq> CHR 0x5C"
  | (short) d where "json_escape c = [CHR 0x5C, d]" "d \<noteq> CHR ''u''"
      "(d, c) \<in> {(CHR 0x22, CHR 0x22), (CHR 0x5C, CHR 0x5C), (CHR ''n'', char_of (10::nat)),
        (CHR ''r'', char_of (13::nat)), (CHR ''t'', char_of (9::nat)), (CHR ''f'', char_of (12::nat)),
        (CHR ''b'', char_of (8::nat))}"
  | (unicode) "json_escape c = CHR 0x5C # ''u00'' @ [hex_char_lower (ord c div 16), hex_char_lower (ord c mod 16)]"
proof -
  have c: "c = char_of (ord c)" by (simp add: ord_def)
  consider "c = CHR 0x22" | "c = CHR 0x5C" | "c \<noteq> CHR 0x22" "c \<noteq> CHR 0x5C" "is_printable c"
    | "\<not> is_printable c" "c \<noteq> CHR 0x22" "c \<noteq> CHR 0x5C" by blast
  then show thesis
  proof cases
    case 4
    consider "ord c = 10" | "ord c = 13" | "ord c = 9" | "ord c = 12" | "ord c = 8"
      | "ord c \<notin> {10, 13, 9, 12, 8}" by blast
    then show ?thesis
    proof cases
      case 1 with 4 c show ?thesis by (intro short [of "CHR ''n''"]) (simp_all add: json_escape_def)
    next
      case 2 with 4 c show ?thesis by (intro short [of "CHR ''r''"]) (simp_all add: json_escape_def)
    next
      case 3 with 4 c show ?thesis by (intro short [of "CHR ''t''"]) (simp_all add: json_escape_def)
    next
      case 4 with \<open>\<not> is_printable c\<close> \<open>c \<noteq> CHR 0x22\<close> \<open>c \<noteq> CHR 0x5C\<close> c
      show ?thesis by (intro short [of "CHR ''f''"]) (simp_all add: json_escape_def)
    next
      case 5 with 4 c show ?thesis by (intro short [of "CHR ''b''"]) (simp_all add: json_escape_def)
    next
      case 6 with 4 show ?thesis by (intro unicode) (simp add: json_escape_def)
    qed
  qed (use plain short in \<open>auto simp: json_escape_def\<close>)
qed

lemma json_escape_prefix_free:
  assumes "json_escape c @ r = json_escape d @ s"
  shows "c = d \<and> r = s"
  using assms
proof (cases c rule: json_escape_cases)
  case plain
  with assms show ?thesis by (cases d rule: json_escape_cases) auto
next
  case (short x)
  with assms show ?thesis by (cases d rule: json_escape_cases) auto
next
  case unicode
  show ?thesis
  proof (cases d rule: json_escape_cases)
    case plain
    with assms unicode show ?thesis by auto
  next
    case (short x)
    with assms unicode show ?thesis by auto
  next
    case unicode': unicode
    then have "hex_char_lower (ord c div 16) = hex_char_lower (ord d div 16)"
      "hex_char_lower (ord c mod 16) = hex_char_lower (ord d mod 16)" "r = s"
      using assms unicode by auto
    then have "ord c div 16 = ord d div 16" "ord c mod 16 = ord d mod 16"
      using hex_char_lower_inj ord_less_16_split by blast+
    then have "ord c = ord d" by (metis div_mult_mod_eq)
    then show ?thesis using \<open>r = s\<close> by (simp add: ord_eq_iff)
  qed
qed

lemma json_escape_no_quote: "json_escape c \<noteq> []" "hd (json_escape c) \<noteq> CHR 0x22"
  by (cases c rule: json_escape_cases; simp)+

lemma json_string_prefix_free:
  assumes "json_string s @ r = json_string t @ u"
  shows "s = t \<and> r = u"
proof -
  have "concat (map json_escape s) @ CHR 0x22 # r = concat (map json_escape t) @ CHR 0x22 # u
    \<Longrightarrow> s = t \<and> r = u"
  proof (induction s arbitrary: t)
    case Nil
    then show ?case
      by (cases t) (auto, metis append_is_Nil_conv hd_append2 json_escape_no_quote list.sel(1))
  next
    case (Cons c s)
    show ?case
    proof (cases t)
      case Nil
      with Cons.prems show ?thesis
        by auto (metis append_is_Nil_conv hd_append2 json_escape_no_quote list.sel(1))
    next
      case (Cons d t')
      with Cons.prems have "json_escape c @ concat (map json_escape s) @ CHR 0x22 # r
          = json_escape d @ concat (map json_escape t') @ CHR 0x22 # u" by simp
      from json_escape_prefix_free [OF this] Cons.IH [of t'] Cons show ?thesis by auto
    qed
  qed
  with assms show ?thesis by (simp add: json_string_def)
qed

lemma digits_prefix_free:
  assumes "a @ r = b @ u" "list_all is_digit a" "list_all is_digit b"
    "r \<noteq> []" "u \<noteq> []" "\<not> is_digit (hd r)" "\<not> is_digit (hd u)"
  shows "a = b \<and> r = u"
  using assms
proof (induction a arbitrary: b)
  case Nil
  then show ?case by (cases b) auto
next
  case (Cons c a)
  then show ?case by (cases b) auto
qed

lemma nat_str_hd_digit: "is_digit (hd (nat_str n))"
  using nat_str_digits [of n] by simp

lemma int_str_prefix_free:
  assumes eq: "int_str i @ r = int_str j @ u"
    and ends: "r \<noteq> []" "u \<noteq> []" "\<not> is_digit (hd r)" "\<not> is_digit (hd u)"
  shows "i = j \<and> r = u"
proof -
  have minus: "nat_str n @ x \<noteq> CHR ''-'' # y" for n x y
    using nat_str_hd_digit [of n]
    by (cases "nat_str n") (auto simp: is_digit_def ord_def)
  have same: "m = n \<and> r = u" if "nat_str m @ r = nat_str n @ u" for m n
    using digits_prefix_free [OF that] nat_str_digits [of m] nat_str_digits [of n] ends
    by (auto simp: list_all_iff dest: nat_str_inj)
  show ?thesis
  proof (cases "i < 0"; cases "j < 0")
    assume "i < 0" "j < 0"
    then show ?thesis using eq same [of "nat (- i)" "nat (- j)"] by (auto simp: int_str_def)
  next
    assume "i < 0" "\<not> j < 0"
    then show ?thesis using eq minus by (auto simp: int_str_def) (metis minus)
  next
    assume "\<not> i < 0" "j < 0"
    then show ?thesis using eq minus by (auto simp: int_str_def)
  next
    assume "\<not> i < 0" "\<not> j < 0"
    then show ?thesis using eq same [of "nat i" "nat j"] by (auto simp: int_str_def)
  qed
qed

text \<open>What follows a value in an object is a comma or the closing brace.\<close>

definition value_end :: "string \<Rightarrow> bool" where
  "value_end r = (startswith r '','' \<or> startswith r ''}'')"

lemma value_endD: "value_end r \<Longrightarrow> r \<noteq> [] \<and> \<not> is_digit (hd r)"
  by (cases r) (auto simp: value_end_def is_digit_def ord_def)

lemma json_value_head:
  "hd (json_value v @ r) = (case v of BV_none \<Rightarrow> CHR ''n'' | BV_bool b \<Rightarrow> if b then CHR ''t'' else CHR ''f''
     | BV_int i \<Rightarrow> hd (int_str i) | BV_str _ \<Rightarrow> CHR 0x22)"
  by (cases v) (auto simp: json_string_def int_str_def)

lemma int_str_head: "hd (int_str i) \<notin> {CHR ''n'', CHR ''t'', CHR ''f'', CHR 0x22}"
  using nat_str_hd_digit [of "nat i"] by (auto simp: int_str_def is_digit_def ord_def)

lemma json_value_prefix_free:
  assumes "json_value v @ r = json_value w @ u" "value_end r" "value_end u"
  shows "v = w \<and> r = u"
proof -
  have "hd (json_value v @ r) = hd (json_value w @ u)" using assms(1) by simp
  then have heads: "(case v of BV_none \<Rightarrow> CHR ''n'' | BV_bool b \<Rightarrow> if b then CHR ''t'' else CHR ''f''
       | BV_int i \<Rightarrow> hd (int_str i) | BV_str _ \<Rightarrow> CHR 0x22) =
     (case w of BV_none \<Rightarrow> CHR ''n'' | BV_bool b \<Rightarrow> if b then CHR ''t'' else CHR ''f''
       | BV_int i \<Rightarrow> hd (int_str i) | BV_str _ \<Rightarrow> CHR 0x22)"
    by (simp only: json_value_head)
  show ?thesis
  proof (cases v)
    case BV_none
    with heads assms show ?thesis using int_str_head
      by (cases w) (auto split: if_splits)
  next
    case (BV_bool b)
    with heads assms show ?thesis using int_str_head
      by (cases w) (auto split: if_splits)
  next
    case (BV_int i)
    show ?thesis
    proof (cases w)
      case (BV_int j)
      with \<open>v = BV_int i\<close> assms show ?thesis
        using int_str_prefix_free [of i r j u] value_endD [of r] value_endD [of u] by auto
    qed (use heads BV_int int_str_head [of i] in \<open>auto split: if_splits\<close>)
  next
    case (BV_str s)
    show ?thesis
    proof (cases w)
      case (BV_str t)
      with \<open>v = BV_str s\<close> assms json_string_prefix_free [of s r t u] show ?thesis by auto
    next
      case (BV_int j)
      then show ?thesis using heads BV_str int_str_head [of j] by auto
    qed (use heads BV_str in \<open>auto split: if_splits\<close>)
  qed
qed

lemma json_members_head:
  "fs \<noteq> [] \<Longrightarrow> \<exists>r. json_members fs = CHR 0x22 # r"
  by (cases fs rule: json_members.cases) (auto simp: json_string_def)

lemma json_members_Cons:
  "\<exists>e. value_end (e @ ''}'' @ r) \<and>
     json_members ((n, v) # fs) = json_string n @ CHR '':'' # json_value v @ e \<and>
     e = (if fs = [] then [] else CHR '','' # json_members fs)"
  by (cases fs) (auto simp: value_end_def)

lemma json_members_prefix_free:
  "json_members fs @ ''}'' @ r = json_members gs @ ''}'' @ u \<Longrightarrow> fs = gs \<and> r = u"
proof (induction fs arbitrary: gs)
  case Nil
  then show ?case using json_members_head [of gs] by (cases "gs = []") auto
next
  case (Cons f fs)
  obtain n v where f: "f = (n, v)" by (cases f)
  obtain m w gs' where gs: "gs = (m, w) # gs'"
  proof (cases gs)
    case Nil
    with Cons.prems json_members_head [of "f # fs"] show ?thesis by auto
  next
    case (Cons g gs'')
    then show ?thesis using that by (cases g) auto
  qed
  obtain e where e: "value_end (e @ ''}'' @ r)"
      "json_members ((n, v) # fs) = json_string n @ CHR '':'' # json_value v @ e"
      "e = (if fs = [] then [] else CHR '','' # json_members fs)"
    using json_members_Cons [of r n v fs] by blast
  obtain d where d: "value_end (d @ ''}'' @ u)"
      "json_members ((m, w) # gs') = json_string m @ CHR '':'' # json_value w @ d"
      "d = (if gs' = [] then [] else CHR '','' # json_members gs')"
    using json_members_Cons [of u m w gs'] by blast
  have "json_string n @ CHR '':'' # json_value v @ e @ ''}'' @ r
      = json_string m @ CHR '':'' # json_value w @ d @ ''}'' @ u"
    using Cons.prems e(2) d(2) unfolding f gs by simp
  from json_string_prefix_free [OF this]
  have 1: "n = m" "json_value v @ (e @ ''}'' @ r) = json_value w @ (d @ ''}'' @ u)" by simp_all
  from json_value_prefix_free [OF 1(2) e(1) d(1)]
  have 2: "v = w" "e @ ''}'' @ r = d @ ''}'' @ u" by simp_all
  show ?case
  proof (cases "fs = []"; cases "gs' = []")
    assume "fs \<noteq> []" "gs' \<noteq> []"
    then have "json_members fs @ ''}'' @ r = json_members gs' @ ''}'' @ u" using 2 e(3) d(3) by simp
    from Cons.IH [OF this] show ?thesis using 1 2 f gs by simp
  qed (use 1 2 e d f gs in auto)
qed

lemma action_value_inj: "action_value a = action_value b \<Longrightarrow> a = b"
  by (cases a; cases b) simp_all

lemma encode_body_id: "encode_body b = Inr e \<Longrightarrow> e = b"
proof (induction b arbitrary: e rule: encode_body.induct)
  case (2 name v rest)
  have "require_body_value v = Inr x \<Longrightarrow> x = v" for x
    by (auto simp: require_body_value_def split: body_value.splits if_splits)
  with 2 show ?case by (auto simp: result_simps split: if_splits)
qed simp

lemma canonical_request_ok:
  "is_ok (canonical_request a b act) \<longleftrightarrow> length b \<le> MAX_BODY_FIELDS \<and> encode_body b = Inr b"
  by (auto simp: is_ok_iff canonical_request_def result_simps dest: encode_body_id)

lemma sort_key_dict_eq:
  fixes b c :: "(string \<times> 'a) list"
  assumes "distinct (map fst b)" "distinct (map fst c)"
  shows "sort_key fst b = sort_key fst c \<longleftrightarrow> map_of b = map_of c"
proof -
  have d: "distinct (map fst (sort_key fst b))" "distinct (map fst (sort_key fst c))"
    using assms by (metis distinct_map set_sort distinct_sort)+
  have "sort_key fst b = sort_key fst c \<longleftrightarrow> set b = set c"
  proof
    assume "set b = set c"
    then show "sort_key fst b = sort_key fst c"
      using d by (intro map_sorted_distinct_set_unique [of fst]) (auto simp: distinct_map)
  qed (metis set_sort)
  then show ?thesis using assms by (simp add: map_of_inject_set)
qed

text \<open>
  Two accepted requests have the same canonical encoding, and so the same fingerprint
  text, exactly when action, attribution and body (as a dictionary, whatever the order of its
  fields) agree.
\<close>

theorem canonical_request_injective:
  assumes "is_ok (canonical_request a b act)" "is_ok (canonical_request a' b' act')"
    and "distinct (map fst b)" "distinct (map fst b')"
  shows "canonical_request a b act = canonical_request a' b' act' \<longleftrightarrow>
    a = a' \<and> a_user_id act = a_user_id act' \<and> a_role act = a_role act' \<and> map_of b = map_of b'"
proof
  have ok: "length b \<le> MAX_BODY_FIELDS" "encode_body b = Inr b"
    "length b' \<le> MAX_BODY_FIELDS" "encode_body b' = Inr b'"
    using assms(1,2) by (simp_all only: canonical_request_ok)
  assume eq: "canonical_request a b act = canonical_request a' b' act'"
  have "json_string (action_value a) @ CHR '','' # json_string ''actor'' @ '':{'' @ json_string ''role''
      @ CHR '':'' # json_string (a_role act) @ CHR '','' # json_string ''user_id'' @ CHR '':''
      # json_string (a_user_id act) @ ''},'' @ json_string ''body'' @ '':{'' @ json_members (sort_key fst b) @ ''}'' @ ''}''
    = json_string (action_value a') @ CHR '','' # json_string ''actor'' @ '':{'' @ json_string ''role''
      @ CHR '':'' # json_string (a_role act') @ CHR '','' # json_string ''user_id'' @ CHR '':''
      # json_string (a_user_id act') @ ''},'' @ json_string ''body'' @ '':{'' @ json_members (sort_key fst b') @ ''}'' @ ''}''"
    using eq ok by (simp add: canonical_request_def json_object_def)
  from json_string_prefix_free [OF this] have 1: "a = a'"
    and "json_string (a_role act) @ CHR '','' # json_string ''user_id'' @ CHR '':''
      # json_string (a_user_id act) @ ''},'' @ json_string ''body'' @ '':{'' @ json_members (sort_key fst b) @ ''}'' @ ''}''
     = json_string (a_role act') @ CHR '','' # json_string ''user_id'' @ CHR '':''
      # json_string (a_user_id act') @ ''},'' @ json_string ''body'' @ '':{'' @ json_members (sort_key fst b') @ ''}'' @ ''}''"
    by (auto dest: action_value_inj)
  from json_string_prefix_free [OF this(2)] have 2: "a_role act = a_role act'"
    and "json_string (a_user_id act) @ ''},'' @ json_string ''body'' @ '':{'' @ json_members (sort_key fst b) @ ''}'' @ ''}''
     = json_string (a_user_id act') @ ''},'' @ json_string ''body'' @ '':{'' @ json_members (sort_key fst b') @ ''}'' @ ''}''"
    by auto
  from json_string_prefix_free [OF this(2)] have 3: "a_user_id act = a_user_id act'"
    and "json_members (sort_key fst b) @ ''}'' @ ''}'' = json_members (sort_key fst b') @ ''}'' @ ''}''"
    by auto
  from json_members_prefix_free [OF this(2)] show
    "a = a' \<and> a_user_id act = a_user_id act' \<and> a_role act = a_role act' \<and> map_of b = map_of b'"
    using 1 2 3 sort_key_dict_eq [OF assms(3,4)] by auto
next
  assume "a = a' \<and> a_user_id act = a_user_id act' \<and> a_role act = a_role act' \<and> map_of b = map_of b'"
  moreover have "encode_body b = Inr b" "encode_body b' = Inr b'"
    "length b \<le> MAX_BODY_FIELDS" "length b' \<le> MAX_BODY_FIELDS"
    using assms(1,2) by (simp_all only: canonical_request_ok)
  ultimately show "canonical_request a b act = canonical_request a' b' act'"
    using sort_key_dict_eq [OF assms(3,4)]
    by (simp add: canonical_request_def json_object_def)
qed

theorem canonical_request_injective_witness:
  "canonical_request OA_sort [(''slot'', BV_int 3)] \<lparr> a_user_id = ''u'', a_role = ''op'' \<rparr> \<noteq>
   canonical_request OA_sort [(''slot'', BV_str ''3'')] \<lparr> a_user_id = ''u'', a_role = ''op'' \<rparr>"
  by (subst canonical_request_injective)
    (simp_all add: canonical_request_ok operation_limits snake_match_def is_lower_def is_digit_def
      ord_def require_body_value_def fun_eq_iff)

end
