(* ===== verification/Machine.thy ===== *)
theory Machine
  imports Operations
begin

text \<open>
  Session confidence (\<open>session.py\<close>) and the machine view (\<open>machine.py\<close>). Both publish immutable
  snapshots under a monotonic generation and keep their history; an observer is called once per
  published snapshot, so the snapshots a step appends to the history are exactly the observer's
  calls. The locks make each method one atomic step.
\<close>

section \<open>Session state\<close>

datatype connection_state = CS_disconnected | CS_connecting | CS_verifying_v1 | CS_activating_v2
  | CS_ready | CS_recovering | CS_uncertain

record session_snapshot =
  ss_state :: connection_state
  ss_generation :: int
  ss_reason :: string

definition session_admits_work :: "session_snapshot \<Rightarrow> bool" where
  "session_admits_work s = (ss_state s = CS_ready)"

record session_state =
  ses_snapshot :: session_snapshot
  ses_history :: "session_snapshot list"

definition new_session_state :: session_state where
  "new_session_state =
     (let s = \<lparr> ss_state = CS_disconnected, ss_generation = 1, ss_reason = ''initial'' \<rparr>
      in \<lparr> ses_snapshot = s, ses_history = [s] \<rparr>)"

definition session_transition ::
    "connection_state \<Rightarrow> string \<Rightarrow> session_state \<Rightarrow> session_snapshot \<times> session_state" where
  "session_transition state reason ses =
     (if state = ss_state (ses_snapshot ses) then (ses_snapshot ses, ses)
      else let s = \<lparr> ss_state = state, ss_generation = ss_generation (ses_snapshot ses) + 1,
                     ss_reason = reason \<rparr>
           in (s, \<lparr> ses_snapshot = s, ses_history = ses_history ses @ [s] \<rparr>))"

section \<open>Machine view\<close>

datatype fault_state = FS_clear | FS_active | FS_latched | FS_uncertain

record firmware_profile =
  fp_protocol_version :: nat
  fp_slot_max :: nat
  fp_slot_count :: nat
  fp_queue_depth :: nat
  fp_feed_sensor :: bool
  fp_feed_home :: bool
  fp_sort_home :: bool

record machine_readiness =
  mr_feed_homed :: bool
  mr_sort_homed :: bool
  mr_fault_code :: nat
  mr_mode :: string
  mr_phase :: string

record machine_snapshot =
  ms_generation :: int
  ms_connection :: connection_state
  ms_reason :: string
  ms_active_operation_id :: "string option"
  ms_fault :: fault_state
  ms_journal_available :: bool
  ms_firmware :: "firmware_profile option"
  ms_readiness :: "machine_readiness option"
  ms_fault_id :: "string option"
  ms_fault_opened_at :: "datetime option"

definition admits_work :: "machine_snapshot \<Rightarrow> bool" where
  "admits_work v = (ms_connection v = CS_ready \<and> ms_journal_available v \<and> ms_fault v = FS_clear)"

record machine_state =
  m_snapshot :: machine_snapshot
  m_history :: "machine_snapshot list"

definition initial_snapshot :: machine_snapshot where
  "initial_snapshot = \<lparr> ms_generation = 1, ms_connection = CS_disconnected, ms_reason = ''initial'',
     ms_active_operation_id = None, ms_fault = FS_clear, ms_journal_available = True,
     ms_firmware = None, ms_readiness = None, ms_fault_id = None, ms_fault_opened_at = None \<rparr>"

definition new_machine_state :: machine_state where
  "new_machine_state = \<lparr> m_snapshot = initial_snapshot, m_history = [initial_snapshot] \<rparr>"

definition publish_view :: "machine_snapshot \<Rightarrow> machine_state \<Rightarrow> machine_snapshot \<times> machine_state" where
  "publish_view candidate m =
     (let published = candidate\<lparr> ms_generation := ms_generation (m_snapshot m) + 1 \<rparr>
      in (published, m\<lparr> m_snapshot := published, m_history := m_history m @ [published] \<rparr>))"

text \<open>The block of \<open>with machine.transition(...) as generation\<close> is the argument: it runs on the
  caller's own state, and nothing is published when it raises.\<close>

definition machine_transition ::
    "string option \<Rightarrow> string \<Rightarrow> (int \<Rightarrow> 's \<Rightarrow> ('e, 'a) result \<times> 's)
       \<Rightarrow> machine_state \<Rightarrow> 's \<Rightarrow> ('e, 'a) result \<times> machine_state \<times> 's" where
  "machine_transition active_operation_id reason block m s =
     (case block (ms_generation (m_snapshot m) + 1) s of
        (Inl e, s') \<Rightarrow> (Inl e, m, s')
      | (Inr x, s') \<Rightarrow>
          (Inr x, snd (publish_view ((m_snapshot m)\<lparr> ms_active_operation_id := active_operation_id,
                                                    ms_reason := reason \<rparr>) m), s'))"

definition observe_connection :: "session_snapshot \<Rightarrow> machine_state \<Rightarrow> machine_snapshot \<times> machine_state" where
  "observe_connection session m =
     (if ss_state session = ms_connection (m_snapshot m) then (m_snapshot m, m)
      else publish_view ((m_snapshot m)\<lparr> ms_connection := ss_state session,
                                        ms_reason := ss_reason session \<rparr>) m)"

definition observe_profile ::
    "firmware_profile \<Rightarrow> machine_readiness \<Rightarrow> machine_state \<Rightarrow> machine_snapshot \<times> machine_state" where
  "observe_profile firmware readiness m =
     (if (Some firmware, Some readiness) = (ms_firmware (m_snapshot m), ms_readiness (m_snapshot m))
      then (m_snapshot m, m)
      else publish_view ((m_snapshot m)\<lparr> ms_firmware := Some firmware, ms_readiness := Some readiness,
             ms_reason := ''observed controller capabilities and readiness'' \<rparr>) m)"

definition record_journal_fault ::
    "string \<Rightarrow> string option \<Rightarrow> datetime option \<Rightarrow> machine_state \<Rightarrow> machine_snapshot \<times> machine_state" where
  "record_journal_fault reason fault_id opened_at m =
     (if \<not> ms_journal_available (m_snapshot m) then (m_snapshot m, m)
      else publish_view ((m_snapshot m)\<lparr> ms_journal_available := False, ms_fault := FS_latched,
             ms_reason := reason, ms_fault_id := fault_id, ms_fault_opened_at := opened_at \<rparr>) m)"

section \<open>Runs of the machine view\<close>

text \<open>Any thread may take any of these steps next.\<close>

inductive machine_step :: "machine_state \<Rightarrow> machine_state \<Rightarrow> bool" where
  ms_connection_step: "machine_step m (snd (observe_connection session m))"
| ms_profile_step: "machine_step m (snd (observe_profile firmware readiness m))"
| ms_fault_step: "machine_step m (snd (record_journal_fault reason fault_id opened_at m))"
| ms_transition_step:
    "machine_transition active reason (block :: int \<Rightarrow> unit \<Rightarrow> (unit, unit) result \<times> unit) m () = (r, m', ())
     \<Longrightarrow> machine_step m m'"

lemmas machine_defs = publish_view_def observe_connection_def observe_profile_def
  record_journal_fault_def machine_transition_def Let_def

text \<open>The current snapshot ends the history, whose generations count up from 1.\<close>

definition machine_wf :: "machine_state \<Rightarrow> bool" where
  "machine_wf m = (m_history m \<noteq> [] \<and> last (m_history m) = m_snapshot m \<and>
     map ms_generation (m_history m) = map int [1..<Suc (length (m_history m))])"

lemma new_machine_wf [simp]: "machine_wf new_machine_state"
  by (simp add: machine_wf_def new_machine_state_def initial_snapshot_def)

lemma counting_last:
  assumes "xs \<noteq> []" "map f xs = map int [1..<Suc (length xs)]"
  shows "f (last xs) = int (length xs)"
proof -
  have "f (last xs) = last (map f xs)" using assms(1) by (simp add: last_map)
  also have "\<dots> = last (map int [1..<Suc (length xs)])" by (simp only: assms(2))
  also have "\<dots> = int (length xs)" using assms(1) by (simp add: last_map Suc_le_eq)
  finally show ?thesis .
qed

lemma machine_wf_generation:
  "machine_wf m \<Longrightarrow> ms_generation (m_snapshot m) = int (length (m_history m))"
  using counting_last [of "m_history m" ms_generation] by (simp add: machine_wf_def)

lemma publish_view_wf: "machine_wf m \<Longrightarrow> machine_wf (snd (publish_view c m))"
  using machine_wf_generation [of m] by (simp add: machine_wf_def publish_view_def Let_def)

text \<open>Every step leaves the view alone or publishes one successor snapshot.\<close>

lemma machine_step_publishes:
  assumes "machine_step m m'"
  shows "m' = m \<or> (\<exists>c. m' = snd (publish_view c m) \<and>
    (\<not> ms_journal_available (m_snapshot m) \<longrightarrow>
       \<not> ms_journal_available c \<and> ms_fault c = ms_fault (m_snapshot m) \<and>
       ms_fault_id c = ms_fault_id (m_snapshot m)))"
  using assms
proof cases
  case (ms_connection_step session)
  then show ?thesis by (auto simp: observe_connection_def intro!: exI)
next
  case (ms_profile_step firmware readiness)
  then show ?thesis by (auto simp: observe_profile_def intro!: exI split: if_splits)
next
  case (ms_fault_step reason fault_id opened_at)
  then show ?thesis
    by (cases "ms_journal_available (m_snapshot m)") (auto simp: record_journal_fault_def)
next
  case (ms_transition_step active reason block r)
  then show ?thesis
    by (auto simp: machine_transition_def intro!: exI split: prod.splits sum.splits)
qed

text \<open>Whatever state the block of a transition runs on, the view makes one such step.\<close>

lemma machine_transition_step:
  assumes "machine_transition active reason block m s = (r, m', s')"
  shows "machine_step m m'"
proof (rule ms_transition_step)
  show "machine_transition active reason
      (\<lambda>g _. (case fst (block g s) of Inl _ \<Rightarrow> Inl () | Inr _ \<Rightarrow> Inr (), ())) m ()
    = (case r of Inl _ \<Rightarrow> Inl () | Inr _ \<Rightarrow> Inr (), m', ())"
    using assms by (auto simp: machine_transition_def split: prod.splits sum.splits)
qed

lemma machine_step_wf: "machine_step m m' \<Longrightarrow> machine_wf m \<Longrightarrow> machine_wf m'"
  using machine_step_publishes publish_view_wf by blast

lemma machine_step_generation:
  "machine_step m m' \<Longrightarrow> ms_generation (m_snapshot m) \<le> ms_generation (m_snapshot m')"
  by (drule machine_step_publishes) (auto simp: publish_view_def Let_def)

lemma machine_step_unchanged:
  "machine_step m m' \<Longrightarrow> ms_generation (m_snapshot m) = ms_generation (m_snapshot m') \<Longrightarrow> m' = m"
proof -
  assume "machine_step m m'" and eq: "ms_generation (m_snapshot m) = ms_generation (m_snapshot m')"
  have "ms_generation (m_snapshot (snd (publish_view c m))) \<noteq> ms_generation (m_snapshot m)" for c
    by (simp add: publish_view_def Let_def)
  with machine_step_publishes [OF \<open>machine_step m m'\<close>] eq show "m' = m" by metis
qed

lemma machine_step_latched:
  "machine_step m m' \<Longrightarrow> \<not> ms_journal_available (m_snapshot m) \<Longrightarrow>
     \<not> ms_journal_available (m_snapshot m') \<and> ms_fault (m_snapshot m') = ms_fault (m_snapshot m) \<and>
     ms_fault_id (m_snapshot m') = ms_fault_id (m_snapshot m)"
  by (drule machine_step_publishes) (auto simp: publish_view_def Let_def)

lemma machine_run_wf: "machine_step\<^sup>*\<^sup>* m m' \<Longrightarrow> machine_wf m \<Longrightarrow> machine_wf m'"
  by (induction rule: rtranclp_induct) (auto intro: machine_step_wf)

lemma machine_run_generation:
  "machine_step\<^sup>*\<^sup>* m m' \<Longrightarrow> ms_generation (m_snapshot m) \<le> ms_generation (m_snapshot m')"
  by (induction rule: rtranclp_induct) (auto dest: machine_step_generation)

lemma machine_run_unchanged:
  "machine_step\<^sup>*\<^sup>* m m' \<Longrightarrow> ms_generation (m_snapshot m') \<le> ms_generation (m_snapshot m) \<Longrightarrow> m' = m"
proof (induction rule: rtranclp_induct)
  case (step y z)
  then have "ms_generation (m_snapshot y) \<le> ms_generation (m_snapshot m)"
    using machine_step_generation [of y z] by simp
  with step have "y = m" by simp
  then show ?case using step machine_step_unchanged [of y z] machine_step_generation [of y z] by auto
qed simp

text \<open>
  A generation identifies the machine view: along any run, the generations of the
  published history count up one by one from 1, and a holder of generation N that still observes
  N observes the very same view.
\<close>

theorem generation_identifies_view:
  assumes "machine_step\<^sup>*\<^sup>* new_machine_state m" "machine_step\<^sup>*\<^sup>* m m'"
  shows "map ms_generation (m_history m') = map int [1..<Suc (length (m_history m'))]
    \<and> m_snapshot m' = last (m_history m')
    \<and> (ms_generation (m_snapshot m') = ms_generation (m_snapshot m) \<longleftrightarrow> m' = m)"
proof -
  have "machine_wf m'" using assms by (meson machine_run_wf new_machine_wf)
  moreover have "ms_generation (m_snapshot m') = ms_generation (m_snapshot m) \<longleftrightarrow> m' = m"
    using machine_run_unchanged [OF assms(2)] by auto
  ultimately show ?thesis by (simp add: machine_wf_def)
qed

definition faulted :: machine_state where
  "faulted = snd (record_journal_fault ''r'' (Some ''f'') None new_machine_state)"

lemma faulted_reachable: "machine_step\<^sup>*\<^sup>* new_machine_state faulted"
  unfolding faulted_def by (rule r_into_rtranclp) (rule ms_fault_step)

theorem generation_identifies_view_witness:
  "map ms_generation (m_history faulted) = [1, 2]"
  using generation_identifies_view [OF faulted_reachable rtranclp.rtrancl_refl]
  by (simp add: faulted_def machine_defs new_machine_state_def initial_snapshot_def)

text \<open>
  lost durability latches: once a journal fault is recorded, no later step of any thread
  makes the view admit work again, clears the fault or replaces its identity.
\<close>

theorem journal_fault_latches:
  assumes "machine_step\<^sup>*\<^sup>* (snd (record_journal_fault reason fault_id opened_at m)) m'"
    and "ms_journal_available (m_snapshot m)"
  shows "\<not> admits_work (m_snapshot m') \<and> ms_fault (m_snapshot m') = FS_latched
    \<and> ms_fault_id (m_snapshot m') = fault_id"
proof -
  have "\<not> ms_journal_available (m_snapshot m') \<and> ms_fault (m_snapshot m') = FS_latched
      \<and> ms_fault_id (m_snapshot m') = fault_id"
    using assms(1)
  proof (induction rule: rtranclp_induct)
    case base
    show ?case using assms(2) by (simp add: machine_defs)
  next
    case (step y z)
    then show ?case using machine_step_latched [of y z] by simp
  qed
  then show ?thesis by (simp add: admits_work_def)
qed

theorem journal_fault_latches_witness:
  "\<not> admits_work (m_snapshot (snd (observe_connection
      \<lparr> ss_state = CS_ready, ss_generation = 2, ss_reason = ''x'' \<rparr> faulted)))"
proof -
  have "machine_step\<^sup>*\<^sup>* faulted (snd (observe_connection
      \<lparr> ss_state = CS_ready, ss_generation = 2, ss_reason = ''x'' \<rparr> faulted))"
    by (rule r_into_rtranclp) (rule ms_connection_step)
  then show ?thesis
    using journal_fault_latches [of "''r''" "Some ''f''" None new_machine_state]
    by (simp add: faulted_def new_machine_state_def initial_snapshot_def)
qed

section \<open>Runs of the session state\<close>

definition session_wf :: "session_state \<Rightarrow> bool" where
  "session_wf ses = (ses_history ses \<noteq> [] \<and> last (ses_history ses) = ses_snapshot ses \<and>
     map ss_generation (ses_history ses) = map int [1..<Suc (length (ses_history ses))] \<and>
     distinct_adj (map ss_state (ses_history ses)))"

lemma new_session_wf: "session_wf new_session_state"
  by (simp add: session_wf_def new_session_state_def Let_def)

lemma session_transition_wf:
  assumes "session_wf ses"
  shows "session_wf (snd (session_transition st reason ses))"
proof (cases "st = ss_state (ses_snapshot ses)")
  case False
  have "ss_generation (ses_snapshot ses) = int (length (ses_history ses))"
    using assms counting_last [of "ses_history ses" ss_generation] by (simp add: session_wf_def)
  moreover have "distinct_adj (map ss_state (ses_history ses) @ [st])"
    using assms False by (auto simp: session_wf_def distinct_adj_append_iff last_map)
  ultimately show ?thesis
    using assms False by (simp add: session_wf_def session_transition_def Let_def)
qed (use assms in \<open>simp add: session_transition_def\<close>)

end
