(* ===== verification/Adapters.thy ===== *)
theory Adapters
  imports Machine Models
begin

text \<open>
  The closed worker intents and worker errors (first part of \<open>serial_worker.py\<close>) and the typed
  adapters from requests to intents (\<open>adapters.py\<close>). A request body is an association list with
  distinct names, as built from a JSON object.
\<close>

section \<open>Intents, results and errors of the worker\<close>

datatype query_kind = QK_status | QK_capabilities | QK_queue

datatype session_action = SA_connect | SA_recover

datatype home_axis = HA_feeder | HA_sorter | HA_both

datatype worker_intent = SessionIntent session_action | QueryIntent query_kind
  | HomeIntent home_axis | SortIntent int

text \<open>\<open>SortIntent.__post_init__\<close>; \<open>None\<close> is the \<open>ValueError\<close>.\<close>

definition make_sort_intent :: "int \<Rightarrow> worker_intent option" where
  "make_sort_intent slot = (if 0 \<le> slot \<and> slot \<le> 102 then Some (SortIntent slot) else None)"

datatype worker_result = WR_status status | WR_capabilities capabilities | WR_queue queue_snapshot
  | WR_completion completion

datatype worker_error = WorkerNotRunningError | SessionNotReadyError | QueueFullError
  | StopInProgressError | PreemptedByStopError | PreemptedByRecoveryError | WorkerUncertainError
  | WorkerStartupError | WorkerShutdownTimeout

text \<open>Every exception a future of the worker can carry.\<close>

datatype failure = Worker_failure worker_error | Protocol_failure protocol_error
  | Daemon_failure daemon_error

section \<open>Adapters\<close>

fun home_axis_of :: "string \<Rightarrow> home_axis option" where
  "home_axis_of s =
     (if s = ''feeder'' then Some HA_feeder else if s = ''sorter'' then Some HA_sorter
      else if s = ''both'' then Some HA_both else None)"

definition home_intent :: "request_body \<Rightarrow> (daemon_error, worker_intent) result" where
  "home_intent body =
     (if set (map fst body) \<noteq> {''axis''} then Inl validation_error
      else case map_of body ''axis'' of
             Some (BV_str axis) \<Rightarrow>
               (case home_axis_of axis of Some a \<Rightarrow> Inr (HomeIntent a) | None \<Rightarrow> Inl validation_error)
           | _ \<Rightarrow> Inl validation_error)"

definition sort_intent :: "request_body \<Rightarrow> (daemon_error, worker_intent) result" where
  "sort_intent body =
     (if set (map fst body) \<noteq> {''slot''} then Inl validation_error
      else case map_of body ''slot'' of
             Some (BV_int slot) \<Rightarrow> of_option validation_error (make_sort_intent slot)
           | _ \<Rightarrow> Inl validation_error)"

text \<open>The feed gate is open: a well-shaped request is refused as unsupported.\<close>

definition feed_intent :: "request_body \<Rightarrow> (daemon_error, worker_intent) result" where
  "feed_intent body =
     (if set (map fst body) \<noteq> {''slot''} then Inl validation_error
      else case map_of body ''slot'' of
             Some (BV_int slot) \<Rightarrow> Inl (DomainError UnsupportedOperationError None)
           | _ \<Rightarrow> Inl validation_error)"

definition intent_for :: "operation_action \<Rightarrow> request_body \<Rightarrow> (daemon_error, worker_intent) result" where
  "intent_for action body =
     (if action = OA_stop then Inl validation_error
      else if action = OA_connect \<or> action = OA_recover then Inl validation_error
      else if action = OA_home then home_intent body
      else if action = OA_feed then feed_intent body
      else sort_intent body)"

text \<open>\<open>_HOME_AXIS_CAPABILITY\<close>: the advertised capabilities an axis needs.\<close>

fun home_axis_advertised :: "home_axis \<Rightarrow> firmware_profile \<Rightarrow> bool" where
  "home_axis_advertised HA_feeder f = fp_feed_home f"
| "home_axis_advertised HA_sorter f = fp_sort_home f"
| "home_axis_advertised HA_both f = (fp_feed_home f \<and> fp_sort_home f)"

definition require_supported :: "worker_intent \<Rightarrow> machine_snapshot \<Rightarrow> (daemon_error, unit) result" where
  "require_supported intent view =
     (case (ms_firmware view, ms_readiness view) of
        (Some firmware, Some readiness) \<Rightarrow>
          (case intent of
             HomeIntent axis \<Rightarrow>
               if home_axis_advertised axis firmware then Inr ()
               else Inl (DomainError UnsupportedOperationError None)
           | SortIntent slot \<Rightarrow>
               if slot > int (fp_slot_max firmware) then Inl validation_error
               else if \<not> mr_sort_homed readiness then Inl (DomainError NotReadyError None)
               else Inr ()
           | _ \<Rightarrow> Inl validation_error)
      | _ \<Rightarrow> Inl (DomainError NotReadyError None))"

section \<open>What an admitted intent can be\<close>

lemma intent_for_cases:
  assumes "intent_for action body = Inr intent"
  obtains (home) axis where "intent = HomeIntent axis" "action = OA_home"
  | (sort) slot where "intent = SortIntent slot" "0 \<le> slot" "slot \<le> 102" "action \<in> {OA_sort, OA_configure}"
  using assms
  by (cases action)
    (auto simp: intent_for_def home_intent_def sort_intent_def feed_intent_def make_sort_intent_def
      split: if_splits option.splits body_value.splits)

text \<open>
  Whatever a caller asks for, an intent that passes both adapter stages is homing of an
  axis whose capability the controller advertised, or a sort to a slot within 0..102 and the
  advertised maximum with the sorter homed; feed, stop, connect and recover never pass.
\<close>

theorem supported_intents_are_safe:
  assumes "intent_for action body = Inr intent" "require_supported intent view = Inr ()"
  shows "\<exists>firmware readiness. ms_firmware view = Some firmware \<and> ms_readiness view = Some readiness \<and>
    (case intent of
       HomeIntent axis \<Rightarrow> action = OA_home \<and> home_axis_advertised axis firmware
     | SortIntent slot \<Rightarrow> action \<in> {OA_sort, OA_configure} \<and> 0 \<le> slot \<and> slot \<le> 102 \<and>
         slot \<le> int (fp_slot_max firmware) \<and> mr_sort_homed readiness
     | _ \<Rightarrow> False)"
  using assms(1)
  by (cases rule: intent_for_cases)
    (use assms(2) in \<open>auto simp: require_supported_def split: option.splits if_splits\<close>)

theorem supported_intents_are_safe_witness:
  "\<exists>firmware. ms_firmware (initial_snapshot\<lparr>
      ms_firmware := Some \<lparr> fp_protocol_version = 2, fp_slot_max = 8, fp_slot_count = 9,
        fp_queue_depth = 2, fp_feed_sensor = True, fp_feed_home = True, fp_sort_home = True \<rparr>,
      ms_readiness := Some \<lparr> mr_feed_homed = True, mr_sort_homed = True, mr_fault_code = 0,
        mr_mode = ''v2'', mr_phase = ''idle'' \<rparr> \<rparr>) = Some firmware \<and> 3 \<le> fp_slot_max firmware"
  using supported_intents_are_safe [of OA_sort "[(''slot'', BV_int 3)]" "SortIntent 3"
      "initial_snapshot\<lparr>
      ms_firmware := Some \<lparr> fp_protocol_version = 2, fp_slot_max = 8, fp_slot_count = 9,
        fp_queue_depth = 2, fp_feed_sensor = True, fp_feed_home = True, fp_sort_home = True \<rparr>,
      ms_readiness := Some \<lparr> mr_feed_homed = True, mr_sort_homed = True, mr_fault_code = 0,
        mr_mode = ''v2'', mr_phase = ''idle'' \<rparr> \<rparr>"]
  by (simp add: intent_for_def sort_intent_def make_sort_intent_def require_supported_def)

end
