(* ===== verification/Serial_Worker.thy ===== *)
theory Serial_Worker
  imports Adapters "HOL-Library.Multiset"
begin

text \<open>
  The serial worker (\<open>daemon/src/cs71d/serial_worker.py\<close>): one thread that owns the transport and
  the protocol client, a bounded queue of work and a priority stop. Callers and the thread share
  the worker's state under one condition variable. The thread is a program whose instructions
  are its critical sections and the calls it makes to the transport, the client and the
  callbacks; between any two of them callers may act. An exception's text is not part of the
  model, and the session observer does not raise.
\<close>

section \<open>State\<close>

datatype worker_lifecycle = WS_new | WS_starting | WS_running | WS_closing | WS_closed | WS_failed

text \<open>\<open>concurrent.futures.Future\<close>; the result of a stop is \<open>None\<close>.\<close>

datatype future = PENDING | RUNNING | CANCELLED | CANCELLED_AND_NOTIFIED
  | FINISHED "(failure, worker_result option) result"

record work_item =
  wi_intent :: worker_intent
  wi_future :: nat
  wi_on_dispatch :: bool

text \<open>What the thread calls: the transport factory, a transport, the client of a transport, the
  callback of an item, the profile observer. A transport and its client carry one number.\<close>

datatype client_call = K_open | K_close nat | K_wait_ready nat | K_ping nat | K_activate nat
  | K_capabilities nat | K_status nat | K_queue nat | K_request nat nat string | K_stop nat
  | K_on_dispatch nat | K_profile capabilities status

datatype answer = Raised failure | A_unit | A_bool bool | A_transport nat | A_capabilities capabilities
  | A_status status | A_queue queue_snapshot | A_completion completion

text \<open>\<open>w_preempted\<close> holds what callers have taken from the queue and have still to fail;
  \<open>w_trace\<close> the calls made so far with their answers.\<close>

record worker =
  w_capacity :: nat
  w_attempts :: nat
  w_profile_observer :: bool
  w_state :: worker_lifecycle
  w_normal :: "work_item list"
  w_stop_requested :: bool
  w_stop_waiters :: "nat list"
  w_failure :: "failure option"
  w_session :: session_state
  w_futures :: "nat \<Rightarrow> future"
  w_next :: nat
  w_preempted :: "(nat \<times> failure) list"
  w_trace :: "(client_call \<times> answer) list"

definition new_worker :: "int \<Rightarrow> int \<Rightarrow> int \<Rightarrow> int \<Rightarrow> bool \<Rightarrow> worker option" where
  "new_worker normal_capacity protocol_timeout interrupt_poll_interval max_reconnect_attempts profile_observer =
     (if normal_capacity < 1 \<or> protocol_timeout \<le> 0 \<or> interrupt_poll_interval \<le> 0 \<or> max_reconnect_attempts < 0
      then None
      else Some \<lparr> w_capacity = nat normal_capacity, w_attempts = nat max_reconnect_attempts,
        w_profile_observer = profile_observer, w_state = WS_new, w_normal = [], w_stop_requested = False,
        w_stop_waiters = [], w_failure = None, w_session = new_session_state, w_futures = (\<lambda>_. PENDING),
        w_next = 0, w_preempted = [], w_trace = [] \<rparr>)"

section \<open>Calls of other threads\<close>

definition is_session_intent :: "worker_intent \<Rightarrow> bool" where
  "is_session_intent intent = (case intent of SessionIntent _ \<Rightarrow> True | _ \<Rightarrow> False)"

definition new_future :: "worker \<Rightarrow> worker" where
  "new_future w = w\<lparr> w_futures := (w_futures w)(w_next w := PENDING), w_next := Suc (w_next w) \<rparr>"

definition worker_submit :: "worker_intent \<Rightarrow> bool \<Rightarrow> worker \<Rightarrow> (worker_error, nat) result \<times> worker" where
  "worker_submit intent on_dispatch w =
     (if w_state w \<noteq> WS_running then (Inl WorkerNotRunningError, w)
      else if \<not> session_admits_work (ses_snapshot (w_session w)) \<and> \<not> is_session_intent intent
      then (Inl SessionNotReadyError, w)
      else if w_stop_requested w then (Inl StopInProgressError, w)
      else if length (w_normal w) \<ge> w_capacity w then (Inl QueueFullError, w)
      else (Inr (w_next w),
        (new_future w)\<lparr> w_normal := w_normal w @
           [\<lparr> wi_intent = intent, wi_future = w_next w, wi_on_dispatch = on_dispatch \<rparr>] \<rparr>))"

definition preempt :: "failure \<Rightarrow> worker \<Rightarrow> worker" where
  "preempt e w = w\<lparr> w_normal := [],
     w_preempted := w_preempted w @ map (\<lambda>item. (wi_future item, e)) (w_normal w) \<rparr>"

definition submit_priority_stop :: "worker \<Rightarrow> (worker_error, nat) result \<times> worker" where
  "submit_priority_stop w =
     (if w_state w \<noteq> WS_running then (Inl WorkerNotRunningError, w)
      else let w1 = (new_future w)\<lparr> w_stop_waiters := w_stop_waiters w @ [w_next w] \<rparr> in
        (Inr (w_next w),
         if w_stop_requested w then w1
         else (preempt (Worker_failure PreemptedByStopError) w1)\<lparr> w_stop_requested := True \<rparr>))"

text \<open>The critical section of \<open>close\<close>; joining the thread afterwards changes nothing.\<close>

definition worker_close :: "worker \<Rightarrow> worker" where
  "worker_close w =
     (if w_state w = WS_new then w\<lparr> w_state := WS_closed \<rparr>
      else if w_state w \<in> {WS_starting, WS_running} then
        (preempt (Worker_failure PreemptedByStopError) w)\<lparr> w_state := WS_closing,
           w_stop_requested := (w_stop_requested w \<or> w_state w = WS_running) \<rparr>
      else w)"

definition close_join :: "bool \<Rightarrow> (worker_error, unit) result" where
  "close_join thread_is_alive = (if thread_is_alive then Inl WorkerShutdownTimeout else Inr ())"

text \<open>\<open>start\<close>: whether to spawn the thread, and the wait for it, which may time out.\<close>

definition start_enter :: "worker \<Rightarrow> (worker_error, bool) result \<times> worker" where
  "start_enter w =
     (if w_state w = WS_new then (Inr True, w\<lparr> w_state := WS_starting \<rparr>)
      else if w_state w \<in> {WS_running, WS_starting} then (Inr False, w)
      else (Inl WorkerNotRunningError, w))"

definition start_wait :: "worker \<Rightarrow> (worker_error, unit) result \<times> worker" where
  "start_wait w =
     (if w_state w = WS_starting then (Inl WorkerStartupError, w\<lparr> w_state := WS_closing \<rparr>)
      else if w_state w \<noteq> WS_running then (Inl WorkerStartupError, w)
      else (Inr (), w))"

text \<open>\<open>Future.cancel\<close>, and \<open>_fail_pending_future\<close> as run by a caller.\<close>

definition cancel_future :: "nat \<Rightarrow> worker \<Rightarrow> worker" where
  "cancel_future f w =
     (if w_futures w f = PENDING then w\<lparr> w_futures := (w_futures w)(f := CANCELLED) \<rparr> else w)"

definition fail_future :: "nat \<Rightarrow> failure \<Rightarrow> worker \<Rightarrow> worker" where
  "fail_future f e w =
     (case w_futures w f of
        PENDING \<Rightarrow> w\<lparr> w_futures := (w_futures w)(f := FINISHED (Inl e)) \<rparr>
      | CANCELLED \<Rightarrow> w\<lparr> w_futures := (w_futures w)(f := CANCELLED_AND_NOTIFIED) \<rparr>
      | _ \<Rightarrow> w)"

inductive caller_step :: "worker \<Rightarrow> worker \<Rightarrow> bool" where
  submit: "caller_step w (snd (worker_submit intent on_dispatch w))"
| stop: "caller_step w (snd (submit_priority_stop w))"
| close: "caller_step w (worker_close w)"
| start_timeout: "caller_step w (snd (start_wait w))"
| cancel: "f < w_next w \<Longrightarrow> caller_step w (cancel_future f w)"
| fail_preempted: "w_preempted w = xs @ (f, e) # ys \<Longrightarrow> caller_step w ((fail_future f e w)\<lparr> w_preempted := xs @ ys \<rparr>)"

section \<open>Programs of the worker thread\<close>

text \<open>A critical section waits for its condition, changes the state and goes on depending on the
  state it found; a call goes on depending on its answer.\<close>

datatype 'a prog = Done 'a | Throw failure
  | Step "worker \<Rightarrow> bool" "worker \<Rightarrow> worker" "worker \<Rightarrow> 'a prog"
  | Call client_call "answer \<Rightarrow> 'a prog"

primrec pbind :: "'a prog \<Rightarrow> ('a \<Rightarrow> 'b prog) \<Rightarrow> 'b prog" where
  "pbind (Done x) f = f x"
| "pbind (Throw e) f = Throw e"
| "pbind (Step g act k) f = Step g act (\<lambda>w. pbind (k w) f)"
| "pbind (Call c k) f = Call c (\<lambda>a. pbind (k a) f)"

text \<open>\<open>try: x = p except Exception as e: h(e) else: f(x)\<close>\<close>

primrec pbranch :: "'a prog \<Rightarrow> (failure \<Rightarrow> 'b prog) \<Rightarrow> ('a \<Rightarrow> 'b prog) \<Rightarrow> 'b prog" where
  "pbranch (Done x) h f = f x"
| "pbranch (Throw e) h f = h e"
| "pbranch (Step g act k) h f = Step g act (\<lambda>w. pbranch (k w) h f)"
| "pbranch (Call c k) h f = Call c (\<lambda>a. pbranch (k a) h f)"

abbreviation pthen :: "'a prog \<Rightarrow> 'b prog \<Rightarrow> 'b prog" where
  "pthen p q \<equiv> pbind p (\<lambda>_. q)"

definition atomic :: "(worker \<Rightarrow> worker) \<Rightarrow> (worker \<Rightarrow> 'a) \<Rightarrow> 'a prog" where
  "atomic act value = Step (\<lambda>_. True) act (\<lambda>w. Done (value w))"

definition call_with :: "client_call \<Rightarrow> (answer \<Rightarrow> 'a option) \<Rightarrow> 'a prog" where
  "call_with c decode = Call c (\<lambda>a. case decode a of Some x \<Rightarrow> Done x
     | None \<Rightarrow> Throw (case a of Raised e \<Rightarrow> e | _ \<Rightarrow> Daemon_failure (OtherError ''TypeError'')))"

fun unit_of :: "answer \<Rightarrow> unit option" where
  "unit_of A_unit = Some ()"
| "unit_of _ = None"

fun bool_of :: "answer \<Rightarrow> bool option" where
  "bool_of (A_bool b) = Some b"
| "bool_of _ = None"

fun transport_of :: "answer \<Rightarrow> nat option" where
  "transport_of (A_transport t) = Some t"
| "transport_of _ = None"

fun capabilities_of :: "answer \<Rightarrow> capabilities option" where
  "capabilities_of (A_capabilities c) = Some c"
| "capabilities_of _ = None"

fun status_of :: "answer \<Rightarrow> status option" where
  "status_of (A_status s) = Some s"
| "status_of _ = None"

fun result_of :: "answer \<Rightarrow> worker_result option" where
  "result_of (A_status s) = Some (WR_status s)"
| "result_of (A_capabilities c) = Some (WR_capabilities c)"
| "result_of (A_queue q) = Some (WR_queue q)"
| "result_of (A_completion c) = Some (WR_completion c)"
| "result_of _ = None"

section \<open>Futures and small steps\<close>

definition set_running_or_notify_cancel :: "nat \<Rightarrow> bool prog" where
  "set_running_or_notify_cancel f =
     Step (\<lambda>_. True)
       (\<lambda>w. case w_futures w f of
              PENDING \<Rightarrow> w\<lparr> w_futures := (w_futures w)(f := RUNNING) \<rparr>
            | CANCELLED \<Rightarrow> w\<lparr> w_futures := (w_futures w)(f := CANCELLED_AND_NOTIFIED) \<rparr>
            | _ \<Rightarrow> w)
       (\<lambda>w. case w_futures w f of
              PENDING \<Rightarrow> Done True
            | CANCELLED \<Rightarrow> Done False
            | _ \<Rightarrow> Throw (Daemon_failure (OtherError ''RuntimeError'')))"

definition set_outcome :: "nat \<Rightarrow> (failure, worker_result option) result \<Rightarrow> unit prog" where
  "set_outcome f r =
     Step (\<lambda>_. True)
       (\<lambda>w. if w_futures w f \<in> {PENDING, RUNNING} then w\<lparr> w_futures := (w_futures w)(f := FINISHED r) \<rparr> else w)
       (\<lambda>w. if w_futures w f \<in> {PENDING, RUNNING} then Done ()
            else Throw (Daemon_failure (OtherError ''InvalidStateError'')))"

definition fail_pending_future :: "nat \<Rightarrow> failure \<Rightarrow> unit prog" where
  "fail_pending_future f e =
     pbind (set_running_or_notify_cancel f) (\<lambda>running. if running then set_outcome f (Inl e) else Done ())"

fun fail_items :: "nat list \<Rightarrow> failure \<Rightarrow> unit prog" where
  "fail_items [] e = Done ()"
| "fail_items (f # fs) e = pthen (fail_pending_future f e) (fail_items fs e)"

definition to_session :: "connection_state \<Rightarrow> string \<Rightarrow> unit prog" where
  "to_session state reason =
     atomic (\<lambda>w. w\<lparr> w_session := snd (session_transition state reason (w_session w)) \<rparr>) (\<lambda>_. ())"

definition is_closing :: "bool prog" where
  "is_closing = atomic id (\<lambda>w. w_state w = WS_closing)"

definition is_stop_requested :: "bool prog" where
  "is_stop_requested = atomic id w_stop_requested"

definition is_ready :: "bool prog" where
  "is_ready = atomic id (\<lambda>w. ss_state (ses_snapshot (w_session w)) = CS_ready)"

definition failed_with :: "failure \<Rightarrow> worker \<Rightarrow> worker" where
  "failed_with e w = (if w_state w \<in> {WS_closed, WS_failed} then w else w\<lparr> w_state := WS_failed, w_failure := Some e \<rparr>)"

definition mark_failed :: "failure \<Rightarrow> unit prog" where
  "mark_failed e = atomic (failed_with e) (\<lambda>_. ())"

definition close_transport :: "nat \<Rightarrow> unit prog" where
  "close_transport t = pbranch (call_with (K_close t) unit_of) mark_failed Done"

definition fail_session :: "failure \<Rightarrow> string \<Rightarrow> unit prog" where
  "fail_session e reason = pthen (to_session CS_uncertain reason) (mark_failed e)"

definition drain_queue :: "failure \<Rightarrow> unit prog" where
  "drain_queue e =
     pbind (atomic (\<lambda>w. w\<lparr> w_normal := [] \<rparr>) (\<lambda>w. map wi_future (w_normal w))) (\<lambda>pending. fail_items pending e)"

fun settle_waiters :: "nat list \<Rightarrow> failure option \<Rightarrow> unit prog" where
  "settle_waiters [] e = Done ()"
| "settle_waiters (f # fs) e =
     pthen (case e of
              None \<Rightarrow> pbind (set_running_or_notify_cancel f) (\<lambda>running.
                        if running then set_outcome f (Inr None) else Done ())
            | Some x \<Rightarrow> fail_pending_future f x)
       (settle_waiters fs e)"

definition resolve_stop :: "failure option \<Rightarrow> unit prog" where
  "resolve_stop e =
     pbind (atomic (\<lambda>w. w\<lparr> w_stop_waiters := [], w_stop_requested := False \<rparr>) w_stop_waiters)
       (\<lambda>waiters. settle_waiters waiters e)"

section \<open>Sessions\<close>

definition publish_profile :: "nat \<Rightarrow> unit prog" where
  "publish_profile t =
     pbind (atomic id w_profile_observer) (\<lambda>observed.
       if \<not> observed then Done ()
       else pbind (call_with (K_capabilities t) capabilities_of) (\<lambda>capabilities.
            pbind (call_with (K_status t) status_of) (\<lambda>status.
              call_with (K_profile capabilities status) unit_of)))"

definition activate_link :: "nat \<Rightarrow> unit prog" where
  "activate_link t =
     pthen (to_session CS_activating_v2 ''negotiating protocol v2'')
       (pbind (call_with (K_activate t) bool_of) (\<lambda>available.
          if \<not> available then Throw (Worker_failure WorkerStartupError)
          else pthen (publish_profile t) (to_session CS_ready ''verified v2 session'')))"

definition connect_link :: "nat prog" where
  "connect_link =
     pthen (to_session CS_connecting ''opening controller transport'')
       (pbind (call_with K_open transport_of) (\<lambda>t.
          pbranch
            (pbind is_closing (\<lambda>closing.
               if closing then Done ()
               else pthen (to_session CS_verifying_v1 ''verifying legacy v1 barrier'')
                      (pthen (call_with (K_wait_ready t) unit_of)
                         (pthen (call_with (K_ping t) unit_of) (activate_link t)))))
            (\<lambda>e. pthen (close_transport t) (Throw e))
            (\<lambda>_. Done t)))"

fun reconnect_attempts :: "nat \<Rightarrow> failure \<Rightarrow> nat option prog" where
  "reconnect_attempts 0 fault = pthen (fail_session fault ''controller could not be reconnected'') (Done None)"
| "reconnect_attempts (Suc n) fault =
     pbind is_closing (\<lambda>closing.
       if closing then Done None
       else pbranch connect_link
              (\<lambda>e. pthen (to_session CS_disconnected ''reconnect attempt failed'') (reconnect_attempts n fault))
              (\<lambda>replacement. pbind is_ready (\<lambda>ready.
                 if ready then Done (Some replacement)
                 else pthen (close_transport replacement) (Done None))))"

definition reconnect :: "nat \<Rightarrow> failure \<Rightarrow> nat option prog" where
  "reconnect t fault =
     pthen (close_transport t)
       (pthen (to_session CS_disconnected ''transport lost'')
          (pbind (atomic id w_attempts) (\<lambda>n. reconnect_attempts n fault)))"

definition recover_link :: "nat \<Rightarrow> failure \<Rightarrow> nat option prog" where
  "recover_link t fault =
     pthen (to_session CS_recovering ''recovering'')
       (pthen (drain_queue (Worker_failure PreemptedByRecoveryError))
          (pbind is_closing (\<lambda>closing.
             if closing then pthen (close_transport t) (Done None)
             else if fault = Protocol_failure (RecoveryError True) then
               pthen (to_session CS_verifying_v1 ''v1 verified by protocol library recovery'')
                 (pbranch (activate_link t) (reconnect t) (\<lambda>_. Done (Some t)))
             else reconnect t fault)))"

section \<open>Work\<close>

fun home_command :: "home_axis \<Rightarrow> string" where
  "home_command HA_feeder = ''homefeeder''"
| "home_command HA_sorter = ''homesorter''"
| "home_command HA_both = ''homeall''"

fun dispatch_work :: "nat \<Rightarrow> nat \<Rightarrow> worker_intent \<Rightarrow> worker_result prog" where
  "dispatch_work t f (QueryIntent QK_status) = call_with (K_status t) result_of"
| "dispatch_work t f (QueryIntent QK_capabilities) = call_with (K_capabilities t) result_of"
| "dispatch_work t f (QueryIntent QK_queue) = call_with (K_queue t) result_of"
| "dispatch_work t f (SessionIntent a) = Throw (Worker_failure WorkerNotRunningError)"
| "dispatch_work t f (HomeIntent axis) = call_with (K_request t f (home_command axis)) result_of"
| "dispatch_work t f (SortIntent slot) = call_with (K_request t f (''sortto:'' @ int_str slot)) result_of"

text \<open>\<open>isinstance(exc, ProtocolError | OSError)\<close>\<close>

definition breaks_session :: "failure \<Rightarrow> bool" where
  "breaks_session e = (case e of Protocol_failure p \<Rightarrow> p \<noteq> ValueError | _ \<Rightarrow> False)"

definition broken :: "failure \<Rightarrow> failure option" where
  "broken e = (if breaks_session e then Some e else None)"

text \<open>The beginning of an item: claim its future and call its callback; \<open>False\<close> when it was
  cancelled or withdrawn.\<close>

definition begin_item :: "work_item \<Rightarrow> bool prog" where
  "begin_item item =
     pbind (set_running_or_notify_cancel (wi_future item)) (\<lambda>running.
       if \<not> running then Done False
       else if \<not> wi_on_dispatch item then Done True
       else pbranch (call_with (K_on_dispatch (wi_future item)) unit_of)
              (\<lambda>e. pthen (set_outcome (wi_future item) (Inl e)) (Done False))
              (\<lambda>_. Done True))"

text \<open>A priority stop that arrived while the item ran invalidates its result.\<close>

definition stop_after_result :: "nat \<Rightarrow> nat \<Rightarrow> failure option prog" where
  "stop_after_result t f =
     pbranch (call_with (K_stop t) unit_of)
       (\<lambda>e. pthen (set_outcome f (Inl (Worker_failure WorkerUncertainError)))
              (pthen (resolve_stop (Some e)) (pthen (fail_session e ''priority stop was unsafe'') (Done None))))
       (\<lambda>_. pthen (set_outcome f (Inl (Worker_failure PreemptedByStopError)))
              (pthen (resolve_stop None) (Done None)))"

definition work_failed :: "nat \<Rightarrow> failure \<Rightarrow> failure option prog" where
  "work_failed f e =
     (if e = Protocol_failure RequestInterruptedError then
        pthen (set_outcome f (Inl (Worker_failure PreemptedByStopError))) (pthen (resolve_stop None) (Done None))
      else pbind is_stop_requested (\<lambda>stop.
        if stop then
          pthen (set_outcome f (Inl (Worker_failure WorkerUncertainError)))
            (pthen (resolve_stop (Some e)) (pthen (mark_failed e) (Done None)))
        else pthen (set_outcome f (Inl e)) (Done (broken e))))"

definition work_done :: "nat \<Rightarrow> work_item \<Rightarrow> worker_result \<Rightarrow> failure option prog" where
  "work_done t item result =
     pbind is_stop_requested (\<lambda>stop.
       if stop then stop_after_result t (wi_future item)
       else pthen (set_outcome (wi_future item) (Inr (Some result)))
              (case wi_intent item of
                 HomeIntent _ \<Rightarrow> pbranch (publish_profile t) (\<lambda>e. Done (broken e)) (\<lambda>_. Done None)
               | SortIntent _ \<Rightarrow> pbranch (publish_profile t) (\<lambda>e. Done (broken e)) (\<lambda>_. Done None)
               | _ \<Rightarrow> Done None))"

definition execute_item :: "nat \<Rightarrow> work_item \<Rightarrow> failure option prog" where
  "execute_item t item =
     pbind (begin_item item) (\<lambda>begun.
       if \<not> begun then Done None
       else pbranch (dispatch_work t (wi_future item) (wi_intent item))
              (work_failed (wi_future item)) (work_done t item))"

text \<open>\<open>_execute_session_intent\<close> for an item with \<open>SessionIntent action\<close>.\<close>

definition renew_session :: "nat \<Rightarrow> session_action \<Rightarrow> nat prog" where
  "renew_session t action =
     pbind is_ready (\<lambda>ready.
       if action = SA_recover \<or> \<not> ready then
         pthen (close_transport t) (pthen (to_session CS_disconnected ''requested by an operator'') connect_link)
       else Done t)"

definition execute_session_intent :: "nat \<Rightarrow> session_action \<Rightarrow> work_item \<Rightarrow> nat option prog" where
  "execute_session_intent t action item =
     pbind (begin_item item) (\<lambda>begun.
       if \<not> begun then Done (Some t)
       else pbranch
              (pbind (renew_session t action) (\<lambda>replacement.
               pbind (call_with (K_status replacement) status_of) (\<lambda>s.
                 pthen (set_outcome (wi_future item) (Inr (Some (WR_status s)))) (Done replacement))))
              (\<lambda>e. pthen (set_outcome (wi_future item) (Inl e))
                     (pthen (fail_session e ''could not verify the session'') (Done None)))
              (\<lambda>replacement. Done (Some replacement)))"

definition execute_stop :: "nat \<Rightarrow> unit prog" where
  "execute_stop t =
     pbranch (call_with (K_stop t) unit_of)
       (\<lambda>e. pthen (resolve_stop (Some e)) (fail_session e ''priority stop was unsafe''))
       (\<lambda>_. resolve_stop None)"

section \<open>The thread\<close>

datatype action = Act_stop | Act_leave | Act_work work_item

definition action_ready :: "worker \<Rightarrow> bool" where
  "action_ready w = (w_stop_requested w \<or> w_normal w \<noteq> [] \<or> w_state w \<in> {WS_closing, WS_failed})"

definition next_action :: "action prog" where
  "next_action =
     Step action_ready
       (\<lambda>w. if w_stop_requested w \<or> w_state w \<in> {WS_closing, WS_failed} then w
            else w\<lparr> w_normal := tl (w_normal w) \<rparr>)
       (\<lambda>w. Done (if w_stop_requested w then Act_stop
                  else if w_state w \<in> {WS_closing, WS_failed} then Act_leave
                  else Act_work (hd (w_normal w))))"

text \<open>One turn of the loop of \<open>_run\<close>: go on with a link, or leave with the value of \<open>link\<close>.\<close>

datatype verdict = Again nat | Leave "nat option"

definition keep :: "nat option \<Rightarrow> verdict" where
  "keep link = (case link of Some t \<Rightarrow> Again t | None \<Rightarrow> Leave None)"

definition turn :: "nat \<Rightarrow> verdict prog" where
  "turn t =
     pbind next_action (\<lambda>action.
       case action of
         Act_leave \<Rightarrow> Done (Leave (Some t))
       | Act_stop \<Rightarrow> pthen (execute_stop t) (Done (Again t))
       | Act_work item \<Rightarrow>
           (case wi_intent item of
              SessionIntent a \<Rightarrow> pbind (execute_session_intent t a item) (\<lambda>link. Done (keep link))
            | _ \<Rightarrow> pbind (execute_item t item) (\<lambda>fault.
                case fault of
                  None \<Rightarrow> Done (Again t)
                | Some e \<Rightarrow> pbind (recover_link t e) (\<lambda>link. Done (keep link)))))"

definition startup :: "verdict prog" where
  "startup =
     pbind connect_link (\<lambda>t.
     pbind is_closing (\<lambda>closing.
       if closing then Done (Leave (Some t))
       else atomic (\<lambda>w. if w_state w = WS_closing then w else w\<lparr> w_state := WS_running \<rparr>)
              (\<lambda>w. if w_state w = WS_closing then Leave (Some t) else Again t)))"

definition finish_thread :: "unit prog" where
  "finish_thread =
     pbind (atomic
       (\<lambda>w. w\<lparr> w_state := (if w_state w = WS_failed then WS_failed else WS_closed), w_normal := [],
               w_stop_waiters := [], w_stop_requested := False \<rparr>)
       (\<lambda>w. (map wi_future (w_normal w), w_stop_waiters w))) (\<lambda>(pending, waiters).
     pthen (atomic (\<lambda>w. if ss_state (ses_snapshot (w_session w)) = CS_uncertain then w
                        else w\<lparr> w_session := snd (session_transition CS_disconnected ''serial worker stopped'' (w_session w)) \<rparr>)
              (\<lambda>_. ()))
       (pbind (atomic id (\<lambda>w. case w_failure w of Some e \<Rightarrow> e | None \<Rightarrow> Worker_failure WorkerNotRunningError))
          (\<lambda>terminal_error. fail_items (pending @ waiters) terminal_error)))"

text \<open>The \<open>finally\<close> block, and the handler before it.\<close>

definition ending :: "nat option \<Rightarrow> unit prog" where
  "ending link = pthen (case link of None \<Rightarrow> Done () | Some t \<Rightarrow> close_transport t) finish_thread"

definition fault_ending :: "failure \<Rightarrow> nat option \<Rightarrow> unit prog" where
  "fault_ending e link =
     pthen (to_session CS_uncertain ''worker fault'') (pthen (mark_failed e) (ending link))"

datatype thread = Unstarted | Looping "nat option" "verdict prog" | Finishing "unit prog" | Ended

text \<open>Which answers a call can have. The client raises protocol errors and \<open>OSError\<close>, the callbacks
  and the factory errors of the daemon; a request is interrupted only when it has seen the stop
  flag, which nobody but the thread itself takes back; a new transport is not an old one.\<close>

definition opened :: "worker \<Rightarrow> nat list" where
  "opened w = concat (map (\<lambda>(c, a). case a of A_transport t \<Rightarrow> [t] | _ \<Rightarrow> []) (w_trace w))"

fun legal :: "worker \<Rightarrow> client_call \<Rightarrow> answer \<Rightarrow> bool" where
  "legal w c (Raised (Worker_failure e)) = False"
| "legal w c (Raised (Daemon_failure e)) = (case c of K_open \<Rightarrow> True | K_on_dispatch _ \<Rightarrow> True | K_profile _ _ \<Rightarrow> True | _ \<Rightarrow> False)"
| "legal w c (Raised (Protocol_failure e)) =
     ((case c of K_on_dispatch _ \<Rightarrow> False | K_profile _ _ \<Rightarrow> False | _ \<Rightarrow> True) \<and>
      (e = RequestInterruptedError \<longrightarrow> (case c of K_request _ _ _ \<Rightarrow> w_stop_requested w | _ \<Rightarrow> False)))"
| "legal w c A_unit = (case c of K_close _ \<Rightarrow> True | K_wait_ready _ \<Rightarrow> True | K_ping _ \<Rightarrow> True | K_stop _ \<Rightarrow> True
     | K_on_dispatch _ \<Rightarrow> True | K_profile _ _ \<Rightarrow> True | _ \<Rightarrow> False)"
| "legal w c (A_bool b) = (case c of K_activate _ \<Rightarrow> True | _ \<Rightarrow> False)"
| "legal w c (A_transport t) = (c = K_open \<and> t \<notin> set (opened w))"
| "legal w c (A_capabilities x) = (case c of K_capabilities _ \<Rightarrow> True | _ \<Rightarrow> False)"
| "legal w c (A_status x) = (case c of K_status _ \<Rightarrow> True | _ \<Rightarrow> False)"
| "legal w c (A_queue x) = (case c of K_queue _ \<Rightarrow> True | _ \<Rightarrow> False)"
| "legal w c (A_completion x) = (case c of K_request _ _ _ \<Rightarrow> True | _ \<Rightarrow> False)"

definition record_call :: "client_call \<Rightarrow> answer \<Rightarrow> worker \<Rightarrow> worker" where
  "record_call c a w = w\<lparr> w_trace := w_trace w @ [(c, a)] \<rparr>"

text \<open>One instruction, with the answer in case it is a call.\<close>

fun advance :: "answer \<Rightarrow> worker \<Rightarrow> 'a prog \<Rightarrow> (worker \<times> 'a prog) option" where
  "advance a w (Step g act k) = (if g w then Some (act w, k w) else None)"
| "advance a w (Call c k) = (if legal w c a then Some (record_call c a w, k a) else None)"
| "advance a w p = None"

text \<open>\<open>_run\<close>: the loop, the handler with the value of \<open>link\<close> at that moment, the \<open>finally\<close> block.\<close>

fun thread_step :: "answer \<Rightarrow> worker \<times> thread \<Rightarrow> (worker \<times> thread) option" where
  "thread_step a (w, Unstarted) = None"
| "thread_step a (w, Looping link (Done (Again t))) = Some (w, Looping (Some t) (turn t))"
| "thread_step a (w, Looping link (Done (Leave l))) = Some (w, Finishing (ending l))"
| "thread_step a (w, Looping link (Throw e)) = Some (w, Finishing (fault_ending e link))"
| "thread_step a (w, Looping link p) = map_option (\<lambda>(w', p'). (w', Looping link p')) (advance a w p)"
| "thread_step a (w, Finishing (Done u)) = Some (w, Ended)"
| "thread_step a (w, Finishing (Throw e)) = None"
| "thread_step a (w, Finishing p) = map_option (\<lambda>(w', p'). (w', Finishing p')) (advance a w p)"
| "thread_step a (w, Ended) = None"

inductive worker_step :: "worker \<times> thread \<Rightarrow> worker \<times> thread \<Rightarrow> bool" where
  caller: "caller_step w w' \<Longrightarrow> worker_step (w, th) (w', th)"
| spawn: "start_enter w = (Inr True, w') \<Longrightarrow> worker_step (w, Unstarted) (w', Looping None startup)"
| thread: "thread_step a (w, th) = Some s' \<Longrightarrow> worker_step (w, th) s'"

inductive worker_reachable :: "worker \<Rightarrow> worker \<times> thread \<Rightarrow> bool" for w0 where
  initial: "worker_reachable w0 (w0, Unstarted)"
| step: "worker_reachable w0 s \<Longrightarrow> worker_step s s' \<Longrightarrow> worker_reachable w0 s'"

section \<open>The invariant\<close>

type_synonym trace = "(client_call \<times> answer) list"

definition requests_of :: "trace \<Rightarrow> nat list" where
  "requests_of tr = concat (map (\<lambda>(c, a). case c of K_request t f command \<Rightarrow> [f] | _ \<Rightarrow> []) tr)"

abbreviation sent :: "worker \<Rightarrow> nat list" where
  "sent w \<equiv> requests_of (w_trace w)"

text \<open>A trusted stop ended the request of \<open>f\<close>: the client interrupted it with one, or one was
  acknowledged afterwards.\<close>

definition stop_confirmed :: "nat \<Rightarrow> trace \<Rightarrow> bool" where
  "stop_confirmed f tr \<longleftrightarrow>
     (\<exists>t s. (K_request t f s, Raised (Protocol_failure RequestInterruptedError)) \<in> set tr) \<or>
     (\<exists>pre t s a post t'. tr = pre @ (K_request t f s, a) # post \<and> (K_stop t', A_unit) \<in> set post)"

definition settled :: "future \<Rightarrow> bool" where
  "settled f = (case f of FINISHED _ \<Rightarrow> True | CANCELLED_AND_NOTIFIED \<Rightarrow> True | _ \<Rightarrow> False)"

text \<open>The futures somebody still has to settle, other than the thread.\<close>

definition awaiting :: "worker \<Rightarrow> nat list" where
  "awaiting w = map wi_future (w_normal w) @ w_stop_waiters w @ map fst (w_preempted w)"

text \<open>Errors that tell the domain that nothing was transmitted.\<close>

definition unsent_error :: "failure \<Rightarrow> bool" where
  "unsent_error e = (e \<in> Worker_failure ` {WorkerNotRunningError, SessionNotReadyError, QueueFullError,
     StopInProgressError, PreemptedByRecoveryError})"

text \<open>What an error on a future says of the trace.\<close>

definition credible :: "failure \<Rightarrow> nat \<Rightarrow> trace \<Rightarrow> bool" where
  "credible e f tr \<longleftrightarrow> (unsent_error e \<longrightarrow> f \<notin> set (requests_of tr)) \<and>
     (e = Worker_failure PreemptedByStopError \<longrightarrow> f \<in> set (requests_of tr) \<longrightarrow> stop_confirmed f tr)"

definition ordinary :: "failure \<Rightarrow> bool" where
  "ordinary e \<longleftrightarrow> \<not> unsent_error e \<and> e \<noteq> Worker_failure PreemptedByStopError"

text \<open>\<open>hs\<close> are the futures the thread has taken and not yet begun, \<open>bs\<close> those it is running.\<close>

definition futures_inv :: "nat list \<Rightarrow> nat list \<Rightarrow> worker \<Rightarrow> bool" where
  "futures_inv hs bs w \<longleftrightarrow>
     distinct (hs @ bs @ awaiting w) \<and>
     (\<forall>f \<in> set hs \<union> set (awaiting w). f < w_next w \<and> w_futures w f \<in> {PENDING, CANCELLED}) \<and>
     (\<forall>f \<in> set bs. f < w_next w \<and> w_futures w f = RUNNING) \<and>
     (\<forall>f < w_next w. f \<in> set (hs @ bs @ awaiting w) \<or> settled (w_futures w f))"

definition trace_inv :: "worker \<Rightarrow> bool" where
  "trace_inv w \<longleftrightarrow> distinct (sent w) \<and>
     (\<forall>f \<in> set (sent w). f < w_next w \<and> w_futures w f \<notin> {PENDING, CANCELLED}) \<and>
     (\<forall>f e. w_futures w f = FINISHED (Inl e) \<longrightarrow> credible e f (w_trace w))"

definition queue_inv :: "worker \<Rightarrow> bool" where
  "queue_inv w \<longleftrightarrow> length (w_normal w) \<le> w_capacity w \<and> (w_stop_requested w \<longrightarrow> w_normal w = [])"

definition winv :: "nat list \<Rightarrow> nat list \<Rightarrow> worker \<Rightarrow> bool" where
  "winv hs bs w \<longleftrightarrow> futures_inv hs bs w \<and> trace_inv w \<and> queue_inv w"

lemmas winv_defs = winv_def futures_inv_def trace_inv_def queue_inv_def

lemma credible_unsent: "f \<notin> set (requests_of tr) \<Longrightarrow> credible e f tr"
  by (simp add: credible_def)

lemma credible_ordinary: "ordinary e \<Longrightarrow> credible e f tr"
  by (simp add: credible_def ordinary_def)

lemma requests_Nil [simp]: "requests_of [] = []"
  by (simp add: requests_of_def)

lemma requests_append [simp]: "requests_of (tr @ tr') = requests_of tr @ requests_of tr'"
  by (simp add: requests_of_def)

lemma stop_confirmed_append: "stop_confirmed f tr \<Longrightarrow> stop_confirmed f (tr @ tr')"
  unfolding stop_confirmed_def by fastforce

lemma credible_append: "credible e f tr \<Longrightarrow> f \<notin> set (requests_of tr') \<Longrightarrow> credible e f (tr @ tr')"
  by (auto simp: credible_def intro: stop_confirmed_append)

lemma requestD: "f \<in> set (requests_of tr) \<Longrightarrow> \<exists>pre t s a post. tr = pre @ (K_request t f s, a) # post"
  unfolding requests_of_def by (fastforce split: client_call.splits dest: split_list)

lemma caller_trace: "caller_step w w' \<Longrightarrow> w_trace w' = w_trace w"
  by (induction rule: caller_step.induct)
    (auto simp: worker_submit_def submit_priority_stop_def worker_close_def start_wait_def cancel_future_def
      fail_future_def new_future_def preempt_def Let_def split: future.splits)

lemma caller_sent: "caller_step w w' \<Longrightarrow> sent w' = sent w"
  by (simp add: caller_trace)

lemma settled_simps [simp]:
  "settled (FINISHED r)" "settled CANCELLED_AND_NOTIFIED" "\<not> settled PENDING" "\<not> settled RUNNING" "\<not> settled CANCELLED"
  by (simp_all add: settled_def)

text \<open>Moving futures between the thread and the shared lists keeps the invariant.\<close>

lemma winv_regroup:
  assumes "winv hs bs w" and m: "mset (hs' @ awaiting w') = mset (hs @ awaiting w)"
    and same: "w_futures w' = w_futures w" "w_next w' = w_next w" "w_trace w' = w_trace w" and "queue_inv w'"
  shows "winv hs' bs w'"
proof -
  have "mset (hs' @ bs @ awaiting w') = mset (hs @ bs @ awaiting w)" using m by (simp add: ac_simps)
  note d = mset_eq_imp_distinct_iff [OF this] mset_eq_setD [OF this]
  have h: "set hs' \<union> set (awaiting w') = set hs \<union> set (awaiting w)" using mset_eq_setD [OF m] by simp
  have "futures_inv hs' bs w' = futures_inv hs bs w"
    unfolding futures_inv_def d h same by simp
  with assms show ?thesis by (simp add: winv_def trace_inv_def)
qed

lemma winv_new_future:
  assumes "winv hs bs w"
  shows "\<forall>f \<in> set (hs @ bs @ awaiting w) \<union> set (sent w). f \<noteq> w_next w"
  using assms by (auto simp: winv_defs)

lemma winv_submit:
  assumes "winv hs bs w"
  shows "winv hs bs (snd (worker_submit intent od w))"
proof -
  have "winv hs bs ((new_future w)\<lparr> w_normal := w_normal w @
      [\<lparr> wi_intent = intent, wi_future = w_next w, wi_on_dispatch = od \<rparr>] \<rparr>)" (is "winv hs bs ?w")
    if "\<not> w_stop_requested w" "length (w_normal w) < w_capacity w"
  proof -
    have sent: "sent ?w = sent w" by (simp add: new_future_def)
    note fresh = winv_new_future [OF assms]
    have "futures_inv hs bs ?w" using assms fresh unfolding winv_def futures_inv_def
      by (auto simp: new_future_def awaiting_def less_Suc_eq)
    moreover have "trace_inv ?w" using assms fresh unfolding winv_def trace_inv_def sent
      by (auto simp: new_future_def less_Suc_eq credible_unsent)
    moreover have "queue_inv ?w" using assms that by (auto simp: winv_def queue_inv_def new_future_def)
    ultimately show ?thesis by (simp add: winv_def)
  qed
  then show ?thesis using assms by (auto simp: worker_submit_def)
qed

lemma winv_preempt:
  assumes "winv hs bs w"
  shows "winv hs bs ((preempt e w)\<lparr> w_state := st, w_stop_requested := b \<rparr>)" (is "winv hs bs ?w")
proof -
  show ?thesis by (rule winv_regroup [OF assms]) (simp_all add: awaiting_def preempt_def queue_inv_def comp_def)
qed

lemma winv_waiter:
  assumes "winv hs bs w"
  shows "winv hs bs ((new_future w)\<lparr> w_stop_waiters := w_stop_waiters w @ [w_next w] \<rparr>)" (is "winv hs bs ?w")
proof -
  have sent: "sent ?w = sent w" by (simp add: new_future_def)
  note fresh = winv_new_future [OF assms]
  have "futures_inv hs bs ?w" using assms fresh unfolding winv_def futures_inv_def
    by (auto simp: new_future_def awaiting_def less_Suc_eq)
  moreover have "trace_inv ?w" using assms fresh unfolding winv_def trace_inv_def sent
    by (auto simp: new_future_def less_Suc_eq)
  moreover have "queue_inv ?w" using assms by (auto simp: winv_def queue_inv_def new_future_def)
  ultimately show ?thesis by (simp add: winv_def)
qed

lemma winv_state [simp]: "winv hs bs (w\<lparr> w_state := st \<rparr>) = winv hs bs w"
  by (simp add: winv_defs awaiting_def)

lemma winv_stop:
  assumes "winv hs bs w"
  shows "winv hs bs (snd (submit_priority_stop w))"
proof -
  let ?w = "(new_future w)\<lparr> w_stop_waiters := w_stop_waiters w @ [w_next w] \<rparr>"
  have "winv hs bs ((preempt e ?w)\<lparr> w_state := w_state w, w_stop_requested := True \<rparr>)" for e
    by (rule winv_preempt [OF winv_waiter [OF assms]])
  moreover have "(preempt e ?w)\<lparr> w_state := w_state w, w_stop_requested := True \<rparr> = (preempt e ?w)\<lparr> w_stop_requested := True \<rparr>" for e
    by (simp add: preempt_def new_future_def)
  ultimately show ?thesis using assms winv_waiter [OF assms] by (simp add: submit_priority_stop_def Let_def)
qed

lemma winv_close: "winv hs bs w \<Longrightarrow> winv hs bs (worker_close w)"
  using winv_preempt [of hs bs w] by (auto simp: worker_close_def)

lemma winv_cancel:
  assumes "winv hs bs w"
  shows "winv hs bs (cancel_future f w)"
  using assms unfolding winv_defs cancel_future_def by (auto simp: awaiting_def)

lemma winv_fail_preempted:
  assumes "winv hs bs w" "w_preempted w = xs @ (f, e) # ys"
  shows "winv hs bs ((fail_future f e w)\<lparr> w_preempted := xs @ ys \<rparr>)"
proof -
  have "f \<notin> set (sent w)" using assms unfolding winv_defs by (auto simp: awaiting_def)
  then have "credible e f (w_trace w)" by (rule credible_unsent)
  with assms show ?thesis unfolding winv_defs fail_future_def
    by (auto simp: awaiting_def split: future.splits)
qed

lemma winv_caller: "caller_step w w' \<Longrightarrow> winv hs bs w \<Longrightarrow> winv hs bs w'"
  by (induction rule: caller_step.induct)
    (auto simp: winv_submit winv_stop winv_close winv_cancel winv_fail_preempted start_wait_def)

section \<open>A logic for the thread\<close>

text \<open>What holds of a program at every moment, whatever callers do between its instructions: the
  invariant, and at its end \<open>Q\<close> or \<open>E\<close>.\<close>

definition interference :: "worker \<Rightarrow> worker \<Rightarrow> bool" where
  "interference = caller_step\<^sup>*\<^sup>*"

definition good :: "worker \<Rightarrow> bool" where
  "good w = (\<exists>hs bs. winv hs bs w)"

primrec safe :: "('a \<Rightarrow> worker \<Rightarrow> bool) \<Rightarrow> (failure \<Rightarrow> worker \<Rightarrow> bool) \<Rightarrow> 'a prog \<Rightarrow> worker \<Rightarrow> bool" where
  "safe Q E (Done x) = Q x"
| "safe Q E (Throw e) = E e"
| "safe Q E (Step g act k) = (\<lambda>w. \<forall>w'. interference w w' \<longrightarrow> g w' \<longrightarrow> good (act w') \<and> safe Q E (k w') (act w'))"
| "safe Q E (Call c k) = (\<lambda>w. \<forall>w' a. interference w w' \<longrightarrow> legal w' c a \<longrightarrow>
     good (record_call c a w') \<and> safe Q E (k a) (record_call c a w'))"

definition hoare :: "(worker \<Rightarrow> bool) \<Rightarrow> 'a prog \<Rightarrow> ('a \<Rightarrow> worker \<Rightarrow> bool) \<Rightarrow> (failure \<Rightarrow> worker \<Rightarrow> bool) \<Rightarrow> bool" where
  "hoare P p Q E = (\<forall>w. P w \<longrightarrow> safe Q E p w)"

definition steady :: "(worker \<Rightarrow> bool) \<Rightarrow> bool" where
  "steady P = (\<forall>w w'. caller_step w w' \<longrightarrow> P w \<longrightarrow> P w')"

lemma steady_interference:
  assumes "steady P" "interference w w'" "P w"
  shows "P w'"
  using assms(2,3) unfolding interference_def
  by (induction rule: rtranclp_induct) (use assms(1) in \<open>auto simp: steady_def\<close>)

lemma steady_conj: "steady P \<Longrightarrow> steady P' \<Longrightarrow> steady (\<lambda>w. P w \<and> P' w)"
  by (auto simp: steady_def)

lemma steady_winv: "steady (winv hs bs)"
  by (auto simp: steady_def intro: winv_caller)

lemma steady_trace: "steady (\<lambda>w. T (w_trace w))"
  by (auto simp: steady_def caller_trace)

lemma safe_interference: "interference w w' \<Longrightarrow> (\<And>x. steady (Q x)) \<Longrightarrow> (\<And>e. steady (E e)) \<Longrightarrow> safe Q E p w \<Longrightarrow> safe Q E p w'"
  by (induction p arbitrary: w w')
    (auto simp: interference_def intro: steady_interference [unfolded interference_def] dest: rtranclp_trans)

lemma safe_conseq:
  "safe Q E p w \<Longrightarrow> (\<And>x w. Q x w \<Longrightarrow> Q' x w) \<Longrightarrow> (\<And>e w. E e w \<Longrightarrow> E' e w) \<Longrightarrow> safe Q' E' p w"
  by (induction p arbitrary: w) auto

lemma safe_bind: "safe (\<lambda>x. safe Q E (f x)) E p w \<Longrightarrow> safe Q E (pbind p f) w"
  by (induction p arbitrary: w) auto

lemma safe_branch: "safe (\<lambda>x. safe Q E (f x)) (\<lambda>e. safe Q E (h e)) p w \<Longrightarrow> safe Q E (pbranch p h f) w"
  by (induction p arbitrary: w) auto

lemma hoare_conseq:
  "hoare P p Q E \<Longrightarrow> (\<And>w. P' w \<Longrightarrow> P w) \<Longrightarrow> (\<And>x w. Q x w \<Longrightarrow> Q' x w) \<Longrightarrow> (\<And>e w. E e w \<Longrightarrow> E' e w) \<Longrightarrow> hoare P' p Q' E'"
  unfolding hoare_def by (blast intro: safe_conseq)

lemma hoare_bind: "hoare P p Q E \<Longrightarrow> (\<And>x. hoare (Q x) (f x) R E) \<Longrightarrow> hoare P (pbind p f) R E"
  unfolding hoare_def by (blast intro: safe_bind safe_conseq)

lemma hoare_branch:
  "hoare P p Q E' \<Longrightarrow> (\<And>e. hoare (E' e) (h e) R E) \<Longrightarrow> (\<And>x. hoare (Q x) (f x) R E) \<Longrightarrow> hoare P (pbranch p h f) R E"
  unfolding hoare_def by (blast intro: safe_branch safe_conseq)

lemma hoare_done: "(\<And>w. P w \<Longrightarrow> Q x w) \<Longrightarrow> hoare P (Done x) Q E"
  by (simp add: hoare_def)

lemma hoare_throw: "(\<And>w. P w \<Longrightarrow> E e w) \<Longrightarrow> hoare P (Throw e) Q E"
  by (simp add: hoare_def)

lemma hoare_if: "(b \<Longrightarrow> hoare P p Q E) \<Longrightarrow> (\<not> b \<Longrightarrow> hoare P p' Q E) \<Longrightarrow> hoare P (if b then p else p') Q E"
  by simp

lemma hoare_step:
  "steady P \<Longrightarrow> (\<And>w. P w \<Longrightarrow> g w \<Longrightarrow> good (act w) \<and> safe Q E (k w) (act w)) \<Longrightarrow> hoare P (Step g act k) Q E"
  unfolding hoare_def by (auto dest: steady_interference)

lemma hoare_atomic:
  "steady P \<Longrightarrow> (\<And>w. P w \<Longrightarrow> good (act w) \<and> Q (v w) (act w)) \<Longrightarrow> hoare P (atomic act v) Q E"
  unfolding atomic_def by (rule hoare_step) auto

lemma good_winv: "winv hs bs w \<Longrightarrow> good w"
  by (auto simp: good_def)

text \<open>A call that is not a request leaves the invariant alone; whatever it raises does not claim
  that nothing was sent.\<close>

definition is_request :: "client_call \<Rightarrow> bool" where
  "is_request c = (case c of K_request _ _ _ \<Rightarrow> True | _ \<Rightarrow> False)"

lemma record_trace [simp]: "w_trace (record_call c a w) = w_trace w @ [(c, a)]"
  by (simp add: record_call_def)

lemma requests_single: "requests_of [(c, a)] = (case c of K_request t f s \<Rightarrow> [f] | _ \<Rightarrow> [])"
  by (simp add: requests_of_def)

lemma record_fields [simp]:
  "w_futures (record_call c a w) = w_futures w" "w_next (record_call c a w) = w_next w"
  "w_normal (record_call c a w) = w_normal w" "w_capacity (record_call c a w) = w_capacity w"
  "w_stop_requested (record_call c a w) = w_stop_requested w" "awaiting (record_call c a w) = awaiting w"
  "w_state (record_call c a w) = w_state w" "w_stop_waiters (record_call c a w) = w_stop_waiters w"
  by (simp_all add: record_call_def awaiting_def)

lemma winv_record:
  assumes "\<not> is_request c" "winv hs bs w"
  shows "winv hs bs (record_call c a w)"
proof -
  have "requests_of [(c, a)] = []" using assms(1) by (cases c) (auto simp: requests_single is_request_def)
  with assms(2) show ?thesis unfolding winv_defs by (auto intro: credible_append)
qed

lemma good_record: "\<not> is_request c \<Longrightarrow> winv hs bs w \<Longrightarrow> good (record_call c a w)"
  by (rule good_winv [OF winv_record])

lemma legal_error: "legal w c (Raised e) \<Longrightarrow> ordinary e"
  by (cases e) (auto simp: unsent_error_def ordinary_def)

definition raised :: "answer \<Rightarrow> failure" where
  "raised a = (case a of Raised e \<Rightarrow> e | _ \<Rightarrow> Daemon_failure (OtherError ''TypeError''))"

lemma raised_ordinary: "legal w c a \<Longrightarrow> ordinary (raised a)"
  by (cases a) (auto simp: raised_def legal_error, auto simp: ordinary_def unsent_error_def)

lemma hoare_call_answer:
  assumes "steady P" "\<And>w a. P w \<Longrightarrow> legal w c a \<Longrightarrow> good (record_call c a w) \<and>
      (case decode a of Some x \<Rightarrow> Q x (record_call c a w) | None \<Rightarrow> E (raised a) (record_call c a w))"
  shows "hoare P (call_with c decode) Q E"
proof (unfold hoare_def call_with_def safe.simps, intro allI impI)
  fix w w' a assume "P w" "interference w w'" "legal w' c a"
  from assms(2) [OF steady_interference [OF assms(1) this(2,1)] this(3)]
  show "good (record_call c a w') \<and> safe Q E (case decode a of Some x \<Rightarrow> Done x
      | None \<Rightarrow> Throw (case a of Raised e \<Rightarrow> e | _ \<Rightarrow> Daemon_failure (OtherError ''TypeError''))) (record_call c a w')"
    by (auto simp: raised_def split: option.splits)
qed

abbreviation fails :: "(worker \<Rightarrow> bool) \<Rightarrow> failure \<Rightarrow> worker \<Rightarrow> bool" where
  "fails P e w \<equiv> P w \<and> ordinary e"

lemma hoare_call:
  assumes "steady P" "\<And>w a. P w \<Longrightarrow> legal w c a \<Longrightarrow> good (record_call c a w) \<and> R (record_call c a w)"
  shows "hoare P (call_with c decode) (\<lambda>_. R) (fails R)"
  by (rule hoare_call_answer [OF assms(1)]) (use assms(2) raised_ordinary in \<open>auto split: option.split\<close>)

lemma hoare_plain_call:
  "\<not> is_request c \<Longrightarrow> hoare (winv hs bs) (call_with c decode) (\<lambda>_. winv hs bs) (fails (winv hs bs))"
  by (rule hoare_call [OF steady_winv]) (auto intro: good_winv winv_record)

section \<open>The thread keeps the invariant\<close>

named_theorems keeps \<open>programs that keep the invariant and do not raise\<close>

lemma winv_session [simp]: "winv hs bs (w\<lparr> w_session := x \<rparr>) = winv hs bs w"
  by (simp add: winv_defs awaiting_def)

lemma winv_failed_with [simp]: "winv hs bs (failed_with e w) = winv hs bs w"
  by (simp add: failed_with_def winv_defs awaiting_def)

lemma hoare_quiet [keeps]: "(\<And>w. winv hs bs (act w) = winv hs bs w) \<Longrightarrow> hoare (winv hs bs) (atomic act v) (\<lambda>_. winv hs bs) E"
  by (rule hoare_atomic [OF steady_winv]) (auto intro: good_winv)

lemma hoare_to_session [keeps]: "hoare (winv hs bs) (to_session st reason) (\<lambda>_. winv hs bs) E"
  unfolding to_session_def by (rule hoare_quiet) simp

lemma hoare_is_closing [keeps]: "hoare (winv hs bs) is_closing (\<lambda>_. winv hs bs) E"
  unfolding is_closing_def by (rule hoare_quiet) simp

lemma hoare_is_stop_requested [keeps]: "hoare (winv hs bs) is_stop_requested (\<lambda>_. winv hs bs) E"
  unfolding is_stop_requested_def by (rule hoare_quiet) simp

lemma hoare_is_ready [keeps]: "hoare (winv hs bs) is_ready (\<lambda>_. winv hs bs) E"
  unfolding is_ready_def by (rule hoare_quiet) simp

lemma hoare_mark_failed [keeps]: "hoare (winv hs bs) (mark_failed e) (\<lambda>_. winv hs bs) E"
  unfolding mark_failed_def by (rule hoare_quiet) simp

lemma hoare_fail_session [keeps]: "hoare (winv hs bs) (fail_session e reason) (\<lambda>_. winv hs bs) E"
  unfolding fail_session_def by (rule hoare_bind) (rule keeps)+

lemma hoare_return [keeps]: "hoare (winv hs bs) (Done x) (\<lambda>_. winv hs bs) E"
  by (rule hoare_done)

lemma hoare_mark_failed_after: "hoare (fails (winv hs bs) e) (mark_failed e') (\<lambda>_. winv hs bs) E"
  by (rule hoare_conseq [OF hoare_mark_failed]) auto

lemma hoare_close_transport [keeps]: "hoare (winv hs bs) (close_transport t) (\<lambda>_. winv hs bs) E"
  unfolding close_transport_def
  by (rule hoare_branch [OF hoare_plain_call]) (auto simp: is_request_def intro: hoare_mark_failed_after hoare_done)

lemma good_split: "winv hs bs w \<Longrightarrow> good w \<and> winv hs bs w"
  by (auto intro: good_winv)

lemma winv_begin:
  assumes "winv (f # hs) bs w"
  shows "w_futures w f = PENDING \<Longrightarrow> winv hs (f # bs) (w\<lparr> w_futures := (w_futures w)(f := RUNNING) \<rparr>)"
    and "w_futures w f = CANCELLED \<Longrightarrow> winv hs bs (w\<lparr> w_futures := (w_futures w)(f := CANCELLED_AND_NOTIFIED) \<rparr>)"
    and "w_futures w f \<in> {PENDING, CANCELLED}" "f \<notin> set (sent w)"
  using assms unfolding winv_defs by (auto simp: awaiting_def)

lemma winv_finish:
  assumes "winv hs (f # bs) w" "\<And>e. r = Inl e \<Longrightarrow> credible e f (w_trace w)"
  shows "winv hs bs (w\<lparr> w_futures := (w_futures w)(f := FINISHED r) \<rparr>)" "w_futures w f = RUNNING"
  using assms unfolding winv_defs by (auto simp: awaiting_def)

definition running :: "nat list \<Rightarrow> nat list \<Rightarrow> nat \<Rightarrow> worker \<Rightarrow> bool" where
  "running hs bs f w = (winv hs (f # bs) w \<and> f \<notin> set (sent w))"

lemma steady_running: "steady (running hs bs f)"
  unfolding running_def by (intro steady_conj steady_winv steady_trace [where T = "\<lambda>tr. f \<notin> set (requests_of tr)"])

lemma hoare_set_running:
  "hoare (winv (f # hs) bs) (set_running_or_notify_cancel f)
     (\<lambda>r. if r then running hs bs f else winv hs bs) E"
  unfolding set_running_or_notify_cancel_def
proof (rule hoare_step [OF steady_winv])
  fix w assume w: "winv (f # hs) bs w"
  note b = winv_begin [OF w]
  consider (p) "w_futures w f = PENDING" | (c) "w_futures w f = CANCELLED" using b(3) by auto
  then show "good (case w_futures w f of PENDING \<Rightarrow> w\<lparr> w_futures := (w_futures w)(f := RUNNING) \<rparr>
        | CANCELLED \<Rightarrow> w\<lparr> w_futures := (w_futures w)(f := CANCELLED_AND_NOTIFIED) \<rparr> | _ \<Rightarrow> w) \<and>
      safe (\<lambda>r. if r then running hs bs f else winv hs bs) E
        (case w_futures w f of PENDING \<Rightarrow> Done True | CANCELLED \<Rightarrow> Done False
         | _ \<Rightarrow> Throw (Daemon_failure (OtherError ''RuntimeError'')))
        (case w_futures w f of PENDING \<Rightarrow> w\<lparr> w_futures := (w_futures w)(f := RUNNING) \<rparr>
        | CANCELLED \<Rightarrow> w\<lparr> w_futures := (w_futures w)(f := CANCELLED_AND_NOTIFIED) \<rparr> | _ \<Rightarrow> w)"
  proof cases
    case p
    with b(1,4) show ?thesis by (auto simp: running_def intro: good_winv)
  next
    case c
    with b(2) show ?thesis by (auto intro: good_winv)
  qed
qed

lemma hoare_set_outcome:
  assumes "steady P" "\<And>w. P w \<Longrightarrow> winv hs (f # bs) w"
    "\<And>w e. P w \<Longrightarrow> r = Inl e \<Longrightarrow> credible e f (w_trace w)"
  shows "hoare P (set_outcome f r) (\<lambda>_. winv hs bs) E"
  unfolding set_outcome_def
proof (rule hoare_step [OF assms(1)])
  fix w assume "P w"
  with winv_finish [OF assms(2) [OF \<open>P w\<close>], of r] assms(3) [OF \<open>P w\<close>]
  show "good (if w_futures w f \<in> {PENDING, RUNNING} then w\<lparr> w_futures := (w_futures w)(f := FINISHED r) \<rparr> else w) \<and>
     safe (\<lambda>_. winv hs bs) E (if w_futures w f \<in> {PENDING, RUNNING} then Done ()
            else Throw (Daemon_failure (OtherError ''InvalidStateError'')))
       (if w_futures w f \<in> {PENDING, RUNNING} then w\<lparr> w_futures := (w_futures w)(f := FINISHED r) \<rparr> else w)"
    by (auto intro: good_winv)
qed

lemma hoare_set_unsent: "hoare (running hs bs f) (set_outcome f r) (\<lambda>_. winv hs bs) E"
  by (rule hoare_set_outcome [OF steady_running]) (auto simp: running_def credible_unsent)

lemma hoare_set_result: "(\<And>e. r = Inl e \<Longrightarrow> ordinary e) \<Longrightarrow> hoare (winv hs (f # bs)) (set_outcome f r) (\<lambda>_. winv hs bs) E"
  by (rule hoare_set_outcome [OF steady_winv]) (auto intro: credible_ordinary)

lemma hoare_fail_pending: "hoare (winv (f # hs) bs) (fail_pending_future f e) (\<lambda>_. winv hs bs) E"
  unfolding fail_pending_future_def
  by (rule hoare_bind [OF hoare_set_running]) (auto intro: hoare_set_unsent hoare_done)

lemma hoare_fail_items: "hoare (winv (fs @ hs) bs) (fail_items fs e) (\<lambda>_. winv hs bs) E"
  by (induction fs) (auto intro: hoare_done hoare_bind hoare_fail_pending)

lemma hoare_settle_waiters: "hoare (winv (fs @ hs) bs) (settle_waiters fs e) (\<lambda>_. winv hs bs) E"
proof (induction fs)
  case (Cons f fs)
  have "hoare (winv (f # fs @ hs) bs) (pbind (set_running_or_notify_cancel f) (\<lambda>running.
      if running then set_outcome f (Inr None) else Done ())) (\<lambda>_. winv (fs @ hs) bs) E"
    by (rule hoare_bind [OF hoare_set_running]) (auto intro: hoare_set_unsent hoare_done)
  then show ?case using Cons by (cases e) (auto intro: hoare_bind hoare_fail_pending)
qed (auto intro: hoare_done)

lemma hoare_drain [keeps]: "hoare (winv hs bs) (drain_queue e) (\<lambda>_. winv hs bs) E"
  unfolding drain_queue_def
proof (rule hoare_bind [OF hoare_atomic [OF steady_winv] hoare_fail_items])
  fix w assume "winv hs bs w"
  then have "winv (map wi_future (w_normal w) @ hs) bs (w\<lparr> w_normal := [] \<rparr>)"
    by (rule winv_regroup) (simp_all add: awaiting_def queue_inv_def)
  then show "good (w\<lparr> w_normal := [] \<rparr>) \<and> winv (map wi_future (w_normal w) @ hs) bs (w\<lparr> w_normal := [] \<rparr>)"
    by (rule good_split)
qed

lemma hoare_resolve_stop [keeps]: "hoare (winv hs bs) (resolve_stop e) (\<lambda>_. winv hs bs) E"
  unfolding resolve_stop_def
proof (rule hoare_bind [OF hoare_atomic [OF steady_winv] hoare_settle_waiters])
  fix w assume "winv hs bs w"
  then have "winv (w_stop_waiters w @ hs) bs (w\<lparr> w_stop_waiters := [], w_stop_requested := False \<rparr>)"
    by (rule winv_regroup) (use \<open>winv hs bs w\<close> in \<open>simp_all add: awaiting_def winv_def queue_inv_def\<close>)
  then show "good (w\<lparr> w_stop_waiters := [], w_stop_requested := False \<rparr>) \<and>
      winv (w_stop_waiters w @ hs) bs (w\<lparr> w_stop_waiters := [], w_stop_requested := False \<rparr>)"
    by (rule good_split)
qed

lemma ordinary_errors [simp]:
  "ordinary (Worker_failure WorkerStartupError)" "ordinary (Worker_failure WorkerUncertainError)"
  by (simp_all add: ordinary_def unsent_error_def)

lemma hoare_read_only:
  "\<not> is_request c \<Longrightarrow> (\<And>x. hoare (winv hs bs) (k x) Q (fails (winv hs bs))) \<Longrightarrow>
     hoare (winv hs bs) (pbind (call_with c decode) k) Q (fails (winv hs bs))"
  by (rule hoare_bind [OF hoare_plain_call])

lemma hoare_publish_profile: "hoare (winv hs bs) (publish_profile t) (\<lambda>_. winv hs bs) (fails (winv hs bs))"
  unfolding publish_profile_def
  by (rule hoare_bind [OF hoare_quiet], simp, rule hoare_if, rule hoare_return)
    (intro hoare_read_only hoare_plain_call; simp add: is_request_def)

lemma hoare_activate_link: "hoare (winv hs bs) (activate_link t) (\<lambda>_. winv hs bs) (fails (winv hs bs))"
  unfolding activate_link_def
  by (rule hoare_bind [OF hoare_to_session], rule hoare_read_only)
    (auto simp: is_request_def intro!: hoare_throw hoare_bind [OF hoare_publish_profile] keeps)

lemma hoare_connect_link: "hoare (winv hs bs) connect_link (\<lambda>_. winv hs bs) (fails (winv hs bs))"
proof -
  have verify: "hoare (winv hs bs) (pbind is_closing (\<lambda>closing. if closing then Done ()
       else pthen (to_session CS_verifying_v1 ''verifying legacy v1 barrier'')
              (pthen (call_with (K_wait_ready t) unit_of)
                 (pthen (call_with (K_ping t) unit_of) (activate_link t))))) (\<lambda>_. winv hs bs) (fails (winv hs bs))" for t
    by (rule hoare_bind [OF hoare_is_closing], rule hoare_if, rule hoare_return,
        rule hoare_bind [OF hoare_to_session], intro hoare_read_only hoare_activate_link; simp add: is_request_def)
  have close: "hoare (fails (winv hs bs) e) (pthen (close_transport t) (Throw e)) Q (fails (winv hs bs))" for e t Q
    by (cases "ordinary e")
      (auto simp: hoare_def [of "\<lambda>_. False"] intro!: hoare_bind [OF hoare_close_transport] hoare_throw)
  show ?thesis
    unfolding connect_link_def
    by (rule hoare_bind [OF hoare_to_session], rule hoare_read_only, simp add: is_request_def,
        rule hoare_branch [OF verify close hoare_return])
qed

lemma hoare_after_failure: "hoare (winv hs bs) p Q E \<Longrightarrow> hoare (fails (winv hs bs) e) p Q E"
  by (erule hoare_conseq) auto

lemma hoare_reconnect_attempts: "hoare (winv hs bs) (reconnect_attempts n e) (\<lambda>_. winv hs bs) E"
proof (induction n)
  case 0
  show ?case by (auto intro!: hoare_bind [OF hoare_fail_session] keeps)
next
  case (Suc n)
  have "hoare (winv hs bs) (pbind is_ready (\<lambda>ready. if ready then Done (Some l)
      else pthen (close_transport l) (Done None))) (\<lambda>_. winv hs bs) E" for l
    by (rule hoare_bind [OF hoare_is_ready]) (auto intro!: hoare_if hoare_bind [OF hoare_close_transport] keeps)
  with Suc show ?case
    by (auto intro!: hoare_bind [OF hoare_is_closing] hoare_if hoare_return hoare_branch [OF hoare_connect_link]
        hoare_after_failure hoare_bind [OF hoare_to_session])
qed

lemma hoare_reconnect [keeps]: "hoare (winv hs bs) (reconnect t e) (\<lambda>_. winv hs bs) E"
  unfolding reconnect_def
  by (rule hoare_bind [OF hoare_close_transport], rule hoare_bind [OF hoare_to_session],
      rule hoare_bind [OF hoare_quiet], simp, rule hoare_reconnect_attempts)

lemma hoare_recover_link [keeps]: "hoare (winv hs bs) (recover_link t e) (\<lambda>_. winv hs bs) E"
  unfolding recover_link_def
  by (rule hoare_bind [OF hoare_to_session], rule hoare_bind [OF hoare_drain], rule hoare_bind [OF hoare_is_closing])
    (auto intro!: hoare_bind [OF hoare_close_transport] hoare_bind [OF hoare_to_session]
      hoare_branch [OF hoare_activate_link] hoare_after_failure keeps)

lemma hoare_execute_stop [keeps]: "hoare (winv hs bs) (execute_stop t) (\<lambda>_. winv hs bs) E"
  unfolding execute_stop_def
  by (rule hoare_branch [OF hoare_plain_call])
    (auto simp: is_request_def intro!: hoare_after_failure hoare_bind [OF hoare_resolve_stop] keeps)

lemma hoare_begin_item:
  "hoare (winv (wi_future item # hs) bs) (begin_item item)
     (\<lambda>begun. if begun then running hs bs (wi_future item) else winv hs bs) E"
proof -
  have call: "hoare (running hs bs (wi_future item)) (call_with (K_on_dispatch (wi_future item)) unit_of)
      (\<lambda>_. running hs bs (wi_future item)) (fails (running hs bs (wi_future item)))"
    by (rule hoare_call [OF steady_running]) (auto simp: running_def is_request_def requests_single intro: good_record winv_record)
  have refuse: "hoare (fails (running hs bs (wi_future item)) e)
      (pthen (set_outcome (wi_future item) (Inl e)) (Done False))
      (\<lambda>begun. if begun then running hs bs (wi_future item) else winv hs bs) E" for e
    by (rule hoare_conseq [OF hoare_bind [OF hoare_set_unsent hoare_done]]) auto
  show ?thesis
    unfolding begin_item_def
    by (rule hoare_bind [OF hoare_set_running])
      (auto intro!: hoare_done hoare_branch [OF call refuse])
qed

text \<open>A request is recorded while its future runs, once.\<close>

definition explained :: "nat \<Rightarrow> failure \<Rightarrow> trace \<Rightarrow> bool" where
  "explained f e tr \<longleftrightarrow> credible e f tr \<and> (e = Protocol_failure RequestInterruptedError \<longrightarrow> stop_confirmed f tr)"

lemma hoare_dispatch_work:
  "hoare (running hs bs f) (dispatch_work t f intent) (\<lambda>_. winv hs (f # bs))
     (\<lambda>e w. winv hs (f # bs) w \<and> explained f e (w_trace w))"
proof -
  have request: "hoare (running hs bs f) (call_with (K_request t f s) result_of) (\<lambda>_. winv hs (f # bs))
      (\<lambda>e w. winv hs (f # bs) w \<and> explained f e (w_trace w))" for s
  proof (rule hoare_call_answer [OF steady_running])
    fix w a assume w: "running hs bs f w" and a: "legal w (K_request t f s) a"
    have "winv hs (f # bs) (record_call (K_request t f s) a w)"
      using w unfolding running_def winv_defs by (auto simp: requests_single intro: credible_append)
    moreover have "explained f (raised a) (w_trace w @ [(K_request t f s, a)])"
      using raised_ordinary [OF a] unfolding explained_def stop_confirmed_def
      by (auto simp: credible_ordinary raised_def split: answer.splits)
    ultimately show "good (record_call (K_request t f s) a w) \<and> (case result_of a of
         Some x \<Rightarrow> winv hs (f # bs) (record_call (K_request t f s) a w)
       | None \<Rightarrow> winv hs (f # bs) (record_call (K_request t f s) a w) \<and>
           explained f (raised a) (w_trace (record_call (K_request t f s) a w)))"
      by (auto intro: good_winv split: option.split)
  qed
  have query: "hoare (running hs bs f) (call_with c result_of) (\<lambda>_. winv hs (f # bs))
      (\<lambda>e w. winv hs (f # bs) w \<and> explained f e (w_trace w))" if "\<not> is_request c" for c
  proof (rule hoare_call_answer [OF steady_running])
    fix w a assume w: "running hs bs f w" and a: "legal w c a"
    have "raised a \<noteq> Protocol_failure RequestInterruptedError"
      using a that by (cases a; cases c) (auto simp: raised_def is_request_def split: failure.splits)
    then show "good (record_call c a w) \<and> (case result_of a of
         Some x \<Rightarrow> winv hs (f # bs) (record_call c a w)
       | None \<Rightarrow> winv hs (f # bs) (record_call c a w) \<and> explained f (raised a) (w_trace (record_call c a w)))"
      using winv_record [OF that] w raised_ordinary [OF a]
      by (auto simp: running_def explained_def credible_ordinary good_record [OF that] split: option.split)
  qed
  have refused: "hoare (running hs bs f) (Throw (Worker_failure e)) (\<lambda>_. winv hs (f # bs))
      (\<lambda>e w. winv hs (f # bs) w \<and> explained f e (w_trace w))" for e
    by (rule hoare_throw) (simp add: running_def explained_def credible_unsent)
  show ?thesis
    by (cases "(t, f, intent)" rule: dispatch_work.cases)
      (auto intro!: request query refused simp: is_request_def)
qed

lemma steady_traced: "steady (\<lambda>w. winv hs bs w \<and> T (w_trace w))"
  by (intro steady_conj steady_winv steady_trace)

lemma hoare_work_failed:
  "hoare (\<lambda>w. winv hs (f # bs) w \<and> explained f e (w_trace w)) (work_failed f e) (\<lambda>_. winv hs bs) E"
  (is "hoare ?P _ _ _")
proof -
  have ask: "hoare ?P is_stop_requested (\<lambda>_. ?P) E"
    unfolding is_stop_requested_def by (rule hoare_atomic [OF steady_traced]) (auto intro: good_winv)
  have fail: "hoare ?P (pthen (set_outcome f (Inl e')) p) (\<lambda>_. winv hs bs) E"
    if "\<And>tr. explained f e tr \<Longrightarrow> credible e' f tr" "hoare (winv hs bs) p (\<lambda>_. winv hs bs) E"
    for e' and p :: "failure option prog"
    by (rule hoare_bind [OF hoare_set_outcome [OF steady_traced] that(2)]) (use that(1) in auto)
  show ?thesis
    unfolding work_failed_def
    by (intro hoare_if hoare_bind [OF ask] fail hoare_bind [OF hoare_resolve_stop] hoare_bind [OF hoare_mark_failed]
        hoare_return) (simp_all add: explained_def credible_ordinary, simp add: credible_def unsent_error_def)
qed

text \<open>An acknowledged stop confirms every request before it.\<close>

lemma stop_confirms: "credible (Worker_failure PreemptedByStopError) f (tr @ [(K_stop t, A_unit)])"
proof -
  have "stop_confirmed f (tr @ [(K_stop t, A_unit)])" if req: "f \<in> set (requests_of tr)"
  proof -
    obtain pre t' s a post where "tr = pre @ (K_request t' f s, a) # post" using requestD [OF req] by blast
    then have "tr @ [(K_stop t, A_unit)] = pre @ (K_request t' f s, a) # post @ [(K_stop t, A_unit)]" by simp
    moreover have "(K_stop t, A_unit) \<in> set (post @ [(K_stop t, A_unit)])" by simp
    ultimately show ?thesis unfolding stop_confirmed_def by blast
  qed
  then show ?thesis by (auto simp: credible_def unsent_error_def requests_single)
qed

lemma hoare_stop_after_result: "hoare (winv hs (f # bs)) (stop_after_result t f) (\<lambda>_. winv hs bs) E"
proof -
  let ?P = "\<lambda>w. winv hs (f # bs) w \<and> credible (Worker_failure PreemptedByStopError) f (w_trace w)"
  have call: "hoare (winv hs (f # bs)) (call_with (K_stop t) unit_of) (\<lambda>_. ?P) (fails (winv hs (f # bs)))"
  proof (rule hoare_call_answer [OF steady_winv])
    fix w a assume w: "winv hs (f # bs) w" and a: "legal w (K_stop t) a"
    have "winv hs (f # bs) (record_call (K_stop t) a w)" by (rule winv_record [OF _ w]) (simp add: is_request_def)
    with raised_ordinary [OF a] stop_confirms
    show "good (record_call (K_stop t) a w) \<and> (case unit_of a of Some x \<Rightarrow> ?P (record_call (K_stop t) a w)
        | None \<Rightarrow> fails (winv hs (f # bs)) (raised a) (record_call (K_stop t) a w))"
      by (cases a rule: unit_of.cases) (auto intro: good_winv)
  qed
  have stopped: "hoare ?P (pthen (set_outcome f (Inl (Worker_failure PreemptedByStopError))) (pthen (resolve_stop None) (Done None)))
      (\<lambda>_. winv hs bs) E"
    by (rule hoare_bind [OF hoare_set_outcome [OF steady_traced]])
      (auto intro: hoare_bind [OF hoare_resolve_stop] hoare_return)
  show ?thesis
    unfolding stop_after_result_def
    by (rule hoare_branch [OF call _ stopped])
      (auto intro!: hoare_after_failure hoare_bind [OF hoare_set_result] hoare_bind [OF hoare_resolve_stop]
        hoare_bind [OF hoare_fail_session] hoare_return)
qed

lemma hoare_work_done: "hoare (winv hs (wi_future item # bs)) (work_done t item result) (\<lambda>_. winv hs bs) E"
  unfolding work_done_def
  by (rule hoare_bind [OF hoare_is_stop_requested])
    (auto intro!: hoare_stop_after_result hoare_bind [OF hoare_set_result] hoare_return
      hoare_branch [OF hoare_publish_profile] hoare_after_failure split: worker_intent.split)

lemma hoare_execute_item: "hoare (winv (wi_future item # hs) bs) (execute_item t item) (\<lambda>_. winv hs bs) E"
  unfolding execute_item_def
  by (rule hoare_bind [OF hoare_begin_item])
    (auto intro!: hoare_done hoare_branch [OF hoare_dispatch_work hoare_work_failed hoare_work_done])

lemma hoare_renew_session: "hoare (winv hs bs) (renew_session t a) (\<lambda>_. winv hs bs) (fails (winv hs bs))"
  unfolding renew_session_def
  by (rule hoare_bind [OF hoare_is_ready])
    (auto intro!: hoare_bind [OF hoare_close_transport] hoare_bind [OF hoare_to_session] hoare_connect_link hoare_return)

text \<open>\<open>future.set_result\<close> inside the \<open>try\<close> block is its last action, so the handler only runs
  while the future is still running.\<close>

lemma hoare_execute_session_intent:
  "hoare (winv (wi_future item # hs) bs) (execute_session_intent t a item) (\<lambda>_. winv hs bs) E"
proof -
  have body: "hoare (winv hs (wi_future item # bs)) (pbind (renew_session t a) (\<lambda>replacement.
       pbind (call_with (K_status replacement) status_of) (\<lambda>s.
         pthen (set_outcome (wi_future item) (Inr (Some (WR_status s)))) (Done replacement))))
       (\<lambda>_. winv hs bs) (fails (winv hs (wi_future item # bs)))"
    by (rule hoare_bind [OF hoare_renew_session], rule hoare_read_only)
      (auto simp: is_request_def intro!: hoare_bind [OF hoare_set_result] hoare_return)
  have failed: "hoare (fails (winv hs (wi_future item # bs)) e) (pthen (set_outcome (wi_future item) (Inl e))
       (pthen (fail_session e ''could not verify the session'') (Done None))) (\<lambda>_. winv hs bs) E" for e
    by (cases "ordinary e")
      (auto simp: hoare_def [of "\<lambda>_. False"] intro!: hoare_bind [OF hoare_set_result] hoare_bind [OF hoare_fail_session] hoare_return)
  show ?thesis
    unfolding execute_session_intent_def
    by (rule hoare_bind [OF hoare_begin_item])
      (auto intro!: hoare_done hoare_conseq [OF hoare_branch [OF body failed hoare_return]] simp: running_def)
qed

lemma hoare_next_action:
  "hoare (winv [] []) next_action (\<lambda>a. case a of Act_work item \<Rightarrow> winv [wi_future item] [] | _ \<Rightarrow> winv [] []) E"
  unfolding next_action_def
proof (rule hoare_step [OF steady_winv])
  fix w assume w: "winv [] [] w" "action_ready w"
  have "winv [wi_future (hd (w_normal w))] [] (w\<lparr> w_normal := tl (w_normal w) \<rparr>)" if "w_normal w \<noteq> []"
  proof -
    obtain item rest where "w_normal w = item # rest" using \<open>w_normal w \<noteq> []\<close> by (cases "w_normal w") auto
    then show ?thesis
      by (intro winv_regroup [OF w(1)]) (use w(1) in \<open>simp_all add: awaiting_def winv_def queue_inv_def\<close>)
  qed
  with w show "good (if w_stop_requested w \<or> w_state w \<in> {WS_closing, WS_failed} then w else w\<lparr> w_normal := tl (w_normal w) \<rparr>) \<and>
     safe (\<lambda>a. case a of Act_work item \<Rightarrow> winv [wi_future item] [] | _ \<Rightarrow> winv [] []) E
       (Done (if w_stop_requested w then Act_stop
              else if w_state w \<in> {WS_closing, WS_failed} then Act_leave else Act_work (hd (w_normal w))))
       (if w_stop_requested w \<or> w_state w \<in> {WS_closing, WS_failed} then w else w\<lparr> w_normal := tl (w_normal w) \<rparr>)"
    by (auto simp: action_ready_def intro: good_winv)
qed

lemma hoare_turn: "hoare (winv [] []) (turn t) (\<lambda>_. winv [] []) E"
  unfolding turn_def
  by (rule hoare_bind [OF hoare_next_action])
    (auto intro!: hoare_return hoare_bind [OF hoare_execute_stop] hoare_bind [OF hoare_execute_session_intent]
      hoare_bind [OF hoare_execute_item] hoare_bind [OF hoare_recover_link] split: action.split worker_intent.split option.split)

lemma hoare_startup: "hoare (winv [] []) startup (\<lambda>_. winv [] []) (fails (winv [] []))"
  unfolding startup_def
  by (rule hoare_bind [OF hoare_connect_link], rule hoare_bind [OF hoare_is_closing])
    (auto intro!: hoare_if hoare_return hoare_quiet split: if_splits)

text \<open>A worker that has stopped for good.\<close>

definition stopped :: "worker \<Rightarrow> bool" where
  "stopped w \<longleftrightarrow> w_state w \<in> {WS_closed, WS_failed} \<and> w_normal w = [] \<and> w_stop_waiters w = []"

lemma steady_stopped: "steady stopped"
  unfolding steady_def
proof (intro allI impI)
  fix w w' assume "caller_step w w'" "stopped w"
  then show "stopped w'"
    by (induction rule: caller_step.induct)
      (auto simp: stopped_def worker_submit_def submit_priority_stop_def worker_close_def start_wait_def
        cancel_future_def fail_future_def split: future.splits)
qed

text \<open>A fact that every instruction of a program preserves, besides the callers, can be framed.\<close>

primrec preserves :: "(worker \<Rightarrow> bool) \<Rightarrow> 'a prog \<Rightarrow> bool" where
  "preserves F (Done x) = True"
| "preserves F (Throw e) = True"
| "preserves F (Step g act k) = (\<forall>w. (F w \<longrightarrow> F (act w)) \<and> preserves F (k w))"
| "preserves F (Call c k) = (\<forall>a. (\<forall>w. F w \<longrightarrow> F (record_call c a w)) \<and> preserves F (k a))"

lemma preserves_bind: "preserves F p \<Longrightarrow> (\<And>x. preserves F (f x)) \<Longrightarrow> preserves F (pbind p f)"
  by (induction p) auto

lemma safe_frame:
  "steady F \<Longrightarrow> preserves F p \<Longrightarrow> safe Q E p w \<Longrightarrow> F w \<Longrightarrow> safe (\<lambda>x w. Q x w \<and> F w) (\<lambda>e w. E e w \<and> F w) p w"
  by (induction p arbitrary: w) (auto dest: steady_interference)

lemma hoare_frame:
  "hoare P p Q E \<Longrightarrow> steady F \<Longrightarrow> preserves F p \<Longrightarrow>
     hoare (\<lambda>w. P w \<and> F w) p (\<lambda>x w. Q x w \<and> F w) (\<lambda>e w. E e w \<and> F w)"
  unfolding hoare_def by (auto intro: safe_frame)

lemma preserves_stopped:
  "preserves stopped (set_running_or_notify_cancel f)" "preserves stopped (set_outcome f r)"
  by (auto simp: set_running_or_notify_cancel_def set_outcome_def stopped_def split: future.split)

lemma preserves_stopped_fail: "preserves stopped (fail_items fs e)"
  by (induction fs) (auto simp: fail_pending_future_def intro!: preserves_bind preserves_stopped)

definition finished :: "worker \<Rightarrow> bool" where
  "finished w \<longleftrightarrow> winv [] [] w \<and> stopped w"

lemma steady_finished: "steady finished"
  unfolding finished_def by (intro steady_conj steady_winv steady_stopped)

lemma stopped_session: "stopped (w\<lparr> w_session := x \<rparr>) = stopped w"
  by (simp add: stopped_def)

lemma hoare_finish_thread: "hoare (winv [] []) finish_thread (\<lambda>_. finished) (\<lambda>_ _. False)"
proof -
  let ?held = "\<lambda>fs w. winv fs [] w \<and> stopped w"
  have take_all: "winv (map wi_future (w_normal w) @ w_stop_waiters w) []
      (w\<lparr> w_state := st, w_normal := [], w_stop_waiters := [], w_stop_requested := False \<rparr>)" if "winv [] [] w" for w st
    by (rule winv_regroup [OF that]) (simp_all add: awaiting_def queue_inv_def)
  have fail: "hoare (?held fs) (fail_items fs e) (\<lambda>_. finished) (\<lambda>_ _. False)" for fs e
    by (rule hoare_conseq [OF hoare_frame [OF hoare_fail_items [of fs "[]" "[]" e "\<lambda>_ _. False"] steady_stopped
          preserves_stopped_fail]]) (auto simp: finished_def)
  have steady: "steady (?held fs)" for fs
    by (intro steady_conj steady_winv steady_stopped)
  have quiet: "hoare (?held fs) (atomic act v) (\<lambda>_. ?held fs) (\<lambda>_ _. False)"
    if "\<And>w. ?held fs w \<Longrightarrow> ?held fs (act w)" for fs act and v :: "worker \<Rightarrow> 'b"
    by (rule hoare_atomic [OF steady]) (use that in \<open>auto intro: good_winv\<close>)
  show ?thesis
    unfolding finish_thread_def
  proof (rule hoare_bind [where Q = "\<lambda>(pending, waiters). ?held (pending @ waiters)"])
    show "hoare (winv [] []) (atomic
       (\<lambda>w. w\<lparr> w_state := (if w_state w = WS_failed then WS_failed else WS_closed), w_normal := [],
               w_stop_waiters := [], w_stop_requested := False \<rparr>)
       (\<lambda>w. (map wi_future (w_normal w), w_stop_waiters w)))
       (\<lambda>(pending, waiters). ?held (pending @ waiters)) (\<lambda>_ _. False)"
      by (rule hoare_atomic [OF steady_winv]) (use take_all in \<open>auto simp: stopped_def intro: good_winv\<close>)
  qed (auto intro!: hoare_bind [OF quiet] fail simp: stopped_session)
qed

lemma hoare_ending: "hoare (winv [] []) (ending link) (\<lambda>_. finished) (\<lambda>_ _. False)"
  unfolding ending_def
  by (rule hoare_bind [OF _ hoare_finish_thread]) (auto intro: keeps split: option.split)

lemma hoare_fault_ending: "hoare (winv [] []) (fault_ending e link) (\<lambda>_. finished) (\<lambda>_ _. False)"
  unfolding fault_ending_def
  by (rule hoare_bind [OF hoare_to_session], rule hoare_bind [OF hoare_mark_failed], rule hoare_ending)

section \<open>The invariant of the system\<close>

fun thread_inv :: "worker \<times> thread \<Rightarrow> bool" where
  "thread_inv (w, Unstarted) = winv [] [] w"
| "thread_inv (w, Looping link p) = (good w \<and> safe (\<lambda>_. winv [] []) (\<lambda>_. winv [] []) p w)"
| "thread_inv (w, Finishing p) = (good w \<and> safe (\<lambda>_. finished) (\<lambda>_ _. False) p w)"
| "thread_inv (w, Ended) = finished w"

lemma steady_good: "steady good"
  by (auto simp: steady_def good_def intro: winv_caller)

lemma thread_inv_caller:
  assumes "caller_step w w'" "thread_inv (w, th)"
  shows "thread_inv (w', th)"
proof -
  have i: "interference w w'" using assms(1) by (auto simp: interference_def)
  note g = steady_interference [OF steady_good i]
  show ?thesis
  proof (cases th)
    case (Looping link p)
    with assms(2) g safe_interference [OF i steady_winv steady_winv, where p = p] show ?thesis by simp
  next
    case (Finishing p)
    have "steady (\<lambda>_. False)" by (simp add: steady_def)
    with Finishing assms(2) g safe_interference [OF i steady_finished, where E = "\<lambda>_ _. False" and p = p] show ?thesis by simp
  qed (use assms(2) steady_interference [OF steady_winv i] steady_interference [OF steady_finished i] in auto)
qed

lemma advance_safe:
  assumes "advance a w p = Some (w', p')" "safe Q E p w"
  shows "good w' \<and> safe Q E p' w'"
  using assms by (cases p) (auto simp: interference_def split: if_splits)

lemma thread_inv_step:
  assumes "thread_step a (w, th) = Some s'" "thread_inv (w, th)"
  shows "thread_inv s'"
  using assms
  by (cases "(a, w, th)" rule: thread_step.cases)
    (auto simp del: advance.simps safe.simps(3,4) dest!: advance_safe intro: good_winv hoare_turn [unfolded hoare_def, rule_format]
      hoare_ending [unfolded hoare_def, rule_format] hoare_fault_ending [unfolded hoare_def, rule_format])

lemma thread_inv_reachable:
  assumes "worker_reachable w0 s" "winv [] [] w0"
  shows "thread_inv s"
  using assms(1)
proof induction
  case (step s s')
  from step(2,3) show ?case
  proof cases
    case (spawn w w')
    then have "winv [] [] w'" using step(3) by (auto simp: start_enter_def split: if_splits)
    with hoare_startup show ?thesis unfolding spawn hoare_def
      by (auto intro: good_winv safe_conseq)
  qed (auto intro: thread_inv_caller thread_inv_step)
qed (use assms(2) in simp)

lemma new_worker_inv: "new_worker capacity timeout poll attempts observed = Some w \<Longrightarrow> winv [] [] w"
  by (auto simp: new_worker_def winv_defs awaiting_def split: if_splits)

lemma thread_inv_good: "thread_inv s \<Longrightarrow> good (fst s)"
  by (cases s rule: thread_inv.cases) (auto simp: finished_def intro: good_winv)

section \<open>Closing ends the thread\<close>

text \<open>What a program completes with that runs without callers in between; a call always comes
  back.\<close>

primrec completes :: "('a \<Rightarrow> worker \<Rightarrow> bool) \<Rightarrow> (failure \<Rightarrow> worker \<Rightarrow> bool) \<Rightarrow> 'a prog \<Rightarrow> worker \<Rightarrow> bool" where
  "completes Q E (Done x) = Q x"
| "completes Q E (Throw e) = E e"
| "completes Q E (Step g act k) = (\<lambda>w. g w \<and> completes Q E (k w) (act w))"
| "completes Q E (Call c k) = (\<lambda>w. \<forall>a. legal w c a \<longrightarrow> completes Q E (k a) (record_call c a w))"

lemma legal_exists: "\<exists>a. legal w c a"
proof (cases c)
  case (K_on_dispatch f)
  then have "legal w c A_unit" by simp
  then show ?thesis ..
next
  case (K_profile x y)
  then have "legal w c A_unit" by simp
  then show ?thesis ..
qed (auto intro: exI [of _ "Raised (Protocol_failure OSError)"])

inductive inevitable :: "(worker \<times> thread \<Rightarrow> bool) \<Rightarrow> worker \<times> thread \<Rightarrow> bool" for P where
  now: "P s \<Longrightarrow> inevitable P s"
| later: "(\<And>a s'. thread_step a s = Some s' \<Longrightarrow> inevitable P s') \<Longrightarrow> \<exists>a s'. thread_step a s = Some s' \<Longrightarrow> inevitable P s"

lemma inevitable_looping:
  "completes (\<lambda>x w. inevitable P (w, Looping link (Done x))) (\<lambda>e w. inevitable P (w, Looping link (Throw e))) p w \<Longrightarrow>
     inevitable P (w, Looping link p)"
proof (induction p arbitrary: w)
  case (Step g act k)
  then have "inevitable P (act w, Looping link (k w))" by simp
  then show ?case using Step.prems by - (rule inevitable.later, auto)
next
  case (Call c k)
  have "inevitable P (record_call c a w, Looping link (k a))" if "legal w c a" for a
    using Call that by simp
  then show ?case using legal_exists [of w c] by - (rule inevitable.later, auto split: if_splits)
qed auto

lemma inevitable_finishing:
  "completes (\<lambda>x w. inevitable P (w, Ended)) (\<lambda>e w. False) p w \<Longrightarrow> inevitable P (w, Finishing p)"
proof (induction p arbitrary: w)
  case (Done x)
  then show ?case by - (rule inevitable.later, auto)
next
  case (Step g act k)
  then have "inevitable P (act w, Finishing (k w))" by simp
  then show ?case using Step.prems by - (rule inevitable.later, auto)
next
  case (Call c k)
  have "inevitable P (record_call c a w, Finishing (k a))" if "legal w c a" for a
    using Call that by simp
  then show ?case using legal_exists [of w c] by - (rule inevitable.later, auto split: if_splits)
qed auto

text \<open>Programs that never wait in the states of \<open>C\<close>, and stay there.\<close>

primrec runs_in :: "(worker \<Rightarrow> bool) \<Rightarrow> 'a prog \<Rightarrow> bool" where
  "runs_in C (Done x) = True"
| "runs_in C (Throw e) = True"
| "runs_in C (Step g act k) = (\<forall>w. (C w \<longrightarrow> g w \<and> C (act w)) \<and> runs_in C (k w))"
| "runs_in C (Call c k) = (\<forall>a. (\<forall>w. C w \<longrightarrow> C (record_call c a w)) \<and> runs_in C (k a))"

lemma runs_in_bind: "runs_in C p \<Longrightarrow> (\<And>x. runs_in C (f x)) \<Longrightarrow> runs_in C (pbind p f)"
  by (induction p) auto

lemma runs_in_branch: "runs_in C p \<Longrightarrow> (\<And>e. runs_in C (h e)) \<Longrightarrow> (\<And>x. runs_in C (f x)) \<Longrightarrow> runs_in C (pbranch p h f)"
  by (induction p) auto

lemma runs_in_completes: "runs_in C p \<Longrightarrow> C w \<Longrightarrow> completes (\<lambda>_. C) (\<lambda>_. C) p w"
  by (induction p arbitrary: w) auto

lemma runs_in_safe: "runs_in (\<lambda>_. True) p \<Longrightarrow> safe Q E p w \<Longrightarrow> completes Q E p w"
  by (induction p arbitrary: w) (auto simp: interference_def)

lemma completes_conseq:
  "completes Q E p w \<Longrightarrow> (\<And>x w. Q x w \<Longrightarrow> Q' x w) \<Longrightarrow> (\<And>e w. E e w \<Longrightarrow> E' e w) \<Longrightarrow> completes Q' E' p w"
  by (induction p arbitrary: w) auto

lemma completes_bind: "completes (\<lambda>x. completes Q E (f x)) E p w \<Longrightarrow> completes Q E (pbind p f) w"
  by (induction p arbitrary: w) auto

text \<open>A predicate on the lifecycle that a failure keeps, with or without the stop flag down.\<close>

definition winding_down :: "worker \<Rightarrow> bool" where
  "winding_down w = (w_state w \<in> {WS_closing, WS_failed})"

definition quiet_down :: "worker \<Rightarrow> bool" where
  "quiet_down w = (winding_down w \<and> \<not> w_stop_requested w)"

lemma runs_in_atomic: "(\<And>w. C w \<Longrightarrow> C (act w)) \<Longrightarrow> runs_in C (atomic act v)"
  by (simp add: atomic_def)

lemmas down_defs = winding_down_def quiet_down_def

lemma down_simps [simp]:
  "winding_down (record_call c a w) = winding_down w" "quiet_down (record_call c a w) = quiet_down w"
  "winding_down (w\<lparr> w_session := s \<rparr>) = winding_down w" "quiet_down (w\<lparr> w_session := s \<rparr>) = quiet_down w"
  "winding_down (w\<lparr> w_futures := fs \<rparr>) = winding_down w" "quiet_down (w\<lparr> w_futures := fs \<rparr>) = quiet_down w"
  "winding_down (w\<lparr> w_normal := q \<rparr>) = winding_down w"
  "winding_down (w\<lparr> w_stop_waiters := ws, w_stop_requested := b \<rparr>) = winding_down w"
  "winding_down w \<Longrightarrow> winding_down (failed_with e w)" "quiet_down w \<Longrightarrow> quiet_down (failed_with e w)"
  by (auto simp: down_defs failed_with_def)

text \<open>What the programs need of \<open>C\<close>: their updates other than of the queue and the lifecycle keep it.\<close>

definition sustained :: "(worker \<Rightarrow> bool) \<Rightarrow> bool" where
  "sustained C \<longleftrightarrow> (\<forall>w. C w \<longrightarrow>
     (\<forall>c a. C (record_call c a w)) \<and> (\<forall>s. C (w\<lparr> w_session := s \<rparr>)) \<and> (\<forall>fs. C (w\<lparr> w_futures := fs \<rparr>)) \<and>
     (\<forall>e. C (failed_with e w)))"

lemma sustained_down: "sustained winding_down" "sustained quiet_down" "sustained (\<lambda>_. True)"
  by (auto simp: sustained_def)

lemma runs_base:
  assumes "sustained C"
  shows "runs_in C (call_with c decode)" "runs_in C (to_session st reason)" "runs_in C (mark_failed e)"
    "runs_in C is_closing" "runs_in C is_stop_requested" "runs_in C is_ready"
    "runs_in C (set_running_or_notify_cancel f)" "runs_in C (set_outcome f r)"
  using assms
  by (auto simp: sustained_def call_with_def to_session_def mark_failed_def is_closing_def is_stop_requested_def
      is_ready_def atomic_def set_running_or_notify_cancel_def set_outcome_def
      split: future.split option.split)

lemma runs_fail_pending: "sustained C \<Longrightarrow> runs_in C (fail_pending_future f e)"
  unfolding fail_pending_future_def by (auto intro!: runs_in_bind runs_base)

lemma runs_fail_items: "sustained C \<Longrightarrow> runs_in C (fail_items fs e)"
  by (induction fs) (auto intro!: runs_in_bind runs_fail_pending)

lemma runs_settle_waiters: "sustained C \<Longrightarrow> runs_in C (settle_waiters fs e)"
  by (induction fs) (auto intro!: runs_in_bind runs_base runs_fail_pending split: option.split)

lemma runs_session:
  assumes "sustained C"
  shows "runs_in C (close_transport t)" "runs_in C (fail_session e reason)"
  using assms unfolding close_transport_def fail_session_def
  by (auto intro!: runs_in_bind runs_in_branch runs_base)

lemma runs_publish_profile: "sustained C \<Longrightarrow> runs_in C (publish_profile t)"
  unfolding publish_profile_def by (auto simp: sustained_def atomic_def intro!: runs_in_bind runs_base)

lemma runs_activate_link: "sustained C \<Longrightarrow> runs_in C (activate_link t)"
  unfolding activate_link_def by (auto intro!: runs_in_bind runs_base runs_publish_profile)

lemma runs_connect_link: "sustained C \<Longrightarrow> runs_in C connect_link"
  unfolding connect_link_def
  by (auto intro!: runs_in_bind runs_in_branch runs_base runs_session runs_activate_link)

lemma runs_reconnect_attempts: "sustained C \<Longrightarrow> runs_in C (reconnect_attempts n e)"
  by (induction n) (auto intro!: runs_in_bind runs_in_branch runs_base runs_session runs_connect_link)

lemma runs_reconnect: "sustained C \<Longrightarrow> runs_in C (reconnect t e)"
  unfolding reconnect_def
  by (auto simp: atomic_def intro!: runs_in_bind runs_base runs_session runs_reconnect_attempts)

text \<open>The remaining programs also empty the queue and take the stop flag down.\<close>

lemma runs_lists:
  "runs_in winding_down (drain_queue e)" "runs_in winding_down (resolve_stop x)"
  unfolding drain_queue_def resolve_stop_def
  by (auto intro!: runs_in_bind runs_in_atomic runs_fail_items runs_settle_waiters sustained_down)

lemma runs_recover_link: "runs_in winding_down (recover_link t e)"
  unfolding recover_link_def
  by (auto intro!: runs_in_bind runs_in_branch runs_base runs_session runs_activate_link runs_reconnect runs_lists sustained_down)

lemma runs_begin_item: "sustained C \<Longrightarrow> runs_in C (begin_item item)"
  unfolding begin_item_def by (auto intro!: runs_in_bind runs_in_branch runs_base)

lemma runs_dispatch_work: "sustained C \<Longrightarrow> runs_in C (dispatch_work t f intent)"
  by (cases "(t, f, intent)" rule: dispatch_work.cases) (auto intro!: runs_base)

lemma runs_execute_item: "runs_in winding_down (execute_item t item)"
  unfolding execute_item_def work_failed_def work_done_def stop_after_result_def
  by (auto intro!: runs_in_bind runs_in_branch runs_base runs_begin_item runs_dispatch_work runs_publish_profile
      runs_lists runs_session sustained_down split: worker_intent.split)

lemma runs_execute_session_intent: "runs_in winding_down (execute_session_intent t a item)"
  unfolding execute_session_intent_def renew_session_def
  by (auto intro!: runs_in_bind runs_in_branch runs_base runs_begin_item runs_connect_link runs_session sustained_down)

lemma runs_execute_stop: "runs_in winding_down (execute_stop t)"
  unfolding execute_stop_def by (auto intro!: runs_in_branch runs_in_bind runs_base runs_lists runs_session sustained_down)

lemma runs_next_action: "runs_in winding_down next_action"
  by (auto simp: next_action_def action_ready_def winding_down_def)

lemma runs_turn: "runs_in winding_down (turn t)"
  unfolding turn_def
  by (rule runs_in_bind [OF runs_next_action])
    (auto intro!: runs_in_bind runs_execute_stop runs_execute_session_intent runs_execute_item runs_recover_link
      split: action.split worker_intent.split option.split)

lemma runs_ending: "runs_in (\<lambda>_. True) (ending link)"
  unfolding ending_def finish_thread_def
  by (auto intro!: runs_in_bind runs_in_atomic runs_session runs_fail_items sustained_down split: option.split)

lemma runs_fault_ending: "runs_in (\<lambda>_. True) (fault_ending e link)"
  unfolding fault_ending_def by (auto intro!: runs_in_bind runs_base runs_ending sustained_down)

lemma runs_in_safe_completes:
  "runs_in C p \<Longrightarrow> C w \<Longrightarrow> safe Q E p w \<Longrightarrow> completes (\<lambda>x w. Q x w \<and> C w) (\<lambda>e w. E e w \<and> C w) p w"
  by (induction p arbitrary: w) (auto simp: interference_def)

lemma completes_conj: "completes Q E p w \<Longrightarrow> completes Q' E' p w \<Longrightarrow> completes (\<lambda>x w. Q x w \<and> Q' x w) (\<lambda>e w. E e w \<and> E' e w) p w"
  by (induction p arbitrary: w) auto

abbreviation ends :: "worker \<times> thread \<Rightarrow> bool" where
  "ends \<equiv> inevitable (\<lambda>s. snd s = Ended)"

lemma finishing_ends: "runs_in (\<lambda>_. True) p \<Longrightarrow> safe (\<lambda>_. finished) (\<lambda>_ _. False) p w \<Longrightarrow> ends (w, Finishing p)"
  by (rule inevitable_finishing, drule (1) runs_in_safe, erule completes_conseq) (auto intro: inevitable.now)

lemma after_verdict:
  assumes "winv [] [] w"
  shows "ends (w, Looping link (Done (Leave l)))" "ends (w, Looping link (Throw e))"
proof -
  have "ends (w, Finishing (ending l))" "ends (w, Finishing (fault_ending e link))"
    using assms hoare_ending hoare_fault_ending
    by (auto simp: hoare_def intro!: finishing_ends runs_ending runs_fault_ending)
  then show "ends (w, Looping link (Done (Leave l)))" "ends (w, Looping link (Throw e))"
    by - (rule inevitable.later, auto)+
qed

lemma again: "ends (w, Looping (Some t) (turn t)) \<Longrightarrow> ends (w, Looping link (Done (Again t)))"
  by (rule inevitable.later) auto

lemma quiet_turn_ends:
  assumes "winv [] [] w" "quiet_down w"
  shows "ends (w, Looping (Some t) (turn t))"
  by (rule inevitable_looping)
    (use assms after_verdict(1) [OF assms(1)] in \<open>auto simp: turn_def next_action_def action_ready_def down_defs\<close>)

lemma stop_goes_quiet:
  assumes "winding_down w"
  shows "completes (\<lambda>_. quiet_down) (\<lambda>_. quiet_down) (execute_stop t) w"
proof -
  have resolve: "completes (\<lambda>_. quiet_down) (\<lambda>_. quiet_down) (pbind (resolve_stop x) f) w'"
    if "winding_down w'" "\<And>u. runs_in quiet_down (f u)" for w' x and f :: "unit \<Rightarrow> unit prog"
    unfolding resolve_stop_def atomic_def
    using that runs_in_completes [OF runs_in_bind [OF runs_settle_waiters [OF sustained_down(2)] that(2)]]
    by (auto simp: quiet_down_def)
  have "completes (\<lambda>_. quiet_down) (\<lambda>_. quiet_down) (resolve_stop x) w'" if "winding_down w'" for w' x
    using runs_in_completes [OF runs_settle_waiters [OF sustained_down(2)]] that
    by (auto simp: resolve_stop_def atomic_def quiet_down_def)
  with assms resolve runs_session(2) [OF sustained_down(2)] show ?thesis
    by (auto simp: execute_stop_def call_with_def split: option.split answer.split)
qed

lemma turn_ends:
  assumes "winv [] [] w" "winding_down w"
  shows "ends (w, Looping (Some t) (turn t))"
proof (cases "w_stop_requested w")
  case True
  have "safe (\<lambda>_. winv [] []) (\<lambda>_. winv [] []) (execute_stop t) w"
    using hoare_execute_stop assms(1) by (auto simp: hoare_def)
  from completes_conj [OF runs_in_safe_completes [OF runs_execute_stop assms(2) this] stop_goes_quiet [OF assms(2)]]
  have "completes (\<lambda>x w. ends (w, Looping (Some t) (Done (Again t)))) (\<lambda>e w. ends (w, Looping (Some t) (Throw e))) (execute_stop t) w"
    by (rule completes_conseq) (auto intro: again quiet_turn_ends after_verdict)
  then have "completes (\<lambda>x w. ends (w, Looping (Some t) (Done x))) (\<lambda>e w. ends (w, Looping (Some t) (Throw e)))
      (pthen (execute_stop t) (Done (Again t))) w"
    by (intro completes_bind) simp
  then show ?thesis using True
    by (intro inevitable_looping) (simp add: turn_def next_action_def action_ready_def)
qed (use quiet_turn_ends assms in \<open>auto simp: quiet_down_def\<close>)

fun lively :: "thread \<Rightarrow> bool" where
  "lively (Looping (Some t) p) = runs_in winding_down p"
| "lively (Finishing p) = runs_in (\<lambda>_. True) p"
| "lively _ = True"

lemma advance_runs: "advance a w p = Some (w', p') \<Longrightarrow> runs_in C p \<Longrightarrow> runs_in C p'"
  by (cases p) (auto split: if_splits)

lemma lively_step: "thread_step a (w, th) = Some s' \<Longrightarrow> lively th \<Longrightarrow> lively (snd s')"
  by (cases "(a, w, th)" rule: thread_step.cases)
    (auto simp del: advance.simps runs_in.simps(3,4) simp: runs_turn runs_ending runs_fault_ending
      dest: advance_runs elim!: lively.elims(2))

lemma lively_reachable: "worker_reachable w0 s \<Longrightarrow> lively (snd s)"
proof (induction rule: worker_reachable.induct)
  case (step s s')
  from step(2,3) show ?case by cases (auto dest: lively_step)
qed simp

lemma winding_down_ends:
  assumes "thread_inv (w, th)" "lively th" "winding_down w" "th \<noteq> Unstarted" "\<And>p. th \<noteq> Looping None p"
  shows "ends (w, th)"
proof (cases th)
  case (Looping link p)
  then obtain t where t: "link = Some t" using assms(5) by (cases link) auto
  have "completes (\<lambda>_ w. winv [] [] w \<and> winding_down w) (\<lambda>_ w. winv [] [] w \<and> winding_down w) p w"
    using assms Looping t runs_in_safe_completes [of winding_down p w "\<lambda>_. winv [] []" "\<lambda>_. winv [] []"] by simp
  then have "completes (\<lambda>x w. ends (w, Looping link (Done x))) (\<lambda>e w. ends (w, Looping link (Throw e))) p w"
  proof (rule completes_conseq)
    fix x w assume "winv [] [] w \<and> winding_down w"
    then show "ends (w, Looping link (Done x))"
      by (cases x) (auto intro: again turn_ends after_verdict)
  qed (auto intro: after_verdict)
  with Looping show ?thesis by (auto intro: inevitable_looping)
next
  case (Finishing p)
  with assms(1,2) show ?thesis by (auto intro: finishing_ends)
qed (use assms(4) in \<open>auto intro: inevitable.now\<close>)

section \<open>Schedules\<close>

text \<open>A sequence of calls and thread steps, for worked examples.\<close>

datatype worker_event = Ev_start | Ev_submit worker_intent bool | Ev_stop | Ev_close | Ev_thread answer

fun happen :: "worker_event \<Rightarrow> worker \<times> thread \<Rightarrow> (worker \<times> thread) option" where
  "happen Ev_start (w, Unstarted) =
     (case start_enter w of (Inr True, w') \<Rightarrow> Some (w', Looping None startup) | _ \<Rightarrow> None)"
| "happen (Ev_submit intent od) (w, th) = Some (snd (worker_submit intent od w), th)"
| "happen Ev_stop (w, th) = Some (snd (submit_priority_stop w), th)"
| "happen Ev_close (w, th) = Some (worker_close w, th)"
| "happen (Ev_thread a) s = thread_step a s"
| "happen _ _ = None"

fun schedule :: "worker_event list \<Rightarrow> worker \<times> thread \<Rightarrow> (worker \<times> thread) option" where
  "schedule [] s = Some s"
| "schedule (e # es) s = (case happen e s of None \<Rightarrow> None | Some s' \<Rightarrow> schedule es s')"

lemma happen_step: "happen e s = Some s' \<Longrightarrow> worker_step s s'"
  by (cases s, cases "(e, s)" rule: happen.cases)
    (auto intro: worker_step.intros caller_step.intros split: prod.splits sum.splits bool.splits)

lemma schedule_reachable: "worker_reachable w0 s \<Longrightarrow> schedule es s = Some s' \<Longrightarrow> worker_reachable w0 s'"
  by (induction es s rule: schedule.induct)
    (auto split: option.splits dest: happen_step intro: worker_reachable.step)

definition demo_worker :: worker where
  "demo_worker = the (new_worker 16 1000 10 1 False)"

text \<open>Start and verify a session on a transport; the answers in order.\<close>

definition connect_answers :: "nat \<Rightarrow> answer list" where
  "connect_answers t = [A_unit, A_transport t, A_unit, A_unit, A_unit, A_unit, A_unit, A_bool True, A_unit, A_unit]"

definition demo_start :: "worker_event list" where
  "demo_start = Ev_start # map Ev_thread (connect_answers 0 @ [A_unit, A_unit, A_unit])"

lemma demo_ready:
  "map_option (\<lambda>(w, th). (w_state w, ss_state (ses_snapshot (w_session w)), opened w)) (schedule demo_start (demo_worker, Unstarted))
     = Some (WS_running, CS_ready, [0])"
  by code_simp

definition has_ended :: "thread \<Rightarrow> bool" where
  "has_ended th = (case th of Ended \<Rightarrow> True | _ \<Rightarrow> False)"

lemma has_ended_iff [simp]: "has_ended th \<longleftrightarrow> th = Ended"
  by (cases th) (auto simp: has_ended_def)

text \<open>An operator asks for a connection of a ready session, and the controller does not answer.\<close>

definition demo_leak :: "worker_event list" where
  "demo_leak = demo_start @ Ev_submit (SessionIntent SA_connect) False #
     map Ev_thread ([A_unit, A_unit, A_unit, Raised (Protocol_failure TimeoutError)] @ replicate 8 A_unit)"

lemma demo_leaked:
  "map_option (\<lambda>(w, th). (has_ended th, opened w, filter (\<lambda>(c, a). c = K_close 0) (w_trace w)))
     (schedule demo_leak (demo_worker, Unstarted)) = Some (True, [0], [])"
  by code_simp

text \<open>A sort is queued behind a recovery the operator asked for.\<close>

definition demo_queued :: "worker_event list" where
  "demo_queued = demo_start @ [Ev_submit (SessionIntent SA_recover) False, Ev_submit (SortIntent 3) False]"

definition demo_status :: status where
  "demo_status = \<lparr> s_mode = ''idle'', s_phase = ''idle'', s_feed_homed = True, s_sort_homed = True, s_motor_enabled = True,
     s_active_id = None, s_fault_code = 0, s_queue_previous = 0, s_queue_next = 0, s_config_generation = 1, s_extras = [] \<rparr>"

definition demo_carried :: "worker_event list" where
  "demo_carried = map Ev_thread (replicate 5 A_unit @ connect_answers 1 @
     [A_status demo_status, A_unit, A_unit, A_unit, A_unit,
      A_completion \<lparr> c_request_id = 1, c_succeeded = True, c_fields = [], c_responses = [], c_error = None \<rparr>])"

lemma demo_queued_state:
  "map_option (\<lambda>(w, th). (map wi_intent (w_normal w), map wi_future (w_normal w), ss_generation (ses_snapshot (w_session w)), sent w))
     (schedule demo_queued (demo_worker, Unstarted)) = Some ([SessionIntent SA_recover, SortIntent 3], [0, 1], 5, [])"
  by code_simp

lemma demo_carried_state:
  "map_option (\<lambda>(w, th). (map fst (filter (\<lambda>(c, a). is_request c) (w_trace w)), ss_generation (ses_snapshot (w_session w))))
     (schedule (demo_queued @ demo_carried) (demo_worker, Unstarted)) = Some ([K_request 1 1 ''sortto:3''], 10)"
  by code_simp

lemma demo_worker_new: "new_worker 16 1000 10 1 False = Some demo_worker"
  by (simp add: demo_worker_def new_worker_def)

lemma demo_worker_reachable: "schedule es (demo_worker, Unstarted) = Some s \<Longrightarrow> worker_reachable demo_worker s"
  by (rule schedule_reachable [OF worker_reachable.initial])

lemma demo_stopped_state:
  "map_option (\<lambda>(w, th). (w_stop_requested w, map fst (w_preempted w)))
     (schedule (demo_queued @ [Ev_stop]) (demo_worker, Unstarted)) = Some (True, [0, 1])"
  by code_simp

lemma demo_leaked_futures:
  "map_option (\<lambda>(w, th). (has_ended th, w_next w, w_preempted w)) (schedule demo_leak (demo_worker, Unstarted))
     = Some (True, 1, [])"
  by code_simp

lemma demo_sent_state:
  "map_option (\<lambda>(w, th). sent w) (schedule (demo_queued @ demo_carried) (demo_worker, Unstarted)) = Some [1]"
  by code_simp

definition in_loop :: "thread \<Rightarrow> bool" where
  "in_loop th = (case th of Looping (Some t) p \<Rightarrow> True | _ \<Rightarrow> False)"

lemma demo_closing:
  "map_option (\<lambda>(w, th). (w_state w, in_loop th)) (schedule (demo_start @ [Ev_close]) (demo_worker, Unstarted))
     = Some (WS_closing, True)"
  by code_simp

section \<open>Properties\<close>

lemma worker_good:
  assumes "new_worker capacity timeout poll attempts observed = Some w0" "worker_reachable w0 s"
  shows "thread_inv s" "good (fst s)"
  using thread_inv_reachable [OF assms(2) new_worker_inv [OF assms(1)]] by (auto intro: thread_inv_good)

text \<open>
  the queue of the worker never exceeds its capacity, and while a priority stop is pending no
  work is queued: the stop preempts everything not yet begun and nothing is admitted behind it.
\<close>

theorem stop_preempts_queue:
  assumes "new_worker capacity timeout poll attempts observed = Some w0" "worker_reachable w0 (w, th)"
  shows "length (w_normal w) \<le> w_capacity w \<and> (w_stop_requested w \<longrightarrow> w_normal w = [])"
  using worker_good(2) [OF assms] by (auto simp: good_def winv_def queue_inv_def)

theorem stop_preempts_queue_witness:
  "\<exists>w th. worker_reachable demo_worker (w, th) \<and> w_stop_requested w \<and> w_normal w = [] \<and> map fst (w_preempted w) = [0, 1]"
proof -
  obtain w th where w: "schedule (demo_queued @ [Ev_stop]) (demo_worker, Unstarted) = Some (w, th)" "w_stop_requested w"
      "map fst (w_preempted w) = [0, 1]"
    using demo_stopped_state by auto
  with stop_preempts_queue [OF demo_worker_new demo_worker_reachable [OF w(1)]] demo_worker_reachable [OF w(1)] show ?thesis by auto
qed

text \<open>
  C11: no caller waits for ever: when the thread has ended, every future a caller was given is
  finished or cancelled, except those some caller has taken from the queue and is about to fail.
\<close>

theorem worker_settles_every_future:
  assumes "new_worker capacity timeout poll attempts observed = Some w0" "worker_reachable w0 (w, Ended)" "f < w_next w"
  shows "settled (w_futures w f) \<or> f \<in> fst ` set (w_preempted w)"
  using worker_good(1) [OF assms(1,2)] assms(3)
  by (auto simp: finished_def stopped_def winv_def futures_inv_def awaiting_def)

theorem worker_settles_every_future_witness:
  "\<exists>w. worker_reachable demo_worker (w, Ended) \<and> w_next w = 1 \<and> settled (w_futures w 0)"
proof -
  obtain w where w: "schedule demo_leak (demo_worker, Unstarted) = Some (w, Ended)" "w_next w = 1" "w_preempted w = []"
    using demo_leaked_futures by auto
  with worker_settles_every_future [OF demo_worker_new demo_worker_reachable [OF w(1)], of 0] demo_worker_reachable [OF w(1)]
  show ?thesis by auto
qed

text \<open>
  C3: a movement command is transmitted at most once per admitted intent, and an intent whose
  future carries one of the errors that mean \<open>never dispatched\<close> or \<open>discarded by recovery\<close> was
  never transmitted.
\<close>

theorem worker_never_replays:
  assumes "new_worker capacity timeout poll attempts observed = Some w0" "worker_reachable w0 (w, th)"
  shows "distinct (sent w) \<and>
    (\<forall>f e. w_futures w f = FINISHED (Inl e) \<longrightarrow> unsent_error e \<longrightarrow> f \<notin> set (sent w))"
  using worker_good(2) [OF assms] by (auto simp: good_def winv_def trace_inv_def credible_def)

theorem worker_never_replays_witness:
  "\<exists>w th. worker_reachable demo_worker (w, th) \<and> sent w = [1] \<and> distinct (sent w)"
proof -
  obtain w th where w: "schedule (demo_queued @ demo_carried) (demo_worker, Unstarted) = Some (w, th)" "sent w = [1]"
    using demo_sent_state by auto
  with worker_never_replays [OF demo_worker_new demo_worker_reachable [OF w(1)]] demo_worker_reachable [OF w(1)] show ?thesis by blast
qed



text \<open>
  A connection request that the controller does not answer leaks the transport: the thread
  ends with the transport opened and never closed.
\<close>

theorem failed_connect_leaks_transport:
  "\<exists>w. worker_reachable demo_worker (w, Ended) \<and> 0 \<in> set (opened w) \<and> K_close 0 \<notin> fst ` set (w_trace w)"
proof -
  obtain w where w: "schedule demo_leak (demo_worker, Unstarted) = Some (w, Ended)" "opened w = [0]"
      "filter (\<lambda>(c, a). c = K_close 0) (w_trace w) = []"
    using demo_leaked by auto
  have "K_close 0 \<notin> fst ` set (w_trace w)"
    using w(3) unfolding filter_empty_conv by auto
  with schedule_reachable [OF worker_reachable.initial w(1)] w(2) show ?thesis by auto
qed

text \<open>Queued work crosses a session break that an operator asked for.\<close>

lemma recover_carries_queued_work:
  "\<exists>w th w' th'. worker_reachable demo_worker (w, th) \<and> worker_reachable demo_worker (w', th') \<and>
     SortIntent 3 \<in> wi_intent ` set (w_normal w) \<and> sent w = [] \<and>
     ss_generation (ses_snapshot (w_session w)) < ss_generation (ses_snapshot (w_session w')) \<and>
     K_request 1 1 ''sortto:3'' \<in> fst ` set (w_trace w')"
proof -
  obtain w th where w: "schedule demo_queued (demo_worker, Unstarted) = Some (w, th)" "sent w = []"
      "map wi_intent (w_normal w) = [SessionIntent SA_recover, SortIntent 3]" "ss_generation (ses_snapshot (w_session w)) = 5"
    using demo_queued_state by auto
  obtain w' th' where w': "schedule (demo_queued @ demo_carried) (demo_worker, Unstarted) = Some (w', th')"
      "map fst (filter (\<lambda>(c, a). is_request c) (w_trace w')) = [K_request 1 1 ''sortto:3'']"
      "ss_generation (ses_snapshot (w_session w')) = 10"
    using demo_carried_state by auto
  have "K_request 1 1 ''sortto:3'' \<in> fst ` set (w_trace w')"
  proof -
    have "K_request 1 1 ''sortto:3'' \<in> set (map fst (filter (\<lambda>(c, a). is_request c) (w_trace w')))"
      unfolding w'(2) by (rule list.set_intros)
    then show ?thesis by auto
  qed
  moreover have "SortIntent 3 \<in> wi_intent ` set (w_normal w)"
    unfolding set_map [symmetric] w(3) by simp
  moreover have "ss_generation (ses_snapshot (w_session w)) < ss_generation (ses_snapshot (w_session w'))"
    unfolding w(4) w'(3) by simp
  ultimately show ?thesis
    using w(2) schedule_reachable [OF worker_reachable.initial w(1)] schedule_reachable [OF worker_reachable.initial w'(1)]
    by blast
qed

end
