(* ===== verification/Configuration.thy ===== *)
theory Configuration
  imports Operations
begin

text \<open>
  The daemon's policy values (\<open>configuration.py\<close>): bounded integers, changed as a whole by a
  validated mapping of changes.
\<close>

record configuration_values =
  cv_heartbeat_interval_ms :: int
  cv_event_retention_count :: int
  cv_operation_retention_days :: int
  cv_max_deadline_ms :: int

definition BOUNDS :: "(string \<times> int \<times> int) list" where
  "BOUNDS = [(''heartbeat_interval_ms'', 1000, 60000), (''event_retention_count'', 100, 100000),
     (''operation_retention_days'', 1, 365), (''max_deadline_ms'', 1000, 120000)]"

definition default_configuration :: configuration_values where
  "default_configuration = \<lparr> cv_heartbeat_interval_ms = 15000, cv_event_retention_count = 5000,
     cv_operation_retention_days = 30, cv_max_deadline_ms = 120000 \<rparr>"

definition as_mapping :: "configuration_values \<Rightarrow> (string \<times> int) list" where
  "as_mapping v = [(''heartbeat_interval_ms'', cv_heartbeat_interval_ms v),
     (''event_retention_count'', cv_event_retention_count v),
     (''operation_retention_days'', cv_operation_retention_days v),
     (''max_deadline_ms'', cv_max_deadline_ms v)]"

text \<open>\<open>ConfigurationValues(...)\<close> with the field values as given by the caller; \<open>__post_init__\<close>
  checks them in the order of \<open>_BOUNDS\<close>.\<close>

fun check_bounds :: "(string \<times> int \<times> int) list \<Rightarrow> (string \<Rightarrow> body_value) \<Rightarrow> (daemon_error, unit) result" where
  "check_bounds [] f = Inr ()"
| "check_bounds ((name, lowest, highest) # rest) f =
     (case f name of
        BV_int value \<Rightarrow> if lowest \<le> value \<and> value \<le> highest then check_bounds rest f
                        else Inl validation_error
      | _ \<Rightarrow> Inl validation_error)"

fun int_of_value :: "body_value \<Rightarrow> int" where
  "int_of_value (BV_int i) = i"
| "int_of_value _ = 0"

definition make_configuration :: "(string \<Rightarrow> body_value) \<Rightarrow> (daemon_error, configuration_values) result" where
  "make_configuration f =
     bind_r (check_bounds BOUNDS f) (\<lambda>_. Inr
       \<lparr> cv_heartbeat_interval_ms = int_of_value (f ''heartbeat_interval_ms''),
         cv_event_retention_count = int_of_value (f ''event_retention_count''),
         cv_operation_retention_days = int_of_value (f ''operation_retention_days''),
         cv_max_deadline_ms = int_of_value (f ''max_deadline_ms'') \<rparr>)"

text \<open>The keyword arguments over the values a field has without them.\<close>

definition overridden :: "configuration_values \<Rightarrow> (string \<times> body_value) list \<Rightarrow> string \<Rightarrow> body_value" where
  "overridden v changes name =
     (case map_of changes name of Some x \<Rightarrow> x
      | None \<Rightarrow> (case map_of (as_mapping v) name of Some i \<Rightarrow> BV_int i | None \<Rightarrow> BV_none))"

definition known_fields :: "(string \<times> 'a) list \<Rightarrow> bool" where
  "known_fields changes = list_all (\<lambda>n. n \<in> set (map fst BOUNDS)) (map fst changes)"

definition with_changes ::
    "configuration_values \<Rightarrow> (string \<times> body_value) list \<Rightarrow> (daemon_error, configuration_values) result" where
  "with_changes v changes =
     (if changes = [] then Inl validation_error
      else if \<not> known_fields changes then Inl validation_error
      else make_configuration (overridden v changes))"

definition from_mapping :: "(string \<times> int) list \<Rightarrow> (daemon_error, configuration_values) result" where
  "from_mapping values =
     (if \<not> known_fields values then Inl validation_error
      else make_configuration (overridden default_configuration (map (\<lambda>(n, i). (n, BV_int i)) values)))"

section \<open>Properties\<close>

definition configuration_wf :: "configuration_values \<Rightarrow> bool" where
  "configuration_wf v = list_all (\<lambda>(name, lowest, highest).
     case map_of (as_mapping v) name of Some i \<Rightarrow> lowest \<le> i \<and> i \<le> highest | None \<Rightarrow> False) BOUNDS"

lemma make_configuration_InrD:
  "make_configuration f = Inr v \<Longrightarrow> configuration_wf v \<and> (\<forall>(n, i)\<in>set (as_mapping v). f n = BV_int i)"
  by (auto simp: make_configuration_def BOUNDS_def configuration_wf_def as_mapping_def result_simps
      split: body_value.splits if_splits)

lemma make_configuration_wf:
  assumes "configuration_wf v" "\<forall>(n, i)\<in>set (as_mapping v). f n = BV_int i"
  shows "make_configuration f = Inr v"
  using assms by (cases v)
    (auto simp: make_configuration_def BOUNDS_def configuration_wf_def as_mapping_def)

text \<open>
  An accepted change yields values within all bounds, with the changed fields at their new
  value and every other field as it was.
\<close>

theorem with_changes_exact:
  assumes "with_changes v changes = Inr w" "(n, i) \<in> set (as_mapping w)"
  shows "configuration_wf w \<and>
    (case map_of changes n of Some x \<Rightarrow> x = BV_int i | None \<Rightarrow> map_of (as_mapping v) n = Some i)"
proof -
  have "make_configuration (overridden v changes) = Inr w"
    using assms(1) by (simp add: with_changes_def split: if_splits)
  from make_configuration_InrD [OF this] assms(2)
  have "configuration_wf w" "overridden v changes n = BV_int i" by auto
  then show ?thesis by (auto simp: overridden_def split: option.splits)
qed

theorem with_changes_exact_witness:
  "configuration_wf (default_configuration\<lparr> cv_max_deadline_ms := 2000 \<rparr>)"
  using with_changes_exact [of default_configuration "[(''max_deadline_ms'', BV_int 2000)]"
      "default_configuration\<lparr> cv_max_deadline_ms := 2000 \<rparr>" "''max_deadline_ms''" 2000]
  by (simp add: with_changes_def known_fields_def make_configuration_def overridden_def BOUNDS_def
      as_mapping_def default_configuration_def)

text \<open>
  The stored mapping of applied values is read back as the same values.
\<close>

lemma configuration_roundtrip:
  assumes "configuration_wf v"
  shows "from_mapping (sort_key fst (as_mapping v)) = Inr v"
proof -
  have d: "distinct (map fst (as_mapping v))" by (simp add: as_mapping_def)
  then have d': "distinct (map fst (sort_key fst (as_mapping v)))"
    by (metis distinct_map set_sort distinct_sort)
  have "map_of (map (\<lambda>(n, i). (n, BV_int i)) (sort_key fst (as_mapping v))) n = Some (BV_int i)"
    if "(n, i) \<in> set (as_mapping v)" for n i
  proof (rule map_of_is_SomeI)
    show "distinct (map fst (map (\<lambda>(n, i). (n, BV_int i)) (sort_key fst (as_mapping v))))"
      using d' by (simp add: comp_def case_prod_unfold)
    show "(n, BV_int i) \<in> set (map (\<lambda>(n, i). (n, BV_int i)) (sort_key fst (as_mapping v)))"
      using that by force
  qed
  then have "\<forall>(n, i)\<in>set (as_mapping v). overridden default_configuration
      (map (\<lambda>(n, i). (n, BV_int i)) (sort_key fst (as_mapping v))) n = BV_int i"
    by (auto simp: overridden_def)
  then have "make_configuration (overridden default_configuration
      (map (\<lambda>(n, i). (n, BV_int i)) (sort_key fst (as_mapping v)))) = Inr v"
    by (rule make_configuration_wf [OF assms])
  moreover have "known_fields (sort_key fst (as_mapping v))"
    by (auto simp: known_fields_def list_all_iff as_mapping_def BOUNDS_def)
  ultimately show ?thesis by (simp add: from_mapping_def)
qed

end
