(* ===== verification/Journal.thy ===== *)
theory Journal
  imports Operations "HOL-Library.Sublist"
begin

text \<open>
  The durable journal (\<open>journal.py\<close>). The SQLite database is the record \<open>tables\<close>: each table is
  the list of its rows in rowid order, and primary keys, foreign keys and the triggers of the
  schema are checked where a statement runs. The storage engine itself is a script of outcomes,
  one for every transaction or read to come: it succeeds, cannot begin, or fails while writing
  or committing, in which case nothing is committed. Timestamps are stored as instants, for
  which the UTC ISO text stands.
\<close>

section \<open>Tables and storage\<close>

record configuration_row =
  c_config_id :: string
  c_generation :: int
  c_payload :: "(string \<times> int) list"
  c_source :: string
  c_created_at :: datetime

record migration =
  mg_version :: nat
  mg_name :: string
  mg_checksum :: string

record tables =
  operations :: "operation_record list"
  operation_transitions :: "transition_record list"
  idempotency_records :: "idempotency_record list"
  configuration_snapshots :: "configuration_row list"
  schema_migrations :: "migration list"

definition empty_tables :: tables where
  "empty_tables = \<lparr> operations = [], operation_transitions = [], idempotency_records = [],
     configuration_snapshots = [], schema_migrations = [] \<rparr>"

datatype storage_outcome = St_ok | St_begin_fails | St_write_fails

record journal =
  j_tables :: tables
  j_storage :: "storage_outcome list"
  j_closed :: bool

definition next_outcome :: "journal \<Rightarrow> storage_outcome" where
  "next_outcome j = (case j_storage j of [] \<Rightarrow> St_ok | s # _ \<Rightarrow> s)"

definition after_outcome :: "journal \<Rightarrow> journal" where
  "after_outcome j = j\<lparr> j_storage := tl (j_storage j) \<rparr>"

text \<open>\<open>_transaction\<close>: the block runs on the tables; only a block that returns and commits
  changes them. When \<open>BEGIN IMMEDIATE\<close> itself fails there is nothing to roll back, so the handler's
  \<open>ROLLBACK\<close> raises \<open>sqlite3.OperationalError\<close> instead of \<open>JournalError\<close>. A commit that fails is
  rolled back by SQLite.\<close>

abbreviation OperationalError :: daemon_error where
  "OperationalError \<equiv> OtherError ''OperationalError''"

definition transaction ::
    "(tables \<Rightarrow> (daemon_error, 'a \<times> tables) result) \<Rightarrow> journal \<Rightarrow> (daemon_error, 'a) result \<times> journal" where
  "transaction block j =
     (if j_closed j then (Inl JournalError, j)
      else let j' = after_outcome j in
        if next_outcome j = St_begin_fails then (Inl OperationalError, j')
        else case block (j_tables j) of
               Inl e \<Rightarrow> (Inl e, j')
             | Inr (x, t) \<Rightarrow> if next_outcome j = St_write_fails then (Inl JournalError, j')
                            else (Inr x, j'\<lparr> j_tables := t \<rparr>))"

text \<open>\<open>_guard\<close>: one read.\<close>

definition guard :: "(tables \<Rightarrow> 'a) \<Rightarrow> journal \<Rightarrow> (daemon_error, 'a) result \<times> journal" where
  "guard read j =
     (if j_closed j then (Inl JournalError, j)
      else if next_outcome j = St_ok then (Inr (read (j_tables j)), after_outcome j)
      else (Inl JournalError, after_outcome j))"

text \<open>What is computed from a row after the read, outside the lock.\<close>

definition then_decode :: "('e, 'a) result \<times> 's \<Rightarrow> ('a \<Rightarrow> ('e, 'b) result) \<Rightarrow> ('e, 'b) result \<times> 's" where
  "then_decode rs f = (bind_r (fst rs) f, snd rs)"

definition close_journal :: "journal \<Rightarrow> journal" where
  "close_journal j = (if j_closed j then j else j\<lparr> j_closed := True \<rparr>)"

section \<open>Encoding and decoding rows\<close>

text \<open>The stored JSON has sorted keys, so a mapping is read back in the order of its names.\<close>

definition encode_fields :: "fields option \<Rightarrow> fields option" where
  "encode_fields = map_option (sort_key fst)"

definition decode_operation :: "operation_record \<Rightarrow> (daemon_error, operation_record) result" where
  "decode_operation row =
     bind_r (make_actor (a_user_id (o_actor row)) (a_role (o_actor row))) (\<lambda>_.
       make_operation_record row)"

definition find_operation :: "string \<Rightarrow> tables \<Rightarrow> operation_record option" where
  "find_operation operation_id t = find (\<lambda>r. o_operation_id r = operation_id) (operations t)"

definition read_operation :: "string \<Rightarrow> tables \<Rightarrow> (daemon_error, operation_record option) result" where
  "read_operation operation_id t = optionally decode_operation (find_operation operation_id t)"

text \<open>The trigger of both INSERT and UPDATE on \<open>operations\<close>.\<close>

definition trusted_terminal_trigger :: "operation_record \<Rightarrow> bool" where
  "trusted_terminal_trigger r = (\<not> (o_state r = OS_succeeded \<and> \<not> o_trusted_terminal r))"

definition insert_operation :: "operation_record \<Rightarrow> tables \<Rightarrow> (daemon_error, tables) result" where
  "insert_operation r t =
     (if o_operation_id r \<in> set (map o_operation_id (operations t)) then Inl JournalError
      else if \<not> trusted_terminal_trigger r then Inl JournalError
      else Inr (t\<lparr> operations := operations t @ [r\<lparr> o_terminal_fields := encode_fields (o_terminal_fields r) \<rparr>] \<rparr>))"

definition append_transition ::
    "string \<Rightarrow> operation_state option \<Rightarrow> operation_state \<Rightarrow> int \<Rightarrow> datetime \<Rightarrow> string
       \<Rightarrow> tables \<Rightarrow> (daemon_error, tables) result" where
  "append_transition operation_id from_state to_state generation occurred_at reason t =
     bind_r (require_utc occurred_at) (\<lambda>at.
       if operation_id \<notin> set (map o_operation_id (operations t)) then Inl JournalError
       else Inr (t\<lparr> operation_transitions := operation_transitions t @
              [\<lparr> t_transition_id = length (operation_transitions t) + 1, t_operation_id = operation_id,
                 t_from_state = from_state, t_to_state = to_state, t_generation = generation,
                 t_occurred_at = at, t_reason = reason \<rparr>] \<rparr>))"

definition insert_idempotency :: "idempotency_record \<Rightarrow> tables \<Rightarrow> (daemon_error, tables) result" where
  "insert_idempotency i t =
     (if i_key i \<in> set (map i_key (idempotency_records t)) then Inl JournalError
      else if i_operation_id i \<notin> set (map o_operation_id (operations t)) then Inl JournalError
      else Inr (t\<lparr> idempotency_records := idempotency_records t @ [i] \<rparr>))"

section \<open>Writes\<close>

definition admission_block ::
    "operation_record \<Rightarrow> string \<Rightarrow> idempotency_record option \<Rightarrow> tables \<Rightarrow> (daemon_error, unit \<times> tables) result" where
  "admission_block operation reason idempotency t =
     bind_r (insert_operation operation t) (\<lambda>t1.
     bind_r (append_transition (o_operation_id operation) None (o_state operation)
               (o_generation operation) (o_created_at operation) reason t1) (\<lambda>t2.
     bind_r (case idempotency of None \<Rightarrow> Inr t2 | Some i \<Rightarrow> insert_idempotency i t2) (\<lambda>t3.
       Inr ((), t3))))"

definition admission_checks ::
    "operation_record \<Rightarrow> string \<Rightarrow> idempotency_record option \<Rightarrow> (daemon_error, unit) result" where
  "admission_checks operation reason idempotency =
     bind_r (require (o_state operation = OS_queued) invalid_transition) (\<lambda>_.
     bind_r (require_reason reason) (\<lambda>_.
     case idempotency of None \<Rightarrow> Inr () | Some i \<Rightarrow>
       bind_r (require (i_operation_id i = o_operation_id operation) validation_error) (\<lambda>_.
         require (i_fingerprint i = o_fingerprint operation) validation_error)))"

definition record_admission ::
    "operation_record \<Rightarrow> string \<Rightarrow> idempotency_record option \<Rightarrow> journal \<Rightarrow> (daemon_error, unit) result \<times> journal" where
  "record_admission operation reason idempotency j =
     (case admission_checks operation reason idempotency of
        Inl e \<Rightarrow> (Inl e, j)
      | Inr _ \<Rightarrow> transaction (admission_block operation reason idempotency) j)"

record transition_request =
  tr_to_state :: operation_state
  tr_generation :: int
  tr_occurred_at :: datetime
  tr_reason :: string
  tr_trusted_terminal :: bool
  tr_outcome :: "string option"
  tr_protocol_request_id :: "nat option"
  tr_terminal_fields :: "fields option"

definition coalesce :: "'a option \<Rightarrow> 'a option \<Rightarrow> 'a option" where
  "coalesce a b = (case a of None \<Rightarrow> b | Some _ \<Rightarrow> a)"

definition updated_row ::
    "transition_request \<Rightarrow> datetime \<Rightarrow> fields option \<Rightarrow> operation_record \<Rightarrow> operation_record" where
  "updated_row q moment terminal_fields r =
     r\<lparr> o_state := tr_to_state q, o_generation := tr_generation q,
        o_trusted_terminal := tr_trusted_terminal q, o_outcome := tr_outcome q,
        o_terminal_at := (if is_terminal (tr_to_state q) then Some moment else None),
        o_protocol_request_id := coalesce (tr_protocol_request_id q) (o_protocol_request_id r),
        o_terminal_fields := coalesce (encode_fields terminal_fields) (o_terminal_fields r) \<rparr>"

definition update_operation :: "string \<Rightarrow> (operation_record \<Rightarrow> operation_record) \<Rightarrow> tables \<Rightarrow> (daemon_error, tables) result" where
  "update_operation operation_id f t =
     (if list_all (\<lambda>r. o_operation_id r = operation_id \<longrightarrow> trusted_terminal_trigger (f r)) (operations t)
      then Inr (t\<lparr> operations := map (\<lambda>r. if o_operation_id r = operation_id then f r else r) (operations t) \<rparr>)
      else Inl JournalError)"

definition transition_block ::
    "string \<Rightarrow> transition_request \<Rightarrow> tables \<Rightarrow> (daemon_error, operation_record option \<times> tables) result" where
  "transition_block operation_id q t =
     bind_r (read_operation operation_id t) (\<lambda>found.
     bind_r (of_option JournalError found) (\<lambda>current.
     bind_r (require (can_transition (o_state current) (tr_to_state q)) invalid_transition) (\<lambda>_.
     bind_r (require (\<not> tr_generation q < o_generation current) invalid_transition) (\<lambda>_.
     bind_r (require_utc (tr_occurred_at q)) (\<lambda>moment.
     bind_r (optionally require_terminal_fields (tr_terminal_fields q)) (\<lambda>terminal_fields.
     bind_r (update_operation operation_id (updated_row q moment terminal_fields) t) (\<lambda>t1.
     bind_r (append_transition operation_id (Some (o_state current)) (tr_to_state q)
               (tr_generation q) moment (tr_reason q) t1) (\<lambda>t2.
     bind_r (read_operation operation_id t2) (\<lambda>updated. Inr (updated, t2))))))))))"

definition transition_checks :: "transition_request \<Rightarrow> (daemon_error, unit) result" where
  "transition_checks q =
     bind_r (require_reason (tr_reason q)) (\<lambda>_.
     bind_r (require (\<not> (tr_to_state q = OS_succeeded \<and> \<not> tr_trusted_terminal q)) invalid_transition) (\<lambda>_.
       require (\<not> (tr_trusted_terminal q \<and> tr_to_state q \<noteq> OS_succeeded)) invalid_transition))"

definition record_transition ::
    "string \<Rightarrow> transition_request \<Rightarrow> journal \<Rightarrow> (daemon_error, operation_record) result \<times> journal" where
  "record_transition operation_id q j =
     (case transition_checks q of
        Inl e \<Rightarrow> (Inl e, j)
      | Inr _ \<Rightarrow> then_decode (transaction (transition_block operation_id q) j) (of_option JournalError))"

text \<open>The new row; \<open>config_id\<close> is the primary key.\<close>

definition record_configuration :: "configuration_row \<Rightarrow> journal \<Rightarrow> (daemon_error, unit) result \<times> journal" where
  "record_configuration row =
     transaction (\<lambda>t. bind_r (require_utc (c_created_at row)) (\<lambda>at.
       if c_config_id row \<in> set (map c_config_id (configuration_snapshots t)) then Inl JournalError
       else Inr ((), t\<lparr> configuration_snapshots := configuration_snapshots t @
              [row\<lparr> c_created_at := at, c_payload := sort_key fst (c_payload row) \<rparr>] \<rparr>)))"

definition prune_idempotency :: "datetime \<Rightarrow> journal \<Rightarrow> (daemon_error, nat) result \<times> journal" where
  "prune_idempotency at j =
     (case require_utc at of
        Inl e \<Rightarrow> (Inl e, j)
      | Inr moment \<Rightarrow> transaction (\<lambda>t.
          let expired = (\<lambda>i. instant (i_expires_at i) \<le> instant moment)
          in Inr (length (filter expired (idempotency_records t)),
                  t\<lparr> idempotency_records := filter (\<lambda>i. \<not> expired i) (idempotency_records t) \<rparr>)) j)"

section \<open>Reads\<close>

definition journal_operation :: "string \<Rightarrow> journal \<Rightarrow> (daemon_error, operation_record option) result \<times> journal" where
  "journal_operation operation_id j =
     then_decode (guard (read_operation operation_id) j) (\<lambda>r. r)"

fun decode_all :: "(nat \<times> operation_record) list \<Rightarrow> (daemon_error, (nat \<times> operation_record) list) result" where
  "decode_all [] = Inr []"
| "decode_all ((cursor, row) # rest) =
     bind_r (decode_operation row) (\<lambda>r. bind_r (decode_all rest) (\<lambda>rs. Inr ((cursor, r) # rs)))"

definition page_rows ::
    "nat \<Rightarrow> nat option \<Rightarrow> operation_state option \<Rightarrow> operation_action option \<Rightarrow> tables
       \<Rightarrow> (nat \<times> operation_record) list" where
  "page_rows limit before state action t =
     take limit (filter (\<lambda>(cursor, r). (case before of None \<Rightarrow> True | Some b \<Rightarrow> cursor < b) \<and>
         (case state of None \<Rightarrow> True | Some s \<Rightarrow> o_state r = s) \<and>
         (case action of None \<Rightarrow> True | Some a \<Rightarrow> o_action r = a))
       (rev (enumerate 1 (operations t))))"

definition recent_operations ::
    "nat \<Rightarrow> nat option \<Rightarrow> operation_state option \<Rightarrow> operation_action option \<Rightarrow> journal
       \<Rightarrow> (daemon_error, (nat \<times> operation_record) list) result \<times> journal" where
  "recent_operations limit before state action j =
     (if limit < 1 then (Inl validation_error, j)
      else then_decode (guard (page_rows limit before state action) j) decode_all)"

text \<open>\<open>ORDER BY generation DESC, rowid DESC LIMIT 1\<close>: among the rows of the highest generation,
  the last inserted.\<close>

fun latest_configuration :: "configuration_row list \<Rightarrow> configuration_row option" where
  "latest_configuration [] = None"
| "latest_configuration (c # cs) =
     (case latest_configuration cs of
        None \<Rightarrow> Some c
      | Some d \<Rightarrow> if c_generation c > c_generation d then Some c else Some d)"

definition applied_configuration ::
    "journal \<Rightarrow> (daemon_error, ((string \<times> int) list \<times> int \<times> datetime) option) result \<times> journal" where
  "applied_configuration =
     guard (\<lambda>t. map_option (\<lambda>c. (c_payload c, c_generation c, c_created_at c))
                  (latest_configuration (configuration_snapshots t)))"

definition transitions_of :: "string \<Rightarrow> tables \<Rightarrow> transition_record list" where
  "transitions_of operation_id t = filter (\<lambda>r. t_operation_id r = operation_id) (operation_transitions t)"

definition journal_transitions :: "string \<Rightarrow> journal \<Rightarrow> (daemon_error, transition_record list) result \<times> journal" where
  "journal_transitions operation_id = guard (transitions_of operation_id)"

definition find_idempotency :: "string \<Rightarrow> tables \<Rightarrow> idempotency_record option" where
  "find_idempotency key t = find (\<lambda>i. i_key i = key) (idempotency_records t)"

definition idempotency_lookup ::
    "string \<Rightarrow> datetime \<Rightarrow> journal \<Rightarrow> (daemon_error, idempotency_record option) result \<times> journal" where
  "idempotency_lookup key at j =
     then_decode (guard (find_idempotency key) j) (\<lambda>row.
       case row of None \<Rightarrow> Inr None
       | Some r \<Rightarrow> bind_r (make_idempotency_record r) (\<lambda>i.
           bind_r (require_utc at) (\<lambda>m. bind_r (live_at i m) (\<lambda>live.
             Inr (if live then Some i else None)))))"

section \<open>Migrations\<close>

text \<open>\<open>_migrate\<close> with the ledger of the opened database and the migrations of this build; the
  statements of a migration are represented by their checksum. \<open>Inr\<close> is the new ledger.\<close>

datatype migration_error = JournalSchemaError

fun apply_migrations ::
    "migration list \<Rightarrow> migration list \<Rightarrow> migration list \<Rightarrow> (migration_error, migration list) result" where
  "apply_migrations applied [] ledger = Inr ledger"
| "apply_migrations applied (m # ms) ledger =
     (case find (\<lambda>r. mg_version r = mg_version m) applied of
        Some recorded \<Rightarrow> if mg_checksum recorded \<noteq> mg_checksum m then Inl JournalSchemaError
                         else apply_migrations applied ms ledger
      | None \<Rightarrow> apply_migrations applied ms (ledger @ [m]))"

definition migrate :: "migration list \<Rightarrow> migration list \<Rightarrow> (migration_error, migration list) result" where
  "migrate MIGRATIONS applied =
     (if list_all (\<lambda>r. mg_version r \<in> set (map mg_version MIGRATIONS)) applied
      then apply_migrations applied MIGRATIONS applied else Inl JournalSchemaError)"

definition schema_version :: "migration list \<Rightarrow> nat" where
  "schema_version ledger = fold max (map mg_version ledger) 0"

section \<open>Well-formed tables\<close>

text \<open>The audit trail of a row: it starts with admission, every entry starts where the one
  before ended, every step is permitted, generations do not move backwards, and the last entry
  is where the row stands.\<close>

definition audit_ok :: "operation_record \<Rightarrow> transition_record list \<Rightarrow> bool" where
  "audit_ok r ts =
     (ts \<noteq> [] \<and> t_to_state (hd ts) = OS_queued \<and>
      map t_from_state ts = None # map (Some \<circ> t_to_state) (butlast ts) \<and>
      legal_chain (map t_to_state ts) \<and> sorted (map t_generation ts) \<and>
      t_to_state (last ts) = o_state r \<and> t_generation (last ts) = o_generation r)"

definition tables_wf :: "tables \<Rightarrow> bool" where
  "tables_wf t =
     (distinct (map o_operation_id (operations t)) \<and>
      (\<forall>r\<in>set (operations t). is_ok (decode_operation r) \<and> audit_ok r (transitions_of (o_operation_id r) t)) \<and>
      (\<forall>x\<in>set (operation_transitions t). t_operation_id x \<in> set (map o_operation_id (operations t))) \<and>
      map t_transition_id (operation_transitions t) = [1..<Suc (length (operation_transitions t))] \<and>
      distinct (map i_key (idempotency_records t)) \<and>
      (\<forall>i\<in>set (idempotency_records t). \<exists>r\<in>set (operations t).
         o_operation_id r = i_operation_id i \<and> o_fingerprint r = i_fingerprint i))"

lemma tables_wf_key:
  "tables_wf t \<Longrightarrow> i \<in> set (idempotency_records t) \<Longrightarrow>
    \<exists>r\<in>set (operations t). o_operation_id r = i_operation_id i \<and> o_fingerprint r = i_fingerprint i"
  by (simp add: tables_wf_def)

lemma empty_tables_wf: "tables_wf empty_tables"
  by (simp add: tables_wf_def empty_tables_def)

lemma require_utc_InrD: "require_utc d = Inr d' \<Longrightarrow> d' = d"
  by (cases d) simp_all

lemma optionally_InrD:
  assumes "optionally f x = Inr y" "\<And>a b. f a = Inr b \<Longrightarrow> b = a"
  shows "y = x"
  using assms by (auto simp: optionally_def result_simps split: option.splits)

lemma require_terminal_fields_InrD: "require_terminal_fields fs = Inr gs \<Longrightarrow> gs = fs"
  by (auto simp: require_terminal_fields_def split: if_splits)

lemma make_operation_record_InrD: "make_operation_record r = Inr r' \<Longrightarrow> r' = r"
  by (auto simp: make_operation_record_def result_simps dest!: require_utc_InrD
      optionally_InrD [OF _ require_utc_InrD] optionally_InrD [OF _ require_terminal_fields_InrD])

lemma decode_operation_InrD: "decode_operation r = Inr r' \<Longrightarrow> r' = r"
  by (auto simp: decode_operation_def result_simps dest: make_operation_record_InrD)

lemma decode_operation_trusted:
  "is_ok (decode_operation r) \<Longrightarrow> o_trusted_terminal r \<longleftrightarrow> o_state r = OS_succeeded"
  by (auto simp: is_ok_iff decode_operation_def make_operation_record_def result_simps)

lemma check_terminal_fields_iff:
  "check_terminal_fields fs \<longleftrightarrow> (\<forall>(n, v)\<in>set fs. snake_match n \<and> length v \<le> MAX_TERMINAL_VALUE_LENGTH)"
  by (induction fs rule: check_terminal_fields.induct) auto

lemma require_terminal_fields_sorted:
  "is_ok (require_terminal_fields (sort_key fst fs)) \<longleftrightarrow> is_ok (require_terminal_fields fs)"
  by (simp add: require_terminal_fields_def check_terminal_fields_iff)

lemma decode_operation_encoded:
  "is_ok (decode_operation (r\<lparr> o_terminal_fields := encode_fields (o_terminal_fields r) \<rparr>))
     \<longleftrightarrow> is_ok (decode_operation r)"
proof -
  have "(\<exists>fs. optionally require_terminal_fields (encode_fields x) = Inr fs) \<longleftrightarrow>
      (\<exists>fs. optionally require_terminal_fields x = Inr fs)" for x
    using require_terminal_fields_sorted [of "the x"]
    by (cases x) (auto simp: optionally_def encode_fields_def result_simps is_ok_iff)
  then have "(\<exists>fs. optionally require_terminal_fields (encode_fields (o_terminal_fields r)) = Inr fs) \<longleftrightarrow>
      (\<exists>fs. optionally require_terminal_fields (o_terminal_fields r) = Inr fs)" .
  then show ?thesis
    by (simp add: is_ok_iff decode_operation_def make_operation_record_def result_simps) blast
qed

section \<open>What a transaction can change\<close>

lemma transaction_cases:
  assumes "transaction block j = (r, j')"
  obtains (unchanged) e where "r = Inl e" "j_tables j' = j_tables j"
  | (committed) x where "r = Inr x" "block (j_tables j) = Inr (x, j_tables j')"
  using assms
  by (auto simp: transaction_def Let_def after_outcome_def split: if_splits sum.splits prod.splits)

lemma guard_tables: "j_tables (snd (guard f j)) = j_tables j"
  by (simp add: guard_def after_outcome_def)

lemma insert_operation_InrD:
  assumes "insert_operation r t = Inr t'"
  shows "o_operation_id r \<notin> set (map o_operation_id (operations t))"
    and "t' = t\<lparr> operations := operations t @ [r\<lparr> o_terminal_fields := encode_fields (o_terminal_fields r) \<rparr>] \<rparr>"
  using assms by (auto simp: insert_operation_def split: if_splits)

lemma append_transition_InrD:
  assumes "append_transition i from_state to_state g at reason t = Inr t'"
  shows "i \<in> set (map o_operation_id (operations t))"
    and "t' = t\<lparr> operation_transitions := operation_transitions t @
           [\<lparr> t_transition_id = length (operation_transitions t) + 1, t_operation_id = i,
              t_from_state = from_state, t_to_state = to_state, t_generation = g,
              t_occurred_at = at, t_reason = reason \<rparr>] \<rparr>"
  using assms by (auto simp: append_transition_def result_simps split: if_splits dest!: require_utc_InrD)

lemma insert_idempotency_InrD:
  assumes "insert_idempotency i t = Inr t'"
  shows "i_key i \<notin> set (map i_key (idempotency_records t))"
    and "t' = t\<lparr> idempotency_records := idempotency_records t @ [i] \<rparr>"
  using assms by (auto simp: insert_idempotency_def split: if_splits)

text \<open>A new operation has no transitions yet.\<close>

lemma transitions_of_unknown:
  "tables_wf t \<Longrightarrow> i \<notin> set (map o_operation_id (operations t)) \<Longrightarrow> transitions_of i t = []"
  by (auto simp: tables_wf_def transitions_of_def filter_empty_conv)

lemma transitions_of_append:
  "transitions_of i (t\<lparr> operation_transitions := operation_transitions t @ [x] \<rparr>) =
     transitions_of i t @ (if t_operation_id x = i then [x] else [])"
  by (simp add: transitions_of_def)

lemma transitions_of_frame [simp]:
  "transitions_of i (t\<lparr> operations := os \<rparr>) = transitions_of i t"
  "transitions_of i (t\<lparr> idempotency_records := is \<rparr>) = transitions_of i t"
  "transitions_of i (t\<lparr> configuration_snapshots := cs \<rparr>) = transitions_of i t"
  by (simp_all add: transitions_of_def)

lemma admission_block_wf:
  assumes wf: "tables_wf t" and block: "admission_block r reason idem t = Inr (x, t')"
    and r: "is_ok (decode_operation r)" "o_state r = OS_queued"
    and idem: "\<And>i. idem = Some i \<Longrightarrow> i_operation_id i = o_operation_id r \<and> i_fingerprint i = o_fingerprint r"
  shows "tables_wf t'"
proof -
  define row where "row = r\<lparr> o_terminal_fields := encode_fields (o_terminal_fields r) \<rparr>"
  define entry where "entry = \<lparr> t_transition_id = length (operation_transitions t) + 1,
    t_operation_id = o_operation_id r, t_from_state = None, t_to_state = o_state r,
    t_generation = o_generation r, t_occurred_at = o_created_at r, t_reason = reason \<rparr>"
  obtain t1 t2 where steps: "insert_operation r t = Inr t1"
      "append_transition (o_operation_id r) None (o_state r) (o_generation r) (o_created_at r) reason t1 = Inr t2"
      "(case idem of None \<Rightarrow> Inr t2 | Some i \<Rightarrow> insert_idempotency i t2) = Inr t'"
    using block by (auto simp: admission_block_def result_simps)
  have t1: "t1 = t\<lparr> operations := operations t @ [row] \<rparr>"
    and fresh: "o_operation_id r \<notin> set (map o_operation_id (operations t))"
    using insert_operation_InrD [OF steps(1)] by (simp_all add: row_def)
  have t2: "t2 = t1\<lparr> operation_transitions := operation_transitions t1 @ [entry] \<rparr>"
    using append_transition_InrD(2) [OF steps(2)] by (simp add: t1 entry_def)
  have row: "is_ok (decode_operation row)" "o_operation_id row = o_operation_id r"
    "o_fingerprint row = o_fingerprint r" "o_state row = OS_queued" "o_generation row = o_generation r"
    using r decode_operation_encoded [of r] by (simp_all add: row_def)
  have trail: "transitions_of i t2 = transitions_of i t @ (if i = o_operation_id r then [entry] else [])" for i
    by (simp add: t2 t1 transitions_of_def entry_def)
  have "audit_ok row (transitions_of (o_operation_id row) t2)"
    using transitions_of_unknown [OF wf fresh] row r by (simp add: trail audit_ok_def entry_def)
  moreover have "audit_ok q (transitions_of (o_operation_id q) t2)" if "q \<in> set (operations t)" for q
  proof -
    have "o_operation_id q \<noteq> o_operation_id r" using that fresh by (metis image_eqI set_map)
    then show ?thesis using that wf by (simp add: trail tables_wf_def)
  qed
  ultimately have wf2: "tables_wf t2"
    using wf row fresh by (auto simp: tables_wf_def t2 t1 entry_def)
  show ?thesis
  proof (cases idem)
    case None
    then show ?thesis using steps(3) wf2 by simp
  next
    case (Some i)
    then have "i_key i \<notin> set (map i_key (idempotency_records t2))"
      "t' = t2\<lparr> idempotency_records := idempotency_records t2 @ [i] \<rparr>"
      using steps(3) insert_idempotency_InrD [of i t2 t'] by simp_all
    moreover have "\<exists>q\<in>set (operations t2). o_operation_id q = i_operation_id i \<and> o_fingerprint q = i_fingerprint i"
      using idem [OF Some] row by (auto simp: t2 t1)
    ultimately show ?thesis using wf2 by (auto simp: tables_wf_def)
  qed
qed

lemma find_operation_SomeD:
  "find_operation i t = Some r \<Longrightarrow> r \<in> set (operations t) \<and> o_operation_id r = i"
  unfolding find_operation_def by (auto simp: find_Some_iff)

lemma find_operation_NoneD: "find_operation i t = None \<Longrightarrow> i \<notin> set (map o_operation_id (operations t))"
  unfolding find_operation_def by (auto simp: find_None_iff)

lemma find_operation_unique:
  assumes "tables_wf t" "r \<in> set (operations t)"
  shows "find_operation (o_operation_id r) t = Some r"
proof -
  have "find_operation (o_operation_id r) t \<noteq> None"
    using assms(2) unfolding find_operation_def by (auto simp: find_None_iff)
  then obtain q where q: "find_operation (o_operation_id r) t = Some q" by auto
  have "inj_on o_operation_id (set (operations t))"
    using assms(1) by (simp add: tables_wf_def distinct_map)
  then have "q = r" using find_operation_SomeD [OF q] assms(2) by (auto dest: inj_onD)
  with q show ?thesis by simp
qed

lemma read_operation_InrD:
  "read_operation i t = Inr x \<Longrightarrow> x = find_operation i t \<and> (\<forall>r. x = Some r \<longrightarrow> is_ok (decode_operation r))"
  by (auto simp: read_operation_def optionally_def result_simps is_ok_iff split: option.splits
      dest: decode_operation_InrD)

lemma read_operation_wf: "tables_wf t \<Longrightarrow> read_operation i t = Inr (find_operation i t)"
proof (cases "find_operation i t")
  case (Some r)
  assume "tables_wf t"
  with find_operation_SomeD [OF Some] have "is_ok (decode_operation r)" by (auto simp: tables_wf_def)
  then obtain r' where "decode_operation r = Inr r'" by (auto simp: is_ok_iff)
  then show ?thesis using Some decode_operation_InrD [of r r'] by (simp add: read_operation_def optionally_def)
qed (simp add: read_operation_def optionally_def)

text \<open>A committed transition: the row it started from, and the two tables it wrote.\<close>

lemma transition_block_InrD:
  assumes "transition_block i q t = Inr (x, t')"
  obtains r row entry where
    "find_operation i t = Some r" "can_transition (o_state r) (tr_to_state q)"
    "o_generation r \<le> tr_generation q"
    "row = updated_row q (tr_occurred_at q) (tr_terminal_fields q) r"
    "entry = \<lparr> t_transition_id = length (operation_transitions t) + 1, t_operation_id = i,
       t_from_state = Some (o_state r), t_to_state = tr_to_state q, t_generation = tr_generation q,
       t_occurred_at = tr_occurred_at q, t_reason = tr_reason q \<rparr>"
    "t' = t\<lparr> operations := map (\<lambda>p. if o_operation_id p = i
         then updated_row q (tr_occurred_at q) (tr_terminal_fields q) p else p) (operations t),
       operation_transitions := operation_transitions t @ [entry] \<rparr>"
    "x = find_operation i t'" "\<And>p. x = Some p \<Longrightarrow> is_ok (decode_operation p)"
proof -
  obtain found r moment fs t1 where steps: "read_operation i t = Inr found" "found = Some r"
    "can_transition (o_state r) (tr_to_state q)" "\<not> tr_generation q < o_generation r"
    "require_utc (tr_occurred_at q) = Inr moment"
    "optionally require_terminal_fields (tr_terminal_fields q) = Inr fs"
    "update_operation i (updated_row q moment fs) t = Inr t1"
    "append_transition i (Some (o_state r)) (tr_to_state q) (tr_generation q) moment (tr_reason q) t1 = Inr t'"
    "read_operation i t' = Inr x"
    using assms by (auto simp: transition_block_def result_simps)
  have same: "moment = tr_occurred_at q" "fs = tr_terminal_fields q"
    using require_utc_InrD [OF steps(5)] optionally_InrD [OF steps(6) require_terminal_fields_InrD]
    by simp_all
  have t1: "t1 = t\<lparr> operations := map (\<lambda>p. if o_operation_id p = i then updated_row q moment fs p else p) (operations t) \<rparr>"
    using steps(7) by (auto simp: update_operation_def split: if_splits)
  have found: "find_operation i t = Some r" using read_operation_InrD [OF steps(1)] steps(2) by simp
  have t': "t' = t1\<lparr> operation_transitions := operation_transitions t @
      [\<lparr> t_transition_id = length (operation_transitions t) + 1, t_operation_id = i,
         t_from_state = Some (o_state r), t_to_state = tr_to_state q, t_generation = tr_generation q,
         t_occurred_at = tr_occurred_at q, t_reason = tr_reason q \<rparr>] \<rparr>"
    using append_transition_InrD(2) [OF steps(8)] by (simp add: t1 same)
  show thesis
  proof (rule that [OF found steps(3) _ refl refl])
    show "o_generation r \<le> tr_generation q" using steps(4) by simp
    show "x = find_operation i t'" using read_operation_InrD [OF steps(9)] by simp
    show "is_ok (decode_operation p)" if "x = Some p" for p
      using read_operation_InrD [OF steps(9)] that by simp
  qed (simp add: t' t1 same)
qed

lemma updated_row_simps [simp]:
  "o_operation_id (updated_row q m f r) = o_operation_id r"
  "o_fingerprint (updated_row q m f r) = o_fingerprint r"
  "o_action (updated_row q m f r) = o_action r"
  "o_state (updated_row q m f r) = tr_to_state q"
  "o_generation (updated_row q m f r) = tr_generation q"
  "o_trusted_terminal (updated_row q m f r) = tr_trusted_terminal q"
  by (simp_all add: updated_row_def)

lemma audit_ok_extend:
  assumes "audit_ok r ts" "can_transition (o_state r) (o_state r')" "o_generation r \<le> o_generation r'"
    "t_from_state e = Some (o_state r)" "t_to_state e = o_state r'" "t_generation e = o_generation r'"
  shows "audit_ok r' (ts @ [e])"
proof -
  have "ts \<noteq> []" using assms(1) by (simp add: audit_ok_def)
  then obtain us u where ts: "ts = us @ [u]" by (metis rev_exhaust)
  have u: "t_to_state u = o_state r" "t_generation u = o_generation r"
    using assms(1) by (simp_all add: audit_ok_def ts)
  have "legal_chain (map t_to_state us @ [o_state r, o_state r'])"
    using assms(1,2) by (intro legal_chain_snoc) (simp_all add: audit_ok_def ts u)
  moreover have "sorted (map t_generation us @ [o_generation r, o_generation r'])"
    using assms(1,3) by (force simp: audit_ok_def ts u sorted_append)
  moreover have "t_to_state (hd (ts @ [e])) = OS_queued"
    using assms(1) \<open>ts \<noteq> []\<close> by (simp add: audit_ok_def)
  moreover have "map t_from_state ts = None # map (Some \<circ> t_to_state) us"
    using assms(1) by (simp add: audit_ok_def ts)
  ultimately show ?thesis
    unfolding audit_ok_def using assms(4-6) by (simp add: ts u butlast_append)
qed

lemma transition_block_wf:
  assumes wf: "tables_wf t" and block: "transition_block i q t = Inr (x, t')"
  shows "tables_wf t'"
proof -
  obtain r row e where tr: "find_operation i t = Some r" "can_transition (o_state r) (tr_to_state q)"
    "o_generation r \<le> tr_generation q" "row = updated_row q (tr_occurred_at q) (tr_terminal_fields q) r"
    "e = \<lparr> t_transition_id = length (operation_transitions t) + 1, t_operation_id = i,
       t_from_state = Some (o_state r), t_to_state = tr_to_state q, t_generation = tr_generation q,
       t_occurred_at = tr_occurred_at q, t_reason = tr_reason q \<rparr>"
    "t' = t\<lparr> operations := map (\<lambda>p. if o_operation_id p = i
         then updated_row q (tr_occurred_at q) (tr_terminal_fields q) p else p) (operations t),
       operation_transitions := operation_transitions t @ [e] \<rparr>"
    "x = find_operation i t'" "\<And>p. x = Some p \<Longrightarrow> is_ok (decode_operation p)"
    using transition_block_InrD [OF block] by blast
  have r: "r \<in> set (operations t)" "o_operation_id r = i" using find_operation_SomeD [OF tr(1)] by auto
  have ids: "map o_operation_id (operations t') = map o_operation_id (operations t)"
    by (auto simp: tr(6))
  have only: "p = r" if "p \<in> set (operations t)" "o_operation_id p = i" for p
    using find_operation_unique [OF wf that(1)] that(2) tr(1) by simp
  have ops: "p \<in> set (operations t') \<longleftrightarrow> p = row \<or> (p \<in> set (operations t) \<and> o_operation_id p \<noteq> i)" for p
  proof -
    define f where "f p = (if o_operation_id p = i
      then updated_row q (tr_occurred_at q) (tr_terminal_fields q) p else p)" for p
    have set: "set (operations t') = f ` set (operations t)" by (simp add: tr(6) f_def)
    have "f r = row" by (simp add: f_def r tr(4))
    show ?thesis
    proof
      assume "p \<in> set (operations t')"
      then obtain p0 where "p = f p0" "p0 \<in> set (operations t)" unfolding set by blast
      then show "p = row \<or> (p \<in> set (operations t) \<and> o_operation_id p \<noteq> i)"
        using only [of p0] \<open>f r = row\<close> by (cases "o_operation_id p0 = i") (auto simp: f_def)
    next
      assume "p = row \<or> (p \<in> set (operations t) \<and> o_operation_id p \<noteq> i)"
      then have "p = f r \<or> (p = f p \<and> p \<in> set (operations t))" using \<open>f r = row\<close> by (auto simp: f_def)
      then show "p \<in> set (operations t')" unfolding set using r by blast
    qed
  qed
  have trail: "transitions_of k t' = transitions_of k t @ (if k = i then [e] else [])" for k
    by (simp add: tr(5,6) transitions_of_def)
  have "row \<in> set (operations t')" by (simp add: ops)
  moreover have "inj_on o_operation_id (set (operations t'))"
    using wf ids by (metis distinct_map tables_wf_def)
  moreover obtain p where "x = Some p"
  proof -
    have "x \<noteq> None" using \<open>row \<in> set (operations t')\<close> r
      unfolding tr(7) find_operation_def by (auto simp: find_None_iff tr(4))
    then show thesis using that by auto
  qed
  ultimately have "x = Some row"
    using find_operation_SomeD [of i t' p] tr(4,7) r by (metis inj_on_def updated_row_simps(1))
  then have "is_ok (decode_operation row)" using tr(8) by simp
  moreover have "audit_ok row (transitions_of i t')"
  proof -
    have "audit_ok r (transitions_of i t)" using wf r by (auto simp: tables_wf_def)
    then have "audit_ok row (transitions_of i t @ [e])"
      by (rule audit_ok_extend) (simp_all add: tr(2-5))
    then show ?thesis by (simp add: trail)
  qed
  moreover have "audit_ok p (transitions_of (o_operation_id p) t')"
    if "p \<in> set (operations t)" "o_operation_id p \<noteq> i" for p
    using wf that by (simp add: trail tables_wf_def)
  ultimately have rows: "\<forall>p\<in>set (operations t'). is_ok (decode_operation p) \<and>
      audit_ok p (transitions_of (o_operation_id p) t')"
    using wf r by (auto simp: ops tr(4) tables_wf_def)
  have refs: "\<exists>p\<in>set (operations t'). o_operation_id p = o_operation_id p0 \<and> o_fingerprint p = o_fingerprint p0"
    if "p0 \<in> set (operations t)" for p0
  proof (cases "o_operation_id p0 = i")
    case True
    then have "p0 = r" using only [OF that] by simp
    then show ?thesis using \<open>row \<in> set (operations t')\<close> by (intro bexI [of _ row]) (simp_all add: tr(4))
  next
    case False
    then show ?thesis using that by (intro bexI [of _ p0]) (simp_all add: ops)
  qed
  show ?thesis
    unfolding tables_wf_def
  proof (intro conjI)
    show "distinct (map o_operation_id (operations t'))" using wf ids by (simp add: tables_wf_def)
    show "\<forall>x\<in>set (operation_transitions t'). t_operation_id x \<in> set (map o_operation_id (operations t'))"
      unfolding ids using wf r by (auto simp: tr(5,6) tables_wf_def)
    show "map t_transition_id (operation_transitions t') = [1..<Suc (length (operation_transitions t'))]"
      using wf by (simp add: tr(5,6) tables_wf_def)
    show "distinct (map i_key (idempotency_records t'))" using wf by (simp add: tr(6) tables_wf_def)
    show "\<forall>k\<in>set (idempotency_records t'). \<exists>p\<in>set (operations t').
        o_operation_id p = i_operation_id k \<and> o_fingerprint p = i_fingerprint k"
    proof
      fix k assume "k \<in> set (idempotency_records t')"
      then obtain p0 where "p0 \<in> set (operations t)" "o_operation_id p0 = i_operation_id k"
        "o_fingerprint p0 = i_fingerprint k" using wf by (auto simp: tr(6) tables_wf_def)
      with refs show "\<exists>p\<in>set (operations t'). o_operation_id p = i_operation_id k \<and> o_fingerprint p = i_fingerprint k"
        by metis
    qed
  qed (rule rows)
qed

section \<open>Runs of the journal\<close>

text \<open>One call on the journal, with the records built by their constructors. A read only uses
  up one outcome of the storage.\<close>

inductive journal_step :: "journal \<Rightarrow> journal \<Rightarrow> bool" where
  js_admission: "make_operation_record raw = Inr operation \<Longrightarrow>
     is_ok (make_actor (a_user_id (o_actor operation)) (a_role (o_actor operation))) \<Longrightarrow>
     record_admission operation reason idempotency j = (r, j') \<Longrightarrow> journal_step j j'"
| js_transition: "record_transition operation_id q j = (r, j') \<Longrightarrow> journal_step j j'"
| js_configuration: "record_configuration row j = (r, j') \<Longrightarrow> journal_step j j'"
| js_prune: "prune_idempotency at j = (r, j') \<Longrightarrow> journal_step j j'"
| js_read: "journal_step j (after_outcome j)"
| js_close: "journal_step j (close_journal j)"

definition new_journal :: "storage_outcome list \<Rightarrow> journal" where
  "new_journal storage = \<lparr> j_tables = empty_tables, j_storage = storage, j_closed = False \<rparr>"

lemma record_admission_cases:
  assumes "record_admission operation reason idem j = (r, j')"
  obtains (failed) e where "r = Inl e" "j_tables j' = j_tables j"
  | (admitted) "r = Inr ()" "o_state operation = OS_queued"
      "admission_block operation reason idem (j_tables j) = Inr ((), j_tables j')"
      "\<And>i. idem = Some i \<Longrightarrow> i_operation_id i = o_operation_id operation \<and> i_fingerprint i = o_fingerprint operation"
proof (cases "admission_checks operation reason idem")
  case (Inl e)
  then show thesis using failed [of e] assms by (simp add: record_admission_def)
next
  case (Inr u)
  then have t: "transaction (admission_block operation reason idem) j = (r, j')"
    and "o_state operation = OS_queued"
    and "\<And>i. idem = Some i \<Longrightarrow> i_operation_id i = o_operation_id operation \<and> i_fingerprint i = o_fingerprint operation"
    using assms by (auto simp: record_admission_def admission_checks_def result_simps)
  with t show thesis by (cases rule: transaction_cases) (use failed admitted in auto)
qed

lemma record_transition_cases:
  assumes "record_transition i q j = (r, j')"
  obtains (failed) e where "r = Inl e" "j_tables j' = j_tables j"
  | (recorded) row where "r = Inr row" "tr_trusted_terminal q \<longleftrightarrow> tr_to_state q = OS_succeeded"
      "transition_block i q (j_tables j) = Inr (Some row, j_tables j')"
proof (cases "transition_checks q")
  case (Inl e)
  then show thesis using failed [of e] assms by (simp add: record_transition_def)
next
  case (Inr u)
  obtain r0 where t: "transaction (transition_block i q) j = (r0, j')"
    and r: "r = bind_r r0 (of_option JournalError)"
    using assms Inr by (cases "transaction (transition_block i q) j") (auto simp: record_transition_def then_decode_def)
  have trusted: "tr_trusted_terminal q \<longleftrightarrow> tr_to_state q = OS_succeeded"
    using Inr by (auto simp: transition_checks_def result_simps)
  from t show thesis
  proof (cases rule: transaction_cases)
    case (unchanged e)
    then show ?thesis using failed r by simp
  next
    case (committed x)
    have "x \<noteq> None"
    proof
      assume "x = None"
      obtain row e where f: "find_operation i (j_tables j) = Some row"
        "j_tables j' = (j_tables j)\<lparr> operations := map (\<lambda>p. if o_operation_id p = i
           then updated_row q (tr_occurred_at q) (tr_terminal_fields q) p else p) (operations (j_tables j)),
           operation_transitions := operation_transitions (j_tables j) @ [e] \<rparr>"
        "x = find_operation i (j_tables j')"
        by (rule transition_block_InrD [OF committed(2)]) blast
      have "map o_operation_id (operations (j_tables j')) = map o_operation_id (operations (j_tables j))"
        unfolding f(2) by simp
      moreover have "i \<in> set (map o_operation_id (operations (j_tables j)))"
        using find_operation_SomeD [OF f(1)] by auto
      moreover have "i \<notin> set (map o_operation_id (operations (j_tables j')))"
        using f(3) \<open>x = None\<close> by (intro find_operation_NoneD) simp
      ultimately show False by simp
    qed
    then show ?thesis using recorded [OF _ trusted] committed r by auto
  qed
qed

lemma record_configuration_tables:
  assumes "record_configuration row j = (r, j')"
  shows "j_tables j' = j_tables j \<or> (\<exists>cs. j_tables j' = (j_tables j)\<lparr> configuration_snapshots := cs \<rparr>)"
  using assms unfolding record_configuration_def
proof (cases rule: transaction_cases)
  case (committed x)
  then obtain at cs where "Inr ((), (j_tables j)\<lparr> configuration_snapshots := cs \<rparr>) = (Inr (x, j_tables j') :: (daemon_error, _) result)"
    by (auto simp: result_simps split: if_splits)
  then show ?thesis by (metis Inr_inject prod.inject)
qed simp

lemma prune_idempotency_tables:
  assumes "prune_idempotency at j = (r, j')"
  obtains "j_tables j' = j_tables j"
  | moment where "j_tables j' = (j_tables j)\<lparr> idempotency_records :=
      filter (\<lambda>i. \<not> instant (i_expires_at i) \<le> moment) (idempotency_records (j_tables j)) \<rparr>"
proof (cases "require_utc at")
  case (Inl e)
  then show thesis using assms that(1) by (simp add: prune_idempotency_def)
next
  case (Inr m)
  with assms have "transaction (\<lambda>t. let expired = (\<lambda>i. instant (i_expires_at i) \<le> instant m)
      in Inr (length (filter expired (idempotency_records t)),
          t\<lparr> idempotency_records := filter (\<lambda>i. \<not> expired i) (idempotency_records t) \<rparr>)) j = (r, j')"
    by (simp add: prune_idempotency_def)
  then show thesis
  proof (cases rule: transaction_cases)
    case (committed x)
    then show ?thesis by (intro that(2) [of "instant m"]) (simp add: Let_def)
  qed (rule that(1))
qed

lemma tables_wf_frame:
  "tables_wf t \<Longrightarrow> tables_wf (t\<lparr> configuration_snapshots := cs \<rparr>)"
  "tables_wf t \<Longrightarrow> tables_wf (t\<lparr> idempotency_records := filter P (idempotency_records t) \<rparr>)"
  by (auto simp: tables_wf_def transitions_of_def intro: distinct_map_filter)

lemma after_outcome_tables [simp]: "j_tables (after_outcome j) = j_tables j"
  by (simp add: after_outcome_def)

lemma close_journal_tables [simp]: "j_tables (close_journal j) = j_tables j"
  by (simp add: close_journal_def)

lemma journal_step_wf:
  assumes "journal_step j j'" "tables_wf (j_tables j)"
  shows "tables_wf (j_tables j')"
  using assms(1)
proof cases
  case (js_admission raw operation reason idempotency r)
  have ok: "is_ok (decode_operation operation)"
    using js_admission(1,2) make_operation_record_InrD [OF js_admission(1)]
    by (auto simp: decode_operation_def is_ok_iff result_simps)
  from js_admission(3) show ?thesis
    by (cases rule: record_admission_cases)
      (use assms(2) ok in \<open>auto intro: admission_block_wf\<close>)
next
  case (js_transition operation_id q r)
  then show ?thesis
    by (cases rule: record_transition_cases) (use assms(2) in \<open>auto intro: transition_block_wf\<close>)
next
  case (js_configuration row r)
  then show ?thesis using record_configuration_tables [of row j r j'] assms(2) tables_wf_frame by auto
next
  case (js_prune at r)
  then show ?thesis
    by (cases rule: prune_idempotency_tables) (use assms(2) in \<open>auto simp: tables_wf_frame\<close>)
qed (use assms(2) in simp_all)

lemma journal_run_wf: "journal_step\<^sup>*\<^sup>* j j' \<Longrightarrow> tables_wf (j_tables j) \<Longrightarrow> tables_wf (j_tables j')"
  by (induction rule: rtranclp_induct) (auto intro: journal_step_wf)

lemma new_journal_wf: "journal_step\<^sup>*\<^sup>* (new_journal storage) j \<Longrightarrow> tables_wf (j_tables j)"
  by (erule journal_run_wf) (simp add: new_journal_def empty_tables_wf)

text \<open>What one step keeps: the audit trail grows at its end, and a row that is terminal stays.\<close>

definition keeps_history :: "tables \<Rightarrow> tables \<Rightarrow> bool" where
  "keeps_history t t' = (prefix (operation_transitions t) (operation_transitions t') \<and>
     (\<forall>r\<in>set (operations t). is_terminal (o_state r) \<longrightarrow> r \<in> set (operations t')))"

lemma keeps_history_refl [simp]: "keeps_history t t"
  by (simp add: keeps_history_def)

lemma keeps_history_trans: "keeps_history a b \<Longrightarrow> keeps_history b c \<Longrightarrow> keeps_history a c"
  unfolding keeps_history_def using prefix_order.trans by blast

lemma admission_block_history:
  assumes "admission_block r reason idem t = Inr (x, t')"
  shows "keeps_history t t'"
proof -
  obtain t1 t2 where steps: "insert_operation r t = Inr t1"
      "append_transition (o_operation_id r) None (o_state r) (o_generation r) (o_created_at r) reason t1 = Inr t2"
      "(case idem of None \<Rightarrow> Inr t2 | Some i \<Rightarrow> insert_idempotency i t2) = Inr t'"
    using assms by (auto simp: admission_block_def result_simps)
  have "operations t' = operations t2 \<and> operation_transitions t' = operation_transitions t2"
  proof (cases idem)
    case (Some i)
    then show ?thesis using steps(3) insert_idempotency_InrD(2) [of i t2 t'] by simp
  qed (use steps(3) in simp)
  then show ?thesis
    using insert_operation_InrD(2) [OF steps(1)] append_transition_InrD(2) [OF steps(2)]
    by (simp add: keeps_history_def)
qed

lemma transition_block_history:
  assumes wf: "tables_wf t" and block: "transition_block i q t = Inr (x, t')"
  shows "keeps_history t t'"
proof (rule transition_block_InrD [OF block])
  fix r row e
  assume f: "find_operation i t = Some r" "can_transition (o_state r) (tr_to_state q)"
    and t': "t' = t\<lparr> operations := map (\<lambda>p. if o_operation_id p = i
         then updated_row q (tr_occurred_at q) (tr_terminal_fields q) p else p) (operations t),
       operation_transitions := operation_transitions t @ [e] \<rparr>"
  have "p \<in> set (operations t')" if "p \<in> set (operations t)" "is_terminal (o_state p)" for p
  proof -
    have "o_operation_id p \<noteq> i"
    proof
      assume "o_operation_id p = i"
      then have "p = r" using find_operation_unique [OF wf that(1)] f(1) by simp
      then show False using f(2) that(2) terminal_no_transition by blast
    qed
    then show ?thesis using that(1) unfolding t' by (simp add: image_iff)
  qed
  then show ?thesis by (simp add: keeps_history_def t')
qed

lemma journal_step_history:
  assumes "journal_step j j'" "tables_wf (j_tables j)"
  shows "keeps_history (j_tables j) (j_tables j')"
  using assms(1)
proof cases
  case (js_admission raw operation reason idempotency r)
  from js_admission(3) show ?thesis
    by (cases rule: record_admission_cases) (auto intro: admission_block_history)
next
  case (js_transition operation_id q r)
  then show ?thesis
    by (cases rule: record_transition_cases) (use assms(2) in \<open>auto intro: transition_block_history\<close>)
next
  case (js_configuration row r)
  then show ?thesis using record_configuration_tables [of row j r j'] by (auto simp: keeps_history_def)
next
  case (js_prune at r)
  then show ?thesis by (cases rule: prune_idempotency_tables) (auto simp: keeps_history_def)
qed simp_all

lemma journal_run_history:
  "journal_step\<^sup>*\<^sup>* j j' \<Longrightarrow> tables_wf (j_tables j) \<Longrightarrow> keeps_history (j_tables j) (j_tables j')"
proof (induction rule: rtranclp_induct)
  case (step y z)
  then have "tables_wf (j_tables y)" using journal_run_wf by blast
  with step journal_step_history show ?case by (blast intro: keeps_history_trans)
qed simp

section \<open>A worked example\<close>

definition demo_operation :: operation_record where
  "demo_operation = \<lparr> o_operation_id = ''6d0a7c52-9a0e-4b5e-8a1c-0f2b7d3e4a55'', o_action = OA_sort,
     o_fingerprint = ''fp'', o_state = OS_queued, o_generation = 1, o_created_at = Aware 0,
     o_deadline_at = Aware 1000, o_actor = \<lparr> a_user_id = ''u'', a_role = ''operator'' \<rparr>,
     o_trusted_terminal = False, o_outcome = None, o_terminal_at = None,
     o_protocol_request_id = None, o_terminal_fields = None \<rparr>"

definition demo_key :: idempotency_record where
  "demo_key = \<lparr> i_key = ''k'', i_fingerprint = ''fp'', i_operation_id = o_operation_id demo_operation,
     i_created_at = Aware 0, i_expires_at = Aware 500 \<rparr>"

definition demo_journal :: journal where
  "demo_journal = snd (record_admission demo_operation ''admitted'' (Some demo_key) (new_journal []))"

lemma demo_operation_made: "make_operation_record demo_operation = Inr demo_operation"
  by code_simp

lemma demo_actor_made: "is_ok (make_actor (a_user_id (o_actor demo_operation)) (a_role (o_actor demo_operation)))"
  by code_simp

lemma demo_reachable: "journal_step\<^sup>*\<^sup>* (new_journal []) demo_journal"
  by (rule r_into_rtranclp)
    (rule js_admission [OF demo_operation_made demo_actor_made, of "''admitted''" "Some demo_key" _
        "fst (record_admission demo_operation ''admitted'' (Some demo_key) (new_journal []))"],
      simp add: demo_journal_def)

lemma demo_admitted:
  "record_admission demo_operation ''admitted'' (Some demo_key) (new_journal []) = (Inr (), demo_journal)"
  by code_simp

lemma demo_tables: "operations (j_tables demo_journal) = [demo_operation]"
  "operation_transitions (j_tables demo_journal) = [\<lparr> t_transition_id = 1,
     t_operation_id = o_operation_id demo_operation, t_from_state = None, t_to_state = OS_queued,
     t_generation = 1, t_occurred_at = Aware 0, t_reason = ''admitted'' \<rparr>]"
  "idempotency_records (j_tables demo_journal) = [demo_key]"
  by code_simp+

section \<open>Properties of the journal\<close>

text \<open>
  C26: in every journal that can arise, through whatever calls and storage failures, the audit
  trail of each operation starts queued, makes only permitted transitions, has at most four
  entries and ends in the state of the row; a row carries a trusted terminal exactly when it is
  succeeded, and then it went through queued, accepted, running and succeeded.
\<close>

theorem journal_audit_trail:
  assumes "journal_step\<^sup>*\<^sup>* (new_journal storage) j" "r \<in> set (operations (j_tables j))"
  defines "trail \<equiv> map t_to_state (transitions_of (o_operation_id r) (j_tables j))"
  shows "hd trail = OS_queued \<and> legal_chain trail \<and> length trail \<le> 4 \<and> last trail = o_state r \<and>
    (o_trusted_terminal r \<longleftrightarrow> o_state r = OS_succeeded) \<and>
    (o_state r = OS_succeeded \<longrightarrow> trail = [OS_queued, OS_accepted, OS_running, OS_succeeded])"
proof -
  have ok: "is_ok (decode_operation r)" "audit_ok r (transitions_of (o_operation_id r) (j_tables j))"
    using new_journal_wf [OF assms(1)] assms(2) by (auto simp: tables_wf_def)
  obtain rest where t: "trail = OS_queued # rest"
    using ok(2) by (cases "transitions_of (o_operation_id r) (j_tables j)") (auto simp: trail_def audit_ok_def)
  have legal: "legal_chain (OS_queued # rest)" and last: "last (OS_queued # rest) = o_state r"
    using ok(2) t by (auto simp: trail_def audit_ok_def last_map simp flip: t)
  show ?thesis
    using legal_chain_length [OF legal] legal_chain_to_success [OF legal] legal last
      decode_operation_trusted [OF ok(1)] by (simp add: t)
qed

theorem journal_audit_trail_witness:
  "map t_to_state (transitions_of (o_operation_id demo_operation) (j_tables demo_journal)) = [OS_queued]"
  using journal_audit_trail [OF demo_reachable, of demo_operation]
  by (simp add: demo_tables transitions_of_def)

text \<open>
  The journal never rewrites history: from any reachable journal on, every earlier audit
  entry stays where it is, and the row of an operation that has reached a terminal state stays
  exactly as it is.
\<close>

theorem journal_append_only:
  assumes "journal_step\<^sup>*\<^sup>* (new_journal storage) j" "journal_step\<^sup>*\<^sup>* j j'"
  shows "prefix (operation_transitions (j_tables j)) (operation_transitions (j_tables j')) \<and>
    (\<forall>r\<in>set (operations (j_tables j)). is_terminal (o_state r) \<longrightarrow> r \<in> set (operations (j_tables j')))"
  using journal_run_history [OF assms(2) new_journal_wf [OF assms(1)]] by (simp add: keeps_history_def)

theorem journal_append_only_witness:
  "prefix (operation_transitions (j_tables demo_journal)) (operation_transitions (j_tables (close_journal demo_journal)))"
proof -
  have "journal_step\<^sup>*\<^sup>* demo_journal (close_journal demo_journal)"
    by (rule r_into_rtranclp) (rule js_close)
  from journal_append_only [OF demo_reachable this] show ?thesis by simp
qed

lemma admission_block_rows:
  assumes wf: "tables_wf t" and block: "admission_block r reason (Some i) t = Inr (x, t')"
  shows "find_operation (o_operation_id r) t' = Some (r\<lparr> o_terminal_fields := encode_fields (o_terminal_fields r) \<rparr>)"
    and "map t_to_state (transitions_of (o_operation_id r) t') = [o_state r]"
    and "find_idempotency (i_key i) t' = Some i"
proof -
  obtain t1 t2 where steps: "insert_operation r t = Inr t1"
      "append_transition (o_operation_id r) None (o_state r) (o_generation r) (o_created_at r) reason t1 = Inr t2"
      "insert_idempotency i t2 = Inr t'"
    using block by (auto simp: admission_block_def result_simps)
  note t1 = insert_operation_InrD [OF steps(1)] and t2 = append_transition_InrD(2) [OF steps(2)]
    and t3 = insert_idempotency_InrD [OF steps(3)]
  have find_snoc: "find P (xs @ [y]) = Some y" if "\<forall>x\<in>set xs. \<not> P x" "P y" for P :: "'a \<Rightarrow> bool" and xs y
    using that by (induction xs) auto
  show "find_operation (o_operation_id r) t' = Some (r\<lparr> o_terminal_fields := encode_fields (o_terminal_fields r) \<rparr>)"
    unfolding find_operation_def using t1(1) by (simp add: t3(2) t2 t1(2)) (rule find_snoc, auto simp: image_iff)
  show "map t_to_state (transitions_of (o_operation_id r) t') = [o_state r]"
    using transitions_of_unknown [OF wf t1(1)] by (simp add: t3(2) t2 t1(2) transitions_of_def)
  show "find_idempotency (i_key i) t' = Some i"
    unfolding find_idempotency_def using t3(1) by (simp add: t3(2)) (rule find_snoc, auto simp: image_iff)
qed

text \<open>
  Admission is atomic: after a call that returns, the operation can be read back, its trail
  is the one admission entry and its key is bound to it; after a call that raises, for whatever
  reason and at whatever point of the transaction, all tables are what they were.
\<close>

theorem admission_atomic:
  assumes "journal_step\<^sup>*\<^sup>* (new_journal storage) j"
    and "record_admission operation reason (Some i) j = (r, j')"
  shows "case r of
      Inl e \<Rightarrow> j_tables j' = j_tables j
    | Inr _ \<Rightarrow> map_option o_state (find_operation (o_operation_id operation) (j_tables j')) = Some OS_queued \<and>
        map t_to_state (transitions_of (o_operation_id operation) (j_tables j')) = [OS_queued] \<and>
        find_idempotency (i_key i) (j_tables j') = Some i \<and>
        i_operation_id i = o_operation_id operation"
  using assms(2)
proof (cases rule: record_admission_cases)
  case (failed e)
  then show ?thesis by simp
next
  case admitted
  then show ?thesis using admission_block_rows [OF new_journal_wf [OF assms(1)] admitted(3)] by simp
qed

theorem admission_atomic_witness:
  "find_idempotency ''k'' (j_tables demo_journal) = Some demo_key"
proof -
  have "i_key demo_key = ''k''" by (simp add: demo_key_def)
  then show ?thesis using admission_atomic [OF rtranclp.rtrancl_refl demo_admitted] by simp
qed

lemma idempotency_lookup_ok:
  assumes "\<not> j_closed j" "next_outcome j = St_ok"
    and "find_idempotency key (j_tables j) = Some i" "make_idempotency_record i = Inr i"
  shows "fst (idempotency_lookup key (Aware m) j) = Inr (if m < instant (i_expires_at i) then Some i else None)"
  using assms by (simp add: idempotency_lookup_def guard_def then_decode_def live_at_def)

text \<open>
  An expired key that has not been pruned blocks its own reuse: the lookup reports the key
  as absent, yet admitting a new operation under it fails with a journal error, whatever the
  operation (the row of the old key is still in the table).
\<close>

lemma expired_key_blocks_admission:
  assumes "\<not> j_closed j" "j_storage j = []"
    and "find_idempotency (i_key i) (j_tables j) = Some old" "make_idempotency_record old = Inr old"
    and "instant (i_expires_at old) \<le> m"
    and "is_ok (admission_checks operation reason (Some i))"
  shows "fst (idempotency_lookup (i_key i) (Aware m) j) = Inr None \<and>
    fst (record_admission operation reason (Some i) j) \<noteq> Inr () \<and>
    (is_ok (require_utc (o_created_at operation)) \<longrightarrow>
       fst (record_admission operation reason (Some i) j) = Inl JournalError)"
proof -
  have key: "i_key i \<in> set (map i_key (idempotency_records (j_tables j)))"
    using assms(3) unfolding find_idempotency_def find_Some_iff by (metis image_eqI nth_mem set_map)
  have run: "record_admission operation reason (Some i) j = transaction (admission_block operation reason (Some i)) j"
    using assms(6) by (auto simp: record_admission_def is_ok_iff)
  have block: "\<exists>e. admission_block operation reason (Some i) (j_tables j) = Inl e \<and>
      (is_ok (require_utc (o_created_at operation)) \<longrightarrow> e = JournalError)"
    using key by (cases "o_created_at operation")
      (auto simp: admission_block_def insert_operation_def append_transition_def insert_idempotency_def)
  have "fst (idempotency_lookup (i_key i) (Aware m) j) = Inr None"
    using idempotency_lookup_ok [OF assms(1) _ assms(3,4), of m] assms(2,5) by (simp add: next_outcome_def)
  then show ?thesis
    using block assms(1,2) by (auto simp: run transaction_def next_outcome_def Let_def)
qed

lemma filter_below_last:
  assumes "sorted_wrt (\<lambda>x y. fst y < fst x) xs" "take n xs \<noteq> []"
  shows "filter (\<lambda>x. fst x < fst (last (take n xs))) xs = drop n (xs :: (nat \<times> 'a) list)"
proof -
  obtain ys y where ys: "take n xs = ys @ [y]" using assms(2) by (metis rev_exhaust)
  have xs: "xs = ys @ [y] @ drop n xs" using ys append_take_drop_id [of n xs] by simp
  have "sorted_wrt (\<lambda>x y. fst y < fst x) (ys @ [y] @ drop n xs)" using assms(1) xs by simp
  then have "\<forall>x\<in>set ys. \<not> fst x < fst y" "\<forall>x\<in>set (drop n xs). fst x < fst y"
    by (auto simp: sorted_wrt_append)
  then have "filter (\<lambda>x. fst x < fst y) (ys @ [y] @ drop n xs) = drop n xs"
    by (simp add: filter_empty_conv filter_id_conv)
  then show ?thesis using xs by (simp only: ys last_snoc flip: xs)
qed

lemma enumerate_decreasing: "sorted_wrt (\<lambda>x y. fst y < fst x) (rev (enumerate k xs))"
proof -
  have "sorted_wrt (\<lambda>x y. fst x < fst y) (enumerate k xs)"
    by (simp add: sorted_wrt_iff_nth_less nth_enumerate_eq)
  then show ?thesis by (simp add: sorted_wrt_rev)
qed

text \<open>
  Paging by cursor neither skips nor repeats: a page followed by the page before its last
  cursor is one longer page, with the same filters and for every table.
\<close>

theorem pages_compose:
  assumes "page_rows n before state action t = p" "p \<noteq> []"
  shows "p @ page_rows m (Some (fst (last p))) state action t = page_rows (n + m) before state action t"
proof -
  define keep where "keep = (\<lambda>b (c :: nat, r :: operation_record). (case b of None \<Rightarrow> True | Some b \<Rightarrow> c < b) \<and>
         (case state of None \<Rightarrow> True | Some s \<Rightarrow> o_state r = s) \<and>
         (case action of None \<Rightarrow> True | Some a \<Rightarrow> o_action r = a))"
  define xs where "xs = filter (keep before) (rev (enumerate 1 (operations t)))"
  have rows: "page_rows k b state action t = take k (filter (keep b) (rev (enumerate 1 (operations t))))" for k b
    by (simp add: page_rows_def keep_def)
  have p: "p = take n xs" using assms(1) by (simp add: rows xs_def)
  have "last p \<in> set xs" using assms(2) p by (metis in_set_takeD last_in_set)
  then have "keep before (last p)" by (simp add: xs_def)
  then have "keep (Some (fst (last p))) x \<longleftrightarrow> keep before x \<and> fst x < fst (last p)" for x
    by (cases before; cases x) (auto simp: keep_def split: prod.splits)
  then have "filter (keep (Some (fst (last p)))) (rev (enumerate 1 (operations t)))
      = filter (\<lambda>x. fst x < fst (last p)) xs"
    by (simp add: xs_def conj_commute cong: filter_cong)
  also have "\<dots> = drop n xs"
    unfolding p by (rule filter_below_last)
      (use assms(2) p enumerate_decreasing in \<open>auto simp: xs_def intro: sorted_wrt_filter\<close>)
  finally show ?thesis by (simp add: rows p take_add xs_def)
qed

theorem pages_compose_witness:
  "page_rows 1 None None None (empty_tables\<lparr> operations := [demo_operation, demo_operation] \<rparr>) @
   page_rows 5 (Some 2) None None (empty_tables\<lparr> operations := [demo_operation, demo_operation] \<rparr>) =
   page_rows 6 None None None (empty_tables\<lparr> operations := [demo_operation, demo_operation] \<rparr>)"
  using pages_compose [of 1 None None None "empty_tables\<lparr> operations := [demo_operation, demo_operation] \<rparr>"
      "[(2, demo_operation)]" 5]
  by (simp add: page_rows_def)

lemma latest_configuration_append:
  "latest_configuration (cs @ [c]) =
     (case latest_configuration cs of None \<Rightarrow> Some c
      | Some d \<Rightarrow> if c_generation d > c_generation c then Some d else Some c)"
  by (induction cs) (auto split: option.splits)

text \<open>
  A configuration recorded under a lower generation than one already in the table, as
  happens after a restart of the daemon, whose generations start again at 1, is committed but
  never becomes the applied one: the old values are still reported.
\<close>

theorem lower_generation_is_shadowed:
  assumes "applied_configuration j = (Inr (Some old), j1)"
    and "record_configuration row j1 = (Inr (), j2)" "c_generation row < fst (snd old)"
    and "\<not> j_closed j2" "next_outcome j2 = St_ok"
  shows "fst (applied_configuration j2) = Inr (Some old)"
proof -
  obtain d where d: "latest_configuration (configuration_snapshots (j_tables j)) = Some d"
      "old = (c_payload d, c_generation d, c_created_at d)" and t: "j_tables j1 = j_tables j"
    using assms(1) by (auto simp: applied_configuration_def guard_def split: if_splits)
  obtain row' where row: "configuration_snapshots (j_tables j2) = configuration_snapshots (j_tables j1) @ [row']"
      "c_generation row' = c_generation row"
    using assms(2) unfolding record_configuration_def
  proof (cases rule: transaction_cases)
    case (committed x)
    then have "\<exists>at. (j_tables j1)\<lparr> configuration_snapshots := configuration_snapshots (j_tables j1) @
        [row\<lparr> c_created_at := at, c_payload := sort_key fst (c_payload row) \<rparr>] \<rparr> = j_tables j2"
      by (auto simp: result_simps split: if_splits)
    then obtain at where "j_tables j2 = (j_tables j1)\<lparr> configuration_snapshots := configuration_snapshots (j_tables j1) @
        [row\<lparr> c_created_at := at, c_payload := sort_key fst (c_payload row) \<rparr>] \<rparr>"
      by metis
    then show ?thesis by (intro that [of "row\<lparr> c_created_at := at, c_payload := sort_key fst (c_payload row) \<rparr>"]) simp_all
  qed simp
  then show ?thesis
    using assms(3-5) d t by (simp add: applied_configuration_def guard_def latest_configuration_append)
qed

definition demo_configuration :: "int \<Rightarrow> string \<Rightarrow> int \<Rightarrow> configuration_row" where
  "demo_configuration g i v = \<lparr> c_config_id = i, c_generation = g, c_payload = [(''max_deadline_ms'', v)],
     c_source = ''admin:u'', c_created_at = Aware 0 \<rparr>"

theorem lower_generation_is_shadowed_witness:
  "fst (applied_configuration (snd (record_configuration (demo_configuration 4 ''b'' 1000)
     (snd (record_configuration (demo_configuration 9 ''a'' 2000) (new_journal [])))))) =
   Inr (Some ([(''max_deadline_ms'', 2000)], 9, Aware 0))"
  using lower_generation_is_shadowed
    [of "snd (record_configuration (demo_configuration 9 ''a'' 2000) (new_journal []))"
      "([(''max_deadline_ms'', 2000)], 9, Aware 0)"
      "snd (record_configuration (demo_configuration 9 ''a'' 2000) (new_journal []))"
      "demo_configuration 4 ''b'' 1000"
      "snd (record_configuration (demo_configuration 4 ''b'' 1000)
        (snd (record_configuration (demo_configuration 9 ''a'' 2000) (new_journal []))))"]
  by (simp add: applied_configuration_def record_configuration_def guard_def transaction_def
      next_outcome_def after_outcome_def new_journal_def empty_tables_def demo_configuration_def Let_def)

end
