(* ===== verification/Events.thy ===== *)
theory Events
  imports Operations
begin

text \<open>
  The bounded event ring and its subscribers (\<open>events.py\<close>). The identity of a subscriber object
  is an index into the table of subscribers. Waiting in \<open>drain\<close> is not modelled: the step is
  what \<open>drain\<close> does once its wait is over. \<open>publish\<close> appends under the ring's lock and hands the
  event out after releasing it; the two halves are separate definitions.
\<close>

record daemon_event =
  ev_event_id :: int
  ev_type :: string
  ev_occurred_at :: datetime
  ev_generation :: int
  ev_operation_id :: "string option"
  ev_data :: fields

record subscriber =
  sub_pending :: "daemon_event list"
  sub_capacity :: nat
  sub_overflowed :: bool
  sub_closed :: bool

record event_ring =
  er_retained :: "daemon_event list"
  er_retention :: nat
  er_subscriber_capacity :: nat
  er_table :: "subscriber list"
  er_attached :: "nat list"
  er_next_id :: int

definition new_event_ring :: "nat \<Rightarrow> nat \<Rightarrow> (unit, event_ring) result" where
  "new_event_ring retention subscriber_capacity =
     (if retention < 1 \<or> subscriber_capacity < 1 then Inl ()
      else Inr \<lparr> er_retained = [], er_retention = retention,
                 er_subscriber_capacity = subscriber_capacity, er_table = [], er_attached = [],
                 er_next_id = 1 \<rparr>)"

section \<open>Subscribers\<close>

definition new_subscriber :: "nat \<Rightarrow> subscriber" where
  "new_subscriber capacity = \<lparr> sub_pending = [], sub_capacity = capacity,
     sub_overflowed = False, sub_closed = False \<rparr>"

definition offer :: "daemon_event \<Rightarrow> subscriber \<Rightarrow> subscriber" where
  "offer event s =
     (if sub_closed s then s
      else if length (sub_pending s) \<ge> sub_capacity s
      then s\<lparr> sub_pending := [], sub_overflowed := True \<rparr>
      else s\<lparr> sub_pending := sub_pending s @ [event] \<rparr>)"

definition prime_subscriber :: "daemon_event list \<Rightarrow> subscriber \<Rightarrow> subscriber" where
  "prime_subscriber events s =
     (if length events > sub_capacity s then s\<lparr> sub_overflowed := True \<rparr>
      else s\<lparr> sub_pending := sub_pending s @ events \<rparr>)"

definition mark_overflowed :: "subscriber \<Rightarrow> subscriber" where
  "mark_overflowed s = s\<lparr> sub_overflowed := True, sub_pending := [] \<rparr>"

definition drain :: "subscriber \<Rightarrow> daemon_event list \<times> subscriber" where
  "drain s = (if sub_overflowed s \<or> sub_closed s then ([], s)
              else (sub_pending s, s\<lparr> sub_pending := [] \<rparr>))"

section \<open>The ring\<close>

text \<open>\<open>deque(maxlen=n).append\<close>\<close>

definition deque_append :: "nat \<Rightarrow> 'a list \<Rightarrow> 'a \<Rightarrow> 'a list" where
  "deque_append n xs x = drop (length xs + 1 - n) (xs @ [x])"

definition publish_append ::
    "string \<Rightarrow> int \<Rightarrow> datetime \<Rightarrow> string option \<Rightarrow> fields \<Rightarrow> event_ring
       \<Rightarrow> daemon_event \<times> nat list \<times> event_ring" where
  "publish_append event_type generation occurred_at operation_id data r =
     (let event = \<lparr> ev_event_id = er_next_id r, ev_type = event_type, ev_occurred_at = occurred_at,
                    ev_generation = generation, ev_operation_id = operation_id, ev_data = data \<rparr>
      in (event, er_attached r,
          r\<lparr> er_next_id := er_next_id r + 1,
             er_retained := deque_append (er_retention r) (er_retained r) event \<rparr>))"

definition offer_to :: "daemon_event \<Rightarrow> nat \<Rightarrow> event_ring \<Rightarrow> event_ring" where
  "offer_to event k r = r\<lparr> er_table := (er_table r)[k := offer event (er_table r ! k)] \<rparr>"

definition publish_event ::
    "string \<Rightarrow> int \<Rightarrow> datetime \<Rightarrow> string option \<Rightarrow> fields \<Rightarrow> event_ring \<Rightarrow> daemon_event \<times> event_ring" where
  "publish_event event_type generation occurred_at operation_id data r =
     (case publish_append event_type generation occurred_at operation_id data r of
        (event, subscribers, r') \<Rightarrow> (event, fold (offer_to event) subscribers r'))"

definition subscribe :: "int option \<Rightarrow> event_ring \<Rightarrow> nat \<times> event_ring" where
  "subscribe after r =
     (let fresh = new_subscriber (er_subscriber_capacity r);
          s = (case after of
                 None \<Rightarrow> fresh
               | Some a \<Rightarrow>
                   let backlog = filter (\<lambda>e. ev_event_id e > a) (er_retained r);
                       oldest = (case er_retained r of e # _ \<Rightarrow> ev_event_id e | [] \<Rightarrow> er_next_id r)
                   in if a \<ge> er_next_id r \<or> a + 1 < oldest then mark_overflowed fresh
                      else prime_subscriber backlog fresh)
      in (length (er_table r),
          r\<lparr> er_table := er_table r @ [s], er_attached := er_attached r @ [length (er_table r)] \<rparr>))"

definition unsubscribe :: "nat \<Rightarrow> event_ring \<Rightarrow> event_ring" where
  "unsubscribe k r = r\<lparr> er_attached := filter (\<lambda>j. j \<noteq> k) (er_attached r) \<rparr>"

definition close_subscriber :: "nat \<Rightarrow> event_ring \<Rightarrow> event_ring" where
  "close_subscriber k r =
     unsubscribe k (r\<lparr> er_table := (er_table r)[k := (er_table r ! k)\<lparr> sub_closed := True \<rparr>] \<rparr>)"

definition drain_subscriber :: "nat \<Rightarrow> event_ring \<Rightarrow> daemon_event list \<times> event_ring" where
  "drain_subscriber k r =
     (case drain (er_table r ! k) of (es, s) \<Rightarrow> (es, r\<lparr> er_table := (er_table r)[k := s] \<rparr>))"

definition subscriber_count :: "event_ring \<Rightarrow> nat" where
  "subscriber_count r = length (er_attached r)"

section \<open>Runs\<close>

datatype ring_op = RO_publish string int datetime "string option" fields
  | RO_subscribe "int option" | RO_close nat | RO_drain nat

text \<open>One call by any thread; what a drain handed out is logged with its subscriber. A
  subscriber that does not exist is not called.\<close>

fun ring_step :: "ring_op \<Rightarrow> event_ring \<Rightarrow> (nat \<times> daemon_event list) list \<times> event_ring" where
  "ring_step (RO_publish t g at i d) r = ([], snd (publish_event t g at i d r))"
| "ring_step (RO_subscribe after) r = ([], snd (subscribe after r))"
| "ring_step (RO_close k) r = ([], if k < length (er_table r) then close_subscriber k r else r)"
| "ring_step (RO_drain k) r =
     (if k < length (er_table r) then (case drain_subscriber k r of (es, r') \<Rightarrow> ([(k, es)], r'))
      else ([], r))"

fun ring_run :: "ring_op list \<Rightarrow> event_ring \<Rightarrow> (nat \<times> daemon_event list) list \<times> event_ring" where
  "ring_run [] r = ([], r)"
| "ring_run (op # ops) r =
     (case ring_step op r of (l, r') \<Rightarrow> (case ring_run ops r' of (l', r'') \<Rightarrow> (l @ l', r'')))"

definition delivered :: "nat \<Rightarrow> (nat \<times> daemon_event list) list \<Rightarrow> daemon_event list" where
  "delivered k log = concat (map snd (filter (\<lambda>p. fst p = k) log))"

definition ring_wf :: "event_ring \<Rightarrow> bool" where
  "ring_wf r = (er_next_id r \<ge> 1 \<and> 1 \<le> er_retention r \<and> length (er_retained r) \<le> er_retention r \<and>
     map ev_event_id (er_retained r) = [er_next_id r - int (length (er_retained r)) .. er_next_id r - 1] \<and>
     distinct (er_attached r) \<and> (\<forall>k\<in>set (er_attached r). k < length (er_table r)) \<and>
     (\<forall>s\<in>set (er_table r). length (sub_pending s) \<le> sub_capacity s))"

lemma new_event_ring_wf: "new_event_ring n c = Inr r \<Longrightarrow> ring_wf r"
  by (auto simp: new_event_ring_def ring_wf_def split: if_splits)

lemma offer_bound: "length (sub_pending s) \<le> sub_capacity s \<Longrightarrow>
    length (sub_pending (offer e s)) \<le> sub_capacity (offer e s)"
  by (auto simp: offer_def)

lemma drain_bound: "length (sub_pending s) \<le> sub_capacity s \<Longrightarrow>
    length (sub_pending (snd (drain s))) \<le> sub_capacity (snd (drain s))"
  by (auto simp: drain_def)

lemma fold_offer_table:
  assumes "distinct ks" "\<forall>k\<in>set ks. k < length (er_table r)"
  shows "fold (offer_to e) ks r =
    r\<lparr> er_table := map (\<lambda>i. if i \<in> set ks then offer e (er_table r ! i) else er_table r ! i)
                      [0..<length (er_table r)] \<rparr>"
  using assms
proof (induction ks arbitrary: r)
  case Nil
  then show ?case by (simp add: map_nth)
next
  case (Cons k ks)
  have len: "length (er_table (offer_to e k r)) = length (er_table r)" by (simp add: offer_to_def)
  have "fold (offer_to e) ks (offer_to e k r) = (offer_to e k r)\<lparr> er_table :=
      map (\<lambda>i. if i \<in> set ks then offer e (er_table (offer_to e k r) ! i) else er_table (offer_to e k r) ! i)
        [0..<length (er_table (offer_to e k r))] \<rparr>"
    using Cons.prems by (intro Cons.IH) (simp_all add: len)
  moreover have "(offer_to e k r)\<lparr> er_table := t \<rparr> = r\<lparr> er_table := t \<rparr>" for t
    by (simp add: offer_to_def)
  moreover have "er_table (offer_to e k r) ! i = (if i = k then offer e (er_table r ! k) else er_table r ! i)"
    for i using Cons.prems by (simp add: offer_to_def nth_list_update)
  ultimately show ?case using Cons.prems(1)
    by (auto simp: len intro!: arg_cong [where f = "\<lambda>t. r\<lparr> er_table := t \<rparr>"])
qed

lemma deque_append_length: "1 \<le> n \<Longrightarrow> length xs \<le> n \<Longrightarrow> length (deque_append n xs x) \<le> n"
  by (simp add: deque_append_def)

lemma deque_append_ids:
  assumes "map f xs = [b - int (length xs) .. b - 1]" "f x = b" "length xs \<le> n" "1 \<le> n"
  shows "map f (deque_append n xs x) = [b + 1 - int (length (deque_append n xs x)) .. b]"
proof -
  have snoc: "[i..j] @ [j + 1] = [i..j + 1]" if "i \<le> j + 1" for i j :: int
    using that by (metis upto_rec2 add_diff_cancel_right')
  have all: "map f (xs @ [x]) = [b - int (length xs) .. b]"
    using snoc [of "b - int (length xs)" "b - 1"] assms(1,2) by simp
  show ?thesis
  proof (cases "length xs + 1 \<le> n")
    case True
    then show ?thesis using all by (simp add: deque_append_def)
  next
    case False
    with assms(3) have n: "length xs = n" by simp
    have "tl [b - int n .. b] = [b - int n + 1 .. b]"
      using assms(4) by (simp add: upto_rec1)
    have "tl (map f xs) @ [f x] = tl (map f xs @ [f x])" using n assms(4) by (cases xs) auto
    then show ?thesis using all n assms(4) \<open>tl [b - int n .. b] = _\<close>
      by (simp add: deque_append_def drop_Suc map_tl add.commute add_diff_eq flip: drop_map)
  qed
qed

lemma publish_wf: "ring_wf r \<Longrightarrow> ring_wf (snd (publish_event t g at i d r))"
  unfolding ring_wf_def
  by (auto simp: publish_event_def publish_append_def Let_def fold_offer_table deque_append_length
      deque_append_ids offer_bound)

lemma subscribe_wf: "ring_wf r \<Longrightarrow> ring_wf (snd (subscribe after r))"
  by (auto simp: ring_wf_def subscribe_def Let_def prime_subscriber_def mark_overflowed_def
      new_subscriber_def less_Suc_eq split: option.splits)

lemma table_update_wf:
  assumes "ring_wf r" "length (sub_pending s) \<le> sub_capacity s"
  shows "ring_wf (r\<lparr> er_table := (er_table r)[k := s] \<rparr>)"
  using assms by (auto simp: ring_wf_def dest: set_update_subset_insert [THEN subsetD])

lemma unsubscribe_wf: "ring_wf r \<Longrightarrow> ring_wf (unsubscribe k r)"
  by (auto simp: ring_wf_def unsubscribe_def)

lemma ring_wf_bound: "ring_wf r \<Longrightarrow> k < length (er_table r) \<Longrightarrow>
    length (sub_pending (er_table r ! k)) \<le> sub_capacity (er_table r ! k)"
  by (simp add: ring_wf_def)

lemma ring_step_wf:
  assumes "ring_wf r"
  shows "ring_wf (snd (ring_step op r))"
proof (cases op)
  case (RO_close k)
  have "ring_wf (close_subscriber k r)" if "k < length (er_table r)"
    unfolding close_subscriber_def
    using assms ring_wf_bound [OF assms that] by (intro unsubscribe_wf table_update_wf) simp_all
  with RO_close assms show ?thesis by simp
next
  case (RO_drain k)
  have "ring_wf (snd (drain_subscriber k r))" if "k < length (er_table r)"
    using table_update_wf [OF assms drain_bound [OF ring_wf_bound [OF assms that]]]
    by (simp add: drain_subscriber_def case_prod_unfold)
  with RO_drain assms show ?thesis by (simp add: case_prod_unfold)
qed (use assms in \<open>simp_all add: publish_wf subscribe_wf\<close>)

lemma ring_run_wf: "ring_wf r \<Longrightarrow> ring_wf (snd (ring_run ops r))"
proof (induction ops arbitrary: r)
  case (Cons op ops)
  then show ?case using ring_step_wf [of r op] by (simp add: case_prod_unfold)
qed simp

text \<open>What a subscriber that started after cursor \<open>start\<close> has been handed is a gapless run of
  events from there on, and unless it was told to reconcile it also holds all the rest.\<close>

definition stream_inv :: "nat \<Rightarrow> int \<Rightarrow> daemon_event list \<Rightarrow> event_ring \<Rightarrow> bool" where
  "stream_inv k start got r =
     (k < length (er_table r) \<and> (\<exists>n. map ev_event_id got = [start + 1 .. n]) \<and>
      (\<not> sub_overflowed (er_table r ! k) \<and> \<not> sub_closed (er_table r ! k) \<longrightarrow>
         start < er_next_id r \<and> k \<in> set (er_attached r) \<and>
         map ev_event_id (got @ sub_pending (er_table r ! k)) = [start + 1 .. er_next_id r - 1]))"

lemma filter_upto:
  fixes a lo hi :: int
  assumes "lo \<le> a + 1" "a \<le> hi"
  shows "filter (\<lambda>x. a < x) [lo .. hi] = [a + 1 .. hi]"
proof -
  have "[lo .. hi] = [lo .. a] @ [a + 1 .. hi]"
    using assms upto_split1 [of lo "a + 1" hi] by (cases "a + 1 \<le> hi") (auto simp: not_le dest: order_antisym)
  then show ?thesis by (simp add: filter_empty_conv)
qed

lemma subscribe_inv:
  assumes "ring_wf r" "subscribe after r = (k, r')"
  shows "stream_inv k (case after of None \<Rightarrow> er_next_id r - 1 | Some a \<Rightarrow> a) [] r'"
proof (cases after)
  case None
  then show ?thesis using assms(2)
    by (auto simp: subscribe_def Let_def stream_inv_def new_subscriber_def intro: exI [of _ "er_next_id r - 1"])
next
  case (Some a)
  have nil: "\<exists>n. [] = [a + 1 .. n]" by (rule exI [of _ a]) simp
  have ids: "map ev_event_id (filter (\<lambda>e. a < ev_event_id e) (er_retained r)) = [a + 1 .. er_next_id r - 1]"
    if "a < er_next_id r"
      "(case er_retained r of e # _ \<Rightarrow> ev_event_id e | [] \<Rightarrow> er_next_id r) \<le> a + 1"
  proof -
    define n where "n = int (length (er_retained r))"
    have m: "map ev_event_id (er_retained r) = [er_next_id r - n .. er_next_id r - 1]"
      using assms(1) by (simp add: ring_wf_def n_def)
    have "er_next_id r - n \<le> a + 1"
    proof (cases "er_retained r")
      case Nil
      then show ?thesis using that by (simp add: n_def)
    next
      case (Cons e es)
      then have "[er_next_id r - n .. er_next_id r - 1] = (er_next_id r - n) # [er_next_id r - n + 1 .. er_next_id r - 1]"
        by (intro upto_rec1) (simp add: n_def)
      then have "ev_event_id e = er_next_id r - n" using m Cons by simp
      then show ?thesis using that Cons by simp
    qed
    moreover have "map ev_event_id (filter (\<lambda>e. a < ev_event_id e) (er_retained r))
        = filter (\<lambda>x. a < x) (map ev_event_id (er_retained r))"
      by (simp add: filter_map comp_def)
    ultimately show ?thesis using m filter_upto [of "er_next_id r - n" a "er_next_id r - 1"] that by simp
  qed
  show ?thesis using assms(2) Some ids nil
    by (auto simp: subscribe_def Let_def stream_inv_def new_subscriber_def mark_overflowed_def
        prime_subscriber_def not_le not_less split: if_splits)
qed

lemma stream_inv_other:
  assumes "stream_inv k start got r" "er_table r' ! k = er_table r ! k"
    "length (er_table r) \<le> length (er_table r')" "er_next_id r' = er_next_id r"
    "k \<in> set (er_attached r) \<Longrightarrow> k \<in> set (er_attached r')"
  shows "stream_inv k start got r'"
  using assms by (auto simp: stream_inv_def)

lemma publish_inv:
  assumes "ring_wf r" "stream_inv k start got r"
  shows "stream_inv k start got (snd (publish_event t g at i d r))"
proof -
  have snoc: "[x..j] @ [j + 1] = [x..j + 1]" if "x \<le> j + 1" for x j :: int
    using that by (metis upto_rec2 add_diff_cancel_right')
  have k: "k < length (er_table r)" using assms(2) by (simp add: stream_inv_def)
  have set: "distinct (er_attached r)" "\<forall>k\<in>set (er_attached r). k < length (er_table r)"
    using assms(1) by (simp_all add: ring_wf_def)
  define e where "e = fst (publish_event t g at i d r)"
  have e: "ev_event_id e = er_next_id r"
    by (simp add: e_def publish_event_def publish_append_def Let_def)
  have r': "er_table (snd (publish_event t g at i d r)) ! k =
      (if k \<in> set (er_attached r) then offer e (er_table r ! k) else er_table r ! k)"
    "length (er_table (snd (publish_event t g at i d r))) = length (er_table r)"
    "er_next_id (snd (publish_event t g at i d r)) = er_next_id r + 1"
    "er_attached (snd (publish_event t g at i d r)) = er_attached r"
    using k set by (simp_all add: publish_event_def publish_append_def Let_def fold_offer_table e_def)
  have app: "xs @ ys @ [er_next_id r] = [start + 1 .. er_next_id r]"
    if "xs @ ys = [start + 1 .. er_next_id r - 1]" "start < er_next_id r" for xs ys
    using snoc [of "start + 1" "er_next_id r - 1"] that
    by (metis add_le_cancel_right append_assoc diff_add_cancel less_le zle_diff1_eq)
  show ?thesis
    using assms(2) by (auto simp: stream_inv_def r' offer_def e intro!: app)
qed

lemma drain_inv:
  assumes "stream_inv k start got r" "drain_subscriber k r = (es, r')"
  shows "stream_inv k start (got @ es) r'"
proof -
  have k: "k < length (er_table r)" using assms(1) by (simp add: stream_inv_def)
  show ?thesis
  proof (cases "sub_overflowed (er_table r ! k) \<or> sub_closed (er_table r ! k)")
    case True
    then show ?thesis using assms k by (auto simp: drain_subscriber_def drain_def stream_inv_def)
  next
    case False
    then have "map ev_event_id (got @ sub_pending (er_table r ! k)) = [start + 1 .. er_next_id r - 1]"
      using assms(1) by (simp add: stream_inv_def)
    with False assms k show ?thesis
      by (auto simp: drain_subscriber_def drain_def stream_inv_def)
  qed
qed

lemma ring_step_inv:
  assumes "ring_wf r" "stream_inv k start got r" "ring_step op r = (l, r')"
  shows "stream_inv k start (got @ delivered k l) r'"
proof (cases op)
  case (RO_publish t g at i d)
  with assms publish_inv [OF assms(1,2)] show ?thesis by (auto simp: delivered_def)
next
  case (RO_subscribe after)
  have "k < length (er_table r)" using assms(2) by (simp add: stream_inv_def)
  with RO_subscribe assms stream_inv_other [OF assms(2), of r'] show ?thesis
    by (auto simp: delivered_def subscribe_def Let_def nth_append)
next
  case (RO_close j)
  have k: "k < length (er_table r)" using assms(2) by (simp add: stream_inv_def)
  show ?thesis
  proof (cases "j = k")
    case True
    with RO_close assms k show ?thesis
      by (auto simp: delivered_def close_subscriber_def unsubscribe_def stream_inv_def)
  next
    case False
    with RO_close assms k show ?thesis
      using stream_inv_other [OF assms(2), of r']
      by (auto simp: delivered_def close_subscriber_def unsubscribe_def split: if_splits)
  qed
next
  case (RO_drain j)
  have k: "k < length (er_table r)" using assms(2) by (simp add: stream_inv_def)
  show ?thesis
  proof (cases "j = k")
    case True
    obtain es r'' where d: "drain_subscriber k r = (es, r'')" by force
    with True RO_drain assms(3) k drain_inv [OF assms(2) d] show ?thesis
      by (auto simp: delivered_def)
  next
    case False
    with RO_drain assms k show ?thesis
      using stream_inv_other [OF assms(2), of r']
      by (auto simp: delivered_def drain_subscriber_def split: if_splits prod.splits)
  qed
qed

lemma ring_run_inv:
  "ring_wf r \<Longrightarrow> stream_inv k start got r \<Longrightarrow> ring_run ops r = (l, r') \<Longrightarrow>
    stream_inv k start (got @ delivered k l) r'"
proof (induction ops arbitrary: r got l)
  case (Cons op ops)
  obtain l1 r1 where s: "ring_step op r = (l1, r1)" by force
  obtain l2 where t: "ring_run ops r1 = (l2, r')" "l = l1 @ l2"
    using Cons.prems(3) s by (auto split: prod.splits)
  have "ring_wf r1" using ring_step_wf [OF Cons.prems(1), of op] s by simp
  from Cons.IH [OF this ring_step_inv [OF Cons.prems(1,2) s] t(1)] show ?case
    by (simp add: t(2) delivered_def)
qed (auto simp: delivered_def)


definition demo_ring :: event_ring where
  "demo_ring = \<lparr> er_retained = [], er_retention = 2, er_subscriber_capacity = 2, er_table = [],
     er_attached = [], er_next_id = 1 \<rparr>"

abbreviation demo_publish :: ring_op where
  "demo_publish \<equiv> RO_publish ''t'' 1 (Aware 0) None []"

lemmas ring_eval = demo_ring_def publish_event_def publish_append_def subscribe_def
  drain_subscriber_def drain_def offer_to_def offer_def deque_append_def new_subscriber_def
  prime_subscriber_def mark_overflowed_def delivered_def Let_def


text \<open>
  The ring stays bounded: however many events are published and whether or not anybody
  reads, it retains at most \<open>retention\<close> events and no subscriber queues more than its capacity.
\<close>

lemma ring_bounded:
  assumes "new_event_ring retention capacity = Inr r0" "ring_run ops r0 = (l, r)"
  shows "length (er_retained r) \<le> er_retention r \<and>
    (\<forall>s\<in>set (er_table r). length (sub_pending s) \<le> sub_capacity s)"
  using ring_run_wf [OF new_event_ring_wf [OF assms(1)], of ops] assms(2) by (simp add: ring_wf_def)

text \<open>
  \<open>publish\<close> hands an event out after releasing the ring's lock, so two threads that publish
  at the same time can hand theirs out in the other order, and a subscriber that is neither
  overflowed nor closed is then handed event 2 before event 1.
\<close>

theorem concurrent_publish_reorders:
  "let r0 = snd (subscribe None demo_ring);
       (e1, subscribers1, r1) = publish_append ''a'' 1 (Aware 0) None [] r0;
       (e2, subscribers2, r2) = publish_append ''b'' 1 (Aware 0) None [] r1;
       r3 = fold (offer_to e2) subscribers2 r2;
       r4 = fold (offer_to e1) subscribers1 r3
   in map ev_event_id (fst (drain_subscriber 0 r4)) = [2, 1]"
  by (simp add: ring_eval)

end
