(* ===== verification/Json.thy ===== *)
theory Json
  imports Prelude
begin

text \<open>
  Decoded JSON documents and the text conversions both services apply to input from outside. An
  object is the list of its members in order, with distinct names as \<open>json.loads\<close> builds it; a float
  is kept as the text Python prints for it.
\<close>

datatype json = JNull | JBool bool | JInt int | JFloat string | JStr string | JList "json list"
  | JObj "(string \<times> json) list"

type_synonym members = "(string \<times> json) list"

definition key_set :: "members \<Rightarrow> string set" where
  "key_set m = set (map fst m)"

definition has_exactly :: "members \<Rightarrow> string list \<Rightarrow> bool" where
  "has_exactly m names = (list_all (\<lambda>n. n \<in> set names) (map fst m) \<and> list_all (\<lambda>n. n \<in> set (map fst m)) names)"

text \<open>The limit of \<open>sys.set_int_max_str_digits\<close>.\<close>

definition INT_MAX_STR_DIGITS :: nat where
  "INT_MAX_STR_DIGITS = 4300"

text \<open>\<open>int(text)\<close>, \<open>None\<close> where it raises \<open>ValueError\<close>: surrounding white space, a sign, and single
  underscores between digits are accepted.\<close>

definition py_int :: "string \<Rightarrow> int option" where
  "py_int text =
     (let t = strip text;
          neg = startswith t ''-'';
          u = (if neg \<or> startswith t ''+'' then tl t else t);
          ds = filter (\<lambda>c. c \<noteq> CHR ''_'') u
      in if list_all (\<lambda>p. p \<noteq> [] \<and> list_all is_digit p) (split_on (CHR ''_'') u) \<and> length ds \<le> INT_MAX_STR_DIGITS
         then Some (if neg then - int (dec_val ds) else int (dec_val ds)) else None)"

definition to_lower :: "char \<Rightarrow> char" where
  "to_lower c = (if is_upper c then char_of (ord c + 32) else c)"

definition lower :: "string \<Rightarrow> string" where
  "lower s = map to_lower s"

lemma has_exactly_iff: "has_exactly m names \<longleftrightarrow> key_set m = set names"
  by (auto simp: has_exactly_def key_set_def list_all_iff)

lemma split_on_absent: "d \<notin> set s \<Longrightarrow> split_on d s = [s]"
  by (induction s) auto

lemma strip_id: "s \<noteq> [] \<Longrightarrow> \<not> isspace (hd s) \<Longrightarrow> \<not> isspace (last s) \<Longrightarrow> strip s = s"
proof -
  assume s: "s \<noteq> []" "\<not> isspace (hd s)" "\<not> isspace (last s)"
  then have "lstrip s = s" by (cases s) (auto simp: lstrip_def)
  moreover have "lstrip (rev s) = rev s" using s by (cases "rev s") (auto simp: lstrip_def hd_rev [symmetric])
  ultimately show ?thesis by (simp add: strip_def)
qed

lemma strip_digits: "s \<noteq> [] \<Longrightarrow> list_all is_digit s \<Longrightarrow> strip s = s"
proof -
  assume s: "s \<noteq> []" "list_all is_digit s"
  have "\<not> isspace c" if "is_digit c" for c using that by (auto simp: is_digit_def isspace_def ord_def Let_def)
  then show "strip s = s" using s by (intro strip_id) (auto simp: list_all_iff)
qed

lemma py_int_digits:
  assumes "s \<noteq> []" "list_all is_digit s"
  shows "py_int s = (if length s \<le> INT_MAX_STR_DIGITS then Some (int (dec_val s)) else None)"
proof -
  have plain: "c \<noteq> CHR ''_''" "c \<noteq> CHR ''-''" "c \<noteq> CHR ''+''" if "is_digit c" for c
    using that by (auto simp: is_digit_def ord_def)
  have digit: "is_digit c" if "c \<in> set s" for c using assms(2) that by (auto simp: list_all_iff)
  have "strip s = s" using assms by (rule strip_digits)
  moreover have "split_on (CHR ''_'') s = [s]" using digit plain by (intro split_on_absent) blast
  moreover have "filter (\<lambda>c. c \<noteq> CHR ''_'') s = s" using digit plain by (auto intro!: filter_True)
  moreover have "\<not> startswith s ''-''" "\<not> startswith s ''+''"
    using assms(1) digit plain by (cases s; force simp: startswith_def)+
  ultimately show ?thesis using assms by (simp add: py_int_def Let_def)
qed

lemma py_int_nat_str: "length (nat_str n) \<le> INT_MAX_STR_DIGITS \<Longrightarrow> py_int (nat_str n) = Some (int n)"
  using py_int_digits [of "nat_str n"] nat_str_digits [of n] by (simp add: list_all_iff)

lemma nat_str_length: "n < 10 ^ Suc k \<Longrightarrow> length (nat_str n) \<le> Suc k"
proof (induction k arbitrary: n)
  case 0
  then show ?case by (simp add: nat_str.simps [of n])
next
  case (Suc k)
  have "n div 10 < 10 ^ Suc k" using Suc.prems by (simp add: less_mult_imp_div_less)
  from Suc.IH [OF this] show ?case by (subst nat_str.simps) simp
qed

lemma py_int_nat_str_64: "int n \<le> 2 ^ 63 \<Longrightarrow> py_int (nat_str n) = Some (int n)"
  using nat_str_length [of n 18] by (intro py_int_nat_str) (simp add: INT_MAX_STR_DIGITS_def)

end
