(* ===== verification/Storage_Health.thy ===== *)
theory Storage_Health
  imports Operations Json
begin

text \<open>
  The storage health probe (\<open>storage_health.py\<close>): the floor of free disk space and the freshness of
  the backup marker. What the operating system and the libraries answer is the record \<open>host\<close>: the
  file at a path, the free space of a file system (\<open>None\<close> where the call raises \<open>OSError\<close>), and the
  decoders of the standard library with \<open>None\<close> for the exception they raise: \<open>UnicodeDecodeError\<close>,
  \<open>JSONDecodeError\<close>, and \<open>ValueError\<close> of \<open>datetime.fromisoformat(str(v))\<close>.
\<close>

section \<open>The host\<close>

text \<open>A file has its permission bits and its bytes.\<close>

datatype file_node = No_file | Unreadable_file | File nat string

record host =
  h_files :: "string \<Rightarrow> file_node"
  h_free :: "string \<Rightarrow> int option"
  h_utf8 :: "string \<Rightarrow> string option"
  h_json :: "string \<Rightarrow> json option"
  h_iso :: "json \<Rightarrow> datetime option"

datatype monitor_error = DurabilityThreatError | MonitorFailure string

text \<open>\<open>Path(p).parent\<close> for a path without doubled or trailing slashes.\<close>

definition path_parent :: "string \<Rightarrow> string" where
  "path_parent p = (case rpartition (CHR ''/'') p of
     None \<Rightarrow> ''.'' | Some (front, _) \<Rightarrow> if front = [] then ''/'' else front)"

text \<open>\<open>bool(v)\<close>; the text of a float that is zero is \<open>0.0\<close> or \<open>-0.0\<close>.\<close>

fun truthy :: "json \<Rightarrow> bool" where
  "truthy JNull = False"
| "truthy (JBool b) = b"
| "truthy (JInt i) = (i \<noteq> 0)"
| "truthy (JFloat t) = (t \<noteq> ''0.0'' \<and> t \<noteq> ''-0.0'')"
| "truthy (JStr s) = (s \<noteq> [])"
| "truthy (JList xs) = (xs \<noteq> [])"
| "truthy (JObj m) = (m \<noteq> [])"

section \<open>The checks\<close>

definition PRODUCTION_MINIMUM_FREE_BYTES :: int where
  "PRODUCTION_MINIMUM_FREE_BYTES = 500 * 1024 * 1024"

definition PRODUCTION_BACKUP_MARKER_PATH :: string where
  "PRODUCTION_BACKUP_MARKER_PATH = ''/var/lib/cs71d/backup-status.json''"

text \<open>48 hours in microseconds.\<close>

definition PRODUCTION_BACKUP_MAX_AGE :: int where
  "PRODUCTION_BACKUP_MAX_AGE = 48 * 3600 * 1000000"

definition disk_space_check :: "host \<Rightarrow> string \<Rightarrow> int \<Rightarrow> (monitor_error, unit) result" where
  "disk_space_check h path minimum_free_bytes =
     bind_r (of_option DurabilityThreatError (h_free h path)) (\<lambda>free.
       require (free \<ge> minimum_free_bytes) DurabilityThreatError)"

fun read_marker :: "host \<Rightarrow> file_node \<Rightarrow> (monitor_error, string) result" where
  "read_marker h No_file = Inl DurabilityThreatError"
| "read_marker h Unreadable_file = Inl DurabilityThreatError"
| "read_marker h (File mode bytes) = of_option (MonitorFailure ''UnicodeDecodeError'') (h_utf8 h bytes)"

text \<open>\<open>document["ok"]\<close> raises \<open>KeyError\<close> on an object without it and \<open>TypeError\<close> on anything else.\<close>

fun marker_item :: "json \<Rightarrow> string \<Rightarrow> json option" where
  "marker_item (JObj m) name = map_of m name"
| "marker_item _ name = None"

definition marker_document :: "host \<Rightarrow> string \<Rightarrow> (monitor_error, bool \<times> datetime) result" where
  "marker_document h raw =
     bind_r (of_option DurabilityThreatError (h_json h raw)) (\<lambda>document.
     bind_r (of_option DurabilityThreatError (marker_item document ''ok'')) (\<lambda>flag.
     bind_r (of_option DurabilityThreatError (marker_item document ''completed_at'')) (\<lambda>moment.
     bind_r (of_option DurabilityThreatError (h_iso h moment)) (\<lambda>completed_at.
       Inr (truthy flag, completed_at)))))"

fun marker_age :: "int \<Rightarrow> datetime \<Rightarrow> int option" where
  "marker_age now (Naive t) = None"
| "marker_age now (Aware t) = Some (now - t)"

definition backup_freshness_check :: "host \<Rightarrow> string \<Rightarrow> int \<Rightarrow> int \<Rightarrow> (monitor_error, unit) result" where
  "backup_freshness_check h marker_path maximum_age now =
     bind_r (read_marker h (h_files h marker_path)) (\<lambda>raw.
     bind_r (marker_document h raw) (\<lambda>(ok, completed_at).
     bind_r (require ok DurabilityThreatError) (\<lambda>_.
     bind_r (of_option DurabilityThreatError (marker_age now completed_at)) (\<lambda>age.
       require (age \<le> maximum_age) DurabilityThreatError))))"

fun run_checks :: "(monitor_error, unit) result list \<Rightarrow> (monitor_error, unit) result" where
  "run_checks [] = Inr ()"
| "run_checks (one # rest) = bind_r one (\<lambda>_. run_checks rest)"

definition production_durability_monitor :: "host \<Rightarrow> string \<Rightarrow> int \<Rightarrow> (monitor_error, unit) result" where
  "production_durability_monitor h database_path now = run_checks
     [disk_space_check h (path_parent database_path) PRODUCTION_MINIMUM_FREE_BYTES,
      backup_freshness_check h PRODUCTION_BACKUP_MARKER_PATH PRODUCTION_BACKUP_MAX_AGE now]"

section \<open>What a passing check means\<close>

lemma run_checks_ok: "run_checks cs = Inr () \<longleftrightarrow> list_all (\<lambda>c. c = Inr ()) cs"
  by (induction cs) (auto simp: bind_r_def split: sum.splits)

lemma read_marker_ok: "read_marker h f = Inr t \<longleftrightarrow> (\<exists>mode bytes. f = File mode bytes \<and> h_utf8 h bytes = Some t)"
  by (cases f) (auto simp: of_option_def split: option.splits)

lemma marker_item_Some: "marker_item d n = Some v \<longleftrightarrow> (\<exists>m. d = JObj m \<and> map_of m n = Some v)"
  by (cases d) auto

lemma marker_age_Some: "marker_age now c = Some age \<longleftrightarrow> (\<exists>t. c = Aware t \<and> age = now - t)"
  by (cases c) auto

lemma disk_space_ok: "disk_space_check h p least = Inr () \<longleftrightarrow> (\<exists>free. h_free h p = Some free \<and> least \<le> free)"
  by (auto simp: disk_space_check_def bind_r_def of_option_def require_def split: option.splits)

lemma marker_document_ok:
  "marker_document h raw = Inr (ok, c) \<longleftrightarrow> (\<exists>m flag moment. h_json h raw = Some (JObj m) \<and>
     map_of m ''ok'' = Some flag \<and> map_of m ''completed_at'' = Some moment \<and> h_iso h moment = Some c \<and> ok = truthy flag)"
  by (auto simp: marker_document_def bind_r_def of_option_def marker_item_Some split: option.splits)

text \<open>A marker that proves a recent backup.\<close>

definition fresh_marker :: "host \<Rightarrow> string \<Rightarrow> int \<Rightarrow> int \<Rightarrow> bool" where
  "fresh_marker h path age now = (\<exists>mode bytes raw m flag moment t. h_files h path = File mode bytes \<and>
     h_utf8 h bytes = Some raw \<and> h_json h raw = Some (JObj m) \<and> map_of m ''ok'' = Some flag \<and> truthy flag \<and>
     map_of m ''completed_at'' = Some moment \<and> h_iso h moment = Some (Aware t) \<and> now - t \<le> age)"

lemma backup_freshness_ok: "backup_freshness_check h p age now = Inr () \<longleftrightarrow> fresh_marker h p age now"
proof -
  have "backup_freshness_check h p age now = Inr () \<longleftrightarrow>
      (\<exists>raw ok c. read_marker h (h_files h p) = Inr raw \<and> marker_document h raw = Inr (ok, c) \<and> ok \<and>
         (\<exists>a. marker_age now c = Some a \<and> a \<le> age))"
    by (auto simp: backup_freshness_check_def bind_r_def of_option_def require_def split: sum.splits option.splits)
  also have "\<dots> \<longleftrightarrow> fresh_marker h p age now"
    unfolding read_marker_ok marker_document_ok marker_age_Some fresh_marker_def by blast
  finally show ?thesis .
qed

lemma monitor_passes_iff:
  "production_durability_monitor h db now = Inr () \<longleftrightarrow>
     (\<exists>free. h_free h (path_parent db) = Some free \<and> PRODUCTION_MINIMUM_FREE_BYTES \<le> free) \<and>
     fresh_marker h PRODUCTION_BACKUP_MARKER_PATH PRODUCTION_BACKUP_MAX_AGE now"
  by (simp add: production_durability_monitor_def run_checks_ok disk_space_ok backup_freshness_ok del: run_checks.simps)

text \<open>The marker of a failed backup passes when its flag is the text \<open>false\<close>, and so does one dated in
  the future, however far.\<close>

lemma textual_failure_passes:
  assumes "h_files h p = File mode bytes" "h_utf8 h bytes = Some raw"
    "h_json h raw = Some (JObj [(''ok'', JStr ''false''), (''completed_at'', moment)])"
    "h_iso h moment = Some (Aware t)" "now \<le> t" "0 \<le> age"
  shows "backup_freshness_check h p age now = Inr ()"
  unfolding backup_freshness_ok fresh_marker_def using assms
  by (intro exI [of _ mode] exI [of _ bytes] exI [of _ raw]) auto

text \<open>The two ways a check fails: every unreadable, malformed, failed or stale marker is a threat, except
  bytes that are not UTF-8, whose exception is not caught.\<close>

lemma monitor_failure_iff:
  "production_durability_monitor h db now = Inl (MonitorFailure e) \<longleftrightarrow>
     e = ''UnicodeDecodeError'' \<and>
     (\<exists>free. h_free h (path_parent db) = Some free \<and> PRODUCTION_MINIMUM_FREE_BYTES \<le> free) \<and>
     (\<exists>mode bytes. h_files h PRODUCTION_BACKUP_MARKER_PATH = File mode bytes \<and> h_utf8 h bytes = None)"
  by (cases "h_files h PRODUCTION_BACKUP_MARKER_PATH")
     (auto simp: production_durability_monitor_def disk_space_check_def backup_freshness_check_def marker_document_def
        bind_r_def of_option_def require_def split: option.splits sum.splits if_splits)

end
