(* ===== verification/Domain.thy ===== *)
theory Domain
  imports Adapters Configuration Journal Events Storage_Health
begin

text \<open>
  Operation admission, dispatch and terminal outcome (\<open>domain.py\<close>). A method is a function from
  the domain's state to its result or exception and the new state. What the code gets from its
  environment is part of the state: the clock and the fresh UUIDs are sequences of which each
  call uses the next value, the storage health checks are a script of outcomes, and the text of
  an exception is a function. The serial worker is seen through its interface: whether it
  refuses an intent is an argument, an accepted intent is appended to \<open>d_sent\<close>, and the worker
  thread later calls \<open>dispatch\<close> and the settle callbacks. No observer other than the event ring is
  installed, as in \<open>runtime.py\<close>.
\<close>

section \<open>State\<close>

record domain =
  d_journal :: journal
  d_machine :: machine_state
  d_events :: event_ring
  d_clock :: "nat \<Rightarrow> datetime"
  d_ticks :: nat
  d_uuids :: "nat \<Rightarrow> string"
  d_issued :: nat
  d_text :: "failure \<Rightarrow> string"
  d_threats :: "(monitor_error, unit) result list option"
  d_sha256 :: "string \<Rightarrow> string"
  d_idempotency_ttl :: int
  d_min_deadline_ms :: int
  d_max_deadline_ms :: int
  d_configuration :: configuration_values
  d_configuration_generation :: int
  d_configured_at :: datetime
  d_sent :: "(string \<times> worker_intent option) list"

abbreviation d_view :: "domain \<Rightarrow> machine_snapshot" where
  "d_view d \<equiv> m_snapshot (d_machine d)"

type_synonym 'a call = "domain \<Rightarrow> (daemon_error, 'a) result \<times> domain"

definition dbind :: "'a call \<Rightarrow> ('a \<Rightarrow> 'b call) \<Rightarrow> 'b call" where
  "dbind m f d = (case m d of (Inl e, d') \<Rightarrow> (Inl e, d') | (Inr x, d') \<Rightarrow> f x d')"

definition dreturn :: "'a \<Rightarrow> 'a call" where
  "dreturn x d = (Inr x, d)"

definition draise :: "daemon_error \<Rightarrow> 'a call" where
  "draise e d = (Inl e, d)"

definition dlift :: "(daemon_error, 'a) result \<Rightarrow> 'a call" where
  "dlift r d = (r, d)"

definition djournal :: "(journal \<Rightarrow> (daemon_error, 'a) result \<times> journal) \<Rightarrow> 'a call" where
  "djournal f d = (case f (d_journal d) of (r, j) \<Rightarrow> (r, d\<lparr> d_journal := j \<rparr>))"

definition now :: "datetime call" where
  "now d = (Inr (d_clock d (d_ticks d)), d\<lparr> d_ticks := Suc (d_ticks d) \<rparr>)"

definition new_operation_id :: "string call" where
  "new_operation_id d = (Inr (d_uuids d (d_issued d)), d\<lparr> d_issued := Suc (d_issued d) \<rparr>)"

section \<open>Events and the machine view\<close>

fun connection_name :: "connection_state \<Rightarrow> string" where
  "connection_name CS_disconnected = ''DISCONNECTED''"
| "connection_name CS_connecting = ''CONNECTING''"
| "connection_name CS_verifying_v1 = ''VERIFYING_V1''"
| "connection_name CS_activating_v2 = ''ACTIVATING_V2''"
| "connection_name CS_ready = ''READY''"
| "connection_name CS_recovering = ''RECOVERING''"
| "connection_name CS_uncertain = ''UNCERTAIN''"

fun fault_name :: "fault_state \<Rightarrow> string" where
  "fault_name FS_clear = ''CLEAR''"
| "fault_name FS_active = ''ACTIVE''"
| "fault_name FS_latched = ''LATCHED''"
| "fault_name FS_uncertain = ''UNCERTAIN''"

fun action_name :: "operation_action \<Rightarrow> string" where
  "action_name OA_connect = ''CONNECT''"
| "action_name OA_recover = ''RECOVER''"
| "action_name OA_home = ''HOME''"
| "action_name OA_sort = ''SORT''"
| "action_name OA_feed = ''FEED''"
| "action_name OA_stop = ''STOP''"
| "action_name OA_configure = ''CONFIGURE''"

fun state_name :: "operation_state \<Rightarrow> string" where
  "state_name OS_queued = ''QUEUED''"
| "state_name OS_accepted = ''ACCEPTED''"
| "state_name OS_running = ''RUNNING''"
| "state_name OS_succeeded = ''SUCCEEDED''"
| "state_name OS_failed = ''FAILED''"
| "state_name OS_cancelled = ''CANCELLED''"
| "state_name OS_uncertain = ''UNCERTAIN''"

definition publish_at_now :: "string \<Rightarrow> int \<Rightarrow> string option \<Rightarrow> fields \<Rightarrow> domain \<Rightarrow> domain" where
  "publish_at_now event_type generation operation_id data d =
     d\<lparr> d_events := snd (publish_event event_type generation (d_clock d (d_ticks d)) operation_id data (d_events d)),
        d_ticks := Suc (d_ticks d) \<rparr>"

definition machine_event_type :: "machine_snapshot \<Rightarrow> string" where
  "machine_event_type view =
     (if \<not> ms_journal_available view \<and> ms_fault_id view \<noteq> None then ''journal.fault''
      else if ms_active_operation_id view \<noteq> None \<or> startswith (ms_reason view) ''operation ''
      then ''operation.progress''
      else ''snapshot.changed'')"

definition publish_machine_event :: "machine_snapshot \<Rightarrow> domain \<Rightarrow> domain" where
  "publish_machine_event view =
     publish_at_now (machine_event_type view) (ms_generation view) (ms_active_operation_id view)
       [(''connection_state'', connection_name (ms_connection view)), (''fault_state'', fault_name (ms_fault view))]"

text \<open>The machine view after one of its methods: each snapshot it published reaches the
  observer.\<close>

definition install_machine :: "machine_state \<Rightarrow> domain \<Rightarrow> domain" where
  "install_machine m d =
     fold publish_machine_event (drop (length (m_history (d_machine d))) (m_history m)) (d\<lparr> d_machine := m \<rparr>)"

definition observe_session :: "session_snapshot \<Rightarrow> domain \<Rightarrow> domain" where
  "observe_session session d = install_machine (snd (observe_connection session (d_machine d))) d"

definition firmware_of :: "capabilities \<Rightarrow> firmware_profile" where
  "firmware_of c = \<lparr> fp_protocol_version = cap_protocol c, fp_slot_max = cap_slot_max c,
     fp_slot_count = cap_slot_count c, fp_queue_depth = cap_queue_depth c,
     fp_feed_sensor = cap_feed_sensor c, fp_feed_home = cap_feed_home c, fp_sort_home = cap_sort_home c \<rparr>"

definition readiness_of :: "status \<Rightarrow> machine_readiness" where
  "readiness_of s = \<lparr> mr_feed_homed = s_feed_homed s, mr_sort_homed = s_sort_homed s,
     mr_fault_code = s_fault_code s, mr_mode = s_mode s, mr_phase = s_phase s \<rparr>"

definition observe_session_profile :: "capabilities \<Rightarrow> status \<Rightarrow> domain \<Rightarrow> domain" where
  "observe_session_profile c s d =
     install_machine (snd (observe_profile (firmware_of c) (readiness_of s) (d_machine d))) d"

definition latch_journal_fault :: "string \<Rightarrow> domain \<Rightarrow> domain" where
  "latch_journal_fault reason d =
     (let fault_id = d_uuids d (d_issued d);
          opened_at = d_clock d (d_ticks d);
          d' = d\<lparr> d_issued := Suc (d_issued d), d_ticks := Suc (d_ticks d) \<rparr>
      in install_machine (snd (Machine.record_journal_fault reason (Some fault_id) (Some opened_at) (d_machine d'))) d')"

definition refresh_durability :: "unit call" where
  "refresh_durability d =
     (if \<not> ms_journal_available (d_view d) then (Inr (), d)
      else case d_threats d of
             None \<Rightarrow> (Inr (), d)
           | Some [] \<Rightarrow> (Inr (), d)
           | Some (outcome # rest) \<Rightarrow>
               let d' = d\<lparr> d_threats := Some rest \<rparr>
               in case outcome of
                    Inr _ \<Rightarrow> (Inr (), d')
                  | Inl DurabilityThreatError \<Rightarrow> (Inr (), latch_journal_fault ''durability threat'' d')
                  | Inl (MonitorFailure e) \<Rightarrow> (Inl (OtherError e), d'))"

definition require_durable :: "machine_snapshot \<Rightarrow> unit call" where
  "require_durable view =
     (if ms_journal_available view then dreturn () else draise (DomainError JournalUnavailableError None))"

text \<open>\<open>_durable\<close>: a journal error of the block latches the machine and becomes a domain error.\<close>

definition durable :: "string \<Rightarrow> 'a call \<Rightarrow> 'a call" where
  "durable activity block d =
     (case block d of
        (Inl JournalError, d') \<Rightarrow>
          (Inl (DomainError JournalUnavailableError None),
           latch_journal_fault (''journal failure while '' @ activity) d')
      | r \<Rightarrow> r)"

section \<open>Transitions\<close>

record settlement =
  st_trusted_terminal :: bool
  st_outcome :: "string option"
  st_protocol_request_id :: "nat option"
  st_terminal_fields :: "fields option"

definition plain :: settlement where
  "plain = \<lparr> st_trusted_terminal = False, st_outcome = None, st_protocol_request_id = None,
     st_terminal_fields = None \<rparr>"

definition write_transition ::
    "string \<Rightarrow> operation_state \<Rightarrow> string \<Rightarrow> string option \<Rightarrow> settlement \<Rightarrow> operation_record call" where
  "write_transition operation_id state reason active s d =
     (let block = (\<lambda>generation. dbind now (\<lambda>at. djournal (record_transition operation_id
            \<lparr> tr_to_state = state, tr_generation = generation, tr_occurred_at = at, tr_reason = reason,
              tr_trusted_terminal = st_trusted_terminal s, tr_outcome = st_outcome s,
              tr_protocol_request_id = st_protocol_request_id s,
              tr_terminal_fields = st_terminal_fields s \<rparr>)))
      in case machine_transition active (''operation '' @ state_value state @ '': '' @ reason) block (d_machine d) d of
           (r, m, d') \<Rightarrow> (r, install_machine m d'))"

definition SETTLED :: "operation_state list" where
  "SETTLED = [OS_succeeded, OS_failed, OS_cancelled, OS_uncertain]"

definition transition ::
    "string \<Rightarrow> operation_state \<Rightarrow> string \<Rightarrow> settlement \<Rightarrow> operation_record call" where
  "transition operation_id state reason s d =
     (case write_transition operation_id state reason
             (if state \<in> set SETTLED then None else Some operation_id) s d of
        (Inl JournalError, d') \<Rightarrow>
          (Inl JournalError, latch_journal_fault
             (''journal failure recording '' @ state_value state @ '' for operation '' @ operation_id) d')
      | (Inl e, d') \<Rightarrow> (Inl e, d')
      | (Inr record, d') \<Rightarrow>
          (Inr record, publish_at_now
             (if is_terminal (o_state record) then ''operation.terminal'' else ''operation.accepted'')
             (o_generation record) (Some (o_operation_id record))
             [(''type'', action_name (o_action record)), (''state'', state_name (o_state record))] d'))"

text \<open>\<open>_safe_transition\<close> swallows a journal error only; any other exception escapes.\<close>

definition safe_transition ::
    "string \<Rightarrow> operation_state \<Rightarrow> string \<Rightarrow> settlement \<Rightarrow> unit call" where
  "safe_transition operation_id state reason s d =
     (case transition operation_id state reason s d of
        (Inl JournalError, d') \<Rightarrow> (Inr (), d')
      | (Inl e, d') \<Rightarrow> (Inl e, d')
      | (Inr _, d') \<Rightarrow> (Inr (), d'))"

section \<open>Admission\<close>

definition require_deadline :: "domain \<Rightarrow> body_value \<Rightarrow> (daemon_error, int) result" where
  "require_deadline d deadline_ms =
     (case deadline_ms of
        BV_int ms \<Rightarrow> if d_min_deadline_ms d \<le> ms \<and> ms \<le> d_max_deadline_ms d then Inr (ms * 1000)
                     else Inl (DomainError DeadlineInvalidError None)
      | _ \<Rightarrow> Inl (DomainError DeadlineInvalidError None))"

definition replay :: "string \<Rightarrow> string \<Rightarrow> datetime \<Rightarrow> operation_record option call" where
  "replay key fingerprint at =
     dbind (djournal (idempotency_lookup key at)) (\<lambda>existing.
       case existing of
         None \<Rightarrow> dreturn None
       | Some i \<Rightarrow>
           if i_fingerprint i \<noteq> fingerprint then draise (DomainError IdempotencyConflictError None)
           else dbind (djournal (journal_operation (i_operation_id i))) (\<lambda>record.
             case record of None \<Rightarrow> draise JournalError | Some r \<Rightarrow> dreturn (Some r)))"

record admission =
  ad_action :: operation_action
  ad_fingerprint :: string
  ad_actor :: actor
  ad_key :: string
  ad_now :: datetime
  ad_window :: int
  ad_reason :: string

definition queued_record :: "admission \<Rightarrow> string \<Rightarrow> int \<Rightarrow> operation_record" where
  "queued_record a operation_id generation =
     \<lparr> o_operation_id = operation_id, o_action = ad_action a, o_fingerprint = ad_fingerprint a,
       o_state = OS_queued, o_generation = generation, o_created_at = ad_now a,
       o_deadline_at = after_us (ad_now a) (ad_window a), o_actor = ad_actor a,
       o_trusted_terminal = False, o_outcome = None, o_terminal_at = None,
       o_protocol_request_id = None, o_terminal_fields = None \<rparr>"

definition key_record :: "admission \<Rightarrow> string \<Rightarrow> int \<Rightarrow> idempotency_record" where
  "key_record a operation_id ttl =
     \<lparr> i_key = ad_key a, i_fingerprint = ad_fingerprint a, i_operation_id = operation_id,
       i_created_at = ad_now a, i_expires_at = after_us (ad_now a) ttl \<rparr>"

definition admit :: "admission \<Rightarrow> machine_snapshot \<Rightarrow> operation_record call" where
  "admit a view =
     dbind new_operation_id (\<lambda>operation_id.
     dbind (dlift (make_operation_record (queued_record a operation_id (ms_generation view)))) (\<lambda>operation.
     dbind (\<lambda>d. (make_idempotency_record (key_record a operation_id (d_idempotency_ttl d)), d)) (\<lambda>idempotency.
     dbind (djournal (record_admission operation
              (''admitted against generation '' @ int_str (ms_generation view)) (Some idempotency))) (\<lambda>_.
       transition (o_operation_id operation) OS_accepted (ad_reason a) plain))))"

text \<open>The common admission decision against the frozen view: replay, generation, the caller's
  own readiness checks, and the durable admission. \<open>Inl\<close> of the result is the replayed
  operation, which ends the call.\<close>

definition decide ::
    "string \<Rightarrow> admission \<Rightarrow> int option \<Rightarrow> (machine_snapshot \<Rightarrow> unit call)
       \<Rightarrow> (operation_record \<Rightarrow> operation_record call) \<Rightarrow> (operation_record + operation_record) call" where
  "decide activity a expected_generation ready continue d =
     (let view = d_view d in
      dbind (require_durable view) (\<lambda>_.
      durable activity
        (dbind (replay (ad_key a) (ad_fingerprint a) (ad_now a)) (\<lambda>replayed.
         case replayed of
           Some r \<Rightarrow> dreturn (Inl r)
         | None \<Rightarrow>
             if (case expected_generation of None \<Rightarrow> False | Some g \<Rightarrow> g \<noteq> ms_generation view)
             then draise (DomainError StaleGenerationError None)
             else dbind (ready view) (\<lambda>_.
                  dbind (admit a view) (\<lambda>accepted.
                  dbind (continue accepted) (\<lambda>r. dreturn (Inr r))))))) d)"

section \<open>Outcomes\<close>

fun worker_error_name :: "worker_error \<Rightarrow> string" where
  "worker_error_name WorkerNotRunningError = ''WorkerNotRunningError''"
| "worker_error_name SessionNotReadyError = ''SessionNotReadyError''"
| "worker_error_name QueueFullError = ''QueueFullError''"
| "worker_error_name StopInProgressError = ''StopInProgressError''"
| "worker_error_name PreemptedByStopError = ''PreemptedByStopError''"
| "worker_error_name PreemptedByRecoveryError = ''PreemptedByRecoveryError''"
| "worker_error_name WorkerUncertainError = ''WorkerUncertainError''"
| "worker_error_name WorkerStartupError = ''WorkerStartupError''"
| "worker_error_name WorkerShutdownTimeout = ''WorkerShutdownTimeout''"

fun protocol_error_name :: "protocol_error \<Rightarrow> string" where
  "protocol_error_name ProtocolError = ''ProtocolError''"
| "protocol_error_name FramingError = ''FramingError''"
| "protocol_error_name ParseError = ''ParseError''"
| "protocol_error_name CrcError = ''CrcError''"
| "protocol_error_name TimeoutError = ''TimeoutError''"
| "protocol_error_name (RecoveryError _) = ''RecoveryError''"
| "protocol_error_name RequestStateError = ''RequestStateError''"
| "protocol_error_name RequestInterruptedError = ''RequestInterruptedError''"
| "protocol_error_name OSError = ''OSError''"
| "protocol_error_name ValueError = ''ValueError''"

fun outcome_of :: "failure \<Rightarrow> string" where
  "outcome_of (Daemon_failure (DomainError k _)) = error_code k"
| "outcome_of (Daemon_failure JournalError) = ''JournalError''"
| "outcome_of (Daemon_failure (OtherError name)) = name"
| "outcome_of (Worker_failure e) = worker_error_name e"
| "outcome_of (Protocol_failure e) = protocol_error_name e"

definition NEVER_DISPATCHED :: "worker_error list" where
  "NEVER_DISPATCHED = [WorkerNotRunningError, SessionNotReadyError, QueueFullError, StopInProgressError]"

text \<open>The last two cases of \<open>_classify\<close>.\<close>

definition classify_other :: "operation_state \<Rightarrow> string \<Rightarrow> operation_state \<times> string" where
  "classify_other current text =
     (if current \<noteq> OS_running then (OS_failed, ''failed before transmission: '' @ text)
      else (OS_uncertain, ''transmitted without a trusted terminal: '' @ text))"

fun classify :: "(failure \<Rightarrow> string) \<Rightarrow> operation_state \<Rightarrow> failure \<Rightarrow> operation_state \<times> string" where
  "classify str current (Daemon_failure (DomainError DeadlineExpiredError i)) =
     (OS_failed, ''deadline expired before transmission'')"
| "classify str current (Worker_failure e) =
     (if e = PreemptedByStopError then (OS_cancelled, ''invalidated by a trusted priority stop'')
      else if e = PreemptedByRecoveryError then (OS_cancelled, ''discarded by session recovery; never replayed'')
      else if e = WorkerUncertainError
      then (OS_uncertain, ''worker could not establish a trusted outcome: '' @ str (Worker_failure e))
      else if e \<in> set NEVER_DISPATCHED then (OS_cancelled, ''never dispatched: '' @ str (Worker_failure e))
      else classify_other current (str (Worker_failure e)))"
| "classify str current e = classify_other current (str e)"

definition is_trusted_terminal :: "completion \<Rightarrow> (protocol_error, bool) result" where
  "is_trusted_terminal c =
     (case terminal_response c of
        Inl ParseError \<Rightarrow> Inr False
      | Inl e \<Rightarrow> Inl e
      | Inr t \<Rightarrow> Inr (c_succeeded c \<and> r_kind t = RK_DONE \<and> request_id t = c_request_id c))"

fun translate :: "worker_error \<Rightarrow> string \<Rightarrow> daemon_error" where
  "translate QueueFullError operation_id = DomainError OperationQueueFullError (Some operation_id)"
| "translate _ operation_id = DomainError NotReadyError (Some operation_id)"

definition current_record :: "string \<Rightarrow> operation_record option call" where
  "current_record operation_id d =
     (case djournal (journal_operation operation_id) d of
        (Inl JournalError, d') \<Rightarrow> (Inr None, latch_journal_fault ''journal read failed'' d')
      | r \<Rightarrow> r)"

definition resolve :: "string \<Rightarrow> failure \<Rightarrow> unit call" where
  "resolve operation_id error =
     dbind (current_record operation_id) (\<lambda>record.
       case record of
         None \<Rightarrow> dreturn ()
       | Some r \<Rightarrow>
           if is_terminal (o_state r) then dreturn ()
           else (\<lambda>d. case classify (d_text d) (o_state r) error of
                  (state, reason) \<Rightarrow>
                    safe_transition operation_id state reason (plain\<lparr> st_outcome := Some (outcome_of error) \<rparr>) d))"

definition SESSION_ACTIONS :: "operation_action list" where
  "SESSION_ACTIONS = [OA_connect, OA_recover]"

text \<open>A completion without a terminal response makes \<open>terminal_fields\<close> raise, and that exception
  leaves the callback.\<close>

definition complete :: "string \<Rightarrow> worker_result \<Rightarrow> unit call" where
  "complete operation_id result =
     dbind (current_record operation_id) (\<lambda>record.
       case record of
         None \<Rightarrow> dreturn ()
       | Some r \<Rightarrow>
           if is_terminal (o_state r) then dreturn ()
           else case result of
             WR_completion c \<Rightarrow>
               (case (is_trusted_terminal c, terminal_fields c) of
                  (Inr True, Inr fs) \<Rightarrow>
                    safe_transition operation_id OS_succeeded ''trusted correlated firmware terminal''
                      \<lparr> st_trusted_terminal = True, st_outcome = Some ''done'',
                        st_protocol_request_id = Some (c_request_id c), st_terminal_fields = Some fs \<rparr>
                | (Inr False, Inr fs) \<Rightarrow>
                    safe_transition operation_id OS_failed ''firmware reported a correlated error terminal''
                      \<lparr> st_trusted_terminal = False,
                        st_outcome = Some (case c_error c of None \<Rightarrow> ''error'' | Some f \<Rightarrow> f_name f),
                        st_protocol_request_id = Some (c_request_id c), st_terminal_fields = Some fs \<rparr>
                | (Inl e, _) \<Rightarrow> draise (OtherError (protocol_error_name e))
                | (_, Inl e) \<Rightarrow> draise (OtherError (protocol_error_name e)))
           | WR_status s \<Rightarrow>
               if o_action r \<in> set SESSION_ACTIONS then
                 safe_transition operation_id OS_succeeded ''session verified and required snapshots gathered''
                   \<lparr> st_trusted_terminal = True, st_outcome = Some ''ready'', st_protocol_request_id = None,
                     st_terminal_fields = Some [(''mode'', s_mode s), (''phase'', s_phase s)] \<rparr>
               else safe_transition operation_id OS_uncertain ''worker returned a non-command result: Status''
                   (plain\<lparr> st_outcome := Some ''UNEXPECTED_RESULT'' \<rparr>)
           | WR_capabilities _ \<Rightarrow>
               safe_transition operation_id OS_uncertain ''worker returned a non-command result: Capabilities''
                   (plain\<lparr> st_outcome := Some ''UNEXPECTED_RESULT'' \<rparr>)
           | WR_queue _ \<Rightarrow>
               safe_transition operation_id OS_uncertain ''worker returned a non-command result: QueueSnapshot''
                   (plain\<lparr> st_outcome := Some ''UNEXPECTED_RESULT'' \<rparr>))"

text \<open>The callbacks of the worker thread: just before the first byte of an intent, and when the
  future of an intent or of a stop is done.\<close>

definition dispatch :: "operation_record \<Rightarrow> unit call" where
  "dispatch operation =
     dbind now (\<lambda>moment.
     dbind (dlift (expired_at operation moment)) (\<lambda>expired.
       if expired then draise (DomainError DeadlineExpiredError None)
       else dbind (transition (o_operation_id operation) OS_running ''dispatched to the controller'' plain)
              (\<lambda>_. dreturn ())))"

definition settle :: "string \<Rightarrow> (failure, worker_result) result \<Rightarrow> unit call" where
  "settle operation_id outcome =
     (case outcome of Inl e \<Rightarrow> resolve operation_id e | Inr result \<Rightarrow> complete operation_id result)"

definition settle_stop :: "string \<Rightarrow> (failure, unit) result \<Rightarrow> unit call" where
  "settle_stop operation_id outcome =
     (case outcome of
        Inl e \<Rightarrow> resolve operation_id e
      | Inr _ \<Rightarrow> safe_transition operation_id OS_succeeded ''trusted exact stopped terminal''
          (plain\<lparr> st_trusted_terminal := True, st_outcome := Some ''stopped'' \<rparr>))"

section \<open>Entry points\<close>

text \<open>After the decision: hand the intent to the worker. \<open>refusal\<close> is the exception of
  \<open>worker.submit\<close>, if it raises; \<open>None\<close> as intent is the priority stop.\<close>

definition hand_over ::
    "worker_error option \<Rightarrow> worker_intent option \<Rightarrow> (operation_record + operation_record) \<Rightarrow> operation_record call" where
  "hand_over refusal intent decision =
     (case decision of
        Inl replayed \<Rightarrow> dreturn replayed
      | Inr accepted \<Rightarrow>
          (case refusal of
             Some e \<Rightarrow> dbind (resolve (o_operation_id accepted) (Worker_failure e)) (\<lambda>_.
                         draise (translate e (o_operation_id accepted)))
           | None \<Rightarrow> (\<lambda>d. (Inr accepted, d\<lparr> d_sent := d_sent d @ [(o_operation_id accepted, intent)] \<rparr>))))"

definition refreshed :: "'a call \<Rightarrow> 'a call" where
  "refreshed f = dbind refresh_durability (\<lambda>_. f)"

definition work_ready :: "worker_intent \<Rightarrow> machine_snapshot \<Rightarrow> unit call" where
  "work_ready intent view =
     (if \<not> admits_work view then draise (DomainError NotReadyError None)
      else dlift (require_supported intent view))"

definition submit ::
    "worker_error option \<Rightarrow> operation_action \<Rightarrow> request_body \<Rightarrow> actor \<Rightarrow> string \<Rightarrow> int \<Rightarrow> body_value
       \<Rightarrow> operation_record call" where
  "submit refusal action body actor idempotency_key expected_generation deadline_ms =
     dbind (dlift (intent_for action body)) (\<lambda>intent.
     dbind (\<lambda>d. (request_fingerprint (d_sha256 d) action body actor, d)) (\<lambda>fingerprint.
     dbind (dlift (require_idempotency_key idempotency_key)) (\<lambda>key.
     dbind (\<lambda>d. (require_deadline d deadline_ms, d)) (\<lambda>window.
     dbind now (\<lambda>at.
     refreshed
       (dbind (decide ''admitting an operation''
          \<lparr> ad_action = action, ad_fingerprint = fingerprint, ad_actor = actor, ad_key = key,
            ad_now = at, ad_window = window, ad_reason = ''admitted to the serial lane'' \<rparr>
          (Some expected_generation) (work_ready intent) dreturn)
        (hand_over refusal (Some intent))))))))"

definition stop ::
    "worker_error option \<Rightarrow> actor \<Rightarrow> string \<Rightarrow> int option \<Rightarrow> body_value \<Rightarrow> operation_record call" where
  "stop refusal actor idempotency_key expected_generation deadline_ms =
     dbind (\<lambda>d. (request_fingerprint (d_sha256 d) OA_stop [] actor, d)) (\<lambda>fingerprint.
     dbind (dlift (require_idempotency_key idempotency_key)) (\<lambda>key.
     dbind (\<lambda>d. (require_deadline d deadline_ms, d)) (\<lambda>window.
     dbind now (\<lambda>at.
     refreshed
       (dbind (decide ''admitting a priority stop''
          \<lparr> ad_action = OA_stop, ad_fingerprint = fingerprint, ad_actor = actor, ad_key = key,
            ad_now = at, ad_window = window, ad_reason = ''admitted to the priority stop lane'' \<rparr>
          expected_generation (\<lambda>_. dreturn ())
          (\<lambda>accepted. transition (o_operation_id accepted) OS_running ''handed to the priority stop lane'' plain))
        (hand_over refusal None))))))"

definition session_operation ::
    "worker_error option \<Rightarrow> operation_action \<Rightarrow> session_action \<Rightarrow> actor \<Rightarrow> string \<Rightarrow> int \<Rightarrow> body_value
       \<Rightarrow> operation_record call" where
  "session_operation refusal action session_act actor idempotency_key expected_generation deadline_ms =
     dbind (\<lambda>d. (request_fingerprint (d_sha256 d) action [] actor, d)) (\<lambda>fingerprint.
     dbind (dlift (require_idempotency_key idempotency_key)) (\<lambda>key.
     dbind (\<lambda>d. (require_deadline d deadline_ms, d)) (\<lambda>window.
     dbind now (\<lambda>at.
     refreshed
       (dbind (decide (''admitting a '' @ action_value action @ '' operation'')
          \<lparr> ad_action = action, ad_fingerprint = fingerprint, ad_actor = actor, ad_key = key,
            ad_now = at, ad_window = window,
            ad_reason = ''admitted to the serial lane as a '' @ action_value action @ '' operation'' \<rparr>
          (Some expected_generation) (\<lambda>_. dreturn ()) dreturn)
        (hand_over refusal (Some (SessionIntent session_act))))))))"

definition connect ::
    "worker_error option \<Rightarrow> actor \<Rightarrow> string \<Rightarrow> int \<Rightarrow> body_value \<Rightarrow> operation_record call" where
  "connect refusal = session_operation refusal OA_connect SA_connect"

definition recover ::
    "worker_error option \<Rightarrow> actor \<Rightarrow> string \<Rightarrow> int \<Rightarrow> body_value \<Rightarrow> operation_record call" where
  "recover refusal = session_operation refusal OA_recover SA_recover"

definition configuration :: "(configuration_values \<times> int \<times> datetime) call" where
  "configuration =
     dbind (djournal applied_configuration) (\<lambda>applied.
       case applied of
         None \<Rightarrow> (\<lambda>d. (Inr (d_configuration d, d_configuration_generation d, d_configured_at d), d))
       | Some (values, generation, created_at) \<Rightarrow>
           dbind (dlift (from_mapping values)) (\<lambda>v. dreturn (v, generation, created_at)))"

definition store_configuration ::
    "operation_record \<Rightarrow> configuration_values \<Rightarrow> actor \<Rightarrow> datetime \<Rightarrow> int call" where
  "store_configuration operation values actor at d =
     (let block = (\<lambda>version. dbind new_operation_id (\<lambda>config_id.
            dbind (djournal (record_configuration
              \<lparr> c_config_id = config_id, c_generation = version, c_payload = as_mapping values,
                c_source = a_role actor @ '':'' @ a_user_id actor, c_created_at = at \<rparr>)) (\<lambda>_. dreturn version)))
      in case machine_transition (Some (o_operation_id operation)) ''configuration applied'' block (d_machine d) d of
           (r, m, d') \<Rightarrow> (r, install_machine m d'))"

definition apply_configuration ::
    "operation_record \<Rightarrow> configuration_values \<Rightarrow> actor \<Rightarrow> datetime \<Rightarrow> operation_record call" where
  "apply_configuration operation values actor at =
     dbind (store_configuration operation values actor at) (\<lambda>version.
     dbind (\<lambda>d. (Inr (), d\<lparr> d_configuration := values, d_configuration_generation := version,
              d_configured_at := at,
              d_max_deadline_ms := min (d_max_deadline_ms d) (cv_max_deadline_ms values) \<rparr>)) (\<lambda>_.
       transition (o_operation_id operation) OS_succeeded ''configuration committed''
         \<lparr> st_trusted_terminal = True, st_outcome = Some ''applied'', st_protocol_request_id = None,
           st_terminal_fields = Some (map (\<lambda>(n, i). (n, int_str i)) (as_mapping values)) \<rparr>))"

definition configure ::
    "request_body \<Rightarrow> actor \<Rightarrow> string \<Rightarrow> int \<Rightarrow> body_value \<Rightarrow> operation_record call" where
  "configure changes actor idempotency_key expected_generation deadline_ms =
     dbind (dlift (require_idempotency_key idempotency_key)) (\<lambda>key.
     dbind (\<lambda>d. (require_deadline d deadline_ms, d)) (\<lambda>window.
     dbind now (\<lambda>at.
     dbind configuration (\<lambda>(current, _, _).
     dbind (dlift (with_changes current changes)) (\<lambda>candidate.
     dbind (\<lambda>d. (request_fingerprint (d_sha256 d) OA_configure (sort_key fst changes) actor, d)) (\<lambda>fingerprint.
     refreshed
       (dbind (decide ''applying a configuration change''
          \<lparr> ad_action = OA_configure, ad_fingerprint = fingerprint, ad_actor = actor, ad_key = key,
            ad_now = at, ad_window = window, ad_reason = ''admitted as a daemon configuration change'' \<rparr>
          (Some expected_generation) (\<lambda>_. dreturn ())
          (\<lambda>accepted. dbind (transition (o_operation_id accepted) OS_running ''applying the configuration change'' plain)
             (\<lambda>running. apply_configuration running candidate actor at)))
        (\<lambda>decision. case decision of Inl r \<Rightarrow> dreturn r | Inr r \<Rightarrow> dreturn r))))))))"

definition new_domain :: "domain \<Rightarrow> bool" where
  "new_domain d = (d_machine d = new_machine_state \<and> d_configuration d = default_configuration \<and>
     d_configuration_generation d = 1 \<and> d_sent d = [] \<and> 0 < d_idempotency_ttl d \<and>
     0 < d_min_deadline_ms d \<and> d_min_deadline_ms d \<le> d_max_deadline_ms d)"

section \<open>Calls as runs of the components\<close>

lemma dbind_unfold:
  "dbind m f d = (case fst (m d) of Inl e \<Rightarrow> (Inl e, snd (m d)) | Inr x \<Rightarrow> f x (snd (m d)))"
  by (auto simp: dbind_def split: prod.splits sum.splits)

lemma call_simps [simp]:
  "dreturn x d = (Inr x, d)" "draise e d = (Inl e, d)" "dlift r d = (r, d)"
  by (simp_all add: dreturn_def draise_def dlift_def)

text \<open>How a call proceeds past a step whose result is known.\<close>

lemma dbind_return: "dbind (dreturn y) f d = f y d"
  by (simp add: dbind_def)

lemma dbind_pure:
  "dbind (dlift r) f d = (case r of Inl e \<Rightarrow> (Inl e, d) | Inr x \<Rightarrow> f x d)"
  "dbind (\<lambda>d. (h d, d)) f d = (case h d of Inl e \<Rightarrow> (Inl e, d) | Inr x \<Rightarrow> f x d)"
  by (auto simp: dbind_def split: sum.splits)

lemma dbind_now: "dbind now f d = f (d_clock d (d_ticks d)) (d\<lparr> d_ticks := Suc (d_ticks d) \<rparr>)"
  by (simp add: dbind_def now_def)

lemma dbind_returned: "m d = (Inr x, d1) \<Longrightarrow> dbind m f d = f x d1"
  by (simp add: dbind_def)

definition valid_actor :: "actor \<Rightarrow> bool" where
  "valid_actor a = is_ok (make_actor (a_user_id a) (a_role a))"

text \<open>A relation between the states before and after a call that holds for every primitive
  effect of the domain on its components, and so for every internal method and callback.\<close>

locale domain_core =
  fixes R :: "domain \<Rightarrow> domain \<Rightarrow> bool"
  assumes R_refl: "R d d"
    and R_trans: "R d1 d2 \<Longrightarrow> R d2 d3 \<Longrightarrow> R d1 d3"
    and R_tick: "R d (d\<lparr> d_ticks := Suc (d_ticks d) \<rparr>)"
    and R_issue: "R d (d\<lparr> d_issued := Suc (d_issued d) \<rparr>)"
    and R_threats: "R d (d\<lparr> d_threats := t \<rparr>)"
    and R_event: "R d (publish_at_now ty g i f d)"
    and R_journal: "journal_step (d_journal d) j \<Longrightarrow> R d (d\<lparr> d_journal := j \<rparr>)"
    and R_machine: "machine_step (d_machine d) m \<Longrightarrow> R d (d\<lparr> d_machine := m \<rparr>)"
begin

definition keeps :: "'a call \<Rightarrow> bool" where
  "keeps m = (\<forall>d. R d (snd (m d)))"

lemma keepsI: "(\<And>d. R d (snd (m d))) \<Longrightarrow> keeps m"
  by (simp add: keeps_def)

lemma keepsD: "keeps m \<Longrightarrow> R d (snd (m d))"
  by (simp add: keeps_def)

lemma keeps_dbind: "keeps m \<Longrightarrow> (\<And>x. keeps (f x)) \<Longrightarrow> keeps (dbind m f)"
  by (rule keepsI) (auto simp: dbind_unfold split: sum.splits intro: keepsD R_trans)

lemma keeps_pure: "keeps (dreturn x)" "keeps (draise e)" "keeps (dlift r)" "keeps (\<lambda>d. (g d, d))"
  by (simp_all add: keeps_def R_refl)

lemma keeps_environment: "keeps now" "keeps new_operation_id"
  by (simp_all add: keeps_def now_def new_operation_id_def R_tick R_issue)

lemma R_events: "R d (fold publish_machine_event vs d)"
proof (induction vs arbitrary: d)
  case (Cons v vs)
  have "R d (publish_machine_event v d)" by (simp add: publish_machine_event_def R_event)
  with Cons show ?case by (auto intro: R_trans)
qed (simp add: R_refl)

lemma R_install: "machine_step (d_machine d) m \<Longrightarrow> R d (install_machine m d)"
  unfolding install_machine_def using R_machine R_events R_trans by blast

lemma R_latch: "R d (latch_journal_fault reason d)"
proof -
  define d' where "d' = d\<lparr> d_issued := Suc (d_issued d), d_ticks := Suc (d_ticks d) \<rparr>"
  have "R d d'"
    unfolding d'_def using R_trans [OF R_issue [of d] R_tick [of "d\<lparr> d_issued := Suc (d_issued d) \<rparr>"]] by simp
  moreover have "R d' (install_machine (snd (Machine.record_journal_fault reason
      (Some (d_uuids d (d_issued d))) (Some (d_clock d (d_ticks d))) (d_machine d'))) d')"
    by (intro R_install ms_fault_step)
  ultimately show ?thesis
    unfolding latch_journal_fault_def Let_def d'_def [symmetric] by (rule R_trans)
qed

lemma R_refresh: "R d (snd (refresh_durability d))"
  unfolding refresh_durability_def Let_def
  using R_trans [OF R_threats R_latch]
  by (auto simp: R_refl R_threats split: option.splits list.splits sum.splits monitor_error.splits)

lemma keeps_refreshed: "keeps f \<Longrightarrow> keeps (refreshed f)"
  unfolding refreshed_def by (intro keeps_dbind) (simp_all add: keepsI R_refresh)

lemma keeps_durable: "keeps m \<Longrightarrow> keeps (durable activity m)"
proof (rule keepsI)
  fix d assume "keeps m"
  then have "R d (snd (m d))" by (rule keepsD)
  then show "R d (snd (durable activity m d))"
    using R_trans [OF _ R_latch] unfolding durable_def
    by (auto split: prod.splits sum.splits daemon_error.splits)
qed

lemma R_guard: "R d (d\<lparr> d_journal := snd (guard f (d_journal d)) \<rparr>)"
  using R_journal [OF js_read, of d] R_refl [of d] by (simp add: guard_def)

lemma keeps_journal_read:
  "keeps (djournal (journal_operation i))" "keeps (djournal (idempotency_lookup k at))"
  "keeps (djournal applied_configuration)"
  by (simp_all add: keeps_def djournal_def journal_operation_def idempotency_lookup_def
      applied_configuration_def then_decode_def case_prod_unfold R_guard)

lemma keeps_journal_write:
  "keeps (djournal (record_transition i q))" "keeps (djournal (record_configuration row))"
  by (auto simp: keeps_def djournal_def case_prod_unfold
      intro!: R_journal js_transition [OF surjective_pairing] js_configuration [OF surjective_pairing])

lemma R_block:
  assumes "\<And>g. keeps (block g)" "\<And>g d. d_machine (snd (block g d)) = d_machine d"
  shows "R d (snd (case machine_transition active reason block (d_machine d) d of
     (r, m, d') \<Rightarrow> (r, install_machine m d')))"
proof -
  obtain r m d' where t: "machine_transition active reason block (d_machine d) d = (r, m, d')"
    by (metis prod_cases3)
  have d': "d' = snd (block (ms_generation (d_view d) + 1) d)"
    using t by (auto simp: machine_transition_def split: prod.splits sum.splits)
  have "machine_step (d_machine d') m"
    using machine_transition_step [OF t] assms(2) by (simp add: d')
  then show ?thesis
    using R_trans [OF keepsD [OF assms(1)] R_install] by (simp add: t d')
qed

lemma keeps_write_transition: "keeps (write_transition i st reason active s)"
  unfolding write_transition_def Let_def
proof (rule keepsI, rule R_block)
  fix g
  show "keeps (dbind now (\<lambda>at. djournal (record_transition i
      \<lparr> tr_to_state = st, tr_generation = g, tr_occurred_at = at, tr_reason = reason,
        tr_trusted_terminal = st_trusted_terminal s, tr_outcome = st_outcome s,
        tr_protocol_request_id = st_protocol_request_id s, tr_terminal_fields = st_terminal_fields s \<rparr>)))"
    by (intro keeps_dbind keeps_environment keeps_journal_write)
qed (simp add: dbind_unfold now_def djournal_def case_prod_unfold)

lemma keeps_transition: "keeps (transition i st reason s)"
proof (rule keepsI)
  fix d
  have "R d (snd (write_transition i st reason (if st \<in> set SETTLED then None else Some i) s d))"
    by (rule keepsD [OF keeps_write_transition])
  then show "R d (snd (transition i st reason s d))"
    unfolding transition_def using R_trans [OF _ R_latch] R_trans [OF _ R_event]
    by (auto split: prod.splits sum.splits daemon_error.splits)
qed

lemma keeps_safe_transition: "keeps (safe_transition i st reason s)"
proof (rule keepsI)
  fix d
  have "R d (snd (transition i st reason s d))" by (rule keepsD [OF keeps_transition])
  then show "R d (snd (safe_transition i st reason s d))"
    unfolding safe_transition_def by (auto split: prod.splits sum.splits daemon_error.splits)
qed

lemma keeps_admit:
  assumes "valid_actor (ad_actor a)"
  shows "keeps (admit a view)"
proof -
  have adm: "R d (snd (dbind (dlift (make_operation_record raw)) (\<lambda>operation.
      dbind (\<lambda>d. (make_idempotency_record (k d), d)) (\<lambda>i.
      dbind (djournal (record_admission operation reason (Some i))) (\<lambda>_.
        transition (o_operation_id operation) st why plain))) d))"
    if "o_actor raw = ad_actor a" for d raw k reason st why
  proof (cases "make_operation_record raw")
    case (Inr operation)
    have op: "operation = raw" by (rule make_operation_record_InrD [OF Inr])
    have "journal_step j (snd (record_admission operation reason (Some i) j))" for i j
      by (rule js_admission [OF Inr _ surjective_pairing]) (use assms that op in \<open>simp add: valid_actor_def\<close>)
    then have "keeps (djournal (record_admission operation reason (Some i)))" for i
      by (auto simp: keeps_def djournal_def case_prod_unfold intro: R_journal)
    then have "keeps (dbind (\<lambda>d. (make_idempotency_record (k d), d)) (\<lambda>i.
        dbind (djournal (record_admission operation reason (Some i))) (\<lambda>_.
          transition (o_operation_id operation) st why plain)))"
      by (intro keeps_dbind keeps_pure keeps_transition)
    then show ?thesis using Inr by (simp add: dbind_unfold [of "dlift _"] keepsD)
  qed (simp add: dbind_unfold R_refl)
  have "keeps (dbind (dlift (make_operation_record (queued_record a i (ms_generation view)))) (\<lambda>operation.
      dbind (\<lambda>d. (make_idempotency_record (key_record a i (d_idempotency_ttl d)), d)) (\<lambda>idem.
      dbind (djournal (record_admission operation (''admitted against generation '' @ int_str (ms_generation view)) (Some idem))) (\<lambda>_.
        transition (o_operation_id operation) OS_accepted (ad_reason a) plain))))" for i
    by (rule keepsI) (rule adm, simp add: queued_record_def)
  then show ?thesis unfolding admit_def by (rule keeps_dbind [OF keeps_environment(2)])
qed

lemma keeps_replay: "keeps (replay k f at)"
  unfolding replay_def
  by (intro keeps_dbind keeps_journal_read)
    (auto split: option.splits intro!: keeps_pure keeps_dbind keeps_journal_read)

lemma keeps_decide:
  assumes "valid_actor (ad_actor a)" "\<And>v. keeps (ready v)" "\<And>r. keeps (continue r)"
  shows "keeps (decide activity a g ready continue)"
proof -
  have "keeps (dbind (require_durable v) (\<lambda>_. durable activity
      (dbind (replay (ad_key a) (ad_fingerprint a) (ad_now a)) (\<lambda>replayed.
         case replayed of Some r \<Rightarrow> dreturn (Inl r)
         | None \<Rightarrow> if (case g of None \<Rightarrow> False | Some g \<Rightarrow> g \<noteq> ms_generation v)
             then draise (DomainError StaleGenerationError None)
             else dbind (ready v) (\<lambda>_. dbind (admit a v) (\<lambda>accepted.
                  dbind (continue accepted) (\<lambda>r. dreturn (Inr r))))))))" for v
    using assms unfolding require_durable_def
    by (auto intro!: keeps_dbind keeps_durable keeps_replay keeps_pure keeps_admit split: option.splits)
  then show ?thesis by (auto simp: keeps_def decide_def Let_def)
qed

lemma keeps_current: "keeps (current_record i)"
proof (rule keepsI)
  fix d
  have "R d (snd (djournal (journal_operation i) d))" by (rule keepsD [OF keeps_journal_read(1)])
  then show "R d (snd (current_record i d))"
    unfolding current_record_def using R_trans [OF _ R_latch]
    by (auto split: prod.splits sum.splits daemon_error.splits)
qed

lemma keeps_resolve: "keeps (resolve i e)"
proof -
  have "keeps (\<lambda>d. case classify (d_text d) st e of (state, reason) \<Rightarrow> safe_transition i state reason s d)" for st s
    by (rule keepsI) (auto split: prod.splits intro: keepsD [OF keeps_safe_transition])
  then show ?thesis unfolding resolve_def
    by (auto intro!: keeps_dbind keeps_pure keeps_current split: option.splits)
qed

lemma keeps_complete: "keeps (complete i result)"
  unfolding complete_def
  by (intro keeps_dbind keeps_current)
    (auto intro!: keeps_pure keeps_safe_transition split: option.splits worker_result.splits sum.splits bool.splits prod.splits)

lemma keeps_callbacks:
  "keeps (dispatch r)" "keeps (settle i outcome)" "keeps (settle_stop i stopped)"
proof -
  show "keeps (dispatch r)" unfolding dispatch_def
    by (intro keeps_dbind keeps_environment keeps_pure) (simp add: keeps_pure keeps_dbind keeps_transition)
  show "keeps (settle i outcome)"
    by (simp add: settle_def keeps_resolve keeps_complete split: sum.splits)
  show "keeps (settle_stop i stopped)"
    by (simp add: settle_stop_def keeps_resolve keeps_safe_transition split: sum.splits)
qed

lemma keeps_work_ready: "keeps (work_ready intent view)"
  by (simp add: work_ready_def keeps_pure)

lemma keeps_configuration: "keeps configuration"
  unfolding configuration_def
  by (intro keeps_dbind keeps_journal_read) (auto intro!: keeps_dbind keeps_pure split: option.splits prod.splits)

end

text \<open>A relation that also allows what only the entry points do: handing an intent to the worker
  and applying a configuration.\<close>

locale domain_relation = domain_core +
  assumes R_sent: "R d (d\<lparr> d_sent := d_sent d @ [x] \<rparr>)"
    and R_configured: "R d (d\<lparr> d_configuration := v, d_configuration_generation := g,
        d_configured_at := a, d_max_deadline_ms := min (d_max_deadline_ms d) (cv_max_deadline_ms v) \<rparr>)"
begin

lemma keeps_hand_over: "keeps (hand_over refusal intent decision)"
proof -
  have "keeps (\<lambda>d. (Inr accepted, d\<lparr> d_sent := d_sent d @ [x] \<rparr>))" for accepted x
    by (simp add: keeps_def R_sent)
  then show ?thesis unfolding hand_over_def
    by (auto intro!: keeps_pure keeps_dbind keeps_resolve split: sum.splits option.splits)
qed

lemma keeps_submit: "valid_actor a \<Longrightarrow> keeps (submit refusal action body a key g ms)"
  unfolding submit_def
  by (intro keeps_dbind keeps_pure keeps_environment keeps_refreshed keeps_decide keeps_hand_over
      keeps_work_ready) simp

lemma keeps_stop: "valid_actor a \<Longrightarrow> keeps (stop refusal a key g ms)"
  unfolding stop_def
  by (intro keeps_dbind keeps_pure keeps_environment keeps_refreshed keeps_decide keeps_hand_over
      keeps_transition) simp

lemma keeps_session_operation: "valid_actor a \<Longrightarrow> keeps (session_operation refusal action s a key g ms)"
  unfolding session_operation_def
  by (intro keeps_dbind keeps_pure keeps_environment keeps_refreshed keeps_decide keeps_hand_over) simp

lemma keeps_store: "keeps (store_configuration op v a at)"
  unfolding store_configuration_def Let_def
proof (rule keepsI, rule R_block)
  fix g
  show "keeps (dbind new_operation_id (\<lambda>config_id. dbind (djournal (record_configuration
      \<lparr> c_config_id = config_id, c_generation = g, c_payload = as_mapping v,
        c_source = a_role a @ '':'' @ a_user_id a, c_created_at = at \<rparr>)) (\<lambda>_. dreturn g)))"
    by (intro keeps_dbind keeps_environment keeps_journal_write keeps_pure)
qed (simp add: dbind_unfold new_operation_id_def djournal_def case_prod_unfold split: sum.splits)

lemma keeps_apply: "keeps (apply_configuration op v a at)"
proof -
  have "keeps (\<lambda>d. (Inr (), d\<lparr> d_configuration := v, d_configuration_generation := version,
      d_configured_at := at, d_max_deadline_ms := min (d_max_deadline_ms d) (cv_max_deadline_ms v) \<rparr>))" for version
    by (simp add: keeps_def R_configured)
  then show ?thesis unfolding apply_configuration_def
    by (intro keeps_dbind keeps_store keeps_transition)
qed

lemma keeps_configure: "valid_actor a \<Longrightarrow> keeps (configure changes a key g ms)"
  unfolding configure_def
  by (intro keeps_dbind keeps_pure keeps_environment keeps_configuration)
    (auto intro!: keeps_dbind keeps_pure keeps_refreshed keeps_decide keeps_transition keeps_apply
      split: prod.splits sum.splits)

lemmas keeps_calls = keeps_submit keeps_stop keeps_session_operation keeps_configure keeps_callbacks

end

section \<open>Runs of the domain\<close>

text \<open>Callers on API threads, callbacks of the worker thread and published session changes, in
  any order.\<close>

inductive domain_step :: "domain \<Rightarrow> domain \<Rightarrow> bool" where
  ds_submit: "valid_actor a \<Longrightarrow> domain_step d (snd (submit refusal action body a key g ms d))"
| ds_stop: "valid_actor a \<Longrightarrow> domain_step d (snd (stop refusal a key g' ms d))"
| ds_session: "valid_actor a \<Longrightarrow> domain_step d (snd (session_operation refusal action s a key g ms d))"
| ds_configure: "valid_actor a \<Longrightarrow> domain_step d (snd (configure body a key g ms d))"
| ds_dispatch: "domain_step d (snd (dispatch r d))"
| ds_settle: "domain_step d (snd (settle i outcome d))"
| ds_settle_stop: "domain_step d (snd (settle_stop i stopped d))"
| ds_refresh: "domain_step d (snd (refresh_durability d))"
| ds_observe_session: "domain_step d (observe_session session d)"
| ds_observe_profile: "domain_step d (observe_session_profile c s d)"

context domain_relation
begin

lemma step_related: "domain_step d d' \<Longrightarrow> R d d'"
  by (cases rule: domain_step.cases, assumption)
    (auto intro: keepsD keeps_calls R_refresh R_install ms_connection_step ms_profile_step
      simp: observe_session_def observe_session_profile_def)

lemma run_related: "domain_step\<^sup>*\<^sup>* d d' \<Longrightarrow> R d d'"
  by (induction rule: rtranclp_induct) (auto intro: R_refl R_trans step_related)

end

definition evolves :: "domain \<Rightarrow> domain \<Rightarrow> bool" where
  "evolves d d' = (journal_step\<^sup>*\<^sup>* (d_journal d) (d_journal d') \<and> machine_step\<^sup>*\<^sup>* (d_machine d) (d_machine d'))"

definition ring_kept :: "domain \<Rightarrow> domain \<Rightarrow> bool" where
  "ring_kept d d' = (ring_wf (d_events d) \<longrightarrow> ring_wf (d_events d'))"

definition deadline_tightens :: "domain \<Rightarrow> domain \<Rightarrow> bool" where
  "deadline_tightens d d' = (d_max_deadline_ms d' \<le> d_max_deadline_ms d)"

definition quiet :: "domain \<Rightarrow> domain \<Rightarrow> bool" where
  "quiet d d' = (d_sent d' = d_sent d \<and> d_sha256 d' = d_sha256 d \<and> d_text d' = d_text d)"

interpretation evolution: domain_relation evolves
proof
  show "evolves d1 d2 \<Longrightarrow> evolves d2 d3 \<Longrightarrow> evolves d1 d3" for d1 d2 d3
    unfolding evolves_def by (meson rtranclp_trans)
qed (auto simp: evolves_def publish_at_now_def)

interpretation ring: domain_relation ring_kept
  by unfold_locales (auto simp: ring_kept_def publish_at_now_def publish_wf)

interpretation ratchet: domain_relation deadline_tightens
  by unfold_locales (auto simp: deadline_tightens_def publish_at_now_def)

interpretation quiet: domain_core quiet
  by unfold_locales (auto simp: quiet_def publish_at_now_def)

section \<open>What a transition leaves behind\<close>

lemma dbind_Inr:
  "dbind m f d = (Inr y, d') \<longleftrightarrow> (\<exists>x d1. m d = (Inr x, d1) \<and> f x d1 = (Inr y, d'))"
  by (auto simp: dbind_def split: prod.splits sum.splits)

lemma events_frame:
  "d_journal (publish_at_now ty g i f d) = d_journal d" "d_machine (publish_at_now ty g i f d) = d_machine d"
  by (simp_all add: publish_at_now_def)

lemma install_frame: "d_journal (install_machine m d) = d_journal d" "d_machine (install_machine m d) = m"
proof -
  have "d_journal (fold publish_machine_event vs d) = d_journal d \<and>
      d_machine (fold publish_machine_event vs d) = d_machine d" for vs d
    by (induction vs arbitrary: d) (simp_all add: publish_machine_event_def events_frame)
  then show "d_journal (install_machine m d) = d_journal d" "d_machine (install_machine m d) = m"
    by (simp_all add: install_machine_def)
qed

lemma write_transition_InrD:
  assumes "write_transition i st reason active s d = (Inr row, d')"
  shows "find_operation i (j_tables (d_journal d')) = Some row" "o_state row = st" "o_operation_id row = i"
    "o_generation row = ms_generation (d_view d) + 1" "ms_generation (d_view d') = o_generation row"
    "o_trusted_terminal row \<longleftrightarrow> st_trusted_terminal s" "st = OS_succeeded \<longleftrightarrow> st_trusted_terminal s"
proof -
  define q where "q = \<lparr> tr_to_state = st, tr_generation = ms_generation (d_view d) + 1,
    tr_occurred_at = d_clock d (d_ticks d), tr_reason = reason, tr_trusted_terminal = st_trusted_terminal s,
    tr_outcome = st_outcome s, tr_protocol_request_id = st_protocol_request_id s,
    tr_terminal_fields = st_terminal_fields s \<rparr>"
  obtain j' where j': "record_transition i q (d_journal d) = (Inr row, j')" "d_journal d' = j'"
      "ms_generation (d_view d') = ms_generation (d_view d) + 1"
    using assms by (cases "record_transition i q (d_journal d)")
      (auto simp: write_transition_def machine_transition_def dbind_unfold now_def djournal_def q_def
        install_frame publish_view_def Let_def split: sum.splits prod.splits)
  from j'(1) have "find_operation i (j_tables (d_journal d')) = Some row \<and> o_state row = st \<and> o_operation_id row = i \<and>
    o_generation row = ms_generation (d_view d) + 1 \<and> ms_generation (d_view d') = o_generation row \<and>
    (o_trusted_terminal row \<longleftrightarrow> st_trusted_terminal s) \<and> (st = OS_succeeded \<longleftrightarrow> st_trusted_terminal s)"
  proof (cases rule: record_transition_cases)
    case (recorded x)
    then have x: "x = row" by simp
    have found: "find_operation i (j_tables j') = Some row \<and>
        (\<exists>p. row = updated_row q (tr_occurred_at q) (tr_terminal_fields q) p)"
    proof (rule transition_block_InrD [OF recorded(3)])
      fix r e
      assume t': "j_tables j' = (j_tables (d_journal d))\<lparr> operations := map (\<lambda>p. if o_operation_id p = i
          then updated_row q (tr_occurred_at q) (tr_terminal_fields q) p else p) (operations (j_tables (d_journal d))),
          operation_transitions := operation_transitions (j_tables (d_journal d)) @ [e] \<rparr>"
        and "Some x = find_operation i (j_tables j')"
      then have f: "find_operation i (j_tables j') = Some row" using x by simp
      have "row \<in> set (operations (j_tables j'))" "o_operation_id row = i"
        using find_operation_SomeD [OF f] by auto
      then show ?thesis using f by (auto simp: t' split: if_splits)
    qed
    then show ?thesis using recorded(2) j'(2,3) find_operation_SomeD [of i "j_tables j'" row]
      by (auto simp: q_def)
  qed simp
  then show "find_operation i (j_tables (d_journal d')) = Some row" "o_state row = st" "o_operation_id row = i"
    "o_generation row = ms_generation (d_view d) + 1" "ms_generation (d_view d') = o_generation row"
    "o_trusted_terminal row \<longleftrightarrow> st_trusted_terminal s" "st = OS_succeeded \<longleftrightarrow> st_trusted_terminal s"
    by blast+
qed

lemma transition_InrD:
  assumes "transition i st reason s d = (Inr row, d')"
  shows "find_operation i (j_tables (d_journal d')) = Some row \<and> o_state row = st \<and> o_operation_id row = i \<and>
    ms_generation (d_view d') = o_generation row \<and> o_generation row = ms_generation (d_view d) + 1"
proof -
  obtain d1 where w: "write_transition i st reason (if st \<in> set SETTLED then None else Some i) s d = (Inr row, d1)"
    and "d_journal d' = d_journal d1" "d_machine d' = d_machine d1"
    using assms by (auto simp: transition_def events_frame split: prod.splits sum.splits daemon_error.splits)
  then show ?thesis using write_transition_InrD [OF w] by simp
qed

lemma admit_InrD:
  assumes "admit a view d = (Inr row, d')"
  shows "find_operation (o_operation_id row) (j_tables (d_journal d')) = Some row \<and> o_state row = OS_accepted"
proof -
  obtain i d1 where "transition i OS_accepted (ad_reason a) plain d1 = (Inr row, d')"
    using assms unfolding admit_def dbind_Inr by auto
  from transition_InrD [OF this] show ?thesis by auto
qed

lemma latch_unavailable: "\<not> ms_journal_available (d_view (latch_journal_fault reason d))"
  by (auto simp: latch_journal_fault_def Let_def install_frame Machine.record_journal_fault_def publish_view_def)

lemma refresh_view:
  "ms_journal_available (d_view (snd (refresh_durability d))) \<Longrightarrow> d_view (snd (refresh_durability d)) = d_view d"
  by (auto simp: refresh_durability_def Let_def latch_unavailable
      split: option.splits list.splits if_splits sum.splits monitor_error.splits)

lemma decide_InrD:
  assumes "decide activity a g ready continue d = (Inr (Inr r), d')"
  shows "ms_journal_available (d_view d)" "g = None \<or> g = Some (ms_generation (d_view d))"
    "\<exists>d1 d2 d3 accepted. replay (ad_key a) (ad_fingerprint a) (ad_now a) d = (Inr None, d1) \<and>
       ready (d_view d) d1 = (Inr (), d2) \<and> admit a (d_view d) d2 = (Inr accepted, d3) \<and>
       continue accepted d3 = (Inr r, d')"
proof -
  have avail: "ms_journal_available (d_view d)"
    using assms by (auto simp: decide_def Let_def require_durable_def dbind_unfold split: if_splits)
  have "durable activity (dbind (replay (ad_key a) (ad_fingerprint a) (ad_now a)) (\<lambda>replayed.
         case replayed of
           Some r \<Rightarrow> dreturn (Inl r)
         | None \<Rightarrow>
             if (case g of None \<Rightarrow> False | Some g \<Rightarrow> g \<noteq> ms_generation (d_view d))
             then draise (DomainError StaleGenerationError None)
             else dbind (ready (d_view d)) (\<lambda>_.
                  dbind (admit a (d_view d)) (\<lambda>accepted.
                  dbind (continue accepted) (\<lambda>r. dreturn (Inr r)))))) d = (Inr (Inr r), d')"
    using assms avail by (simp add: decide_def Let_def require_durable_def dbind_unfold [of "dreturn ()"])
  then have "dbind (replay (ad_key a) (ad_fingerprint a) (ad_now a)) (\<lambda>replayed.
         case replayed of
           Some r \<Rightarrow> dreturn (Inl r)
         | None \<Rightarrow>
             if (case g of None \<Rightarrow> False | Some g \<Rightarrow> g \<noteq> ms_generation (d_view d))
             then draise (DomainError StaleGenerationError None)
             else dbind (ready (d_view d)) (\<lambda>_.
                  dbind (admit a (d_view d)) (\<lambda>accepted.
                  dbind (continue accepted) (\<lambda>r. dreturn (Inr r))))) d = (Inr (Inr r), d')"
    by (auto simp: durable_def split: prod.splits sum.splits daemon_error.splits)
  then show "ms_journal_available (d_view d)" "g = None \<or> g = Some (ms_generation (d_view d))"
    "\<exists>d1 d2 d3 accepted. replay (ad_key a) (ad_fingerprint a) (ad_now a) d = (Inr None, d1) \<and>
       ready (d_view d) d1 = (Inr (), d2) \<and> admit a (d_view d) d2 = (Inr accepted, d3) \<and>
       continue accepted d3 = (Inr r, d')"
    using avail by (auto simp: dbind_Inr split: option.splits if_splits)
qed

lemma transition_tables:
  assumes "transition i st reason s d = (r, d')"
  shows "j_tables (d_journal d') = j_tables (d_journal d) \<or>
    (\<exists>row. find_operation i (j_tables (d_journal d')) = Some row \<and> o_state row = st)"
proof (cases r)
  case (Inr row)
  then show ?thesis using transition_InrD [of i st reason s d row d'] assms by auto
next
  case (Inl e)
  have latch: "d_journal (latch_journal_fault why x) = d_journal x" for why x
    by (simp add: latch_journal_fault_def Let_def install_frame)
  obtain d1 where w: "write_transition i st reason (if st \<in> set SETTLED then None else Some i) s d = (Inl e, d1)"
    and d1: "d_journal d' = d_journal d1"
    using assms Inl by (auto simp: transition_def latch split: prod.splits sum.splits daemon_error.splits)
  obtain q e' j' where "record_transition i q (d_journal d) = (Inl e', j')" "d_journal d1 = j'"
    using w by (auto simp: write_transition_def machine_transition_def dbind_unfold now_def djournal_def
        install_frame Let_def split: sum.splits prod.splits)
  from record_transition_cases [OF this(1)] this(2) d1 show ?thesis by auto
qed

lemma safe_transition_tables:
  assumes "safe_transition i st reason s d = (r, d')"
  shows "j_tables (d_journal d') = j_tables (d_journal d) \<or>
    (\<exists>row. find_operation i (j_tables (d_journal d')) = Some row \<and> o_state row = st)"
proof -
  have "d' = snd (transition i st reason s d)"
    using assms by (auto simp: safe_transition_def split: prod.splits sum.splits daemon_error.splits)
  then show ?thesis using transition_tables [of i st reason s d "fst (transition i st reason s d)" d'] by simp
qed

lemma current_record_tables:
  assumes "current_record i d = (Inr x, d')"
  shows "j_tables (d_journal d') = j_tables (d_journal d)"
    "x = None \<or> x = find_operation i (j_tables (d_journal d))"
proof -
  have latch: "d_journal (latch_journal_fault why x) = d_journal x" for why x
    by (simp add: latch_journal_fault_def Let_def install_frame)
  obtain rr j' where j: "journal_operation i (d_journal d) = (rr, j')" by force
  have t: "j_tables j' = j_tables (d_journal d)"
    using j guard_tables [of "read_operation i" "d_journal d"] by (auto simp: journal_operation_def then_decode_def)
  show "j_tables (d_journal d') = j_tables (d_journal d)"
    using assms t by (auto simp: current_record_def djournal_def j latch split: sum.splits daemon_error.splits)
  have "rr = Inr y \<Longrightarrow> read_operation i (j_tables (d_journal d)) = Inr y" for y
    using j by (auto simp: journal_operation_def then_decode_def guard_def result_simps split: if_splits)
  then show "x = None \<or> x = find_operation i (j_tables (d_journal d))"
    using assms read_operation_InrD [of i "j_tables (d_journal d)"]
    by (auto simp: current_record_def djournal_def j split: sum.splits daemon_error.splits)
qed

lemma classify_unresolved: "fst (classify str st e) \<in> set UNRESOLVED"
  by (cases "(str, st, e)" rule: classify.cases) (auto simp: classify_other_def UNRESOLVED_def)

section \<open>Properties of the domain\<close>

text \<open>
  A failure never becomes a success: every exception leads to failed, cancelled or
  uncertain, and for an operation that was already running, failed is recorded only when the
  deadline stopped it before transmission.
\<close>

theorem classify_fails_closed:
  "fst (classify str st e) \<in> set UNRESOLVED \<and>
   (fst (classify str OS_running e) = OS_failed \<longleftrightarrow>
      (\<exists>i. e = Daemon_failure (DomainError DeadlineExpiredError i)))"
  using classify_unresolved [of str st e]
  by (cases "(str, OS_running, e)" rule: classify.cases) (auto simp: classify_other_def)

text \<open>
  C5: the worker's result makes an operation succeed only with a trusted terminal: a completion
  whose last response is the correlated done, or for connect and recover the verified status.
\<close>

theorem settle_succeeds_only_trusted:
  assumes "settle i outcome d = (r, d')"
    and "find_operation i (j_tables (d_journal d)) = Some old" "o_state old \<noteq> OS_succeeded"
    and "find_operation i (j_tables (d_journal d')) = Some new" "o_state new = OS_succeeded"
  shows "case outcome of
      Inr (WR_completion c) \<Rightarrow> is_trusted_terminal c = Inr True
    | Inr (WR_status s) \<Rightarrow> o_action old \<in> set SESSION_ACTIONS
    | _ \<Rightarrow> False"
proof -
  obtain x d1 where cur: "current_record i d = (x, d1)" by force
  have changed: "j_tables (d_journal d') \<noteq> j_tables (d_journal d)" using assms(2-5) by auto
  have latch: "j_tables (d_journal d1) = j_tables (d_journal d)" if "x = Inr y" for y
    using current_record_tables(1) cur that by blast
  show ?thesis
  proof (cases x)
    case (Inl e)
    have "j_tables (d_journal d1) = j_tables (d_journal d)"
      using cur Inl guard_tables [of "read_operation i" "d_journal d"]
      by (auto simp: current_record_def djournal_def journal_operation_def then_decode_def latch_journal_fault_def
          Let_def install_frame split: sum.splits daemon_error.splits prod.splits)
    moreover have "d' = d1" using assms(1) cur Inl
      by (auto simp: settle_def resolve_def complete_def dbind_unfold split: sum.splits)
    ultimately show ?thesis using changed by simp
  next
    case (Inr y)
    have y: "y = Some old \<and> \<not> is_terminal (o_state old)"
    proof (rule ccontr)
      assume "\<not> (y = Some old \<and> \<not> is_terminal (o_state old))"
      then have "y = None \<or> (y = Some old \<and> is_terminal (o_state old))"
        using current_record_tables(2) [of i d y d1] cur Inr assms(2) by auto
      then have "d' = d1" using assms(1) cur Inr
        by (auto simp: settle_def resolve_def complete_def dbind_unfold split: sum.splits)
      then show False using changed latch Inr by simp
    qed
    have ne: "d' \<noteq> d1" using changed latch [OF Inr] by auto
    have row: "o_state new = st" if "safe_transition i st reason t d1 = (r, d')" for st reason t
      using safe_transition_tables [OF that] changed latch Inr assms(4) by auto
    show ?thesis
    proof (cases outcome)
      case (Inl e)
      then obtain st reason t where "classify (d_text d1) (o_state old) e = (st, reason)"
          "safe_transition i st reason t d1 = (r, d')"
        using assms(1) cur Inr y by (auto simp: settle_def resolve_def dbind_unfold split: prod.splits)
      then show ?thesis using row classify_unresolved [of "d_text d1" "o_state old" e] assms(5)
        by (auto simp: UNRESOLVED_def)
    next
      case (Inr result)
      with \<open>x = Inr y\<close> cur y assms(1) show ?thesis using row assms(5) ne
        by (auto simp: settle_def complete_def dbind_unfold
            split: worker_result.splits if_splits sum.splits bool.splits dest!: row)
    qed
  qed
qed


lemma hand_over_sent:
  assumes "hand_over refusal intent decision d = (r, d')" "d_sent d' \<noteq> d_sent d"
  shows "\<exists>accepted. decision = Inr accepted \<and> r = Inr accepted \<and> d_journal d' = d_journal d \<and>
    d_sent d' = d_sent d @ [(o_operation_id accepted, intent)]"
proof -
  have "d_sent (snd (resolve k e d)) = d_sent d" for k e
    using quiet.keepsD [OF quiet.keeps_resolve, of d k e] by (simp add: quiet_def)
  then show ?thesis using assms
    by (auto simp: hand_over_def dbind_unfold split: sum.splits option.splits)
qed

text \<open>
  C1: nothing reaches the worker unrecorded: if submitting a request hands an intent to the
  worker at all, it is one intent, of exactly the operation that is returned, which the journal
  holds as accepted; the machine admitted work, the caller had observed its current generation,
  and the controller supports the intent.
\<close>

theorem submit_sends_only_recorded:
  assumes "valid_actor a" "submit refusal action body a key g ms d = (r, d')" "d_sent d' \<noteq> d_sent d"
  shows "\<exists>operation intent. r = Inr operation \<and>
    d_sent d' = d_sent d @ [(o_operation_id operation, Some intent)] \<and>
    find_operation (o_operation_id operation) (j_tables (d_journal d')) = Some operation \<and>
    o_state operation = OS_accepted \<and> admits_work (d_view d) \<and> g = ms_generation (d_view d) \<and>
    intent_for action body = Inr intent \<and> require_supported intent (d_view d) = Inr ()"
proof -
  define d1 where "d1 = snd (refresh_durability (d\<lparr> d_ticks := Suc (d_ticks d) \<rparr>))"
  have sent1: "d_sent d1 = d_sent d"
    using quiet.R_refresh [of "d\<lparr> d_ticks := Suc (d_ticks d) \<rparr>"] by (simp add: d1_def quiet_def)
  obtain intent adm where i: "intent_for action body = Inr intent"
    and run: "dbind (decide ''admitting an operation'' adm (Some g) (work_ready intent) dreturn)
        (hand_over refusal (Some intent)) d1 = (r, d')" and actor: "ad_actor adm = a"
    using assms(2,3) unfolding submit_def d1_def
    by (auto simp: dbind_unfold [of "dlift _"] dbind_unfold [of "\<lambda>d. (_ d, d)"] dbind_unfold [of now]
        dbind_unfold [of refresh_durability] now_def refreshed_def sent1 [unfolded d1_def] split: sum.splits)
  obtain x d2 where dec: "decide ''admitting an operation'' adm (Some g) (work_ready intent) dreturn d1 = (x, d2)"
    by force
  have "quiet.keeps (decide ''admitting an operation'' adm (Some g) (work_ready intent) dreturn)"
    using assms(1) actor by (intro quiet.keeps_decide quiet.keeps_work_ready quiet.keeps_pure) simp
  then have sent2: "d_sent d2 = d_sent d1" using quiet.keepsD [of _ d1] dec by (metis quiet_def snd_conv)
  obtain decision where x: "x = Inr decision" "hand_over refusal (Some intent) decision d2 = (r, d')"
    using run dec assms(3) sent1 sent2 by (cases x) (auto simp: dbind_unfold)
  have "d_sent d' \<noteq> d_sent d2" using assms(3) sent1 sent2 by simp
  from hand_over_sent [OF x(2) this] obtain op where h: "decision = Inr op" "r = Inr op"
    "d_journal d' = d_journal d2" "d_sent d' = d_sent d2 @ [(o_operation_id op, Some intent)]" by blast
  note dec' = decide_InrD [OF dec [unfolded x(1) h(1)]]
  then obtain d3 d4 where adm': "work_ready intent (d_view d1) d3 = (Inr (), d4)" "admit adm (d_view d1) d4 = (Inr op, d2)"
    by auto
  have view: "d_view d1 = d_view d" using refresh_view [OF dec'(1) [unfolded d1_def]] by (simp add: d1_def)
  show ?thesis
    using admit_InrD [OF adm'(2)] adm'(1) dec'(2) h sent1 sent2 i view
    by (auto simp: work_ready_def split: if_splits)
qed


section \<open>Storage that cannot be trusted\<close>

text \<open>The next durability check of the domain does not pass.\<close>

definition unhealthy :: "domain \<Rightarrow> bool" where
  "unhealthy d = (ms_journal_available (d_view d) \<and> (\<exists>e rest. d_threats d = Some (Inl e # rest)))"

text \<open>A call that is refused without a trace in the journal or at the worker.\<close>

definition refuses :: "domain \<Rightarrow> 'a call \<Rightarrow> bool" where
  "refuses d m = (\<not> is_ok (fst (m d)) \<and> j_tables (d_journal (snd (m d))) = j_tables (d_journal d) \<and>
     d_sent (snd (m d)) = d_sent d)"

lemma refuses_dbind:
  assumes "\<And>x. fst (m d) = Inr x \<Longrightarrow> refuses (snd (m d)) (f x)"
    and "j_tables (d_journal (snd (m d))) = j_tables (d_journal d)" "d_sent (snd (m d)) = d_sent d"
  shows "refuses d (dbind m f)"
  using assms by (auto simp: refuses_def dbind_unfold is_ok_def split: sum.splits)

lemma refuses_pure:
  "(\<And>x. r = Inr x \<Longrightarrow> refuses d (f x)) \<Longrightarrow> refuses d (dbind (dlift r) f)"
  "(\<And>x. h d = Inr x \<Longrightarrow> refuses d (g x)) \<Longrightarrow> refuses d (dbind (\<lambda>d. (h d, d)) g)"
  by (auto intro!: refuses_dbind)

lemma refuses_now:
  assumes "\<And>at d'. unhealthy d' \<Longrightarrow> refuses d' (f at)" "unhealthy d"
  shows "refuses d (dbind now f)"
  using assms(1) [of "d\<lparr> d_ticks := Suc (d_ticks d) \<rparr>"] assms(2)
  by (intro refuses_dbind) (auto simp: now_def unhealthy_def)

lemma latch_frame:
  "j_tables (d_journal (latch_journal_fault why d)) = j_tables (d_journal d)" "d_sent (latch_journal_fault why d) = d_sent d"
  using quiet.R_latch [of d why] by (auto simp: latch_journal_fault_def Let_def install_frame quiet_def)

lemma refuses_refreshed:
  assumes "unhealthy d"
  shows "refuses d (refreshed (dbind (decide activity a g ready continue) f))"
  unfolding refreshed_def
proof (rule refuses_dbind)
  obtain e rest where e: "d_threats d = Some (Inl e # rest)" "ms_journal_available (d_view d)"
    using assms by (auto simp: unhealthy_def)
  show "j_tables (d_journal (snd (refresh_durability d))) = j_tables (d_journal d)"
    "d_sent (snd (refresh_durability d)) = d_sent d"
    using e by (auto simp: refresh_durability_def Let_def latch_frame split: monitor_error.splits)
  fix x assume "fst (refresh_durability d) = Inr x"
  then have "\<not> ms_journal_available (d_view (snd (refresh_durability d)))"
    using e by (auto simp: refresh_durability_def Let_def latch_unavailable split: monitor_error.splits)
  then show "refuses (snd (refresh_durability d)) (dbind (decide activity a g ready continue) f)"
    by (simp add: refuses_def dbind_unfold decide_def require_durable_def Let_def is_ok_def)
qed

lemma configuration_frame:
  "j_tables (d_journal (snd (configuration d))) = j_tables (d_journal d)" "d_sent (snd (configuration d)) = d_sent d"
  "unhealthy (snd (configuration d)) = unhealthy d"
  by (auto simp: configuration_def dbind_unfold djournal_def applied_configuration_def guard_def after_outcome_def
      unhealthy_def case_prod_unfold split: sum.splits option.splits)

text \<open>
  C36: storage that fails its health check stops all new work. Where the disk is nearly full or the
  backup marker is missing, unreadable, malformed, failed or stale, a submission, a session
  operation, a configuration change and a priority stop are refused with an exception, and
  nothing is written to the journal or handed to the worker.
\<close>

theorem storage_threat_blocks_work:
  assumes "ms_journal_available (d_view d)"
    and "d_threats d = Some (production_durability_monitor h database_path t # rest)"
    and "production_durability_monitor h database_path t \<noteq> Inr ()"
  shows "refuses d (submit refusal action body a key g ms) \<and>
    refuses d (session_operation refusal action' session_act a key g ms) \<and>
    refuses d (configure changes a key g ms) \<and> refuses d (stop refusal a key g' ms)"
proof (intro conjI)
  obtain e where "production_durability_monitor h database_path t = Inl e"
    using assms(3) by (cases "production_durability_monitor h database_path t") auto
  then have u: "unhealthy d" using assms(1,2) by (simp add: unhealthy_def)
  show "refuses d (submit refusal action body a key g ms)"
    unfolding submit_def using u by (intro refuses_pure refuses_now refuses_refreshed)
  show "refuses d (session_operation refusal action' session_act a key g ms)"
    unfolding session_operation_def using u by (intro refuses_pure refuses_now refuses_refreshed)
  show "refuses d (stop refusal a key g' ms)"
    unfolding stop_def using u by (intro refuses_pure refuses_now refuses_refreshed)
  have read: "refuses d' (dbind configuration f)" if "unhealthy d'" "\<And>x d''. unhealthy d'' \<Longrightarrow> refuses d'' (f x)"
    for d' and f :: "configuration_values \<times> int \<times> datetime \<Rightarrow> operation_record call"
    using that by (intro refuses_dbind) (simp_all add: configuration_frame)
  show "refuses d (configure changes a key g ms)"
    unfolding configure_def using u
    by (auto intro!: refuses_pure refuses_now refuses_refreshed read split: prod.splits)
qed



section \<open>Worked examples\<close>

definition demo_view :: machine_snapshot where
  "demo_view = initial_snapshot\<lparr> ms_connection := CS_ready,
     ms_firmware := Some \<lparr> fp_protocol_version = 2, fp_slot_max = 8, fp_slot_count = 9,
        fp_queue_depth = 2, fp_feed_sensor = True, fp_feed_home = True, fp_sort_home = True \<rparr>,
     ms_readiness := Some \<lparr> mr_feed_homed = True, mr_sort_homed = True, mr_fault_code = 0,
        mr_mode = ''v2'', mr_phase = ''idle'' \<rparr> \<rparr>"

definition demo_domain :: "tables \<Rightarrow> domain" where
  "demo_domain t = \<lparr> d_journal = \<lparr> j_tables = t, j_storage = [], j_closed = False \<rparr>,
     d_machine = \<lparr> m_snapshot = demo_view, m_history = [demo_view] \<rparr>, d_events = demo_ring,
     d_clock = (\<lambda>n. Aware 600), d_ticks = 0,
     d_uuids = (\<lambda>n. ''aaaaaaaa-9a0e-4b5e-8a1c-0f2b7d3e4a55''), d_issued = 0,
     d_text = (\<lambda>_. ''detail''), d_threats = None, d_sha256 = (\<lambda>s. ''fp''),
     d_idempotency_ttl = 3000, d_min_deadline_ms = 100, d_max_deadline_ms = 600000,
     d_configuration = default_configuration, d_configuration_generation = 1,
     d_configured_at = Aware 0, d_sent = [] \<rparr>"

definition demo_actor :: actor where
  "demo_actor = \<lparr> a_user_id = ''u'', a_role = ''operator'' \<rparr>"

definition running_tables :: tables where
  "running_tables = empty_tables\<lparr> operations := [demo_operation\<lparr> o_state := OS_running \<rparr>] \<rparr>"

definition demo_completion :: "string \<Rightarrow> completion" where
  "demo_completion n = \<lparr> c_request_id = 7, c_succeeded = True, c_fields = [(n, ''3'')],
     c_responses = [\<lparr> request_id = 7, r_kind = RK_DONE, r_fields = [(n, ''3'')], r_code = None, r_name = None \<rparr>],
     c_error = None \<rparr>"

definition demo_submit :: "tables \<Rightarrow> (daemon_error, operation_record) result \<times> domain" where
  "demo_submit t = submit None OA_sort [(''slot'', BV_int 3)] demo_actor ''k'' 1 (BV_int 1000) (demo_domain t)"

definition demo_settle :: "string \<Rightarrow> (daemon_error, unit) result \<times> domain" where
  "demo_settle n = settle (o_operation_id demo_operation) (Inr (WR_completion (demo_completion n)))
     (demo_domain running_tables)"

lemma demo_sent: "d_sent (snd (demo_submit empty_tables)) \<noteq> []"
  by code_simp

lemma demo_actor_valid: "valid_actor demo_actor"
  by code_simp

theorem submit_sends_only_recorded_witness:
  "\<exists>(operation :: operation_record) intent. d_sent (snd (demo_submit empty_tables)) = [(o_operation_id operation, Some intent)] \<and>
    o_state operation = OS_accepted"
proof -
  have "demo_submit empty_tables = (fst (demo_submit empty_tables), snd (demo_submit empty_tables))" by simp
  moreover have "d_sent (demo_domain empty_tables) = []" by (simp add: demo_domain_def)
  ultimately show ?thesis
    using submit_sends_only_recorded [OF demo_actor_valid, of None OA_sort "[(''slot'', BV_int 3)]" "''k''" 1
        "BV_int 1000" "demo_domain empty_tables" "fst (demo_submit empty_tables)" "snd (demo_submit empty_tables)"]
      demo_sent by (simp add: demo_submit_def) blast
qed

lemma demo_settled:
  "map_option o_state (find_operation (o_operation_id demo_operation) (j_tables (d_journal (snd (demo_settle ''slot''))))) = Some OS_succeeded"
  by code_simp

theorem settle_succeeds_only_trusted_witness: "is_trusted_terminal (demo_completion ''slot'') = Inr True"
proof -
  obtain new where new: "find_operation (o_operation_id demo_operation) (j_tables (d_journal (snd (demo_settle ''slot'')))) = Some new"
      "o_state new = OS_succeeded" using demo_settled by auto
  have "find_operation (o_operation_id demo_operation) (j_tables (d_journal (demo_domain running_tables)))
      = Some (demo_operation\<lparr> o_state := OS_running \<rparr>)"
    by (simp add: demo_domain_def running_tables_def find_operation_def)
  from settle_succeeds_only_trusted [of "o_operation_id demo_operation" "Inr (WR_completion (demo_completion ''slot''))"
      "demo_domain running_tables" "fst (demo_settle ''slot'')" "snd (demo_settle ''slot'')", OF _ this _ new]
  show ?thesis by (simp add: demo_settle_def)
qed




text \<open>A host with a full disk.\<close>

definition full_host :: host where
  "full_host = \<lparr> h_files = (\<lambda>_. No_file), h_free = (\<lambda>_. Some 0), h_utf8 = Some, h_json = (\<lambda>_. None), h_iso = (\<lambda>_. None) \<rparr>"

theorem storage_threat_blocks_work_witness:
  "refuses ((demo_domain empty_tables)\<lparr> d_threats := Some [production_durability_monitor full_host ''/var/lib/cs71d/machine.db'' 0] \<rparr>)
     (stop None demo_actor ''k'' None (BV_int 1000))"
proof -
  let ?d = "(demo_domain empty_tables)\<lparr> d_threats := Some [production_durability_monitor full_host ''/var/lib/cs71d/machine.db'' 0] \<rparr>"
  have "production_durability_monitor full_host ''/var/lib/cs71d/machine.db'' 0 \<noteq> Inr ()"
    by (simp add: monitor_passes_iff full_host_def PRODUCTION_MINIMUM_FREE_BYTES_def)
  moreover have "ms_journal_available (d_view ?d)"
    by (simp add: demo_domain_def demo_view_def initial_snapshot_def)
  ultimately show ?thesis
    using storage_threat_blocks_work [of ?d full_host "''/var/lib/cs71d/machine.db''" 0 "[]"] by simp
qed



text \<open>
  Using an idempotency key again after its window has expired, which the contract allows,
  makes the daemon refuse the request as a journal failure and latch the machine as undurable.
\<close>

theorem expired_key_latches_machine:
  "let t = empty_tables\<lparr> operations := [demo_operation], idempotency_records := [demo_key] \<rparr>;
       (r, d) = demo_submit t
   in instant (i_expires_at demo_key) \<le> instant (d_clock (demo_domain t) 0) \<and>
      r = Inl (DomainError JournalUnavailableError None) \<and> \<not> admits_work (d_view d) \<and>
      ms_fault (d_view d) = FS_latched"
  by code_simp

text \<open>
  a journal that cannot even begin a transaction is not noticed: the exception is not a
  journal error, so it leaves the callback, the outcome is not recorded, and the machine is not
  latched and goes on admitting work as before.
\<close>

theorem begin_failure_escapes_latch:
  assumes "\<not> j_closed (d_journal d)" "next_outcome (d_journal d) = St_begin_fails"
    and "is_ok (require_reason reason)" "st_trusted_terminal s \<longleftrightarrow> state = OS_succeeded"
  shows "fst (safe_transition operation_id state reason s d) = Inl OperationalError \<and>
    j_tables (d_journal (snd (safe_transition operation_id state reason s d))) = j_tables (d_journal d) \<and>
    admits_work (d_view (snd (safe_transition operation_id state reason s d))) = admits_work (d_view d)"
proof -
  obtain x where "require_reason reason = Inr x" using assms(3) by (auto simp: is_ok_iff)
  then have "record_transition i q (d_journal d) = (Inl OperationalError, after_outcome (d_journal d))"
    if "tr_reason q = reason" "tr_to_state q = state" "tr_trusted_terminal q = st_trusted_terminal s" for i q
    using assms(1,2,4) that
    by (auto simp: record_transition_def transition_checks_def transaction_def then_decode_def)
  then show ?thesis
    by (simp add: safe_transition_def transition_def write_transition_def machine_transition_def dbind_def now_def
        djournal_def install_machine_def after_outcome_def)
qed

theorem begin_failure_escapes_latch_witness:
  "fst (safe_transition ''x'' OS_failed ''r'' plain ((demo_domain running_tables)\<lparr> d_journal := new_journal [St_begin_fails] \<rparr>))
     = Inl OperationalError"
proof -
  let ?d = "(demo_domain running_tables)\<lparr> d_journal := new_journal [St_begin_fails] \<rparr>"
  have h: "\<not> j_closed (d_journal ?d)" "next_outcome (d_journal ?d) = St_begin_fails" "is_ok (require_reason ''r'')"
    "st_trusted_terminal plain \<longleftrightarrow> OS_failed = OS_succeeded"
    by (simp_all add: new_journal_def next_outcome_def plain_def) code_simp
  show ?thesis using begin_failure_escapes_latch [OF h, of "''x''"] by blast
qed

end
