(* ===== verification/Tasks.thy ===== *)
theory Tasks
  imports Prelude
begin

text \<open>
  Threads that share a state. A \<open>task\<close> is one run of a thread's body: between two sections any other
  thread may act, inside a section (a lock held, one call of a locked object) none does. \<open>pool_step\<close>
  interleaves the sections of all threads and starts the next run of a thread whose last one has
  ended, whatever it raised, as the loops of \<open>vision/src/cs71vision/runtime.py\<close> do. The rest is a small
  rely-guarantee logic over it.
\<close>

section \<open>Tasks\<close>

datatype ('s, 'e, 'a) task = Ret 'a | Exc 'e | Atomic "'s \<Rightarrow> 's" "'s \<Rightarrow> ('s, 'e, 'a) task"

primrec tbind :: "('s, 'e, 'a) task \<Rightarrow> ('a \<Rightarrow> ('s, 'e, 'b) task) \<Rightarrow> ('s, 'e, 'b) task" where
  "tbind (Ret x) k = k x"
| "tbind (Exc e) k = Exc e"
| "tbind (Atomic f g) k = Atomic f (\<lambda>s. tbind (g s) k)"

text \<open>\<open>try: t except e: ...\<close> for the exceptions \<open>handler\<close> has an answer to.\<close>

primrec tcatch :: "('s, 'e, 'a) task \<Rightarrow> ('e \<Rightarrow> ('s, 'e, 'a) task option) \<Rightarrow> ('s, 'e, 'a) task" where
  "tcatch (Ret x) handler = Ret x"
| "tcatch (Exc e) handler = (case handler e of None \<Rightarrow> Exc e | Some t \<Rightarrow> t)"
| "tcatch (Atomic f g) handler = Atomic f (\<lambda>s. tcatch (g s) handler)"

definition of_result :: "('e, 'a) result \<Rightarrow> ('s, 'e, 'a) task" where
  "of_result r = (case r of Inl e \<Rightarrow> Exc e | Inr x \<Rightarrow> Ret x)"

text \<open>One locked call.\<close>

definition section_of :: "('s \<Rightarrow> ('e, 'a) result \<times> 's) \<Rightarrow> ('s, 'e, 'a) task" where
  "section_of call = Atomic (\<lambda>s. snd (call s)) (\<lambda>s. of_result (fst (call s)))"

fun tfold :: "('x \<Rightarrow> 'a \<Rightarrow> ('s, 'e, 'a) task) \<Rightarrow> 'x list \<Rightarrow> 'a \<Rightarrow> ('s, 'e, 'a) task" where
  "tfold body [] acc = Ret acc"
| "tfold body (x # xs) acc = tbind (body x acc) (tfold body xs)"

text \<open>A run without interference.\<close>

primrec run_task :: "('s, 'e, 'a) task \<Rightarrow> 's \<Rightarrow> ('e, 'a) result \<times> 's" where
  "run_task (Ret x) = (\<lambda>s. (Inr x, s))"
| "run_task (Exc e) = (\<lambda>s. (Inl e, s))"
| "run_task (Atomic f g) = (\<lambda>s. run_task (g s) (f s))"

lemma run_tbind: "run_task (tbind t k) s = (case run_task t s of (Inl e, s') \<Rightarrow> (Inl e, s') | (Inr x, s') \<Rightarrow> run_task (k x) s')"
  by (induction t arbitrary: s) auto

lemma run_section: "run_task (section_of call) s = call s"
  by (cases "call s") (auto simp: section_of_def of_result_def split: sum.split)

fun ended :: "('s, 'e, 'a) task \<Rightarrow> bool" where
  "ended (Atomic f g) = False"
| "ended _ = True"

section \<open>Interleaving\<close>

inductive pool_step ::
    "('i \<Rightarrow> ('s, 'e, 'a) task \<Rightarrow> bool) \<Rightarrow> ('i \<Rightarrow> ('s, 'e, 'a) task) \<times> 's \<Rightarrow> ('i \<Rightarrow> ('s, 'e, 'a) task) \<times> 's \<Rightarrow> bool"
  for jobs where
  run: "pool i = Atomic f g \<Longrightarrow> pool_step jobs (pool, s) (pool(i := g s), f s)"
| tick: "ended (pool i) \<Longrightarrow> jobs i t \<Longrightarrow> pool_step jobs (pool, s) (pool(i := t), s)"

lemma pool_runs_task:
  "pool i = t \<Longrightarrow> \<exists>pool'. (pool_step jobs)\<^sup>*\<^sup>* (pool, s) (pool', snd (run_task t s)) \<and> ended (pool' i) \<and> (\<forall>j. j \<noteq> i \<longrightarrow> pool' j = pool j)"
proof (induction t arbitrary: pool s)
  case (Atomic f g)
  let ?pool = "pool(i := g s)"
  obtain pool' where "(pool_step jobs)\<^sup>*\<^sup>* (?pool, f s) (pool', snd (run_task (g s) (f s)))" "ended (pool' i)"
      "\<forall>j. j \<noteq> i \<longrightarrow> pool' j = ?pool j"
    using Atomic.IH [of "g s" ?pool "f s"] by (metis fun_upd_same rangeI)
  moreover have "pool_step jobs (pool, s) (?pool, f s)" using pool_step.run Atomic.prems .
  ultimately show ?case by (auto intro!: exI [of _ pool'] intro: converse_rtranclp_into_rtranclp)
qed (metis ended.simps run_task.simps rtranclp.rtrancl_refl snd_conv)+

text \<open>Runs of whole jobs, one after the other, are runs of the pool.\<close>

lemma pool_runs_jobs:
  assumes "\<And>i t. (i, t) \<in> set its \<Longrightarrow> jobs i t" "\<And>i. ended (pool i)"
  shows "\<exists>pool'. (pool_step jobs)\<^sup>*\<^sup>* (pool, s) (pool', fold (\<lambda>(i, t) s. snd (run_task t s)) its s)"
  using assms
proof (induction its arbitrary: pool s)
  case (Cons it its)
  obtain i t where it: "it = (i, t)" by (cases it)
  have tick: "pool_step jobs (pool, s) (pool(i := t), s)" 
    by (rule pool_step.tick) (use Cons.prems it in auto)
  obtain pool1 where run: "(pool_step jobs)\<^sup>*\<^sup>* (pool(i := t), s) (pool1, snd (run_task t s))" "ended (pool1 i)"
      "\<forall>j. j \<noteq> i \<longrightarrow> pool1 j = (pool(i := t)) j"
    using pool_runs_task [of "pool(i := t)" i t jobs s] by auto
  have "ended (pool1 j)" for j using run(2,3) Cons.prems(2) by (cases "j = i") auto
  with Cons.IH [of pool1 "snd (run_task t s)"] Cons.prems(1)
  obtain pool2 where "(pool_step jobs)\<^sup>*\<^sup>* (pool1, snd (run_task t s)) (pool2, fold (\<lambda>(i, t) s. snd (run_task t s)) its (snd (run_task t s)))"
    by auto
  with tick run(1) have "(pool_step jobs)\<^sup>*\<^sup>* (pool, s) (pool2, fold (\<lambda>(i, t) s. snd (run_task t s)) its (snd (run_task t s)))"
    by (meson converse_rtranclp_into_rtranclp rtranclp_trans)
  then show ?case using it by auto
qed auto

section \<open>Rely and guarantee\<close>

text \<open>\<open>guar I R post t s\<close>: from any state the others may have made of \<open>s\<close>, every section of the
  task keeps \<open>I\<close> and moves along \<open>R\<close>, and a result satisfies \<open>post\<close> in every later state.\<close>

primrec guar ::
    "('s \<Rightarrow> bool) \<Rightarrow> ('s \<Rightarrow> 's \<Rightarrow> bool) \<Rightarrow> ('a \<Rightarrow> 's \<Rightarrow> bool) \<Rightarrow> ('s, 'e, 'a) task \<Rightarrow> 's \<Rightarrow> bool" where
  "guar I R post (Ret x) = (\<lambda>s. \<forall>s'. R s s' \<and> I s' \<longrightarrow> post x s')"
| "guar I R post (Exc e) = (\<lambda>s. True)"
| "guar I R post (Atomic f g) = (\<lambda>s. \<forall>s'. R s s' \<and> I s' \<longrightarrow>
     I (f s') \<and> R s' (f s') \<and> guar I R post (g s') (f s'))"

definition anything :: "'a \<Rightarrow> 's \<Rightarrow> bool" where
  "anything x s = True"

text \<open>The first section of a task says what its program text shows: the datatype keeps the state
  change and the continuation apart so that both are functions of the state it ran in.\<close>

locale rely =
  fixes I :: "'s \<Rightarrow> bool" and R :: "'s \<Rightarrow> 's \<Rightarrow> bool"
  assumes R_refl: "R s s"
    and R_trans: "R s s' \<Longrightarrow> R s' s'' \<Longrightarrow> R s s''"
begin

lemma guar_later: "guar I R post t s \<Longrightarrow> R s s' \<Longrightarrow> guar I R post t s'"
  by (cases t) (auto intro: R_trans)

lemma guar_from_later: "(\<And>s'. R s s' \<Longrightarrow> I s' \<Longrightarrow> guar I R post t s') \<Longrightarrow> guar I R post t s"
  using R_refl by (cases t) auto

lemma guar_weaken: "guar I R post t s \<Longrightarrow> (\<And>x s. post x s \<Longrightarrow> post' x s) \<Longrightarrow> guar I R post' t s"
  by (induction t arbitrary: s) auto

lemma guar_bind:
  assumes "guar I R mid t s" "\<And>x s'. R s s' \<Longrightarrow> I s' \<Longrightarrow> mid x s' \<Longrightarrow> guar I R post (k x) s'"
  shows "guar I R post (tbind t k) s"
  using assms
proof (induction t arbitrary: s)
  case (Ret x)
  show ?case unfolding tbind.simps by (rule guar_from_later) (use Ret in auto)
next
  case (Atomic f g)
  have "guar I R post (tbind (g s') k) (f s')" if "R s s'" "I s'" for s'
  proof (rule Atomic.IH)
    have now: "R s u" if "R (f s') u" for u
      using that \<open>R s s'\<close> \<open>I s'\<close> Atomic.prems(1) by (auto intro: R_trans)
    show "guar I R mid (g s') (f s')" using that Atomic.prems(1) by simp
    show "guar I R post (k x) u" if "R (f s') u" "I u" "mid x u" for x u
      using Atomic.prems(2) now that by blast
  qed simp
  then show ?case using Atomic.prems(1) by simp
qed simp

lemma guar_catch:
  assumes "guar I R post t s" "\<And>e t' s'. R s s' \<Longrightarrow> I s' \<Longrightarrow> handler e = Some t' \<Longrightarrow> guar I R post t' s'"
  shows "guar I R post (tcatch t handler) s"
  using assms
proof (induction t arbitrary: s)
  case (Exc e)
  have "guar I R post t' s" if "handler e = Some t'" for t'
    by (rule guar_from_later) (use Exc that in auto)
  then show ?case by (auto split: option.split)
next
  case (Atomic f g)
  have "guar I R post (tcatch (g s') handler) (f s')" if "R s s'" "I s'" for s'
  proof (rule Atomic.IH)
    have now: "R s u" if "R (f s') u" for u
      using that \<open>R s s'\<close> \<open>I s'\<close> Atomic.prems(1) by (auto intro: R_trans)
    show "guar I R post (g s') (f s')" using that Atomic.prems(1) by simp
    show "guar I R post t' u" if "R (f s') u" "I u" "handler e = Some t'" for e t' u
      using Atomic.prems(2) now that by blast
  qed simp
  then show ?case using Atomic.prems(1) by simp
qed simp

lemma guar_stable: "guar I R post t s \<Longrightarrow> guar I R (\<lambda>x s. \<forall>s'. R s s' \<and> I s' \<longrightarrow> post x s') t s"
  by (induction t arbitrary: s) (auto intro: R_trans)

lemma guar_section:
  assumes "\<And>s'. R s s' \<Longrightarrow> I s' \<Longrightarrow> I (snd (call s')) \<and> R s' (snd (call s'))"
    and "\<And>s' x s''. R s s' \<Longrightarrow> I s' \<Longrightarrow> fst (call s') = Inr x \<Longrightarrow> R (snd (call s')) s'' \<Longrightarrow> I s'' \<Longrightarrow> post x s''"
  shows "guar I R post (section_of call) s"
  using assms by (auto simp: section_of_def of_result_def split: sum.split)

lemma guar_fold:
  assumes "\<And>x acc s'. x \<in> set xs \<Longrightarrow> R s s' \<Longrightarrow> guar I R anything (body x acc) s'"
  shows "guar I R anything (tfold body xs acc) s"
  using assms
proof (induction xs arbitrary: acc s)
  case (Cons x xs)
  show ?case
    unfolding tfold.simps
    by (rule guar_bind [where mid = anything]) (auto intro!: Cons.IH Cons.prems intro: R_refl R_trans)
qed (simp add: anything_def)

text \<open>The interleaving keeps what every job guarantees.\<close>

lemma pool_invariant:
  assumes "(pool_step jobs)\<^sup>*\<^sup>* (pool0, s0) (pool, s)" "I s0" "\<And>i. ended (pool0 i)"
    and "\<And>i t s. jobs i t \<Longrightarrow> guar I R anything t s"
  shows "I s \<and> R s0 s \<and> (\<forall>i. guar I R anything (pool i) s)"
  using assms(1)
proof (induction rule: rtranclp_induct2)
  case refl
  have "guar I R anything (pool0 i) s0" for i
    using assms(3) [of i] by (cases "pool0 i") (auto simp: anything_def)
  then show ?case using assms(2) R_refl by simp
next
  case (step pool s pool' s')
  from step.hyps(2) show ?case
  proof cases
    case (run i f g)
    with step.IH R_refl [of s] have now: "I s'" "R s s'" "guar I R anything (g s) s'"
      by (metis guar.simps(3))+
    then show ?thesis using step.IH run by (auto intro: R_trans guar_later)
  qed (use step.IH assms(4) in auto)
qed

end

lemma anything [simp]: "anything x s"
  by (simp add: anything_def)

end
