(* ===== verification/Routing.thy ===== *)
theory Routing
  imports Operations "HOL-Library.AList"
begin

text \<open>
  Routing profiles of the vision service (\<open>vision/src/cs71vision/routing.py\<close>): which chute a class
  of cases goes to. A dictionary is an association list with distinct keys, in insertion order;
  the lock of \<open>RoutingSession\<close> makes each method one step.
\<close>

section \<open>Profiles\<close>

text \<open>The exceptions of the service, by class; \<open>OtherVisionError\<close> is any other, by its name.\<close>

datatype vision_error = RoutingError | DatasetError | DatasetSchemaError | DaemonClientError
  | ClassificationError | TrainingError | VisionApiError string | OtherVisionError string

definition MAX_SLOT :: int where
  "MAX_SLOT = 63"

type_synonym class_map = "(int \<times> int) list"

datatype routing_profile = FixedMapProfile class_map int | DynamicProfile "int list"
  | TwoPassProfile class_map int "int option"

definition in_range :: "int \<Rightarrow> bool" where
  "in_range n = (0 \<le> n \<and> n \<le> MAX_SLOT)"

definition validate_map :: "class_map \<Rightarrow> int \<Rightarrow> (vision_error, unit) result" where
  "validate_map class_to_slot overflow_slot =
     (if class_to_slot = [] then Inl RoutingError
      else if \<not> list_all (\<lambda>(c, s). in_range c \<and> in_range s) class_to_slot then Inl RoutingError
      else if \<not> in_range overflow_slot then Inl RoutingError
      else if overflow_slot \<in> set (map snd class_to_slot) then Inl RoutingError
      else Inr ())"

fun validate_profile :: "routing_profile \<Rightarrow> (vision_error, unit) result" where
  "validate_profile (FixedMapProfile class_to_slot overflow_slot) = validate_map class_to_slot overflow_slot"
| "validate_profile (TwoPassProfile class_to_slot overflow_slot source_group) =
     bind_r (validate_map class_to_slot overflow_slot) (\<lambda>_.
       case source_group of None \<Rightarrow> Inr () | Some g \<Rightarrow> if in_range g then Inr () else Inl RoutingError)"
| "validate_profile (DynamicProfile available_slots) =
     (if available_slots = [] then Inl RoutingError
      else if \<not> list_all in_range available_slots then Inl RoutingError
      else if \<not> distinct available_slots then Inl RoutingError
      else Inr ())"

record legend_entry =
  le_slot :: int
  le_class_id :: "int option"
  le_overflow :: bool

definition map_legend :: "class_map \<Rightarrow> int \<Rightarrow> legend_entry list" where
  "map_legend class_to_slot overflow_slot =
     sort_key le_slot (map (\<lambda>(c, s). \<lparr> le_slot = s, le_class_id = Some c, le_overflow = False \<rparr>) class_to_slot
       @ [\<lparr> le_slot = overflow_slot, le_class_id = None, le_overflow = True \<rparr>])"

text \<open>\<open>claimed\<close> maps a chute to the class that holds it.\<close>

fun legend_for :: "routing_profile \<Rightarrow> (int \<times> int) list \<Rightarrow> legend_entry list" where
  "legend_for (DynamicProfile available_slots) claimed =
     map (\<lambda>(s, c). \<lparr> le_slot = s, le_class_id = Some c, le_overflow = False \<rparr>) claimed"
| "legend_for (FixedMapProfile class_to_slot overflow_slot) claimed = map_legend class_to_slot overflow_slot"
| "legend_for (TwoPassProfile class_to_slot overflow_slot source_group) claimed = map_legend class_to_slot overflow_slot"

section \<open>The session\<close>

record routing_session =
  rs_profile :: "routing_profile option"
  rs_started_at :: "datetime option"
  rs_claimed :: "(int \<times> int) list"

definition new_routing_session :: routing_session where
  "new_routing_session = \<lparr> rs_profile = None, rs_started_at = None, rs_claimed = [] \<rparr>"

definition start_routing :: "routing_profile \<Rightarrow> datetime \<Rightarrow> routing_session \<Rightarrow> (vision_error, unit) result \<times> routing_session" where
  "start_routing profile now s =
     (case validate_profile profile of
        Inl e \<Rightarrow> (Inl e, s)
      | Inr _ \<Rightarrow> (Inr (), \<lparr> rs_profile = Some profile, rs_started_at = Some now, rs_claimed = [] \<rparr>))"

definition stop_routing :: "routing_session \<Rightarrow> routing_session" where
  "stop_routing s = \<lparr> rs_profile = None, rs_started_at = None, rs_claimed = [] \<rparr>"

text \<open>\<open>_route_dynamic\<close>: the first chute whose class this is, else the next free one.\<close>

definition chute_of :: "int \<Rightarrow> (int \<times> int) list \<Rightarrow> int option" where
  "chute_of class_id claimed = map_option fst (List.find (\<lambda>(s, c). c = class_id) claimed)"

definition route_dynamic :: "int list \<Rightarrow> int \<Rightarrow> routing_session \<Rightarrow> (vision_error, int) result \<times> routing_session" where
  "route_dynamic available_slots class_id s =
     (case chute_of class_id (rs_claimed s) of
        Some slot \<Rightarrow> (Inr slot, s)
      | None \<Rightarrow>
          if length (rs_claimed s) \<ge> length available_slots then (Inl RoutingError, s)
          else let slot = available_slots ! length (rs_claimed s)
               in (Inr slot, s\<lparr> rs_claimed := AList.update slot class_id (rs_claimed s) \<rparr>))"

definition lookup_slot :: "class_map \<Rightarrow> int \<Rightarrow> int \<Rightarrow> int" where
  "lookup_slot class_to_slot overflow_slot class_id =
     (case map_of class_to_slot class_id of Some s \<Rightarrow> s | None \<Rightarrow> overflow_slot)"

definition route :: "int \<Rightarrow> routing_session \<Rightarrow> (vision_error, int) result \<times> routing_session" where
  "route class_id s =
     (case rs_profile s of
        None \<Rightarrow> (Inr class_id, s)
      | Some (DynamicProfile available_slots) \<Rightarrow> route_dynamic available_slots class_id s
      | Some (FixedMapProfile m overflow_slot) \<Rightarrow> (Inr (lookup_slot m overflow_slot class_id), s)
      | Some (TwoPassProfile m overflow_slot g) \<Rightarrow> (Inr (lookup_slot m overflow_slot class_id), s))"

record routing_snapshot =
  sn_active :: bool
  sn_profile :: "routing_profile option"
  sn_started_at :: "datetime option"
  sn_legend :: "legend_entry list"

definition routing_snapshot_of :: "routing_session \<Rightarrow> routing_snapshot" where
  "routing_snapshot_of s =
     (case rs_profile s of
        None \<Rightarrow> \<lparr> sn_active = False, sn_profile = None, sn_started_at = None, sn_legend = [] \<rparr>
      | Some p \<Rightarrow> \<lparr> sn_active = True, sn_profile = Some p, sn_started_at = rs_started_at s,
                   sn_legend = legend_for p (rs_claimed s) \<rparr>)"

inductive routing_step :: "routing_session \<Rightarrow> routing_session \<Rightarrow> bool" where
  start: "routing_step s (snd (start_routing p now s))"
| stop: "routing_step s (stop_routing s)"
| route: "routing_step s (snd (route c s))"

section \<open>The invariant\<close>

fun claims_ok :: "routing_profile \<Rightarrow> (int \<times> int) list \<Rightarrow> bool" where
  "claims_ok (DynamicProfile available_slots) claimed =
     (length claimed \<le> length available_slots \<and> map fst claimed = take (length claimed) available_slots \<and> distinct (map snd claimed))"
| "claims_ok _ claimed = (claimed = [])"

definition session_ok :: "routing_session \<Rightarrow> bool" where
  "session_ok s = (case rs_profile s of
     None \<Rightarrow> rs_claimed s = [] | Some p \<Rightarrow> validate_profile p = Inr () \<and> claims_ok p (rs_claimed s))"

lemma find_chute: "chute_of c claimed = Some slot \<Longrightarrow> (slot, c) \<in> set claimed"
  by (auto simp: chute_of_def find_Some_iff) (metis nth_mem)

lemma find_no_chute: "chute_of c claimed = None \<longleftrightarrow> c \<notin> snd ` set claimed"
  by (force simp: chute_of_def find_None_iff)

lemma chute_of_append: "distinct (map snd (claimed @ [(s, c)])) \<Longrightarrow> chute_of c (claimed @ [(s, c)]) = Some s"
  by (induction claimed) (auto simp: chute_of_def)

lemma update_new: "k \<notin> fst ` set xs \<Longrightarrow> AList.update k v xs = xs @ [(k, v)]"
  by (induction xs) auto

lemma take_nth_fresh: "distinct xs \<Longrightarrow> n < length xs \<Longrightarrow> xs ! n \<notin> set (take n xs)"
  by (metis distinct_take in_set_conv_nth length_take min.absorb4 not_distinct_conv_prefix nth_take take_Suc_conv_app_nth distinct_append disjoint_iff list.set_intros(1))

lemma route_dynamic_cases:
  assumes "validate_profile (DynamicProfile slots) = Inr ()" "claims_ok (DynamicProfile slots) (rs_claimed s)"
  obtains (known) slot where "route_dynamic slots c s = (Inr slot, s)" "(slot, c) \<in> set (rs_claimed s)"
  | (full) "route_dynamic slots c s = (Inl RoutingError, s)" "c \<notin> snd ` set (rs_claimed s)"
      "map fst (rs_claimed s) = slots"
  | (claim) slot where "route_dynamic slots c s = (Inr slot, s\<lparr> rs_claimed := rs_claimed s @ [(slot, c)] \<rparr>)"
      "c \<notin> snd ` set (rs_claimed s)" "slot \<notin> fst ` set (rs_claimed s)" "slot \<in> set slots"
      "map fst (rs_claimed s) @ [slot] = take (Suc (length (rs_claimed s))) slots" "length (rs_claimed s) < length slots"
proof (cases "chute_of c (rs_claimed s)")
  case (Some slot)
  then show thesis using find_chute [OF Some] by (intro known) (auto simp: route_dynamic_def)
next
  case None
  then have fresh: "c \<notin> snd ` set (rs_claimed s)" by (simp add: find_no_chute)
  let ?n = "length (rs_claimed s)"
  show thesis
  proof (cases "?n \<ge> length slots")
    case True
    then show thesis using None fresh assms(2) by (intro full) (auto simp: route_dynamic_def)
  next
    case False
    have d: "distinct slots" using assms(1) by (auto split: if_splits)
    have fst: "map fst (rs_claimed s) = take ?n slots" using assms(2) by simp
    have "slots ! ?n \<notin> set (take ?n slots)" using take_nth_fresh [OF d] False by simp
    then have new: "slots ! ?n \<notin> fst ` set (rs_claimed s)" unfolding fst [symmetric] by simp
    show thesis
      using None False fresh new fst
      by (intro claim [of "slots ! ?n"])
        (auto simp: route_dynamic_def update_new take_Suc_conv_app_nth Let_def)
  qed
qed

lemma session_ok_route: "session_ok s \<Longrightarrow> session_ok (snd (route c s))"
proof -
  assume ok: "session_ok s"
  show ?thesis
  proof (cases "rs_profile s")
    case (Some p)
    then show ?thesis
    proof (cases p)
      case (DynamicProfile slots)
      with Some ok have v: "validate_profile (DynamicProfile slots) = Inr ()" "claims_ok (DynamicProfile slots) (rs_claimed s)"
        by (auto simp: session_ok_def)
      from v show ?thesis
        by (cases rule: route_dynamic_cases [where c = c])
          (use ok Some DynamicProfile v in \<open>auto simp: route_def session_ok_def\<close>)
    qed (use ok Some in \<open>auto simp: route_def\<close>)
  qed (use ok in \<open>auto simp: route_def\<close>)
qed

lemma session_ok_reachable: "routing_step\<^sup>*\<^sup>* new_routing_session s \<Longrightarrow> session_ok s"
proof (induction rule: rtranclp_induct)
  case (step s s')
  from step(2,3) show ?case
  proof cases
    case (start p now)
    show ?thesis
    proof (cases "validate_profile p")
      case (Inr u)
      then show ?thesis using start by (cases p) (simp_all add: start_routing_def session_ok_def)
    qed (use start step(3) in \<open>simp add: start_routing_def\<close>)
  next
    case stop
    then show ?thesis by (simp add: stop_routing_def session_ok_def)
  qed (use step(3) session_ok_route in auto)
qed (simp add: session_ok_def new_routing_session_def)

section \<open>Properties\<close>

text \<open>A run over the chutes 2 and 5, just started.\<close>

definition demo_session :: routing_session where
  "demo_session = \<lparr> rs_profile = Some (DynamicProfile [2, 5]), rs_started_at = Some (Aware 0), rs_claimed = [] \<rparr>"

lemma demo_session_reachable: "routing_step\<^sup>*\<^sup>* new_routing_session demo_session"
  using routing_step.start [of new_routing_session "DynamicProfile [2, 5]" "Aware 0"]
  by (simp add: start_routing_def in_range_def MAX_SLOT_def demo_session_def r_into_rtranclp)

text \<open>
  Dynamic routing is exclusive and stable: in any session that can arise, once a class has
  been routed to a chute it keeps it, no other class is ever routed there in the same run, and the
  chute is one the run was given, in range.
\<close>

theorem dynamic_routing_exclusive:
  assumes "routing_step\<^sup>*\<^sup>* new_routing_session s" "rs_profile s = Some (DynamicProfile slots)"
    and "route c s = (Inr slot, s1)" "route c' s1 = (Inr slot', s2)"
  shows "slot \<in> set slots \<and> in_range slot \<and> (slot' = slot \<longleftrightarrow> c' = c) \<and> route c s2 = (Inr slot, s2)"
proof -
  have ok: "session_ok s" using session_ok_reachable [OF assms(1)] .
  have p: "validate_profile (DynamicProfile slots) = Inr ()" using ok assms(2) by (auto simp: session_ok_def)
  have rng: "\<forall>x \<in> set slots. in_range x" using p by (auto simp: list_all_iff split: if_splits)
  have dist: "distinct slots" using p by (auto split: if_splits)
  have step: "rs_profile t' = Some (DynamicProfile slots) \<and> session_ok t' \<and> (x, d) \<in> set (rs_claimed t') \<and>
      set (rs_claimed t) \<subseteq> set (rs_claimed t')"
    if t: "route d t = (Inr x, t')" "session_ok t" "rs_profile t = Some (DynamicProfile slots)" for d t x t'
  proof -
    have c: "claims_ok (DynamicProfile slots) (rs_claimed t)" using t by (auto simp: session_ok_def)
    have ok': "session_ok t'" using session_ok_route [OF t(2), of d] t(1) by simp
    from p c show ?thesis
      by (cases rule: route_dynamic_cases [where c = d]) (use t ok' in \<open>auto simp: route_def\<close>)
  qed
  note s1 = step [OF assms(3) ok assms(2)]
  note s2 = step [OF assms(4)] s1
  have claims: "distinct (map fst (rs_claimed s2))" "distinct (map snd (rs_claimed s2))" "set (map fst (rs_claimed s2)) \<subseteq> set slots"
  proof -
    have c: "claims_ok (DynamicProfile slots) (rs_claimed s2)" using s2 by (auto simp: session_ok_def)
    then show "distinct (map fst (rs_claimed s2))" "distinct (map snd (rs_claimed s2))" using dist by auto
    show "set (map fst (rs_claimed s2)) \<subseteq> set slots"
      using c set_take_subset [of "length (rs_claimed s2)" slots] by (simp del: set_map)
  qed
  have both: "(slot, c) \<in> set (rs_claimed s2)" "(slot', c') \<in> set (rs_claimed s2)" using s2 by auto
  have "slot' = slot \<longleftrightarrow> c' = c"
    using both claims(1,2) by (metis eq_key_imp_eq_value map_of_eq_Some_iff prod.inject distinct_map inj_on_def snd_conv)
  moreover have "slot \<in> set slots" using both(1) claims(3) by force
  moreover have "route c s2 = (Inr slot, s2)"
  proof -
    obtain x where x: "chute_of c (rs_claimed s2) = Some x"
      using both(1) find_no_chute [of c "rs_claimed s2"] by (cases "chute_of c (rs_claimed s2)") force+
    have "x = slot" using find_chute [OF x] both(1) claims(2) by (metis distinct_map inj_on_def prod.inject snd_conv)
    then show ?thesis using x s2 by (simp add: route_def route_dynamic_def)
  qed
  ultimately show ?thesis using rng by auto
qed

theorem dynamic_routing_exclusive_witness:
  "\<exists>s1 s2. route 7 demo_session = (Inr 2, s1) \<and> route 9 s1 = (Inr 5, s2) \<and> route 7 s2 = (Inr 2, s2)"
proof -
  have "route 7 demo_session = (Inr 2, demo_session\<lparr> rs_claimed := [(2, 7)] \<rparr>)"
    "route 9 (demo_session\<lparr> rs_claimed := [(2, 7)] \<rparr>) = (Inr 5, demo_session\<lparr> rs_claimed := [(2, 7), (5, 9)] \<rparr>)"
    by (simp_all add: demo_session_def route_def route_dynamic_def chute_of_def)
  with dynamic_routing_exclusive [OF demo_session_reachable _ this] show ?thesis
    by (auto simp: demo_session_def)
qed

text \<open>
  The legend tells the truth: after a case of a class has been routed in an active run, the
  legend shows the chute it went to, under that class, or as the overflow chute when the profile
  does not name the class.
\<close>

theorem legend_matches_routing:
  assumes "routing_step\<^sup>*\<^sup>* new_routing_session s" "rs_profile s = Some p" "route c s = (Inr slot, s')"
  shows "\<exists>entry \<in> set (sn_legend (routing_snapshot_of s')). le_slot entry = slot \<and>
    (le_class_id entry = Some c \<or> le_overflow entry)"
proof -
  have ok: "session_ok s" using session_ok_reachable [OF assms(1)] .
  have fixed: "\<exists>entry \<in> set (map_legend m overflow). le_slot entry = lookup_slot m overflow c \<and>
      (le_class_id entry = Some c \<or> le_overflow entry)" for m overflow
    by (cases "map_of m c") (force simp: map_legend_def lookup_slot_def dest: map_of_SomeD)+
  show ?thesis
  proof (cases p)
    case (DynamicProfile slots)
    with ok assms(2) have v: "validate_profile (DynamicProfile slots) = Inr ()" "claims_ok (DynamicProfile slots) (rs_claimed s)"
      by (auto simp: session_ok_def)
    from v have "(slot, c) \<in> set (rs_claimed s') \<and> rs_profile s' = Some p"
      by (cases rule: route_dynamic_cases [where c = c])
        (use assms(2,3) DynamicProfile in \<open>auto simp: route_def\<close>)
    then show ?thesis using DynamicProfile by (force simp: routing_snapshot_of_def)
  qed (use assms(2,3) fixed in \<open>auto simp: route_def routing_snapshot_of_def\<close>)
qed

theorem legend_matches_routing_witness:
  "\<exists>entry s'. route 7 demo_session = (Inr 2, s') \<and> entry \<in> set (sn_legend (routing_snapshot_of s')) \<and>
    le_slot entry = 2 \<and> (le_class_id entry = Some 7 \<or> le_overflow entry)"
proof -
  have "route 7 demo_session = (Inr 2, demo_session\<lparr> rs_claimed := [(2, 7)] \<rparr>)"
    by (simp add: demo_session_def route_def route_dynamic_def chute_of_def)
  with legend_matches_routing [OF demo_session_reachable _ this] show ?thesis
    by (auto simp: demo_session_def)
qed

end
