(* ===== verification/Dataset.thy ===== *)
theory Dataset
  imports Complex_Main Routing Journal
begin

text \<open>
  The dataset store of the vision service (\<open>vision/src/cs71vision/dataset.py\<close>): \<open>vision.db\<close> as the
  record of its tables, each the list of its rows in rowid order. No statement of the source
  deletes or updates a row, so the id an \<open>AUTOINCREMENT\<close> column hands out is one more than the number
  of rows. Foreign keys and uniqueness are checked where a statement inserts. The storage engine is
  the script of outcomes of \<open>Journal\<close>. A stored time is its instant, for which the UTC ISO text
  stands; a stored JSON list or object is the list it encodes; a finite float is a rational.
\<close>

section \<open>Rows\<close>

type_synonym bytes = "8 word list"

record example_row =
  ex_operation_id :: string
  ex_slot :: int
  ex_frame_png :: bytes
  ex_frame_captured_at :: datetime
  ex_operation_created_at :: datetime
  ex_recorded_at :: datetime

record dataset_example =
  de_slot :: int
  de_frame_png :: bytes

record trained_candidate =
  tc_model_blob :: bytes
  tc_included_classes :: "int list"
  tc_excluded_classes :: "int list"
  tc_accuracy_by_class :: "(int \<times> rat) list"
  tc_minimum_examples_per_class :: int
  tc_training_example_count :: int
  tc_holdout_example_count :: int

record model_row =
  mo_version :: int
  mo_trained_at :: datetime
  mo_candidate :: trained_candidate

record candidate_summary =
  cs_version :: int
  cs_trained_at :: datetime
  cs_included_classes :: "int list"
  cs_excluded_classes :: "int list"
  cs_accuracy_by_class :: "(int \<times> rat) list"
  cs_minimum_examples_per_class :: int
  cs_training_example_count :: int
  cs_holdout_example_count :: int

record activation_summary =
  ac_activation_id :: int
  ac_version :: int
  ac_activated_at :: datetime

record suggestion_record =
  sg_suggestion_id :: int
  sg_model_version :: int
  sg_suggested_slot :: int
  sg_confidence :: rat
  sg_primer_present :: "bool option"
  sg_frame_captured_at :: datetime
  sg_suggested_at :: datetime

record outcome_row =
  ou_outcome_id :: int
  ou_suggestion_id :: int
  ou_operation_id :: string
  ou_actual_slot :: int
  ou_correct :: bool
  ou_recorded_at :: datetime

record autonomous_attempt =
  at_attempt_id :: int
  at_suggestion_id :: int
  at_operation_id :: string
  at_slot :: int
  at_attempted_at :: datetime

record review_row =
  rv_review_id :: int
  rv_attempt_id :: int
  rv_correct :: bool
  rv_reviewed_at :: datetime

record vision_tables =
  vt_examples :: "example_row list"
  vt_models :: "model_row list"
  vt_activations :: "activation_summary list"
  vt_suggestions :: "suggestion_record list"
  vt_outcomes :: "outcome_row list"
  vt_attempts :: "autonomous_attempt list"
  vt_reviews :: "review_row list"

definition empty_vision_tables :: vision_tables where
  "empty_vision_tables = \<lparr> vt_examples = [], vt_models = [], vt_activations = [], vt_suggestions = [],
     vt_outcomes = [], vt_attempts = [], vt_reviews = [] \<rparr>"

record suggestion_accuracy =
  sa_total :: nat
  sa_correct :: nat

definition accuracy_fraction :: "suggestion_accuracy \<Rightarrow> rat option" where
  "accuracy_fraction a = (if sa_total a = 0 then None else Some (of_nat (sa_correct a) / of_nat (sa_total a)))"

record autonomous_accuracy =
  aa_slot :: int
  aa_total :: nat
  aa_correct :: nat

definition false_rate :: "autonomous_accuracy \<Rightarrow> rat option" where
  "false_rate a = (if aa_total a = 0 then None
     else Some ((of_nat (aa_total a) - of_nat (aa_correct a)) / of_nat (aa_total a)))"

section \<open>The store\<close>

record dataset =
  ds_tables :: vision_tables
  ds_storage :: "storage_outcome list"
  ds_closed :: bool

text \<open>\<open>_transaction\<close>. As in the journal, a \<open>BEGIN IMMEDIATE\<close> that fails makes the handler's \<open>ROLLBACK\<close>
  raise \<open>sqlite3.OperationalError\<close>, which is no \<open>DatasetError\<close>.\<close>

definition ds_transaction ::
    "(vision_tables \<Rightarrow> (vision_error, 'a \<times> vision_tables) result) \<Rightarrow> dataset \<Rightarrow> (vision_error, 'a) result \<times> dataset" where
  "ds_transaction block d =
     (if ds_closed d then (Inl DatasetError, d)
      else let d' = d\<lparr> ds_storage := tl (ds_storage d) \<rparr> in
        case ds_storage d of
          St_begin_fails # _ \<Rightarrow> (Inl (OtherVisionError ''OperationalError''), d')
        | outcomes \<Rightarrow>
            (case block (ds_tables d) of
               Inl e \<Rightarrow> (Inl e, d')
             | Inr (x, t) \<Rightarrow> if outcomes \<noteq> [] \<and> hd outcomes = St_write_fails then (Inl DatasetError, d')
                            else (Inr x, d'\<lparr> ds_tables := t \<rparr>)))"

text \<open>\<open>_guard\<close>: one read.\<close>

definition ds_guard :: "(vision_tables \<Rightarrow> 'a) \<Rightarrow> dataset \<Rightarrow> (vision_error, 'a) result \<times> dataset" where
  "ds_guard read d =
     (if ds_closed d then (Inl DatasetError, d)
      else (if ds_storage d = [] \<or> hd (ds_storage d) = St_ok then Inr (read (ds_tables d)) else Inl DatasetError,
            d\<lparr> ds_storage := tl (ds_storage d) \<rparr>))"

definition ds_close :: "dataset \<Rightarrow> dataset" where
  "ds_close d = (if ds_closed d then d else d\<lparr> ds_closed := True \<rparr>)"

fun encode_time :: "datetime \<Rightarrow> (vision_error, datetime) result" where
  "encode_time (Naive t) = Inl DatasetError"
| "encode_time (Aware t) = Inr (Aware t)"

text \<open>SQLite binds 64-bit integers; Python's \<open>sqlite3\<close> raises \<open>OverflowError\<close> for others.\<close>

definition sqlite_int :: "int \<Rightarrow> (vision_error, int) result" where
  "sqlite_int n = (if - (2 ^ 63) \<le> n \<and> n < 2 ^ 63 then Inr n else Inl (OtherVisionError ''OverflowError''))"

definition next_id :: "'a list \<Rightarrow> int" where
  "next_id rows = int (length rows) + 1"

section \<open>Examples\<close>

definition record_example ::
    "string \<Rightarrow> int \<Rightarrow> bytes \<Rightarrow> datetime \<Rightarrow> datetime \<Rightarrow> datetime \<Rightarrow> dataset \<Rightarrow> (vision_error, bool) result \<times> dataset" where
  "record_example operation_id slot frame_png frame_captured_at operation_created_at clock = ds_transaction (\<lambda>t.
     bind_r (encode_time frame_captured_at) (\<lambda>captured.
     bind_r (encode_time operation_created_at) (\<lambda>created.
     bind_r (encode_time clock) (\<lambda>recorded.
     bind_r (sqlite_int slot) (\<lambda>slot.
       if operation_id \<in> set (map ex_operation_id (vt_examples t)) then Inr (False, t)
       else Inr (True, t\<lparr> vt_examples := vt_examples t @
         [\<lparr> ex_operation_id = operation_id, ex_slot = slot, ex_frame_png = frame_png,
            ex_frame_captured_at = captured, ex_operation_created_at = created, ex_recorded_at = recorded \<rparr>] \<rparr>))))))"

definition has_example :: "string \<Rightarrow> dataset \<Rightarrow> (vision_error, bool) result \<times> dataset" where
  "has_example operation_id = ds_guard (\<lambda>t. operation_id \<in> set (map ex_operation_id (vt_examples t)))"

definition counts_by_slot :: "dataset \<Rightarrow> (vision_error, (int \<times> nat) list) result \<times> dataset" where
  "counts_by_slot = ds_guard (\<lambda>t. map (\<lambda>s. (s, length (filter (\<lambda>r. ex_slot r = s) (vt_examples t))))
     (sort (remdups (map ex_slot (vt_examples t)))))"

definition total_examples :: "dataset \<Rightarrow> (vision_error, nat) result \<times> dataset" where
  "total_examples = ds_guard (\<lambda>t. length (vt_examples t))"

text \<open>Rows recorded at the same instant are read in the order of insertion.\<close>

definition examples :: "dataset \<Rightarrow> (vision_error, dataset_example list) result \<times> dataset" where
  "examples = ds_guard (\<lambda>t. map (\<lambda>r. \<lparr> de_slot = ex_slot r, de_frame_png = ex_frame_png r \<rparr>)
     (sort_key (\<lambda>r. instant (ex_recorded_at r)) (vt_examples t)))"

section \<open>Candidates and activations\<close>

definition record_candidate :: "trained_candidate \<Rightarrow> datetime \<Rightarrow> dataset \<Rightarrow> (vision_error, int) result \<times> dataset" where
  "record_candidate candidate trained_at = ds_transaction (\<lambda>t.
     bind_r (encode_time trained_at) (\<lambda>trained.
     bind_r (sqlite_int (tc_minimum_examples_per_class candidate)) (\<lambda>_.
     bind_r (sqlite_int (tc_training_example_count candidate)) (\<lambda>_.
     bind_r (sqlite_int (tc_holdout_example_count candidate)) (\<lambda>_.
       Inr (next_id (vt_models t), t\<lparr> vt_models := vt_models t @
         [\<lparr> mo_version = next_id (vt_models t), mo_trained_at = trained, mo_candidate = candidate \<rparr>] \<rparr>))))))"

definition candidate_summary_from :: "model_row \<Rightarrow> candidate_summary" where
  "candidate_summary_from row = (let c = mo_candidate row in
     \<lparr> cs_version = mo_version row, cs_trained_at = mo_trained_at row,
       cs_included_classes = tc_included_classes c, cs_excluded_classes = tc_excluded_classes c,
       cs_accuracy_by_class = tc_accuracy_by_class c,
       cs_minimum_examples_per_class = tc_minimum_examples_per_class c,
       cs_training_example_count = tc_training_example_count c,
       cs_holdout_example_count = tc_holdout_example_count c \<rparr>)"

definition candidates :: "dataset \<Rightarrow> (vision_error, candidate_summary list) result \<times> dataset" where
  "candidates = ds_guard (\<lambda>t. map candidate_summary_from (sort_key mo_version (vt_models t)))"

definition find_model :: "int \<Rightarrow> vision_tables \<Rightarrow> model_row option" where
  "find_model version t = find (\<lambda>m. mo_version m = version) (vt_models t)"

definition candidate_model :: "int \<Rightarrow> dataset \<Rightarrow> (vision_error, bytes) result \<times> dataset" where
  "candidate_model version d = (case sqlite_int version of
     Inl e \<Rightarrow> (if ds_closed d then Inl DatasetError else Inl e, d)
   | Inr _ \<Rightarrow> then_decode (ds_guard (find_model version) d)
       (\<lambda>row. of_option DatasetError (map_option (\<lambda>m. tc_model_blob (mo_candidate m)) row)))"

definition activate_version :: "int \<Rightarrow> datetime \<Rightarrow> dataset \<Rightarrow> (vision_error, int) result \<times> dataset" where
  "activate_version version activated_at = ds_transaction (\<lambda>t.
     bind_r (sqlite_int version) (\<lambda>_.
     bind_r (of_option DatasetError (find_model version t)) (\<lambda>_.
     bind_r (encode_time activated_at) (\<lambda>activated.
       Inr (next_id (vt_activations t), t\<lparr> vt_activations := vt_activations t @
         [\<lparr> ac_activation_id = next_id (vt_activations t), ac_version = version, ac_activated_at = activated \<rparr>] \<rparr>)))))"

definition activations :: "dataset \<Rightarrow> (vision_error, activation_summary list) result \<times> dataset" where
  "activations = ds_guard (\<lambda>t. sort_key ac_activation_id (vt_activations t))"

text \<open>\<open>ORDER BY activation_id DESC LIMIT 1\<close>.\<close>

definition last_row :: "'a list \<Rightarrow> 'a option" where
  "last_row rows = (if rows = [] then None else Some (last rows))"

definition active_version :: "dataset \<Rightarrow> (vision_error, int option) result \<times> dataset" where
  "active_version = ds_guard (\<lambda>t. map_option ac_version (last_row (sort_key ac_activation_id (vt_activations t))))"

section \<open>Suggestions and their outcomes\<close>

definition record_suggestion ::
    "int \<Rightarrow> int \<Rightarrow> rat \<Rightarrow> datetime \<Rightarrow> datetime \<Rightarrow> bool option \<Rightarrow> dataset \<Rightarrow> (vision_error, int) result \<times> dataset" where
  "record_suggestion model_version suggested_slot confidence frame_captured_at suggested_at primer_present =
     ds_transaction (\<lambda>t.
     bind_r (encode_time frame_captured_at) (\<lambda>captured.
     bind_r (encode_time suggested_at) (\<lambda>suggested.
     bind_r (sqlite_int model_version) (\<lambda>_.
     bind_r (sqlite_int suggested_slot) (\<lambda>_.
     bind_r (require (find_model model_version t \<noteq> None) DatasetError) (\<lambda>_.
       Inr (next_id (vt_suggestions t), t\<lparr> vt_suggestions := vt_suggestions t @
         [\<lparr> sg_suggestion_id = next_id (vt_suggestions t), sg_model_version = model_version,
            sg_suggested_slot = suggested_slot, sg_confidence = confidence, sg_primer_present = primer_present,
            sg_frame_captured_at = captured, sg_suggested_at = suggested \<rparr>] \<rparr>)))))))"

definition latest_suggestion :: "dataset \<Rightarrow> (vision_error, suggestion_record option) result \<times> dataset" where
  "latest_suggestion = ds_guard (\<lambda>t. last_row (sort_key sg_suggestion_id (vt_suggestions t)))"

text \<open>\<open>ORDER BY suggested_at DESC LIMIT 1\<close>; of several at one instant the one inserted first.\<close>

fun newest_suggestion :: "suggestion_record list \<Rightarrow> suggestion_record option" where
  "newest_suggestion [] = None"
| "newest_suggestion (s # ss) =
     (case newest_suggestion ss of
        None \<Rightarrow> Some s
      | Some s' \<Rightarrow> if instant (sg_suggested_at s') > instant (sg_suggested_at s) then Some s' else Some s)"

definition unmatched_rows :: "datetime \<Rightarrow> vision_tables \<Rightarrow> suggestion_record list" where
  "unmatched_rows moment t = filter (\<lambda>s. sg_suggestion_id s \<notin> set (map ou_suggestion_id (vt_outcomes t)) \<and>
     instant (sg_suggested_at s) \<le> instant moment) (vt_suggestions t)"

definition unmatched_suggestion_at_or_before ::
    "datetime \<Rightarrow> dataset \<Rightarrow> (vision_error, suggestion_record option) result \<times> dataset" where
  "unmatched_suggestion_at_or_before moment d = (case encode_time moment of
     Inl e \<Rightarrow> (Inl e, d)
   | Inr before \<Rightarrow> ds_guard (\<lambda>t. newest_suggestion (unmatched_rows before t)) d)"

definition find_suggestion :: "int \<Rightarrow> vision_tables \<Rightarrow> suggestion_record option" where
  "find_suggestion suggestion_id t = find (\<lambda>s. sg_suggestion_id s = suggestion_id) (vt_suggestions t)"

definition record_suggestion_outcome ::
    "int \<Rightarrow> string \<Rightarrow> int \<Rightarrow> datetime \<Rightarrow> dataset \<Rightarrow> (vision_error, int) result \<times> dataset" where
  "record_suggestion_outcome suggestion_id operation_id actual_slot recorded_at = ds_transaction (\<lambda>t.
     bind_r (sqlite_int suggestion_id) (\<lambda>_.
     bind_r (of_option DatasetError (find_suggestion suggestion_id t)) (\<lambda>row.
     bind_r (encode_time recorded_at) (\<lambda>recorded.
     bind_r (sqlite_int actual_slot) (\<lambda>_.
     bind_r (require (suggestion_id \<notin> set (map ou_suggestion_id (vt_outcomes t))) DatasetError) (\<lambda>_.
     bind_r (require (operation_id \<notin> set (map ou_operation_id (vt_outcomes t))) DatasetError) (\<lambda>_.
       Inr (next_id (vt_outcomes t), t\<lparr> vt_outcomes := vt_outcomes t @
         [\<lparr> ou_outcome_id = next_id (vt_outcomes t), ou_suggestion_id = suggestion_id,
            ou_operation_id = operation_id, ou_actual_slot = actual_slot,
            ou_correct = (sg_suggested_slot row = actual_slot), ou_recorded_at = recorded \<rparr>] \<rparr>))))))))"

definition read_suggestion_accuracy :: "dataset \<Rightarrow> (vision_error, suggestion_accuracy) result \<times> dataset" where
  "read_suggestion_accuracy = ds_guard (\<lambda>t.
     \<lparr> sa_total = length (vt_outcomes t), sa_correct = length (filter ou_correct (vt_outcomes t)) \<rparr>)"

section \<open>Autonomous attempts and their reviews\<close>

definition autonomous_attempt_exists :: "int \<Rightarrow> dataset \<Rightarrow> (vision_error, bool) result \<times> dataset" where
  "autonomous_attempt_exists suggestion_id = ds_guard (\<lambda>t. suggestion_id \<in> set (map at_suggestion_id (vt_attempts t)))"

definition record_autonomous_attempt ::
    "int \<Rightarrow> string \<Rightarrow> int \<Rightarrow> datetime \<Rightarrow> dataset \<Rightarrow> (vision_error, int) result \<times> dataset" where
  "record_autonomous_attempt suggestion_id operation_id slot attempted_at = ds_transaction (\<lambda>t.
     bind_r (encode_time attempted_at) (\<lambda>attempted.
     bind_r (sqlite_int suggestion_id) (\<lambda>_.
     bind_r (sqlite_int slot) (\<lambda>_.
     bind_r (require (suggestion_id \<notin> set (map at_suggestion_id (vt_attempts t))) DatasetError) (\<lambda>_.
     bind_r (require (operation_id \<notin> set (map at_operation_id (vt_attempts t))) DatasetError) (\<lambda>_.
     bind_r (require (find_suggestion suggestion_id t \<noteq> None) DatasetError) (\<lambda>_.
       Inr (next_id (vt_attempts t), t\<lparr> vt_attempts := vt_attempts t @
         [\<lparr> at_attempt_id = next_id (vt_attempts t), at_suggestion_id = suggestion_id,
            at_operation_id = operation_id, at_slot = slot, at_attempted_at = attempted \<rparr>] \<rparr>))))))))"

definition pending_autonomous_reviews :: "dataset \<Rightarrow> (vision_error, autonomous_attempt list) result \<times> dataset" where
  "pending_autonomous_reviews = ds_guard (\<lambda>t. sort_key at_attempt_id
     (filter (\<lambda>a. at_attempt_id a \<notin> set (map rv_attempt_id (vt_reviews t))) (vt_attempts t)))"

definition find_attempt :: "int \<Rightarrow> vision_tables \<Rightarrow> autonomous_attempt option" where
  "find_attempt attempt_id t = find (\<lambda>a. at_attempt_id a = attempt_id) (vt_attempts t)"

definition record_autonomous_review :: "int \<Rightarrow> bool \<Rightarrow> datetime \<Rightarrow> dataset \<Rightarrow> (vision_error, int) result \<times> dataset" where
  "record_autonomous_review attempt_id correct reviewed_at = ds_transaction (\<lambda>t.
     bind_r (sqlite_int attempt_id) (\<lambda>_.
     bind_r (of_option DatasetError (find_attempt attempt_id t)) (\<lambda>_.
     bind_r (encode_time reviewed_at) (\<lambda>reviewed.
     bind_r (require (attempt_id \<notin> set (map rv_attempt_id (vt_reviews t))) DatasetError) (\<lambda>_.
       Inr (next_id (vt_reviews t), t\<lparr> vt_reviews := vt_reviews t @
         [\<lparr> rv_review_id = next_id (vt_reviews t), rv_attempt_id = attempt_id, rv_correct = correct,
            rv_reviewed_at = reviewed \<rparr>] \<rparr>))))))"

text \<open>\<open>JOIN\<close> on the attempt, then \<open>GROUP BY slot ORDER BY slot\<close>.\<close>

definition reviewed_verdicts :: "vision_tables \<Rightarrow> (int \<times> bool) list" where
  "reviewed_verdicts t = concat (map (\<lambda>r. map (\<lambda>a. (at_slot a, rv_correct r))
     (filter (\<lambda>a. at_attempt_id a = rv_attempt_id r) (vt_attempts t))) (vt_reviews t))"

definition accuracy_of :: "(int \<times> bool) list \<Rightarrow> int \<Rightarrow> autonomous_accuracy" where
  "accuracy_of verdicts slot = \<lparr> aa_slot = slot, aa_total = length (filter (\<lambda>v. fst v = slot) verdicts),
     aa_correct = length (filter (\<lambda>v. fst v = slot \<and> snd v) verdicts) \<rparr>"

definition autonomous_accuracy_by_class :: "dataset \<Rightarrow> (vision_error, autonomous_accuracy list) result \<times> dataset" where
  "autonomous_accuracy_by_class = ds_guard (\<lambda>t.
     map (accuracy_of (reviewed_verdicts t)) (sort (remdups (map fst (reviewed_verdicts t)))))"

section \<open>Opening the store\<close>

text \<open>The build's migrations; a migration's statements are represented by their checksum.\<close>

definition dataset_migrations :: "(nat \<Rightarrow> string) \<Rightarrow> migration list" where
  "dataset_migrations checksum = map (\<lambda>(v, n). \<lparr> mg_version = v, mg_name = n, mg_checksum = checksum v \<rparr>)
     [(1, ''examples''), (2, ''models''), (3, ''activations''), (4, ''suggestions''),
      (5, ''suggestion_primer_axis''), (6, ''autonomous_sort'')]"

definition dataset_migrate :: "(nat \<Rightarrow> string) \<Rightarrow> migration list \<Rightarrow> (vision_error, migration list) result" where
  "dataset_migrate checksum applied =
     (case migrate (dataset_migrations checksum) applied of
        Inl _ \<Rightarrow> Inl DatasetSchemaError | Inr ledger \<Rightarrow> Inr ledger)"

definition new_dataset :: "storage_outcome list \<Rightarrow> dataset" where
  "new_dataset storage = \<lparr> ds_tables = empty_vision_tables, ds_storage = storage, ds_closed = False \<rparr>"

section \<open>Runs of the store\<close>

text \<open>One call on the store; a read only uses up one outcome of the storage.\<close>

inductive store_step :: "dataset \<Rightarrow> dataset \<Rightarrow> bool" where
  ss_example: "store_step d (snd (record_example op slot png captured created clock d))"
| ss_candidate: "store_step d (snd (record_candidate candidate clock d))"
| ss_activate: "store_step d (snd (activate_version version clock d))"
| ss_suggestion: "store_step d (snd (record_suggestion version slot confidence captured clock primer d))"
| ss_outcome: "store_step d (snd (record_suggestion_outcome sid op slot clock d))"
| ss_attempt: "store_step d (snd (record_autonomous_attempt sid op slot clock d))"
| ss_review: "store_step d (snd (record_autonomous_review aid correct clock d))"
| ss_read: "store_step d (snd (ds_guard (\<lambda>_. ()) d))"
| ss_close: "store_step d (ds_close d)"

lemmas store_writes = record_example_def record_candidate_def activate_version_def record_suggestion_def
  record_suggestion_outcome_def record_autonomous_attempt_def record_autonomous_review_def

section \<open>The invariant of the tables\<close>

definition numbered :: "('a \<Rightarrow> int) \<Rightarrow> 'a list \<Rightarrow> bool" where
  "numbered key rows = (map key rows = map int [1..<Suc (length rows)])"

definition vision_wf :: "vision_tables \<Rightarrow> bool" where
  "vision_wf t =
     (distinct (map ex_operation_id (vt_examples t)) \<and>
      numbered mo_version (vt_models t) \<and> numbered ac_activation_id (vt_activations t) \<and>
      numbered sg_suggestion_id (vt_suggestions t) \<and> numbered at_attempt_id (vt_attempts t) \<and>
      (\<forall>r\<in>set (vt_activations t). ac_version r \<in> set (map mo_version (vt_models t))) \<and>
      (\<forall>r\<in>set (vt_suggestions t). sg_model_version r \<in> set (map mo_version (vt_models t))) \<and>
      distinct (map ou_suggestion_id (vt_outcomes t)) \<and> distinct (map ou_operation_id (vt_outcomes t)) \<and>
      (\<forall>u\<in>set (vt_outcomes t). \<exists>s\<in>set (vt_suggestions t). sg_suggestion_id s = ou_suggestion_id u \<and>
         (ou_correct u \<longleftrightarrow> sg_suggested_slot s = ou_actual_slot u)) \<and>
      distinct (map at_suggestion_id (vt_attempts t)) \<and> distinct (map at_operation_id (vt_attempts t)) \<and>
      (\<forall>r\<in>set (vt_attempts t). at_suggestion_id r \<in> set (map sg_suggestion_id (vt_suggestions t))) \<and>
      distinct (map rv_attempt_id (vt_reviews t)) \<and>
      (\<forall>r\<in>set (vt_reviews t). rv_attempt_id r \<in> set (map at_attempt_id (vt_attempts t))))"

definition vision_grows :: "vision_tables \<Rightarrow> vision_tables \<Rightarrow> bool" where
  "vision_grows t t' = (prefix (vt_examples t) (vt_examples t') \<and> prefix (vt_models t) (vt_models t') \<and>
     prefix (vt_activations t) (vt_activations t') \<and> prefix (vt_suggestions t) (vt_suggestions t') \<and>
     prefix (vt_outcomes t) (vt_outcomes t') \<and> prefix (vt_attempts t) (vt_attempts t') \<and>
     prefix (vt_reviews t) (vt_reviews t'))"

lemma ds_transaction_cases:
  assumes "ds_transaction block d = (r, d')"
  obtains (failed) e where "r = Inl e" "ds_tables d' = ds_tables d"
  | (committed) x where "r = Inr x" "block (ds_tables d) = Inr (x, ds_tables d')"
  using assms
  by (auto simp: ds_transaction_def Let_def split: if_splits list.splits storage_outcome.splits sum.splits prod.splits)

lemma ds_guard_tables [simp]: "ds_tables (snd (ds_guard read d)) = ds_tables d"
  by (simp add: ds_guard_def)

lemma ds_guard_InrD: "fst (ds_guard read d) = Inr x \<Longrightarrow> x = read (ds_tables d)"
  by (auto simp: ds_guard_def split: if_splits)

lemma ds_close_tables [simp]: "ds_tables (ds_close d) = ds_tables d"
  by (simp add: ds_close_def)

lemma transaction_keeps:
  assumes "P (ds_tables d)" "\<And>x t'. block (ds_tables d) = Inr (x, t') \<Longrightarrow> P t'"
  shows "P (ds_tables (snd (ds_transaction block d)))"
proof (cases "ds_transaction block d")
  case (Pair r d')
  then show ?thesis by (cases rule: ds_transaction_cases) (use assms Pair in auto)
qed

lemma numbered_append: "numbered key rows \<Longrightarrow> key row = next_id rows \<Longrightarrow> numbered key (rows @ [row])"
  by (simp add: numbered_def next_id_def)

lemma numbered_distinct: "numbered key rows \<Longrightarrow> distinct (map key rows)"
  by (simp add: numbered_def distinct_map)

lemma find_key: "(find (\<lambda>x. key x = k) rows \<noteq> None) \<longleftrightarrow> k \<in> set (map key rows)"
  by (induction rows) auto

lemma find_key_Some: "find (\<lambda>x. key x = k) rows = Some x \<Longrightarrow> x \<in> set rows \<and> key x = k"
  by (induction rows) (auto split: if_splits)

lemmas find_rows = find_model_def find_suggestion_def find_attempt_def

lemma of_option_InrD: "of_option e x = Inr y \<Longrightarrow> x = Some y"
  by (cases x) (simp_all add: of_option_def)

lemma wf_transaction:
  "vision_wf (ds_tables d) \<Longrightarrow> (\<And>x t'. block (ds_tables d) = Inr (x, t') \<Longrightarrow> vision_wf t') \<Longrightarrow>
    vision_wf (ds_tables (snd (ds_transaction block d)))"
  by (rule transaction_keeps)

lemma grows_transaction:
  "(\<And>x t'. block (ds_tables d) = Inr (x, t') \<Longrightarrow> vision_grows (ds_tables d) t') \<Longrightarrow>
    vision_grows (ds_tables d) (ds_tables (snd (ds_transaction block d)))"
  by (rule transaction_keeps [where P = "vision_grows (ds_tables d)"]) (simp add: vision_grows_def)

lemma find_known: "find (\<lambda>x. key x = k) rows = Some x \<Longrightarrow> k \<in> key ` set rows"
  using find_key_Some by force

lemma store_step_wf:
  assumes "store_step d d'" "vision_wf (ds_tables d)"
  shows "vision_wf (ds_tables d')"
  using assms(1)
proof cases
  case (ss_example op slot png captured created clock)
  show ?thesis unfolding ss_example record_example_def
    by (rule wf_transaction [OF assms(2)]) (use assms(2) in \<open>auto simp: result_simps vision_wf_def split: if_splits\<close>)
next
  case (ss_candidate candidate clock)
  show ?thesis unfolding ss_candidate record_candidate_def
    by (rule wf_transaction [OF assms(2)]) (use assms(2) in \<open>auto simp: result_simps vision_wf_def intro!: numbered_append\<close>)
next
  case (ss_activate version clock)
  show ?thesis unfolding ss_activate activate_version_def
    by (rule wf_transaction [OF assms(2)])
      (use assms(2) in \<open>auto simp: result_simps vision_wf_def find_rows dest!: of_option_InrD find_known intro!: numbered_append\<close>)
next
  case (ss_suggestion version slot confidence captured clock primer)
  show ?thesis unfolding ss_suggestion record_suggestion_def
    by (rule wf_transaction [OF assms(2)])
      (use assms(2) in \<open>auto simp: result_simps vision_wf_def find_rows dest!: find_known intro!: numbered_append\<close>)
next
  case (ss_outcome sid op slot clock)
  show ?thesis unfolding ss_outcome record_suggestion_outcome_def
    by (rule wf_transaction [OF assms(2)])
      (use assms(2) in \<open>auto simp: vision_wf_def result_simps find_rows dest!: of_option_InrD find_key_Some\<close>, blast)
next
  case (ss_attempt sid op slot clock)
  show ?thesis unfolding ss_attempt record_autonomous_attempt_def
    by (rule wf_transaction [OF assms(2)])
      (use assms(2) in \<open>auto simp: result_simps vision_wf_def find_rows dest!: find_known intro!: numbered_append\<close>)
next
  case (ss_review aid correct clock)
  show ?thesis unfolding ss_review record_autonomous_review_def
    by (rule wf_transaction [OF assms(2)])
      (use assms(2) in \<open>auto simp: result_simps vision_wf_def find_rows dest!: of_option_InrD find_known\<close>)
qed (use assms(2) in simp_all)

lemma grows_append [simp]:
  "vision_grows t t"
  "vision_grows t (t\<lparr> vt_examples := vt_examples t @ a \<rparr>)"
  "vision_grows t (t\<lparr> vt_models := vt_models t @ b \<rparr>)"
  "vision_grows t (t\<lparr> vt_activations := vt_activations t @ c \<rparr>)"
  "vision_grows t (t\<lparr> vt_suggestions := vt_suggestions t @ e \<rparr>)"
  "vision_grows t (t\<lparr> vt_outcomes := vt_outcomes t @ f \<rparr>)"
  "vision_grows t (t\<lparr> vt_attempts := vt_attempts t @ g \<rparr>)"
  "vision_grows t (t\<lparr> vt_reviews := vt_reviews t @ h \<rparr>)"
  by (simp_all add: vision_grows_def)

lemma store_step_grows: "store_step d d' \<Longrightarrow> vision_grows (ds_tables d) (ds_tables d')"
  by (induction rule: store_step.induct)
    (auto simp: store_writes result_simps split: if_splits intro!: grows_transaction)

lemma empty_vision_wf: "vision_wf empty_vision_tables"
  by (simp add: vision_wf_def empty_vision_tables_def numbered_def)

lemma vision_grows_trans: "vision_grows t t' \<Longrightarrow> vision_grows t' t'' \<Longrightarrow> vision_grows t t''"
  by (auto simp: vision_grows_def)

lemma store_reachable_wf: "store_step\<^sup>*\<^sup>* d d' \<Longrightarrow> vision_wf (ds_tables d) \<Longrightarrow> vision_wf (ds_tables d')"
  by (induction rule: rtranclp_induct) (auto intro: store_step_wf)

lemma store_reachable_grows: "store_step\<^sup>*\<^sup>* d d' \<Longrightarrow> vision_grows (ds_tables d) (ds_tables d')"
  by (induction rule: rtranclp_induct) (auto intro: store_step_grows vision_grows_trans)

section \<open>What reads return\<close>

lemma numbered_sorted: "numbered key rows \<Longrightarrow> sort_key key rows = rows"
proof (rule sort_key_id_if_sorted)
  assume n: "numbered key rows"
  have "sorted (map int [1..<Suc (length rows)])"
    unfolding sorted_map by (rule sorted_wrt_mono_rel [OF _ sorted_upt]) simp
  then show "sorted (map key rows)" using n by (simp add: numbered_def)
qed

lemma numbered_last: "numbered key rows \<Longrightarrow> rows \<noteq> [] \<Longrightarrow> key (last rows) = int (length rows)"
proof -
  assume n: "numbered key rows" "rows \<noteq> []"
  then have "key (last rows) = last (map key rows)" by (simp add: last_map)
  also have "\<dots> = int (length rows)" using n unfolding numbered_def by (cases rows rule: rev_cases) (auto)
  finally show ?thesis .
qed

lemma newest_suggestion_None: "newest_suggestion rows = None \<longleftrightarrow> rows = []"
  by (cases rows) (auto split: option.splits)

lemma newest_suggestion_max:
  "newest_suggestion rows = Some s \<Longrightarrow> s \<in> set rows \<and> (\<forall>s'\<in>set rows. instant (sg_suggested_at s') \<le> instant (sg_suggested_at s))"
proof (induction rows arbitrary: s)
  case (Cons a rows)
  then show ?case
    using newest_suggestion_None [of rows] by (cases "newest_suggestion rows") (fastforce split: if_splits)+
qed simp

lemma reviewed_verdicts_join:
  assumes "vision_wf t"
  shows "reviewed_verdicts t = map (\<lambda>r. (at_slot (the (find_attempt (rv_attempt_id r) t)), rv_correct r)) (vt_reviews t)"
proof -
  have "map (\<lambda>a. (at_slot a, rv_correct r)) (filter (\<lambda>a. at_attempt_id a = rv_attempt_id r) (vt_attempts t)) =
      [(at_slot (the (find_attempt (rv_attempt_id r) t)), rv_correct r)]" if r: "r \<in> set (vt_reviews t)" for r
  proof -
    have one: "distinct (map at_attempt_id rows) \<Longrightarrow> k \<in> set (map at_attempt_id rows) \<Longrightarrow>
        filter (\<lambda>a. at_attempt_id a = k) rows = [the (find (\<lambda>a. at_attempt_id a = k) rows)]" for rows k
      by (induction rows) (auto simp: filter_empty_conv, metis imageI)
    show ?thesis using assms r one [of "vt_attempts t" "rv_attempt_id r"]
      by (auto simp: vision_wf_def find_attempt_def numbered_distinct)
  qed
  then show ?thesis unfolding reviewed_verdicts_def by (simp cong: map_cong)
qed

lemma sum_list_group:
  "sum_list (map (\<lambda>k. length (filter (\<lambda>x. f x = k) xs)) (sort (remdups (map f xs)))) = length xs"
proof -
  let ?ks = "sort (remdups (map f xs))"
  have "sum_list (map (\<lambda>k. length (filter (\<lambda>x. f x = k) xs)) ?ks) = (\<Sum>k\<in>f ` set xs. length (filter (\<lambda>x. f x = k) xs))"
    by (simp add: sum_list_distinct_conv_sum_set)
  also have "\<dots> = length xs"
  proof (induction xs)
    case (Cons x xs)
    have "(\<Sum>k\<in>f ` set (x # xs). length (filter (\<lambda>y. f y = k) (x # xs))) =
        (\<Sum>k\<in>f ` set (x # xs). (if f x = k then 1 else 0) + length (filter (\<lambda>y. f y = k) xs))"
      by (rule sum.cong) auto
    also have "\<dots> = 1 + (\<Sum>k\<in>insert (f x) (f ` set xs). length (filter (\<lambda>y. f y = k) xs))"
      by (simp add: sum.distrib)
    also have "(\<Sum>k\<in>insert (f x) (f ` set xs). length (filter (\<lambda>y. f y = k) xs)) = (\<Sum>k\<in>f ` set xs. length (filter (\<lambda>y. f y = k) xs))"
      by (rule sum.mono_neutral_right) (auto simp: filter_empty_conv)
    finally show ?case using Cons by simp
  qed simp
  finally show ?thesis .
qed

lemma reviews_of_attempts:
  assumes "vision_wf t"
  shows "length (vt_reviews t) + length (filter (\<lambda>a. at_attempt_id a \<notin> set (map rv_attempt_id (vt_reviews t))) (vt_attempts t))
    = length (vt_attempts t)"
proof -
  let ?in = "\<lambda>a. at_attempt_id a \<in> set (map rv_attempt_id (vt_reviews t))"
  have d: "distinct (map at_attempt_id (vt_attempts t))" using assms by (auto simp: vision_wf_def numbered_distinct)
  have "length (filter ?in (vt_attempts t)) = card (set (map at_attempt_id (filter ?in (vt_attempts t))))"
    using d distinct_card [of "map at_attempt_id (filter ?in (vt_attempts t))"] by (simp add: distinct_map_filter)
  also have "set (map at_attempt_id (filter ?in (vt_attempts t))) = set (map rv_attempt_id (vt_reviews t))"
  proof -
    have "rv_attempt_id ` set (vt_reviews t) \<subseteq> at_attempt_id ` set (vt_attempts t)"
      using assms by (auto simp: vision_wf_def)
    moreover have "set (map at_attempt_id (filter ?in (vt_attempts t))) = at_attempt_id ` set (vt_attempts t) \<inter> rv_attempt_id ` set (vt_reviews t)"
      by auto
    ultimately show ?thesis by auto
  qed
  also have "card (set (map rv_attempt_id (vt_reviews t))) = length (vt_reviews t)"
    using assms distinct_card [of "map rv_attempt_id (vt_reviews t)"] by (simp add: vision_wf_def)
  finally show ?thesis using sum_length_filter_compl [of ?in "vt_attempts t"] by simp
qed

section \<open>Properties\<close>

text \<open>A model is trained and activated, it makes two suggestions, both are attempted and one attempt is
  reviewed.\<close>

definition demo_candidate :: trained_candidate where
  "demo_candidate = \<lparr> tc_model_blob = [1], tc_included_classes = [3, 4], tc_excluded_classes = [],
     tc_accuracy_by_class = [(3, 1)], tc_minimum_examples_per_class = 5, tc_training_example_count = 8,
     tc_holdout_example_count = 2 \<rparr>"

definition demo_calls :: "(dataset \<Rightarrow> dataset) list" where
  "demo_calls =
     [\<lambda>d. snd (record_candidate demo_candidate (Aware 0) d),
      \<lambda>d. snd (activate_version 1 (Aware 1) d),
      \<lambda>d. snd (record_suggestion 1 3 (9/10) (Aware 2) (Aware 3) (Some False) d),
      \<lambda>d. snd (record_suggestion 1 4 (8/10) (Aware 4) (Aware 5) (Some False) d),
      \<lambda>d. snd (record_autonomous_attempt 1 ''a'' 3 (Aware 6) d),
      \<lambda>d. snd (record_autonomous_attempt 2 ''b'' 4 (Aware 7) d),
      \<lambda>d. snd (record_autonomous_review 1 True (Aware 8) d)]"

definition demo_store :: "nat \<Rightarrow> dataset" where
  "demo_store n = fold (\<lambda>call d. call d) (take n demo_calls) (new_dataset [])"

lemma fold_reachable:
  "(\<And>call. call \<in> set calls \<Longrightarrow> \<forall>d. store_step d (call d)) \<Longrightarrow> store_step\<^sup>*\<^sup>* d (fold (\<lambda>call d. call d) calls d)"
  by (induction calls arbitrary: d) (auto intro: converse_rtranclp_into_rtranclp)

lemma demo_store_reachable: "store_step\<^sup>*\<^sup>* (new_dataset []) (demo_store n)"
proof -
  have "\<forall>call\<in>set demo_calls. \<forall>d. store_step d (call d)"
    by (auto simp: demo_calls_def intro: store_step.intros)
  then show ?thesis unfolding demo_store_def by (intro fold_reachable) (auto dest: in_set_takeD)
qed

lemma demo_store_split: "n \<le> m \<Longrightarrow> store_step\<^sup>*\<^sup>* (demo_store n) (demo_store m)"
proof -
  assume "n \<le> m"
  then have "take m demo_calls = take n demo_calls @ take (m - n) (drop n demo_calls)"
    by (metis le_add_diff_inverse take_add)
  moreover have "\<forall>call\<in>set demo_calls. \<forall>d. store_step d (call d)"
    by (auto simp: demo_calls_def intro: store_step.intros)
  ultimately show ?thesis unfolding demo_store_def
    by (simp, intro fold_reachable) (auto dest!: in_set_takeD dest: in_set_dropD)
qed

text \<open>
  C25: the history of the store is append-only and consistent: whatever calls are made and however the
  storage fails, every row a table ever held is still there, in its place and unchanged; ids are
  consecutive, an operation labels at most one example, a suggestion has at most one outcome and one
  autonomous attempt, an attempt at most one review, every reference points to a row, and an outcome is
  marked correct exactly when the suggested and the actual slot agree.
\<close>

theorem vision_history_append_only:
  assumes "store_step\<^sup>*\<^sup>* (new_dataset storage) d" "store_step\<^sup>*\<^sup>* d d'"
  shows "vision_wf (ds_tables d') \<and> vision_grows (ds_tables d) (ds_tables d')"
proof -
  have "vision_wf (ds_tables d)"
    using store_reachable_wf [OF assms(1)] empty_vision_wf by (simp add: new_dataset_def)
  then show ?thesis using store_reachable_wf [OF assms(2)] store_reachable_grows [OF assms(2)] by simp
qed

theorem vision_history_append_only_witness:
  "vision_wf (ds_tables (demo_store 7)) \<and> vision_grows (ds_tables (demo_store 4)) (ds_tables (demo_store 7))"
  using vision_history_append_only [OF demo_store_reachable demo_store_split [of 4 7]] by simp

text \<open>
  the reviewed record accounts for every autonomous attempt: the classes reported are strictly
  ascending, each has at least one review and no more correct ones than reviews, and the reviews
  counted together with the attempts reported as pending are all the attempts made.
\<close>

theorem reviews_account_for_attempts:
  assumes "store_step\<^sup>*\<^sup>* (new_dataset storage) d"
    and "fst (autonomous_accuracy_by_class d) = Inr rows" "fst (pending_autonomous_reviews d) = Inr pending"
  shows "sum_list (map aa_total rows) + length pending = length (vt_attempts (ds_tables d)) \<and>
    sorted_wrt (<) (map aa_slot rows) \<and> list_all (\<lambda>a. 0 < aa_total a \<and> aa_correct a \<le> aa_total a) rows"
proof -
  let ?t = "ds_tables d" let ?v = "reviewed_verdicts ?t"
  have wf: "vision_wf ?t" using store_reachable_wf [OF assms(1)] empty_vision_wf by (simp add: new_dataset_def)
  have rows: "rows = map (accuracy_of ?v) (sort (remdups (map fst ?v)))"
    using assms(2) ds_guard_InrD by (fastforce simp: autonomous_accuracy_by_class_def)
  have pending: "length pending = length (filter (\<lambda>a. at_attempt_id a \<notin> set (map rv_attempt_id (vt_reviews ?t))) (vt_attempts ?t))"
    using assms(3) ds_guard_InrD by (fastforce simp: pending_autonomous_reviews_def)
  have "sum_list (map aa_total rows) = length ?v"
    using sum_list_group [of fst ?v] by (simp add: rows comp_def accuracy_of_def)
  also have "\<dots> = length (vt_reviews ?t)" by (simp add: reviewed_verdicts_join [OF wf])
  finally have "sum_list (map aa_total rows) + length pending = length (vt_attempts ?t)"
    using reviews_of_attempts [OF wf] pending by simp
  moreover have "sorted_wrt (<) (map aa_slot rows)"
    by (simp add: rows comp_def accuracy_of_def strict_sorted_iff)
  moreover have "list_all (\<lambda>a. 0 < aa_total a \<and> aa_correct a \<le> aa_total a) rows"
  proof -
    have "length (filter (\<lambda>v. fst v = k \<and> snd v) ?v) \<le> length (filter (\<lambda>v. fst v = k) ?v)" for k
      by (simp only: length_filter_conv_card) (rule card_mono, auto)
    then show ?thesis by (auto simp: rows list_all_iff accuracy_of_def length_greater_0_conv filter_empty_conv)
  qed
  ultimately show ?thesis by blast
qed

theorem reviews_account_for_attempts_witness:
  "\<exists>rows pending. fst (autonomous_accuracy_by_class (demo_store 7)) = Inr rows \<and>
    fst (pending_autonomous_reviews (demo_store 7)) = Inr pending \<and> rows \<noteq> [] \<and> pending \<noteq> [] \<and>
    sum_list (map aa_total rows) + length pending = length (vt_attempts (ds_tables (demo_store 7)))"
proof -
  have store: "autonomous_accuracy_by_class (demo_store 7) = (Inr [\<lparr> aa_slot = 3, aa_total = 1, aa_correct = 1 \<rparr>], demo_store 7)"
    "pending_autonomous_reviews (demo_store 7) = (Inr [\<lparr> at_attempt_id = 2, at_suggestion_id = 2,
      at_operation_id = ''b'', at_slot = 4, at_attempted_at = Aware 7 \<rparr>], demo_store 7)"
    by code_simp+
  then have "fst (autonomous_accuracy_by_class (demo_store 7)) = Inr [\<lparr> aa_slot = 3, aa_total = 1, aa_correct = 1 \<rparr>]"
    "fst (pending_autonomous_reviews (demo_store 7)) = Inr [\<lparr> at_attempt_id = 2, at_suggestion_id = 2,
      at_operation_id = ''b'', at_slot = 4, at_attempted_at = Aware 7 \<rparr>]" by simp_all
  from reviews_account_for_attempts [OF demo_store_reachable this] this show ?thesis by auto
qed

end
