(* ===== verification/Vision.thy ===== *)
theory Vision
  imports Tasks Dataset
begin

text \<open>
  The loops of the vision service: capture, correlation (\<open>correlator.py\<close>), suggestion
  (\<open>classifier.py\<close>), the autonomy policy (\<open>primer.py\<close>, \<open>autonomy.py\<close>) and training (\<open>runtime.py\<close>). All loops share one state, \<open>vision\<close>; every locked call is a section, so
  any two threads interleave between calls. The machine learning libraries are the parameter
  \<open>vision_libs\<close>; the daemon and the clock are scripts of answers, and \<open>vs_submitted\<close>, \<open>vs_reported\<close> and
  \<open>vs_captured\<close> log what was sent to and received from outside.
\<close>

section \<open>Frames\<close>

record frame =
  fr_png :: bytes
  fr_width :: int
  fr_height :: int
  fr_captured_at :: datetime

text \<open>\<open>deque(maxlen=capacity)\<close>; \<open>fb_version\<close> counts mutations, which an iterator notices.\<close>

record frame_buffer =
  fb_frames :: "frame list"
  fb_capacity :: int
  fb_version :: nat

definition new_frame_buffer :: "int \<Rightarrow> (vision_error, frame_buffer) result" where
  "new_frame_buffer capacity = (if capacity \<le> 0 then Inl (OtherVisionError ''ValueError'')
     else Inr \<lparr> fb_frames = [], fb_capacity = capacity, fb_version = 0 \<rparr>)"

definition add_frame :: "frame \<Rightarrow> frame_buffer \<Rightarrow> frame_buffer" where
  "add_frame f b = (let fs = fb_frames b @ [f] in
     b\<lparr> fb_frames := (if int (length fs) > fb_capacity b then tl fs else fs), fb_version := Suc (fb_version b) \<rparr>)"

definition buffer_latest :: "frame_buffer \<Rightarrow> frame option" where
  "buffer_latest b = last_row (fb_frames b)"

section \<open>The state of the service\<close>

datatype vision_handle = H_correlation | H_suggestion | H_autonomy | H_training | H_api

text \<open>A \<open>SortSuccess\<close>; the creation time is \<open>None\<close> when \<open>datetime.fromisoformat\<close> rejects its text.\<close>

record sort_success =
  sx_operation_id :: string
  sx_slot :: int
  sx_created_at :: "datetime option"

record submission =
  sb_slot :: int
  sb_generation :: int
  sb_key :: string

record vision =
  vs_tables :: vision_tables
  vs_storage :: "storage_outcome list"
  vs_closed :: "vision_handle list"
  vs_buffer :: frame_buffer
  vs_routing :: routing_session
  vs_clock :: "int list"
  vs_successes :: "(vision_error, sort_success list) result list"
  vs_generations :: "(vision_error, int) result list"
  vs_replies :: "(vision_error, string) result list"
  vs_submitted :: "submission list"
  vs_reported :: "sort_success list"
  vs_captured :: "frame list"
  vs_training :: bool

type_synonym 'a vtask = "(vision, vision_error, 'a) task"

text \<open>Every loop has a store of its own on the same database.\<close>

definition store_of :: "vision_handle \<Rightarrow> vision \<Rightarrow> dataset" where
  "store_of h s = \<lparr> ds_tables = vs_tables s, ds_storage = vs_storage s, ds_closed = h \<in> set (vs_closed s) \<rparr>"

definition put_store :: "dataset \<Rightarrow> vision \<Rightarrow> vision" where
  "put_store d s = s\<lparr> vs_tables := ds_tables d, vs_storage := ds_storage d \<rparr>"

definition store_call ::
    "vision_handle \<Rightarrow> (dataset \<Rightarrow> (vision_error, 'a) result \<times> dataset) \<Rightarrow> vision \<Rightarrow> (vision_error, 'a) result \<times> vision" where
  "store_call h call s = (let (r, d) = call (store_of h s) in (r, put_store d s))"

definition on_store :: "vision_handle \<Rightarrow> (dataset \<Rightarrow> (vision_error, 'a) result \<times> dataset) \<Rightarrow> 'a vtask" where
  "on_store h call = section_of (store_call h call)"

definition now_utc :: "datetime vtask" where
  "now_utc = section_of (\<lambda>s. (Inr (Aware (case vs_clock s of [] \<Rightarrow> 0 | t # _ \<Rightarrow> t)), s\<lparr> vs_clock := tl (vs_clock s) \<rparr>))"

definition next_answer :: "(vision_error, 'a) result list \<Rightarrow> (vision_error, 'a) result" where
  "next_answer answers = (case answers of [] \<Rightarrow> Inl DaemonClientError | r # _ \<Rightarrow> r)"

section \<open>Looking back through the frames\<close>

fun dt_le :: "datetime \<Rightarrow> datetime \<Rightarrow> (vision_error, bool) result" where
  "dt_le (Naive a) (Naive b) = Inr (a \<le> b)"
| "dt_le (Aware a) (Aware b) = Inr (a \<le> b)"
| "dt_le _ _ = Inl (OtherVisionError ''TypeError'')"

fun dt_gt :: "datetime \<Rightarrow> datetime \<Rightarrow> (vision_error, bool) result" where
  "dt_gt (Naive a) (Naive b) = Inr (a > b)"
| "dt_gt (Aware a) (Aware b) = Inr (a > b)"
| "dt_gt _ _ = Inl (OtherVisionError ''TypeError'')"

definition better_frame :: "datetime \<Rightarrow> frame \<Rightarrow> frame option \<Rightarrow> (vision_error, bool) result" where
  "better_frame moment f candidate =
     bind_r (dt_le (fr_captured_at f) moment) (\<lambda>early.
       if \<not> early then Inr False
       else case candidate of None \<Rightarrow> Inr True | Some c \<Rightarrow> dt_gt (fr_captured_at f) (fr_captured_at c))"

text \<open>The loop of \<open>closest_at_or_before\<close>. The capture thread appends without a lock; an iterator whose
  deque has changed raises, also when it has reached the end.\<close>

fun scan_frames :: "nat \<Rightarrow> datetime \<Rightarrow> frame list \<Rightarrow> frame option \<Rightarrow> frame option vtask" where
  "scan_frames version moment [] candidate = section_of (\<lambda>s.
     (if fb_version (vs_buffer s) \<noteq> version then Inl (OtherVisionError ''RuntimeError'') else Inr candidate, s))"
| "scan_frames version moment (f # fs) candidate =
     tbind (section_of (\<lambda>s.
       (if fb_version (vs_buffer s) \<noteq> version then Inl (OtherVisionError ''RuntimeError'')
        else better_frame moment f candidate, s)))
     (\<lambda>better. scan_frames version moment fs (if better then Some f else candidate))"

definition closest_at_or_before :: "datetime \<Rightarrow> frame option vtask" where
  "closest_at_or_before moment =
     tbind (section_of (\<lambda>s. (Inr (vs_buffer s), s))) (\<lambda>b. scan_frames (fb_version b) moment (fb_frames b) None)"

section \<open>The correlator\<close>

definition recent_sort_successes :: "sort_success list vtask" where
  "recent_sort_successes = section_of (\<lambda>s. let r = next_answer (vs_successes s) in
     (r, s\<lparr> vs_successes := tl (vs_successes s),
           vs_reported := vs_reported s @ (case r of Inl _ \<Rightarrow> [] | Inr xs \<Rightarrow> xs) \<rparr>))"

definition match_suggestion :: "string \<Rightarrow> int \<Rightarrow> datetime \<Rightarrow> unit vtask" where
  "match_suggestion operation_id actual_slot created_at =
     tbind (on_store H_correlation (unmatched_suggestion_at_or_before created_at)) (\<lambda>suggestion.
       case suggestion of
         None \<Rightarrow> Ret ()
       | Some sg \<Rightarrow>
           tbind (on_store H_correlation (record_suggestion_outcome (sg_suggestion_id sg) operation_id actual_slot created_at))
             (\<lambda>_. Ret ()))"

definition label_success :: "sort_success \<Rightarrow> int \<Rightarrow> datetime \<Rightarrow> frame option \<Rightarrow> int vtask" where
  "label_success x recorded created_at found =
     (case found of
        None \<Rightarrow> Ret recorded
      | Some f \<Rightarrow> tbind now_utc (\<lambda>clock.
          tbind (on_store H_correlation (record_example (sx_operation_id x) (sx_slot x) (fr_png f)
              (fr_captured_at f) created_at clock)) (\<lambda>new.
            if new then tbind (match_suggestion (sx_operation_id x) (sx_slot x) created_at) (\<lambda>_. Ret (recorded + 1))
            else Ret recorded)))"

definition poll_success :: "sort_success \<Rightarrow> int \<Rightarrow> int vtask" where
  "poll_success x recorded =
     tbind (on_store H_correlation (has_example (sx_operation_id x))) (\<lambda>known.
       if known then Ret recorded
       else case sx_created_at x of
         None \<Rightarrow> Ret recorded
       | Some created_at \<Rightarrow> tbind (closest_at_or_before created_at) (label_success x recorded created_at))"

text \<open>\<open>except DaemonClientError\<close> around a call, the failure as \<open>None\<close>.\<close>

definition attempt_call :: "vision_error \<Rightarrow> 'a vtask \<Rightarrow> 'a option vtask" where
  "attempt_call caught t = tcatch (tbind t (\<lambda>x. Ret (Some x))) (\<lambda>e. if e = caught then Some (Ret None) else None)"

definition poll_once :: "int vtask" where
  "poll_once = tbind (attempt_call DaemonClientError recent_sort_successes) (\<lambda>successes.
     case successes of None \<Rightarrow> Ret 0 | Some xs \<Rightarrow> tfold poll_success xs 0)"

section \<open>The classifier\<close>

record suggestion =
  su_slot :: int
  su_confidence :: rat
  su_primer_present :: "bool option"

text \<open>\<open>pickle\<close>, OpenCV and scikit-learn: loading a model, the feature vector of a frame, the
  probability of each class.\<close>

record ('m, 'f) vision_libs =
  lib_loads :: "bytes \<Rightarrow> 'm option"
  lib_features :: "bytes \<Rightarrow> 'f option"
  lib_predict_proba :: "'m \<Rightarrow> 'f \<Rightarrow> (vision_error, rat list) result"
  lib_classes :: "'m \<Rightarrow> int list"

fun argmax :: "rat list \<Rightarrow> nat option" where
  "argmax [] = None"
| "argmax (x # xs) = (case argmax xs of None \<Rightarrow> Some 0 | Some i \<Rightarrow> if xs ! i > x then Some (Suc i) else Some 0)"

definition classify_frame :: "('m, 'f) vision_libs \<Rightarrow> bytes \<Rightarrow> bytes \<Rightarrow> (vision_error, suggestion) result" where
  "classify_frame libs model_blob frame_png =
     bind_r (of_option ClassificationError (lib_loads libs model_blob)) (\<lambda>classifier.
     bind_r (of_option ClassificationError (lib_features libs frame_png)) (\<lambda>features.
     bind_r (lib_predict_proba libs classifier features) (\<lambda>probabilities.
     bind_r (of_option (OtherVisionError ''ValueError'') (argmax probabilities)) (\<lambda>best_index.
       if best_index < length (lib_classes libs classifier) then
         Inr \<lparr> su_slot = lib_classes libs classifier ! best_index, su_confidence = probabilities ! best_index,
               su_primer_present = None \<rparr>
       else Inl (OtherVisionError ''IndexError'')))))"

text \<open>The two routers: a \<open>RoutingSession\<close>, and the identity used when none is given.\<close>

definition session_router :: "int \<Rightarrow> int vtask" where
  "session_router class_id = section_of (\<lambda>s. let (r, rs) = route class_id (vs_routing s) in (r, s\<lparr> vs_routing := rs \<rparr>))"

definition identity_router :: "int \<Rightarrow> int vtask" where
  "identity_router class_id = Ret class_id"

definition suggest_once :: "('m, 'f) vision_libs \<Rightarrow> (int \<Rightarrow> int vtask) \<Rightarrow> int vtask" where
  "suggest_once libs router =
     tbind (on_store H_suggestion active_version) (\<lambda>active.
       case active of
         None \<Rightarrow> Ret 0
       | Some version \<Rightarrow> tbind (section_of (\<lambda>s. (Inr (buffer_latest (vs_buffer s)), s))) (\<lambda>latest.
           case latest of
             None \<Rightarrow> Ret 0
           | Some f \<Rightarrow> tbind (attempt_call DatasetError (on_store H_suggestion (candidate_model version))) (\<lambda>loaded.
               case loaded of
                 None \<Rightarrow> Ret 0
               | Some model_blob \<Rightarrow> tbind (attempt_call ClassificationError (of_result (classify_frame libs model_blob (fr_png f)))) (\<lambda>classified.
                   case classified of
                     None \<Rightarrow> Ret 0
                   | Some sg \<Rightarrow> tbind (router (su_slot sg)) (\<lambda>slot. tbind now_utc (\<lambda>clock.
                       tbind (on_store H_suggestion (record_suggestion version slot (su_confidence sg)
                           (fr_captured_at f) clock (su_primer_present sg))) (\<lambda>_. Ret 1)))))))"

section \<open>The autonomy policy\<close>

definition requires_operator_confirmation :: "bool option \<Rightarrow> bool" where
  "requires_operator_confirmation primer_present = (primer_present \<noteq> Some False)"

type_synonym thresholds = "(int \<times> rat) list"

definition may_autonomously_sort :: "suggestion \<Rightarrow> thresholds \<Rightarrow> bool" where
  "may_autonomously_sort sg thresholds =
     (if requires_operator_confirmation (su_primer_present sg) then False
      else case map_of thresholds (su_slot sg) of
        None \<Rightarrow> False
      | Some threshold \<Rightarrow> su_confidence sg \<ge> threshold)"

definition idempotency_key :: "int \<Rightarrow> string" where
  "idempotency_key suggestion_id = ''autonomous-sort-'' @ int_str suggestion_id"

definition current_generation :: "int vtask" where
  "current_generation = section_of (\<lambda>s. (next_answer (vs_generations s), s\<lparr> vs_generations := tl (vs_generations s) \<rparr>))"

definition submit_sort :: "int \<Rightarrow> int \<Rightarrow> string \<Rightarrow> string vtask" where
  "submit_sort slot generation key = section_of (\<lambda>s. (next_answer (vs_replies s),
     s\<lparr> vs_replies := tl (vs_replies s),
       vs_submitted := vs_submitted s @ [\<lparr> sb_slot = slot, sb_generation = generation, sb_key = key \<rparr>] \<rparr>))"

definition suggestion_of :: "suggestion_record \<Rightarrow> suggestion" where
  "suggestion_of r = \<lparr> su_slot = sg_suggested_slot r, su_confidence = sg_confidence r,
     su_primer_present = sg_primer_present r \<rparr>"

definition submit_for :: "suggestion_record \<Rightarrow> string option vtask" where
  "submit_for r = attempt_call DaemonClientError (tbind current_generation (\<lambda>generation.
     submit_sort (sg_suggested_slot r) generation (idempotency_key (sg_suggestion_id r))))"

definition attempt_for :: "thresholds \<Rightarrow> suggestion_record \<Rightarrow> bool \<Rightarrow> int vtask" where
  "attempt_for thresholds r already =
     (if already then Ret 0
      else if \<not> may_autonomously_sort (suggestion_of r) thresholds then Ret 0
      else tbind (submit_for r) (\<lambda>submitted.
        case submitted of
          None \<Rightarrow> Ret 0
        | Some operation_id \<Rightarrow> tbind now_utc (\<lambda>clock.
            tbind (on_store H_autonomy (record_autonomous_attempt (sg_suggestion_id r) operation_id
                (sg_suggested_slot r) clock)) (\<lambda>_. Ret 1))))"

definition attempt_once :: "thresholds \<Rightarrow> int vtask" where
  "attempt_once thresholds =
     tbind (on_store H_autonomy latest_suggestion) (\<lambda>latest.
       case latest of
         None \<Rightarrow> Ret 0
       | Some r \<Rightarrow> tbind (on_store H_autonomy (autonomous_attempt_exists (sg_suggestion_id r))) (attempt_for thresholds r))"

section \<open>Training and the threads\<close>

text \<open>\<open>TrainingJob\<close>: \<open>vs_training\<close> says that its thread is alive. \<open>trigger\<close> starts the thread unless it is.\<close>

definition trigger_training :: "bool vtask" where
  "trigger_training = section_of (\<lambda>s. (Inr (\<not> vs_training s), s\<lparr> vs_training := True \<rparr>))"

text \<open>\<open>_run\<close>: every exception ends the run and nothing else.\<close>

definition training_run :: "(dataset_example list \<Rightarrow> (vision_error, trained_candidate) result) \<Rightarrow> int vtask" where
  "training_run trainer = tcatch
     (tbind (on_store H_training examples) (\<lambda>xs. tbind (of_result (trainer xs)) (\<lambda>candidate.
        tbind now_utc (\<lambda>clock. tbind (on_store H_training (record_candidate candidate clock)) (\<lambda>_. Ret 0)))))
     (\<lambda>_. Some (Ret 0))"

text \<open>The training thread: nothing until it is triggered, then one run.\<close>

definition training_thread :: "(dataset_example list \<Rightarrow> (vision_error, trained_candidate) result) \<Rightarrow> int vtask" where
  "training_thread trainer = tbind (section_of (\<lambda>s. (Inr (vs_training s), s))) (\<lambda>triggered.
     if \<not> triggered then Ret 0
     else tbind (training_run trainer) (\<lambda>_. section_of (\<lambda>s. (Inr 0, s\<lparr> vs_training := False \<rparr>))))"

definition capture_once :: "frame \<Rightarrow> int vtask" where
  "capture_once f = section_of (\<lambda>s. (Inr 0, s\<lparr> vs_buffer := add_frame f (vs_buffer s), vs_captured := vs_captured s @ [f] \<rparr>))"

end
