(* ===== verification/Api.thy ===== *)
theory Api
  imports Domain Json
begin

text \<open>
  The private HTTP interface of the daemon (\<open>api.py\<close>): authentication, reading a request into a
  command of the domain, the resources, the event stream and the mapping of exceptions to
  responses. A request is what \<open>BaseHTTPRequestHandler\<close> has parsed; \<open>json.loads\<close>, \<open>uuid4\<close>, \<open>str\<close> of a
  container and the RFC 3339 text of a time are the environment \<open>api_env\<close>. Sockets, threads and
  logging are left out. Time is the clock of the domain.
\<close>

section \<open>Vocabulary\<close>

definition API_VERSION :: string where "API_VERSION = ''v1''"
definition MAX_BODY_BYTES :: int where "MAX_BODY_BYTES = 64 * 1024"
definition MAX_CONTRACT_DEADLINE_MS :: int where "MAX_CONTRACT_DEADLINE_MS = 120000"
definition MAX_API_SLOT :: int where "MAX_API_SLOT = 63"
definition MACHINE_ROLE :: string where "MACHINE_ROLE = ''machine''"
definition COMMANDING_ROLES :: "string list" where
  "COMMANDING_ROLES = [''operator'', ''administrator'', MACHINE_ROLE]"
definition API_ROLES :: "string list" where "API_ROLES = ''viewer'' # COMMANDING_ROLES"
definition DEFAULT_PAGE_SIZE :: int where "DEFAULT_PAGE_SIZE = 25"
definition MAX_PAGE_SIZE :: int where "MAX_PAGE_SIZE = 100"
definition FEED_LIFECYCLE_GATE :: string where "FEED_LIFECYCLE_GATE = ''NOT_EXECUTED''"
definition DTR_GATE_STATUS :: string where "DTR_GATE_STATUS = ''NOT_EXECUTED''"

datatype service_identity = SI_bff | SI_machine

text \<open>What leaves a handler other than by returning: an \<open>ApiError\<close> with its code and the
  operation it names, the signal of a stream request, or an exception of the layers below.\<close>

datatype api_exc = ApiError string "string option" | StreamRequested "int option" | Below daemon_error

abbreviation invalid_request :: "api_exc" where
  "invalid_request \<equiv> ApiError ''VALIDATION_FAILED'' None"

abbreviation not_found :: "api_exc" where
  "not_found \<equiv> ApiError ''RESOURCE_NOT_FOUND'' None"

definition request_id_match :: "string \<Rightarrow> bool" where
  "request_id_match s = (length s = 36 \<and> list_all (\<lambda>c. is_hex c \<or> c = CHR ''-'') s)"

definition operation_path :: "string \<Rightarrow> string option" where
  "operation_path path =
     (if startswith path ''/v1/operations/'' \<and> request_id_match (drop 15 path) then Some (drop 15 path) else None)"

definition api_key_match :: "string \<Rightarrow> bool" where
  "api_key_match s = (16 \<le> length s \<and> length s \<le> 128 \<and>
     list_all (\<lambda>c. is_alpha c \<or> is_digit c \<or> c \<in> set ''._~-'') s)"

definition exact_generation_match :: "string \<Rightarrow> bool" where
  "exact_generation_match s = (s = ''0'' \<or>
     (s \<noteq> [] \<and> list_all is_digit s \<and> hd s \<noteq> CHR ''0''))"

definition SESSION_PATHS :: "string list" where
  "SESSION_PATHS = [''/v1/session/connect'', ''/v1/session/recover'']"

definition COMMAND_ACTIONS :: "(string \<times> operation_action) list" where
  "COMMAND_ACTIONS = [(''/v1/operations/home'', OA_home), (''/v1/operations/sort'', OA_sort),
     (''/v1/operations/feed'', OA_feed)]"

definition STATUS_FOR_CODE :: "(string \<times> nat) list" where
  "STATUS_FOR_CODE = [(''VALIDATION_FAILED'', 400), (''UNAUTHENTICATED'', 401), (''FORBIDDEN'', 403),
     (''RESOURCE_NOT_FOUND'', 404), (''STALE_GENERATION'', 409), (''IDEMPOTENCY_CONFLICT'', 409),
     (''NOT_READY'', 409), (''UNSUPPORTED'', 409), (''UNCERTAIN'', 409), (''QUEUE_FULL'', 429),
     (''DEADLINE_INVALID'', 400), (''DEADLINE_EXPIRED'', 408), (''JOURNAL_UNAVAILABLE'', 503),
     (''SERVICE_UNAVAILABLE'', 503), (''INTERNAL_ERROR'', 500)]"

definition contract_code :: "string \<Rightarrow> string" where
  "contract_code code = (if code = ''UNSUPPORTED'' then ''NOT_READY'' else code)"

fun outcome_for_state :: "operation_state \<Rightarrow> string option" where
  "outcome_for_state OS_succeeded = Some ''COMPLETED''"
| "outcome_for_state OS_failed = Some ''FAILED''"
| "outcome_for_state OS_cancelled = Some ''CANCELLED''"
| "outcome_for_state OS_uncertain = Some ''UNCERTAIN''"
| "outcome_for_state _ = None"

record api_env =
  ae_token :: string
  ae_machine_token :: "string option"
  ae_loads :: "string \<Rightarrow> json option"
  ae_str :: "json \<Rightarrow> string"
  ae_rfc3339 :: "datetime \<Rightarrow> string"
  ae_uuid :: string

text \<open>\<open>ApiServer(...)\<close>\<close>

definition make_api :: "api_env \<Rightarrow> (daemon_error, api_env) result" where
  "make_api env =
     (if ae_token env = [] then Inl (OtherError ''ValueError'')
      else if ae_machine_token env = Some [] then Inl (OtherError ''ValueError'')
      else Inr env)"

text \<open>A request with the names of its headers in lower case; \<open>rq_stream\<close> is what the peer sends after
  the headers.\<close>

record api_request =
  rq_method :: string
  rq_path :: string
  rq_query :: "(string \<times> string list) list"
  rq_headers :: "(string \<times> string) list"
  rq_stream :: string

record api_response =
  rs_status :: nat
  rs_body :: json
  rs_etag :: "string option"

definition header_or_empty :: "api_request \<Rightarrow> string \<Rightarrow> string" where
  "header_or_empty rq name = (case map_of (rq_headers rq) name of None \<Rightarrow> [] | Some v \<Rightarrow> v)"

section \<open>Authentication and the body\<close>

definition authenticate :: "api_env \<Rightarrow> string option \<Rightarrow> (api_exc, service_identity) result" where
  "authenticate env header =
     (let (scheme, rest) = split_first (CHR '' '') (case header of None \<Rightarrow> [] | Some h \<Rightarrow> h);
          presented = strip (case rest of None \<Rightarrow> [] | Some r \<Rightarrow> r)
      in if lower scheme \<noteq> ''bearer'' then Inl (ApiError ''UNAUTHENTICATED'' None)
         else if presented = ae_token env then Inr SI_bff
         else if (case ae_machine_token env of None \<Rightarrow> False | Some t \<Rightarrow> presented = t) then Inr SI_machine
         else Inl (ApiError ''UNAUTHENTICATED'' None))"

text \<open>\<open>rfile.read(length)\<close> reads up to the end of the stream when the length is negative.\<close>

definition read_body :: "api_request \<Rightarrow> (api_exc, string) result" where
  "read_body rq =
     (case map_of (rq_headers rq) ''content-length'' of
        None \<Rightarrow> Inr []
      | Some declared \<Rightarrow>
          (case py_int declared of
             None \<Rightarrow> Inl invalid_request
           | Some len \<Rightarrow>
               if len > MAX_BODY_BYTES then Inl invalid_request
               else if len < 0 then Inr (rq_stream rq)
               else Inr (take (nat len) (rq_stream rq))))"

definition request_id_of :: "api_env \<Rightarrow> api_request \<Rightarrow> string" where
  "request_id_of env rq =
     (let supplied = strip (header_or_empty rq ''x-request-id'')
      in if request_id_match supplied then supplied else ae_uuid env)"

section \<open>Reading a request\<close>

definition request_object :: "api_env \<Rightarrow> string \<Rightarrow> (api_exc, members) result" where
  "request_object env body =
     (if body = [] then Inl invalid_request
      else case ae_loads env body of
        Some (JObj payload) \<Rightarrow>
          if map_of payload ''api_version'' = Some (JStr API_VERSION) then Inr payload else Inl invalid_request
      | _ \<Rightarrow> Inl invalid_request)"

fun py_str :: "api_env \<Rightarrow> json \<Rightarrow> string" where
  "py_str env JNull = ''None''"
| "py_str env (JBool b) = (if b then ''True'' else ''False'')"
| "py_str env (JInt i) = int_str i"
| "py_str env (JFloat t) = t"
| "py_str env (JStr s) = s"
| "py_str env j = ae_str env j"

text \<open>\<open>role not in API_ROLES\<close>: a list or an object is not hashable.\<close>

fun role_text :: "json \<Rightarrow> (api_exc, string) result" where
  "role_text (JStr s) = (if s \<in> set API_ROLES then Inr s else Inl invalid_request)"
| "role_text (JList xs) = Inl (Below (OtherError ''TypeError''))"
| "role_text (JObj m) = Inl (Below (OtherError ''TypeError''))"
| "role_text _ = Inl invalid_request"

definition actor_members :: "members \<Rightarrow> (api_exc, json \<times> json) result" where
  "actor_members payload =
     (case map_of payload ''actor'' of
        Some (JObj supplied) \<Rightarrow>
          (if \<not> has_exactly supplied [''user_id'', ''role''] then Inl invalid_request
           else case (map_of supplied ''user_id'', map_of supplied ''role'') of
             (Some u, Some r) \<Rightarrow> Inr (u, r)
           | _ \<Rightarrow> Inl invalid_request)
      | _ \<Rightarrow> Inl invalid_request)"

definition commanding_actor ::
    "api_env \<Rightarrow> members \<Rightarrow> service_identity \<Rightarrow> string \<Rightarrow> (api_exc, actor) result" where
  "commanding_actor env payload identity command =
     bind_r (actor_members payload) (\<lambda>(user_id, supplied_role).
     bind_r (role_text supplied_role) (\<lambda>role.
       if (role = MACHINE_ROLE) \<noteq> (identity = SI_machine) then Inl (ApiError ''FORBIDDEN'' None)
       else if role = MACHINE_ROLE \<and> command \<noteq> action_value OA_sort then Inl (ApiError ''FORBIDDEN'' None)
       else if role \<notin> set COMMANDING_ROLES then Inl (ApiError ''FORBIDDEN'' None)
       else case make_actor (py_str env user_id) role of
         Inl (DomainError _ _) \<Rightarrow> Inl invalid_request
       | Inl e \<Rightarrow> Inl (Below e)
       | Inr a \<Rightarrow> Inr a))"

definition command_name :: "string \<Rightarrow> operation_action option \<Rightarrow> string" where
  "command_name path action =
     (case action of
        Some a \<Rightarrow> action_value a
      | None \<Rightarrow> if path = ''/v1/session/connect'' then ''connect''
                else if path = ''/v1/session/recover'' then ''recover'' else ''stop'')"

definition require_exact_fields :: "members \<Rightarrow> string list \<Rightarrow> (api_exc, unit) result" where
  "require_exact_fields payload allowed = require (has_exactly payload allowed) invalid_request"

definition member :: "members \<Rightarrow> string \<Rightarrow> json" where
  "member payload name = (case map_of payload name of None \<Rightarrow> JNull | Some v \<Rightarrow> v)"

fun api_slot :: "json \<Rightarrow> (api_exc, int) result" where
  "api_slot (JInt value) = (if 0 \<le> value \<and> value \<le> MAX_API_SLOT then Inr value else Inl invalid_request)"
| "api_slot _ = Inl invalid_request"

fun configuration_value :: "json \<Rightarrow> (api_exc, int) result" where
  "configuration_value (JInt value) = Inr value"
| "configuration_value _ = Inl invalid_request"

definition command_body :: "operation_action \<Rightarrow> members \<Rightarrow> (api_exc, request_body) result" where
  "command_body action payload =
     (case action of
        OA_home \<Rightarrow> bind_r (require_exact_fields payload [''api_version'', ''actor'', ''target'']) (\<lambda>_.
          case member payload ''target'' of JStr target \<Rightarrow> Inr [(''axis'', BV_str target)] | _ \<Rightarrow> Inl invalid_request)
      | OA_sort \<Rightarrow> bind_r (require_exact_fields payload [''api_version'', ''actor'', ''slot'']) (\<lambda>_.
          bind_r (api_slot (member payload ''slot'')) (\<lambda>slot. Inr [(''slot'', BV_int slot)]))
      | _ \<Rightarrow> bind_r (require_exact_fields payload [''api_version'', ''actor'']) (\<lambda>_. Inr [(''slot'', BV_int 0)]))"

definition api_idempotency_key :: "api_request \<Rightarrow> (api_exc, string) result" where
  "api_idempotency_key rq =
     (let key = header_or_empty rq ''idempotency-key'' in if api_key_match key then Inr key else Inl invalid_request)"

text \<open>Digits beyond the limit of \<open>int\<close> pass the expression and raise \<open>ValueError\<close>.\<close>

definition exact_int :: "string \<Rightarrow> (api_exc, int) result" where
  "exact_int supplied =
     (if \<not> exact_generation_match supplied then Inl invalid_request
      else of_option (Below (OtherError ''ValueError'')) (py_int supplied))"

definition exact_generation :: "api_request \<Rightarrow> (api_exc, int) result" where
  "exact_generation rq = exact_int (header_or_empty rq ''if-match-generation'')"

definition stop_generation :: "api_request \<Rightarrow> (api_exc, int option) result" where
  "stop_generation rq =
     (if header_or_empty rq ''if-match-generation'' = ''*'' then Inr None
      else bind_r (exact_generation rq) (\<lambda>g. Inr (Some g)))"

definition read_deadline_ms :: "api_request \<Rightarrow> (api_exc, int) result" where
  "read_deadline_ms rq =
     (case py_int (header_or_empty rq ''x-deadline-ms'') of
        None \<Rightarrow> Inl (ApiError ''DEADLINE_INVALID'' None)
      | Some deadline \<Rightarrow> if 1 \<le> deadline \<and> deadline \<le> MAX_CONTRACT_DEADLINE_MS then Inr deadline
                         else Inl (ApiError ''DEADLINE_INVALID'' None))"

definition last_event_id :: "api_request \<Rightarrow> (api_exc, int option) result" where
  "last_event_id rq =
     (let supplied = strip (header_or_empty rq ''last-event-id'')
      in if supplied = [] then Inr None else bind_r (exact_int supplied) (\<lambda>i. Inr (Some i)))"

section \<open>Commands\<close>

text \<open>The calls of the domain a request can become, with the arguments read from it.\<close>

datatype domain_command =
    C_submit operation_action request_body actor string int int
  | C_stop actor string "int option" int
  | C_connect actor string int int
  | C_recover actor string int int
  | C_configure request_body actor string int int

text \<open>\<open>_session_command\<close> up to the call.\<close>

definition read_session_command ::
    "string \<Rightarrow> members \<Rightarrow> actor \<Rightarrow> string \<Rightarrow> int \<Rightarrow> int \<Rightarrow> (api_exc, domain_command) result" where
  "read_session_command path payload actor key generation deadline =
     (if path = ''/v1/session/connect'' then
        bind_r (require_exact_fields payload [''api_version'', ''actor'']) (\<lambda>_. Inr (C_connect actor key generation deadline))
      else
        bind_r (require_exact_fields payload [''api_version'', ''actor'', ''confirm_uncertain_recovery'']) (\<lambda>_.
          if member payload ''confirm_uncertain_recovery'' \<noteq> JBool True then Inl invalid_request
          else Inr (C_recover actor key generation deadline)))"

text \<open>\<open>_command\<close> up to the call of the domain.\<close>

definition read_command :: "api_env \<Rightarrow> service_identity \<Rightarrow> api_request \<Rightarrow> string \<Rightarrow> (api_exc, domain_command) result" where
  "read_command env identity rq body =
     (let path = rq_path rq; action = map_of COMMAND_ACTIONS path in
      if action = None \<and> path \<notin> set SESSION_PATHS \<and> path \<noteq> ''/v1/machine/stop'' then Inl not_found
      else
        bind_r (request_object env body) (\<lambda>payload.
        bind_r (commanding_actor env payload identity (command_name path action)) (\<lambda>actor.
        bind_r (api_idempotency_key rq) (\<lambda>key.
        bind_r (read_deadline_ms rq) (\<lambda>deadline.
          if path \<in> set SESSION_PATHS then
            bind_r (exact_generation rq) (\<lambda>generation. read_session_command path payload actor key generation deadline)
          else case action of
            None \<Rightarrow>
              bind_r (require_exact_fields payload [''api_version'', ''actor'']) (\<lambda>_.
              bind_r (stop_generation rq) (\<lambda>generation. Inr (C_stop actor key generation deadline)))
          | Some a \<Rightarrow>
              bind_r (command_body a payload) (\<lambda>command.
              bind_r (exact_generation rq) (\<lambda>generation. Inr (C_submit a command actor key generation deadline))))))))"

fun read_changes :: "members \<Rightarrow> (api_exc, request_body) result" where
  "read_changes [] = Inr []"
| "read_changes ((name, value) # rest) =
     bind_r (configuration_value value) (\<lambda>i. bind_r (read_changes rest) (\<lambda>cs. Inr ((name, BV_int i) # cs)))"

definition read_configure :: "api_env \<Rightarrow> service_identity \<Rightarrow> api_request \<Rightarrow> string \<Rightarrow> (api_exc, domain_command) result" where
  "read_configure env identity rq body =
     bind_r (request_object env body) (\<lambda>payload.
     bind_r (commanding_actor env payload identity ''configure'') (\<lambda>actor.
     bind_r (require_exact_fields payload [''api_version'', ''actor'', ''changes'']) (\<lambda>_.
       case member payload ''changes'' of
         JObj changes \<Rightarrow>
           if changes = [] then Inl invalid_request
           else bind_r (read_changes changes) (\<lambda>values.
                bind_r (api_idempotency_key rq) (\<lambda>key.
                bind_r (exact_generation rq) (\<lambda>generation.
                bind_r (read_deadline_ms rq) (\<lambda>deadline. Inr (C_configure values actor key generation deadline)))))
       | _ \<Rightarrow> Inl invalid_request)))"

fun run_command :: "worker_error option \<Rightarrow> domain_command \<Rightarrow> operation_record call" where
  "run_command refusal (C_submit action body actor key generation deadline) =
     submit refusal action body actor key generation (BV_int deadline)"
| "run_command refusal (C_stop actor key generation deadline) = stop refusal actor key generation (BV_int deadline)"
| "run_command refusal (C_connect actor key generation deadline) = connect refusal actor key generation (BV_int deadline)"
| "run_command refusal (C_recover actor key generation deadline) = recover refusal actor key generation (BV_int deadline)"
| "run_command refusal (C_configure changes actor key generation deadline) =
     configure changes actor key generation (BV_int deadline)"

section \<open>Handlers\<close>

type_synonym 'a api = "domain \<Rightarrow> (api_exc, 'a) result \<times> domain"

definition abind :: "'a api \<Rightarrow> ('a \<Rightarrow> 'b api) \<Rightarrow> 'b api" where
  "abind m f d = (case m d of (Inl e, d') \<Rightarrow> (Inl e, d') | (Inr x, d') \<Rightarrow> f x d')"

definition areturn :: "'a \<Rightarrow> 'a api" where
  "areturn x d = (Inr x, d)"

definition araise :: "api_exc \<Rightarrow> 'a api" where
  "araise e d = (Inl e, d)"

definition alift :: "(api_exc, 'a) result \<Rightarrow> 'a api" where
  "alift r d = (r, d)"

text \<open>A call of the domain; and \<open>_read\<close>, which turns a journal error into a response.\<close>

definition below :: "'a call \<Rightarrow> 'a api" where
  "below m d = (case m d of (Inl e, d') \<Rightarrow> (Inl (Below e), d') | (Inr x, d') \<Rightarrow> (Inr x, d'))"

definition api_read :: "'a call \<Rightarrow> 'a api" where
  "api_read query d =
     (case query d of
        (Inl JournalError, d') \<Rightarrow> (Inl (ApiError ''JOURNAL_UNAVAILABLE'' None), d')
      | (Inl e, d') \<Rightarrow> (Inl (Below e), d')
      | (Inr x, d') \<Rightarrow> (Inr x, d'))"

definition api_view :: "machine_snapshot api" where
  "api_view d = (Inr (d_view d), d)"

definition jopt :: "('a \<Rightarrow> json) \<Rightarrow> 'a option \<Rightarrow> json" where
  "jopt f x = (case x of None \<Rightarrow> JNull | Some a \<Rightarrow> f a)"

definition timestamp :: "api_env \<Rightarrow> json api" where
  "timestamp env = abind (below now) (\<lambda>t. areturn (JStr (ae_rfc3339 env t)))"

definition http_response :: "nat \<Rightarrow> json \<Rightarrow> api_response" where
  "http_response status body = \<lparr> rs_status = status, rs_body = body, rs_etag = None \<rparr>"

section \<open>Bodies\<close>

definition json_fields :: "fields \<Rightarrow> json" where
  "json_fields fs = JObj (map (\<lambda>(n, v). (n, JStr v)) fs)"

definition operation_outcome :: "operation_record \<Rightarrow> string option" where
  "operation_outcome record =
     (if o_state record = OS_succeeded \<and> o_action record = OA_stop then Some ''STOPPED''
      else outcome_for_state (o_state record))"

definition operation_body :: "api_env \<Rightarrow> operation_record \<Rightarrow> json" where
  "operation_body env record = JObj (
     [(''api_version'', JStr API_VERSION),
      (''operation_id'', JStr (o_operation_id record)),
      (''type'', JStr (action_name (o_action record))),
      (''state'', JStr (state_name (o_state record))),
      (''actor'', JObj [(''user_id'', JStr (a_user_id (o_actor record))), (''role'', JStr (a_role (o_actor record)))]),
      (''created_at'', JStr (ae_rfc3339 env (o_created_at record))),
      (''deadline_at'', JStr (ae_rfc3339 env (o_deadline_at record))),
      (''generation'', JInt (o_generation record)),
      (''trusted_terminal'', JBool (o_trusted_terminal record))]
     @ (case o_terminal_fields record of None \<Rightarrow> [] | Some fs \<Rightarrow> [(''terminal_fields'', json_fields fs)])
     @ (case o_terminal_at record of None \<Rightarrow> [] | Some t \<Rightarrow> [(''terminal_at'', JStr (ae_rfc3339 env t))])
     @ (case operation_outcome record of None \<Rightarrow> [] | Some outcome \<Rightarrow> [(''outcome'', JStr outcome)]))"

definition accepted_body :: "api_env \<Rightarrow> operation_record \<Rightarrow> json" where
  "accepted_body env record = JObj
     [(''api_version'', JStr API_VERSION),
      (''operation_id'', JStr (o_operation_id record)),
      (''state'', JStr (state_name (o_state record))),
      (''generation'', JInt (o_generation record)),
      (''accepted_at'', JStr (ae_rfc3339 env (o_created_at record))),
      (''status_url'', JStr (''/v1/operations/'' @ o_operation_id record))]"

definition liveness :: "api_env \<Rightarrow> json api" where
  "liveness env = abind (timestamp env) (\<lambda>t.
     areturn (JObj [(''api_version'', JStr API_VERSION), (''live'', JBool True), (''observed_at'', t)]))"

definition system_body :: "api_env \<Rightarrow> json api" where
  "system_body env = abind (timestamp env) (\<lambda>t.
     areturn (JObj [(''api_version'', JStr API_VERSION), (''dtr_gate_status'', JStr DTR_GATE_STATUS), (''observed_at'', t)]))"

definition shown_reason :: "machine_snapshot \<Rightarrow> json" where
  "shown_reason view = (if admits_work view then JNull else JStr (take 256 (ms_reason view)))"

definition readiness_body :: "api_env \<Rightarrow> machine_snapshot \<Rightarrow> json api" where
  "readiness_body env view = abind (timestamp env) (\<lambda>t.
     areturn (JObj [(''api_version'', JStr API_VERSION), (''ready'', JBool (admits_work view)),
       (''reason'', shown_reason view), (''connection_state'', JStr (connection_name (ms_connection view))),
       (''fault_state'', JStr (fault_name (ms_fault view))), (''generation'', JInt (ms_generation view)),
       (''observed_at'', t)]))"

definition faults :: "api_env \<Rightarrow> machine_snapshot \<Rightarrow> json api" where
  "faults env view =
     (case (ms_fault view, ms_fault_id view) of
        (FS_clear, _) \<Rightarrow> areturn (JList [])
      | (_, None) \<Rightarrow> areturn (JList [])
      | (fault, Some fault_id) \<Rightarrow>
          abind (case ms_fault_opened_at view of Some t \<Rightarrow> areturn t | None \<Rightarrow> below now) (\<lambda>opened_at.
            areturn (JList [JObj [(''fault_id'', JStr fault_id), (''state'', JStr (fault_name fault)),
              (''code'', JStr ''JOURNAL_UNAVAILABLE''), (''source'', JStr ''journal''),
              (''opened_at'', JStr (ae_rfc3339 env opened_at)), (''message'', JStr (take 512 (ms_reason view)))]])))"

definition active_operation :: "api_env \<Rightarrow> machine_snapshot \<Rightarrow> json api" where
  "active_operation env view =
     (case ms_active_operation_id view of
        None \<Rightarrow> areturn JNull
      | Some operation_id \<Rightarrow>
          abind (api_read (djournal (journal_operation operation_id))) (\<lambda>record.
            areturn (jopt (operation_body env) record)))"

definition firmware_body :: "machine_snapshot \<Rightarrow> json" where
  "firmware_body view =
     (let firmware = ms_firmware view; readiness = ms_readiness view in
      JObj [(''protocol_version'', JInt (if firmware \<noteq> None then 2 else 1)),
        (''capabilities'', JObj [
          (''v2_available'', JBool (firmware \<noteq> None)),
          (''crc_active'', JBool False),
          (''slot_count'', JInt (case firmware of None \<Rightarrow> 1 | Some f \<Rightarrow> int (min (fp_slot_count f) 64))),
          (''home_available'', JBool (case firmware of None \<Rightarrow> False | Some f \<Rightarrow> fp_feed_home f \<or> fp_sort_home f)),
          (''sort_available'', JBool (case readiness of None \<Rightarrow> False | Some r \<Rightarrow> mr_sort_homed r)),
          (''feed_available'', JBool False),
          (''feed_unavailable_reason'', JStr (''the v2 feed lifecycle gate is '' @ FEED_LIFECYCLE_GATE))])])"

definition machine_snapshot_body :: "api_env \<Rightarrow> machine_snapshot \<Rightarrow> json api" where
  "machine_snapshot_body env view =
     abind (active_operation env view) (\<lambda>active.
     abind (faults env view) (\<lambda>fs.
     abind (timestamp env) (\<lambda>t.
       areturn (JObj [(''api_version'', JStr API_VERSION), (''generation'', JInt (ms_generation view)),
         (''connection_state'', JStr (connection_name (ms_connection view))),
         (''fault_state'', JStr (fault_name (ms_fault view))), (''ready'', JBool (admits_work view)),
         (''readiness_reason'', shown_reason view), (''active_operation'', active),
         (''firmware'', firmware_body view),
         (''machine'', JObj [
            (''feed_homed'', JBool (case ms_readiness view of None \<Rightarrow> False | Some r \<Rightarrow> mr_feed_homed r)),
            (''sort_homed'', JBool (case ms_readiness view of None \<Rightarrow> False | Some r \<Rightarrow> mr_sort_homed r)),
            (''sorter_slot'', JNull)]),
         (''faults'', fs), (''observed_at'', t)]))))"

definition configuration_body :: "api_env \<Rightarrow> json api" where
  "configuration_body env =
     abind (api_read configuration) (\<lambda>(values, generation, updated_at).
       areturn (JObj [(''api_version'', JStr API_VERSION), (''generation'', JInt generation),
         (''values'', JObj (map (\<lambda>(n, i). (n, JInt i)) (as_mapping values))),
         (''updated_at'', JStr (ae_rfc3339 env updated_at))]))"

definition operation_resource :: "api_env \<Rightarrow> string \<Rightarrow> json api" where
  "operation_resource env operation_id =
     abind (api_read (djournal (journal_operation operation_id))) (\<lambda>record.
       case record of None \<Rightarrow> araise not_found | Some r \<Rightarrow> areturn (operation_body env r))"

section \<open>Pages of operations\<close>

definition query_value :: "(string \<times> string list) list \<Rightarrow> string \<Rightarrow> string option" where
  "query_value query name =
     (case map_of query name of None \<Rightarrow> None | Some values \<Rightarrow> if values = [] then None else Some (last values))"

definition bounded_int :: "(string \<times> string list) list \<Rightarrow> string \<Rightarrow> int \<Rightarrow> int \<Rightarrow> (api_exc, int) result" where
  "bounded_int query name fallback maximum =
     (case query_value query name of
        None \<Rightarrow> Inr fallback
      | Some text \<Rightarrow>
          (case py_int text of
             None \<Rightarrow> Inl invalid_request
           | Some v \<Rightarrow> if 1 \<le> v \<and> v \<le> maximum then Inr v else Inl invalid_request))"

definition optional_cursor :: "(string \<times> string list) list \<Rightarrow> (api_exc, int option) result" where
  "optional_cursor query =
     (case query_value query ''cursor'' of
        None \<Rightarrow> Inr None
      | Some text \<Rightarrow> (case py_int text of None \<Rightarrow> Inl invalid_request | Some v \<Rightarrow> Inr (Some v)))"

definition STATES :: "operation_state list" where
  "STATES = [OS_queued, OS_accepted, OS_running, OS_succeeded, OS_failed, OS_cancelled, OS_uncertain]"

definition ACTIONS :: "operation_action list" where
  "ACTIONS = [OA_connect, OA_recover, OA_home, OA_sort, OA_feed, OA_stop, OA_configure]"

definition optional_enum ::
    "(string \<times> string list) list \<Rightarrow> string \<Rightarrow> ('a \<Rightarrow> string) \<Rightarrow> 'a list \<Rightarrow> (api_exc, 'a option) result" where
  "optional_enum query name value_of vocabulary =
     (case query_value query name of
        None \<Rightarrow> Inr None
      | Some text \<Rightarrow>
          (case find (\<lambda>x. value_of x = lower text) vocabulary of None \<Rightarrow> Inl invalid_request | Some x \<Rightarrow> Inr (Some x)))"

text \<open>\<open>recent_operations\<close> with the cursor as the API passes it: SQLite integers have 64 bits, and
  a row identity is positive, so a negative cursor selects no row.\<close>

definition CURSOR_MAX :: int where
  "CURSOR_MAX = 2 ^ 63 - 1"

definition page_query ::
    "int \<Rightarrow> int option \<Rightarrow> operation_state option \<Rightarrow> operation_action option \<Rightarrow> journal
       \<Rightarrow> (daemon_error, (nat \<times> operation_record) list) result \<times> journal" where
  "page_query limit cursor state action j =
     (case cursor of
        None \<Rightarrow> recent_operations (nat limit) None state action j
      | Some c \<Rightarrow>
          if c > CURSOR_MAX \<or> c < - CURSOR_MAX - 1
          then (Inl (if j_closed j then JournalError else OtherError ''OverflowError''), j)
          else recent_operations (nat limit) (Some (nat c)) state action j)"

definition page_body :: "api_env \<Rightarrow> int \<Rightarrow> (nat \<times> operation_record) list \<Rightarrow> json" where
  "page_body env limit rows = JObj [(''api_version'', JStr API_VERSION),
     (''items'', JList (map (\<lambda>(_, record). operation_body env record) rows)),
     (''next_cursor'', if int (length rows) = limit then JStr (nat_str (fst (last rows))) else JNull)]"

definition operation_page :: "api_env \<Rightarrow> (string \<times> string list) list \<Rightarrow> json api" where
  "operation_page env query =
     abind (alift (bounded_int query ''limit'' DEFAULT_PAGE_SIZE MAX_PAGE_SIZE)) (\<lambda>limit.
     abind (alift (optional_cursor query)) (\<lambda>cursor.
     abind (alift (optional_enum query ''state'' state_value STATES)) (\<lambda>state.
     abind (alift (optional_enum query ''type'' action_value ACTIONS)) (\<lambda>action.
     abind (api_read (djournal (page_query limit cursor state action))) (\<lambda>rows.
       areturn (page_body env limit rows))))))"

section \<open>Routing and responses\<close>

definition accept :: "api_env \<Rightarrow> worker_error option \<Rightarrow> (api_exc, domain_command) result \<Rightarrow> api_response api" where
  "accept env refusal command =
     abind (alift command) (\<lambda>c. abind (below (run_command refusal c)) (\<lambda>record.
       areturn (http_response 202 (accepted_body env record))))"

definition ok_response :: "json api \<Rightarrow> api_response api" where
  "ok_response m = abind m (\<lambda>body. areturn (http_response 200 body))"

definition api_route :: "api_env \<Rightarrow> worker_error option \<Rightarrow> service_identity \<Rightarrow> api_request \<Rightarrow> string \<Rightarrow> api_response api" where
  "api_route env refusal identity rq body =
     (let path = rq_path rq in
      if rq_method rq = ''POST'' then accept env refusal (read_command env identity rq body)
      else if rq_method rq = ''PATCH'' \<and> path = ''/v1/configuration''
      then accept env refusal (read_configure env identity rq body)
      else if rq_method rq \<noteq> ''GET'' \<and> rq_method rq \<noteq> ''HEAD'' then araise not_found
      else if path = ''/v1/health/live'' then ok_response (liveness env)
      else if path = ''/v1/system'' then ok_response (system_body env)
      else if path = ''/v1/health/ready'' then
        abind (below refresh_durability) (\<lambda>_. abind api_view (\<lambda>view. ok_response (readiness_body env view)))
      else if path = ''/v1/snapshot'' then
        abind api_view (\<lambda>view. abind (machine_snapshot_body env view) (\<lambda>b.
          areturn ((http_response 200 b)\<lparr> rs_etag := Some (CHR 0x22 # ''generation:'' @ int_str (ms_generation view) @ [CHR 0x22]) \<rparr>)))
      else if path = ''/v1/events'' then
        abind (alift (last_event_id rq)) (\<lambda>after. araise (StreamRequested after))
      else if path = ''/v1/configuration'' then ok_response (configuration_body env)
      else if path = ''/v1/operations'' then ok_response (operation_page env (rq_query rq))
      else case operation_path path of
        Some operation_id \<Rightarrow> ok_response (operation_resource env operation_id)
      | None \<Rightarrow> araise not_found)"

text \<open>\<open>_error_response\<close> without the text of the message.\<close>

definition error_status :: "string \<Rightarrow> nat" where
  "error_status code = (case map_of STATUS_FOR_CODE code of None \<Rightarrow> 500 | Some s \<Rightarrow> s)"

definition error_response :: "string \<Rightarrow> string option \<Rightarrow> string \<Rightarrow> api_response" where
  "error_response code operation_id rid = http_response (error_status code)
     (JObj ([(''api_version'', JStr API_VERSION), (''code'', JStr (contract_code code)), (''request_id'', JStr rid)]
       @ (case operation_id of None \<Rightarrow> [] | Some i \<Rightarrow> [(''details'', JObj [(''operation_id'', JStr i)])])))"

fun from_domain :: "error_kind \<Rightarrow> string option \<Rightarrow> string \<times> string option" where
  "from_domain kind operation_id = (error_code kind, if operation_id = Some [] then None else operation_id)"

datatype api_reply = Reply api_response | Stream "int option"

fun reply_of :: "string \<Rightarrow> (api_exc, api_response) result \<Rightarrow> api_reply" where
  "reply_of rid (Inr r) = Reply r"
| "reply_of rid (Inl (StreamRequested after)) = Stream after"
| "reply_of rid (Inl (ApiError code operation_id)) = Reply (error_response code operation_id rid)"
| "reply_of rid (Inl (Below (DomainError kind operation_id))) =
     (case from_domain kind operation_id of (code, i) \<Rightarrow> Reply (error_response code i rid))"
| "reply_of rid (Inl (Below _)) = Reply (error_response ''INTERNAL_ERROR'' None rid)"

text \<open>\<open>_dispatch\<close>\<close>

definition authenticated ::
    "api_env \<Rightarrow> worker_error option \<Rightarrow> api_request \<Rightarrow> api_response api" where
  "authenticated env refusal rq =
     abind (alift (authenticate env (map_of (rq_headers rq) ''authorization''))) (\<lambda>identity.
     abind (alift (read_body rq)) (\<lambda>body. api_route env refusal identity rq body))"

definition api_dispatch :: "api_env \<Rightarrow> worker_error option \<Rightarrow> api_request \<Rightarrow> domain \<Rightarrow> api_reply \<times> domain" where
  "api_dispatch env refusal rq d =
     (case authenticated env refusal rq d of (r, d') \<Rightarrow> (reply_of (request_id_of env rq) r, d'))"

section \<open>The event stream\<close>

definition api_event_body :: "api_env \<Rightarrow> daemon_event \<Rightarrow> json" where
  "api_event_body env event = JObj (
     [(''api_version'', JStr API_VERSION), (''event_id'', JInt (max (ev_event_id event) 1)),
      (''occurred_at'', JStr (ae_rfc3339 env (ev_occurred_at event))), (''generation'', JInt (ev_generation event)),
      (''type'', JStr (ev_type event)), (''data'', json_fields (ev_data event))]
     @ (case ev_operation_id event of None \<Rightarrow> [] | Some i \<Rightarrow> [(''operation_id'', JStr i)]))"

definition unsequenced :: "string \<Rightarrow> daemon_event call" where
  "unsequenced event_type = dbind now (\<lambda>t d.
     (Inr \<lparr> ev_event_id = 0, ev_type = event_type, ev_occurred_at = t, ev_generation = ms_generation (d_view d),
        ev_operation_id = None, ev_data = [] \<rparr>, d))"

definition heartbeat :: "daemon_event call" where
  "heartbeat = unsequenced ''heartbeat''"

definition snapshot_required :: "daemon_event call" where
  "snapshot_required = unsequenced ''snapshot.required''"

text \<open>The frame \<open>_emit\<close> writes: its \<open>id\<close> line, its \<open>event\<close> line and the document of its \<open>data\<close> line.\<close>

record sse_frame =
  fr_id :: int
  fr_event :: string
  fr_data :: json

definition frame_of :: "api_env \<Rightarrow> daemon_event \<Rightarrow> sse_frame" where
  "frame_of env event = \<lparr> fr_id = ev_event_id event, fr_event = ev_type event, fr_data = api_event_body env event \<rparr>"

definition heartbeat_ms :: "int call" where
  "heartbeat_ms = dbind configuration (\<lambda>(values, _, _). dreturn (cv_heartbeat_interval_ms values))"

text \<open>One turn of the loop of \<open>_stream\<close> for the subscriber \<open>k\<close>, before and after the wait of
  \<open>drain\<close>; the frames to write and whether the loop goes on after them.\<close>

definition overflowed_turn :: "api_env \<Rightarrow> (sse_frame list \<times> bool) call" where
  "overflowed_turn env = dbind snapshot_required (\<lambda>e. dreturn ([frame_of env e], False))"

definition stream_before :: "api_env \<Rightarrow> nat \<Rightarrow> (sse_frame list \<times> bool) call" where
  "stream_before env k d =
     (if sub_overflowed (er_table (d_events d) ! k) then overflowed_turn env d
      else dbind heartbeat_ms (\<lambda>_. dreturn ([], True)) d)"

definition stream_after :: "api_env \<Rightarrow> nat \<Rightarrow> (sse_frame list \<times> bool) call" where
  "stream_after env k d =
     (case drain_subscriber k (d_events d) of (drained, ring) \<Rightarrow>
        let d' = d\<lparr> d_events := ring \<rparr> in
        if sub_overflowed (er_table ring ! k) then overflowed_turn env d'
        else if drained = [] then dbind heartbeat (\<lambda>e. dreturn ([frame_of env e], True)) d'
        else (Inr (map (frame_of env) drained, True), d'))"

section \<open>What a request can do\<close>

lemma abind_unfold:
  "abind m f d = (case fst (m d) of Inl e \<Rightarrow> (Inl e, snd (m d)) | Inr x \<Rightarrow> f x (snd (m d)))"
  by (auto simp: abind_def split: prod.splits sum.splits)

lemma abind_Inr: "abind m f d = (Inr y, d') \<longleftrightarrow> (\<exists>x d1. m d = (Inr x, d1) \<and> f x d1 = (Inr y, d'))"
  by (auto simp: abind_def split: prod.splits sum.splits)

lemma api_simps [simp]:
  "areturn x d = (Inr x, d)" "araise e d = (Inl e, d)" "alift r d = (r, d)" "api_view d = (Inr (d_view d), d)"
  by (simp_all add: areturn_def araise_def alift_def api_view_def)

lemma api_state: "snd (below m d) = snd (m d)" "snd (api_read m d) = snd (m d)"
  by (auto simp: below_def api_read_def split: prod.splits sum.splits daemon_error.splits)

lemma api_read_Inr: "api_read m d = (Inr x, d') \<longleftrightarrow> m d = (Inr x, d')"
  by (auto simp: api_read_def split: prod.splits sum.splits daemon_error.splits)

lemma djournal_Inr: "djournal f d = (Inr x, d') \<longleftrightarrow> (\<exists>j. f (d_journal d) = (Inr x, j) \<and> d' = d\<lparr> d_journal := j \<rparr>)"
  by (auto simp: djournal_def split: prod.splits)

text \<open>A relation that allows what the read-only resources do: look at the clock, use one storage
  outcome, and probe the durability of the storage.\<close>

locale domain_reads =
  fixes R :: "domain \<Rightarrow> domain \<Rightarrow> bool"
  assumes same: "R d d"
    and then_R: "R d1 d2 \<Longrightarrow> R d2 d3 \<Longrightarrow> R d1 d3"
    and tick: "R d (d\<lparr> d_ticks := Suc (d_ticks d) \<rparr>)"
    and used: "R d (d\<lparr> d_journal := after_outcome (d_journal d) \<rparr>)"
    and probed: "R d (snd (refresh_durability d))"
begin

definition observing :: "(domain \<Rightarrow> 'r \<times> domain) \<Rightarrow> bool" where
  "observing m = (\<forall>d. R d (snd (m d)))"

lemma observingI: "(\<And>d. R d (snd (m d))) \<Longrightarrow> observing m"
  by (simp add: observing_def)

lemma observingD: "observing m \<Longrightarrow> R d (snd (m d))"
  by (simp add: observing_def)

lemma observing_abind: "observing m \<Longrightarrow> (\<And>x. observing (f x)) \<Longrightarrow> observing (abind m f)"
  by (rule observingI) (auto simp: abind_unfold same split: sum.splits intro: observingD then_R)

lemma observing_pure:
  "observing (areturn x)" "observing (araise e)" "observing (alift r)" "observing api_view"
  by (simp_all add: observing_def same)

lemma observing_below: "observing m \<Longrightarrow> observing (below m)"
  by (simp add: observing_def api_state)

lemma observing_api_read: "observing m \<Longrightarrow> observing (api_read m)"
  by (simp add: observing_def api_state)

lemma observing_now: "observing now"
  by (simp add: observing_def now_def tick)

lemma observing_guard: "R d (d\<lparr> d_journal := snd (guard f (d_journal d)) \<rparr>)"
  by (simp add: guard_def same used)

lemma observing_operation: "observing (djournal (journal_operation i))"
  by (simp add: observing_def djournal_def journal_operation_def then_decode_def case_prod_unfold observing_guard)

lemma observing_page: "observing (djournal (page_query limit cursor state action))"
  by (auto simp: observing_def djournal_def page_query_def recent_operations_def then_decode_def
      case_prod_unfold observing_guard same split: option.splits)

lemma observing_configuration: "observing configuration"
proof (rule observingI)
  fix d
  have "R d (snd (djournal applied_configuration d))"
    by (simp add: djournal_def applied_configuration_def case_prod_unfold observing_guard)
  moreover have "snd (configuration d) = snd (djournal applied_configuration d)"
    by (auto simp: configuration_def dbind_unfold split: sum.splits option.splits)
  ultimately show "R d (snd (configuration d))" by simp
qed

lemmas observing_rules = observing_abind observing_pure observing_below observing_api_read observing_now
  observing_operation observing_page observing_configuration

lemma observing_timestamp: "observing (timestamp env)"
  unfolding timestamp_def by (intro observing_rules)

lemma observing_machine_snapshot: "observing (machine_snapshot_body env view)"
  unfolding machine_snapshot_body_def active_operation_def faults_def
  by (intro observing_rules observing_timestamp)
    (auto split: option.splits fault_state.splits intro!: observing_rules)

lemma observing_resources:
  "observing (liveness env)" "observing (system_body env)" "observing (readiness_body env view)"
  "observing (configuration_body env)" "observing (operation_resource env i)" "observing (operation_page env q)"
proof -
  show "observing (liveness env)" "observing (system_body env)" "observing (readiness_body env view)"
    unfolding liveness_def system_body_def readiness_body_def by (intro observing_rules observing_timestamp)+
  show "observing (configuration_body env)"
    unfolding configuration_body_def by (auto intro!: observing_rules split: prod.splits)
  show "observing (operation_resource env i)"
    unfolding operation_resource_def by (auto intro!: observing_rules split: option.splits)
  show "observing (operation_page env q)"
    unfolding operation_page_def by (intro observing_rules)
qed

lemma observing_ok: "observing m \<Longrightarrow> observing (ok_response m)"
  unfolding ok_response_def by (intro observing_rules)

text \<open>A request that is not a command.\<close>

lemma observing_route:
  assumes "rq_method rq \<noteq> ''POST''" "rq_method rq \<noteq> ''PATCH'' \<or> rq_path rq \<noteq> ''/v1/configuration''"
  shows "observing (api_route env refusal identity rq body)"
proof -
  have probe: "observing refresh_durability" by (simp add: observing_def probed)
  show ?thesis
    using assms unfolding api_route_def Let_def
    by (auto split: option.splits intro!: observing_rules probe observing_ok observing_resources observing_machine_snapshot)
qed

end

sublocale domain_core \<subseteq> reads: domain_reads R
  by unfold_locales (auto intro: R_refl R_trans R_tick R_refresh R_journal js_read)

text \<open>What a read-only request leaves alone.\<close>

definition observes :: "domain \<Rightarrow> domain \<Rightarrow> bool" where
  "observes d d' = (j_tables (d_journal d') = j_tables (d_journal d) \<and> d_sent d' = d_sent d \<and>
     d_configuration d' = d_configuration d \<and> d_max_deadline_ms d' = d_max_deadline_ms d)"

lemma install_observes: "observes d (install_machine m d)"
proof -
  have "observes d' (fold publish_machine_event vs d')" for vs d'
    by (induction vs arbitrary: d') (simp_all add: observes_def publish_machine_event_def publish_at_now_def)
  from this [of "d\<lparr> d_machine := m \<rparr>"] show ?thesis by (simp add: observes_def install_machine_def)
qed

lemma refresh_observes: "observes d (snd (refresh_durability d))"
  using install_observes unfolding refresh_durability_def latch_journal_fault_def
  by (fastforce simp: observes_def Let_def split: option.splits list.splits sum.splits monitor_error.splits)

interpretation reading: domain_reads observes
  by unfold_locales (auto simp: observes_def after_outcome_def refresh_observes [unfolded observes_def])

section \<open>Authorisation\<close>

fun command_actor :: "domain_command \<Rightarrow> actor" where
  "command_actor (C_submit action body actor key generation deadline) = actor"
| "command_actor (C_stop actor key generation' deadline) = actor"
| "command_actor (C_connect actor key generation deadline) = actor"
| "command_actor (C_recover actor key generation deadline) = actor"
| "command_actor (C_configure changes actor key generation deadline) = actor"

fun command_key :: "domain_command \<Rightarrow> string" where
  "command_key (C_submit action body actor key generation deadline) = key"
| "command_key (C_stop actor key generation' deadline) = key"
| "command_key (C_connect actor key generation deadline) = key"
| "command_key (C_recover actor key generation deadline) = key"
| "command_key (C_configure changes actor key generation deadline) = key"

fun command_deadline :: "domain_command \<Rightarrow> int" where
  "command_deadline (C_submit action body actor key generation deadline) = deadline"
| "command_deadline (C_stop actor key generation' deadline) = deadline"
| "command_deadline (C_connect actor key generation deadline) = deadline"
| "command_deadline (C_recover actor key generation deadline) = deadline"
| "command_deadline (C_configure changes actor key generation deadline) = deadline"

text \<open>What each command carries: a bounded slot, a text axis, integers.\<close>

fun command_shape :: "domain_command \<Rightarrow> bool" where
  "command_shape (C_submit action body actor key generation deadline) = (0 \<le> generation \<and>
     (case (action, body) of
        (OA_sort, [(name, BV_int slot)]) \<Rightarrow> name = ''slot'' \<and> 0 \<le> slot \<and> slot \<le> MAX_API_SLOT
      | (OA_home, [(name, BV_str axis)]) \<Rightarrow> name = ''axis''
      | (OA_feed, [(name, BV_int slot)]) \<Rightarrow> name = ''slot'' \<and> slot = 0
      | _ \<Rightarrow> False))"
| "command_shape (C_stop actor key generation' deadline) = (case generation' of None \<Rightarrow> True | Some g \<Rightarrow> 0 \<le> g)"
| "command_shape (C_connect actor key generation deadline) = (0 \<le> generation)"
| "command_shape (C_recover actor key generation deadline) = (0 \<le> generation)"
| "command_shape (C_configure changes actor key generation deadline) =
     (0 \<le> generation \<and> changes \<noteq> [] \<and> list_all (\<lambda>(_, v). case v of BV_int _ \<Rightarrow> True | _ \<Rightarrow> False) changes)"

fun is_sort :: "domain_command \<Rightarrow> bool" where
  "is_sort (C_submit action body actor key generation deadline) = (action = OA_sort)"
| "is_sort _ = False"

text \<open>The commands an identity may give.\<close>

definition authorised :: "service_identity \<Rightarrow> domain_command \<Rightarrow> bool" where
  "authorised identity c =
     (valid_actor (command_actor c) \<and> a_role (command_actor c) \<in> set COMMANDING_ROLES \<and>
      (a_role (command_actor c) = MACHINE_ROLE) = (identity = SI_machine) \<and>
      (if identity = SI_machine then is_sort c else True) \<and>
      api_key_match (command_key c) \<and> 1 \<le> command_deadline c \<and> command_deadline c \<le> MAX_CONTRACT_DEADLINE_MS \<and>
      command_shape c)"

lemma commanding_actor_InrD:
  assumes "commanding_actor env payload identity command = Inr a"
  shows "valid_actor a \<and> a_role a \<in> set COMMANDING_ROLES \<and> (a_role a = MACHINE_ROLE) = (identity = SI_machine) \<and>
    (identity = SI_machine \<longrightarrow> command = ''sort'')"
proof -
  have made: "valid_actor a \<and> a_role a = role" if "make_actor u role = Inr a" for u role
    using that by (auto simp: valid_actor_def make_actor_def is_ok_iff result_simps)
  show ?thesis
    using assms made by (fastforce simp: commanding_actor_def result_simps split: if_splits sum.splits
        daemon_error.splits prod.splits)
qed

lemma read_header_InrD:
  "api_idempotency_key rq = Inr key \<Longrightarrow> api_key_match key"
  "read_deadline_ms rq = Inr ms \<Longrightarrow> 1 \<le> ms \<and> ms \<le> MAX_CONTRACT_DEADLINE_MS"
  by (auto simp: api_idempotency_key_def read_deadline_ms_def Let_def split: if_splits option.splits)

lemma exact_int_InrD: "exact_int s = Inr g \<Longrightarrow> 0 \<le> g"
proof -
  assume "exact_int s = Inr g"
  then have s: "exact_generation_match s" "py_int s = Some g" by (auto simp: exact_int_def split: if_splits)
  then have "s \<noteq> [] \<and> list_all is_digit s" by (auto simp: exact_generation_match_def is_digit_def ord_def)
  then show ?thesis using s(2) py_int_digits [of s] by (auto split: if_splits)
qed

lemma read_generation_InrD:
  "exact_generation rq = Inr g \<Longrightarrow> 0 \<le> g"
  "stop_generation rq = Inr g' \<Longrightarrow> (case g' of None \<Rightarrow> True | Some g \<Rightarrow> 0 \<le> g)"
  by (auto simp: exact_generation_def stop_generation_def result_simps dest: exact_int_InrD split: if_splits)

lemma api_slot_InrD: "api_slot j = Inr slot \<Longrightarrow> j = JInt slot \<and> 0 \<le> slot \<and> slot \<le> MAX_API_SLOT"
  by (cases j) (auto split: if_splits)

lemma read_changes_InrD:
  "read_changes m = Inr cs \<Longrightarrow> list_all (\<lambda>(_, v). case v of BV_int _ \<Rightarrow> True | _ \<Rightarrow> False) cs \<and> (cs = [] \<longleftrightarrow> m = [])"
proof (induction m arbitrary: cs)
  case (Cons p m)
  obtain n v where "p = (n, v)" by fastforce
  with Cons show ?case by (cases v) (auto simp: result_simps)
qed simp

lemma command_body_shape:
  assumes "command_body a payload = Inr body" "a \<in> snd ` set COMMAND_ACTIONS" "0 \<le> g"
  shows "command_shape (C_submit a body actor key g ms)"
  using assms by (cases a; cases "member payload ''target''")
    (auto simp: COMMAND_ACTIONS_def command_body_def result_simps dest: api_slot_InrD)

lemma read_command_authorised:
  assumes "read_command env identity rq body = Inr c"
  shows "authorised identity c"
proof -
  define action where "action = map_of COMMAND_ACTIONS (rq_path rq)"
  obtain payload a key ms where read: "commanding_actor env payload identity (command_name (rq_path rq) action) = Inr a"
      "api_idempotency_key rq = Inr key" "read_deadline_ms rq = Inr ms"
    and c: "(if rq_path rq \<in> set SESSION_PATHS then
            bind_r (exact_generation rq) (\<lambda>g. read_session_command (rq_path rq) payload a key g ms)
          else case action of
            None \<Rightarrow> bind_r (require_exact_fields payload [''api_version'', ''actor'']) (\<lambda>_.
              bind_r (stop_generation rq) (\<lambda>g. Inr (C_stop a key g ms)))
          | Some act \<Rightarrow> bind_r (command_body act payload) (\<lambda>command.
              bind_r (exact_generation rq) (\<lambda>g. Inr (C_submit act command a key g ms)))) = Inr c"
    using assms by (auto simp: read_command_def Let_def action_def result_simps split: if_splits)
  note who = commanding_actor_InrD [OF read(1)] and key = read_header_InrD(1) [OF read(2)]
    and ms = read_header_InrD(2) [OF read(3)]
  have sort: "command_name (rq_path rq) action = ''sort'' \<longleftrightarrow> action = Some OA_sort"
    by (cases action; cases "the action") (auto simp: command_name_def)
  have paths: "rq_path rq \<in> set SESSION_PATHS \<Longrightarrow> action = None"
    by (auto simp: action_def SESSION_PATHS_def COMMAND_ACTIONS_def)
  have act: "action = Some x \<Longrightarrow> x \<in> snd ` set COMMAND_ACTIONS" for x
    unfolding action_def by (auto dest: map_of_SomeD intro: rev_image_eqI)
  show ?thesis
  proof (cases "rq_path rq \<in> set SESSION_PATHS")
    case True
    then obtain g where "0 \<le> g" "c = C_connect a key g ms \<or> c = C_recover a key g ms"
      using c by (auto simp: result_simps read_session_command_def dest: read_generation_InrD split: if_splits)
    then show ?thesis using who key ms sort paths [OF True] by (auto simp: authorised_def)
  next
    case False
    show ?thesis
    proof (cases action)
      case None
      then obtain g where "c = C_stop a key g ms" "stop_generation rq = Inr g"
        using c False by (auto simp: result_simps)
      then show ?thesis using who key ms sort None read_generation_InrD(2) by (auto simp: authorised_def)
    next
      case (Some x)
      then obtain command g where "c = C_submit x command a key g ms" "command_body x payload = Inr command"
          "exact_generation rq = Inr g" using c False by (auto simp: result_simps)
      moreover from this have "command_shape c"
        by (simp only:) (rule command_body_shape [OF _ act [OF Some] read_generation_InrD(1)])
      ultimately show ?thesis using who key ms sort Some by (auto simp: authorised_def simp del: command_shape.simps)
    qed
  qed
qed

lemma read_configure_authorised:
  assumes "read_configure env identity rq body = Inr c"
  shows "authorised identity c"
proof -
  obtain payload a where actor: "commanding_actor env payload identity ''configure'' = Inr a"
    and rest: "(case member payload ''changes'' of
         JObj changes \<Rightarrow>
           if changes = [] then Inl invalid_request
           else bind_r (read_changes changes) (\<lambda>vs.
                bind_r (api_idempotency_key rq) (\<lambda>key.
                bind_r (exact_generation rq) (\<lambda>generation.
                bind_r (read_deadline_ms rq) (\<lambda>deadline. Inr (C_configure vs a key generation deadline)))))
       | _ \<Rightarrow> Inl invalid_request) = Inr c"
    using assms unfolding read_configure_def by (auto simp: bind_r_eq_Inr)
  obtain changes vs key g ms where read: "read_changes changes = Inr vs" "changes \<noteq> []"
      "api_idempotency_key rq = Inr key" "exact_generation rq = Inr g" "read_deadline_ms rq = Inr ms"
    and c: "c = C_configure vs a key g ms"
    using rest by (cases "member payload ''changes''") (auto simp: result_simps split: if_splits)
  then show ?thesis
    using commanding_actor_InrD [OF actor] read_changes_InrD [OF read(1)] read_header_InrD(1) [OF read(3)]
      read_generation_InrD(1) [OF read(4)] read_header_InrD(2) [OF read(5)]
    by (auto simp: authorised_def)
qed

lemma route_cases:
  obtains (command) r where "api_route env refusal identity rq body = accept env refusal r" "\<And>c. r = Inr c \<Longrightarrow> authorised identity c"
    | (resource) "rq_method rq \<noteq> ''POST''" "rq_method rq \<noteq> ''PATCH'' \<or> rq_path rq \<noteq> ''/v1/configuration''"
proof (cases "rq_method rq = ''POST''")
  case True
  then have "api_route env refusal identity rq body = accept env refusal (read_command env identity rq body)"
    by (simp add: api_route_def)
  then show thesis using read_command_authorised by (rule command)
next
  case not_post: False
  show thesis
  proof (cases "rq_method rq = ''PATCH'' \<and> rq_path rq = ''/v1/configuration''")
    case True
    then have "api_route env refusal identity rq body = accept env refusal (read_configure env identity rq body)"
      using not_post by (simp add: api_route_def)
    then show thesis using read_configure_authorised by (rule command)
  qed (use not_post in \<open>auto intro: resource\<close>)
qed

lemma accept_state:
  "snd (accept env refusal r d) = (case r of Inl e \<Rightarrow> d | Inr c \<Rightarrow> snd (run_command refusal c d))"
  by (auto simp: accept_def abind_unfold api_state split: sum.splits)

lemma dispatch_state:
  "snd (api_dispatch env refusal rq d) =
     (case authenticate env (map_of (rq_headers rq) ''authorization'') of
        Inl e \<Rightarrow> d
      | Inr identity \<Rightarrow> (case read_body rq of Inl e \<Rightarrow> d | Inr body \<Rightarrow> snd (api_route env refusal identity rq body d)))"
  by (auto simp: api_dispatch_def authenticated_def abind_unfold case_prod_unfold split: sum.splits)

text \<open>
  C6: A request changes the recorded operations, the intents handed to the worker and the
  configuration only as one command of the domain, given by a caller who presented one of the two
  credentials and was entitled to it: the machine credential to a sort under the role
  \<open>machine\<close> and nothing else, the other credential to a command under a human role.
\<close>

theorem requests_change_only_as_authorised:
  "observes d (snd (api_dispatch env refusal rq d)) \<or>
   (\<exists>identity c. authenticate env (map_of (rq_headers rq) ''authorization'') = Inr identity \<and> authorised identity c \<and>
      snd (api_dispatch env refusal rq d) = snd (run_command refusal c d))"
proof -
  have "observes d (snd (api_route env refusal identity rq body d)) \<or>
      (\<exists>c. authorised identity c \<and> snd (api_route env refusal identity rq body d) = snd (run_command refusal c d))"
    for identity body
  proof (cases rule: route_cases [of env refusal identity rq body])
    case (command r)
    then show ?thesis by (cases r) (auto simp: accept_state reading.same)
  next
    case resource
    then show ?thesis using reading.observingD [OF reading.observing_route] by blast
  qed
  then show ?thesis by (auto simp: dispatch_state reading.same split: sum.splits)
qed

context domain_relation
begin

lemma run_command_related: "authorised identity c \<Longrightarrow> R d (snd (run_command refusal c d))"
  by (cases c) (auto simp: authorised_def connect_def recover_def intro!: keepsD keeps_calls)

lemma dispatch_related: "R d (snd (api_dispatch env refusal rq d))"
proof -
  have "R d (snd (api_route env refusal identity rq body d))" for identity body
  proof (cases rule: route_cases [of env refusal identity rq body])
    case (command r)
    then show ?thesis by (cases r) (auto simp: accept_state R_refl run_command_related)
  next
    case resource
    then show ?thesis by (rule reads.observingD [OF reads.observing_route])
  qed
  then show ?thesis by (simp add: dispatch_state R_refl split: sum.splits)
qed

end

fun serve :: "api_env \<Rightarrow> (worker_error option \<times> api_request) list \<Rightarrow> domain \<Rightarrow> domain" where
  "serve env [] d = d"
| "serve env ((refusal, rq) # rqs) d = serve env rqs (snd (api_dispatch env refusal rq d))"

context domain_relation
begin

lemma serve_related: "R d (serve env rqs d)"
  by (induction env rqs d rule: serve.induct) (auto intro: R_refl R_trans dispatch_related)

end


section \<open>Responses\<close>

text \<open>The error codes of the contract with the status of each.\<close>

definition CONTRACT_ERRORS :: "(nat \<times> string list) list" where
  "CONTRACT_ERRORS = [(400, [''VALIDATION_FAILED'', ''DEADLINE_INVALID'']), (401, [''UNAUTHENTICATED'']),
     (403, [''FORBIDDEN'']), (404, [''RESOURCE_NOT_FOUND'']), (408, [''DEADLINE_EXPIRED'']),
     (409, [''STALE_GENERATION'', ''IDEMPOTENCY_CONFLICT'', ''NOT_READY'', ''UNCERTAIN'']), (429, [''QUEUE_FULL'']),
     (500, [''INTERNAL_ERROR'']), (503, [''JOURNAL_UNAVAILABLE'', ''SERVICE_UNAVAILABLE''])]"

text \<open>A reply of the contract: a stream, a document of this version with status 200 or 202, or
  an error document whose code belongs to its status.\<close>

definition error_document :: "api_response \<Rightarrow> bool" where
  "error_document r =
     (case (rs_body r, map_of CONTRACT_ERRORS (rs_status r)) of
        (JObj m, Some codes) \<Rightarrow>
          (case map_of m ''code'' of Some (JStr code) \<Rightarrow> code \<in> set codes | _ \<Rightarrow> False)
      | _ \<Rightarrow> False)"

definition versioned :: "json \<Rightarrow> bool" where
  "versioned j = (case j of JObj m \<Rightarrow> map_of m ''api_version'' = Some (JStr API_VERSION) | _ \<Rightarrow> False)"

fun contract_reply :: "api_reply \<Rightarrow> bool" where
  "contract_reply (Stream after) = True"
| "contract_reply (Reply r) = (versioned (rs_body r) \<and>
     (if rs_status r = 200 \<or> rs_status r = 202 then True else error_document r))"

definition known_raise :: "api_exc \<Rightarrow> bool" where
  "known_raise e = (case e of ApiError code _ \<Rightarrow> code \<in> set (map fst STATUS_FOR_CODE) | _ \<Rightarrow> True)"

text \<open>A computation that raises known codes only, and whose result, if it returns, is as stated.\<close>

definition gives :: "('a \<Rightarrow> bool) \<Rightarrow> (api_exc, 'a) result \<Rightarrow> bool" where
  "gives P r = (case r of Inl e \<Rightarrow> known_raise e | Inr x \<Rightarrow> P x)"

lemma gives_simps [simp]: "gives P (Inl e) = known_raise e" "gives P (Inr x) = P x"
  by (simp_all add: gives_def)

lemma known_simps [simp]:
  "known_raise invalid_request" "known_raise not_found" "known_raise (Below e)" "known_raise (StreamRequested a)"
  "known_raise (ApiError ''FORBIDDEN'' i)" "known_raise (ApiError ''UNAUTHENTICATED'' i)"
  "known_raise (ApiError ''DEADLINE_INVALID'' i)" "known_raise (ApiError ''JOURNAL_UNAVAILABLE'' i)"
  by (simp_all add: known_raise_def STATUS_FOR_CODE_def)

lemma gives_bind: "gives (\<lambda>_. True) m \<Longrightarrow> (\<And>x. gives P (f x)) \<Longrightarrow> gives P (bind_r m f)"
  by (cases m) auto

lemma gives_abind:
  assumes "\<And>d. gives Q (fst (m d))" "\<And>x d. Q x \<Longrightarrow> gives P (fst (f x d))"
  shows "gives P (fst (abind m f d))"
  using assms(1) [of d] assms(2) by (cases "fst (m d)") (auto simp: abind_unfold)

lemma gives_fields: "gives (\<lambda>_. True) (require_exact_fields payload names)"
  by (simp add: require_exact_fields_def require_def)

lemma gives_readers:
  "gives (\<lambda>_. True) (authenticate env h)" "gives (\<lambda>_. True) (read_body rq)" "gives (\<lambda>_. True) (request_object env body)"
  "gives (\<lambda>_. True) (api_idempotency_key rq)" "gives (\<lambda>_. True) (read_deadline_ms rq)" "gives (\<lambda>_. True) (exact_int t)"
  "gives (\<lambda>_. True) (actor_members payload)" "gives (\<lambda>_. True) (role_text j)" "gives (\<lambda>_. True) (api_slot j)"
  "gives (\<lambda>_. True) (configuration_value j)"
  by (auto simp: authenticate_def read_body_def request_object_def api_idempotency_key_def read_deadline_ms_def
      exact_int_def of_option_def actor_members_def Let_def split: option.splits prod.splits json.splits)
     (cases j; simp)+

lemma gives_commanding_actor: "gives (\<lambda>_. True) (commanding_actor env payload identity command)"
  unfolding commanding_actor_def
  by (auto intro!: gives_bind gives_readers split: prod.splits sum.splits daemon_error.splits)

lemma gives_command_body: "gives (\<lambda>_. True) (command_body a payload)"
  unfolding command_body_def
  by (auto intro!: gives_bind gives_fields gives_readers split: operation_action.splits json.splits)

lemma gives_generation: "gives (\<lambda>_. True) (exact_generation rq)" "gives (\<lambda>_. True) (stop_generation rq)"
  "gives (\<lambda>_. True) (last_event_id rq)"
  by (auto simp: exact_generation_def stop_generation_def last_event_id_def Let_def intro!: gives_bind gives_readers)

lemma gives_changes: "gives (\<lambda>_. True) (read_changes m)"
  by (induction m rule: read_changes.induct) (auto intro!: gives_bind gives_readers)

lemmas gives_rules = gives_bind gives_fields gives_readers gives_commanding_actor gives_command_body
  gives_generation gives_changes

lemma gives_read_command: "gives (\<lambda>_. True) (read_command env identity rq body)"
  unfolding read_command_def read_session_command_def Let_def
  by (auto intro!: gives_rules split: option.splits)

lemma gives_read_configure: "gives (\<lambda>_. True) (read_configure env identity rq body)"
  unfolding read_configure_def by (auto intro!: gives_rules split: json.splits)

lemma gives_below: "gives (\<lambda>_. True) (fst (below m d))" "gives (\<lambda>_. True) (fst (api_read m d))"
  by (auto simp: below_def api_read_def split: prod.splits sum.splits daemon_error.splits)

lemma gives_pure:
  "gives P (fst (areturn x d)) = P x" "gives P (fst (araise e d)) = known_raise e" "gives P (fst (alift r d)) = gives P r"
  by simp_all

text \<open>What a handler returns is a document of this version.\<close>

lemma gives_timestamp: "gives (\<lambda>_. True) (fst (timestamp env d))"
  unfolding timestamp_def by (rule gives_abind [OF gives_below(1)]) simp

lemma gives_documents:
  "gives versioned (fst (liveness env d))" "gives versioned (fst (system_body env d))"
  "gives versioned (fst (readiness_body env view d))"
  unfolding liveness_def system_body_def readiness_body_def
  by (rule gives_abind [OF gives_timestamp], simp add: versioned_def)+

lemma versioned_bodies: "versioned (operation_body env r)" "versioned (accepted_body env r)" "versioned (page_body env n rows)"
  by (simp_all add: versioned_def operation_body_def accepted_body_def page_body_def)

lemma gives_configuration: "gives versioned (fst (configuration_body env d))"
  unfolding configuration_body_def by (rule gives_abind [OF gives_below(2)]) (auto simp: versioned_def)

lemma gives_operation: "gives versioned (fst (operation_resource env i d))"
  unfolding operation_resource_def
  by (rule gives_abind [OF gives_below(2)]) (auto simp: versioned_bodies split: option.splits)

lemma gives_page: "gives versioned (fst (operation_page env query d))"
proof -
  have "gives (\<lambda>_. True) (bounded_int query n f m)" "gives (\<lambda>_. True) (optional_cursor query)" for n f m
    by (auto simp: bounded_int_def optional_cursor_def split: option.splits)
  moreover have "gives (\<lambda>_. True) (optional_enum query n val (voc :: operation_state list))" for n val voc
    by (auto simp: optional_enum_def split: option.splits)
  moreover have "gives (\<lambda>_. True) (optional_enum query n val (voc :: operation_action list))" for n val voc
    by (auto simp: optional_enum_def split: option.splits)
  ultimately show ?thesis unfolding operation_page_def
    by (auto intro!: gives_abind [where Q = "\<lambda>_. True"] gives_below simp: gives_pure versioned_bodies)
qed

lemma gives_active: "gives (\<lambda>_. True) (fst (active_operation env view d))"
  unfolding active_operation_def
  by (auto intro!: gives_abind [where Q = "\<lambda>_. True"] gives_below simp: gives_pure split: option.splits)

lemma gives_faults: "gives (\<lambda>_. True) (fst (faults env view d))"
  unfolding faults_def
  by (auto intro!: gives_abind [where Q = "\<lambda>_. True"] gives_below simp: gives_pure split: option.splits fault_state.splits)

lemma gives_snapshot: "gives versioned (fst (machine_snapshot_body env view d))"
  unfolding machine_snapshot_body_def
  by (auto intro!: gives_abind [OF gives_active] gives_abind [OF gives_faults] gives_abind [OF gives_timestamp]
      simp: gives_pure versioned_def)

definition success_response :: "api_response \<Rightarrow> bool" where
  "success_response r = (versioned (rs_body r) \<and> (rs_status r = 200 \<or> rs_status r = 202))"

lemma gives_ok: "(\<And>d. gives versioned (fst (m d))) \<Longrightarrow> gives success_response (fst (ok_response m d))"
  unfolding ok_response_def by (rule gives_abind) (auto simp: success_response_def http_response_def)

lemma gives_accept: "gives (\<lambda>_. True) r \<Longrightarrow> gives success_response (fst (accept env refusal r d))"
  unfolding accept_def
  by (auto intro!: gives_abind [where Q = "\<lambda>_. True"] gives_below
      simp: gives_pure success_response_def http_response_def versioned_bodies)

lemma gives_route: "gives success_response (fst (api_route env refusal identity rq body d))"
proof -
  have snapshot: "gives success_response (fst (abind api_view (\<lambda>view. abind (machine_snapshot_body env view) (\<lambda>b.
      areturn ((http_response 200 b)\<lparr> rs_etag := etag view \<rparr>))) d))" for etag
    by (auto intro!: gives_abind [where Q = "\<lambda>_. True"] gives_abind [OF gives_snapshot]
        simp: success_response_def http_response_def)
  have events: "gives success_response (fst (abind (alift (last_event_id rq)) (\<lambda>after. araise (StreamRequested after)) d))"
    by (rule gives_abind [where Q = "\<lambda>_. True"]) (auto simp: gives_generation)
  have ready: "gives success_response (fst (abind (below refresh_durability)
      (\<lambda>_. abind api_view (\<lambda>view. ok_response (readiness_body env view))) d))"
    by (auto intro!: gives_abind [where Q = "\<lambda>_. True"] gives_below gives_ok gives_documents simp: gives_pure)
  show ?thesis
    unfolding api_route_def Let_def
    by (auto intro!: gives_accept gives_read_command gives_read_configure gives_ok gives_documents
        gives_configuration gives_page gives_operation snapshot events ready simp: gives_pure split: option.splits)
qed

lemma error_response_contract:
  assumes "code \<in> set (map fst STATUS_FOR_CODE)"
  shows "contract_reply (Reply (error_response code i rid))"
proof -
  have "error_document (error_response code i rid)"
    using assms unfolding STATUS_FOR_CODE_def
    by (auto simp: error_document_def error_response_def http_response_def error_status_def STATUS_FOR_CODE_def
        CONTRACT_ERRORS_def contract_code_def split: option.splits)
  moreover have "versioned (rs_body (error_response code i rid))"
    by (simp add: versioned_def error_response_def http_response_def)
  ultimately show ?thesis by simp
qed

lemma domain_code_known: "error_code kind \<in> set (map fst STATUS_FOR_CODE)"
  by (cases kind) (simp_all add: STATUS_FOR_CODE_def)

lemma reply_contract: "gives success_response r \<Longrightarrow> contract_reply (reply_of rid r)"
proof (induction rid r rule: reply_of.induct)
  case (1 rid r)
  then show ?case by (auto simp: success_response_def)
next
  case (3 rid code i)
  then show ?case unfolding reply_of.simps by (intro error_response_contract) (simp add: known_raise_def)
next
  case (4 rid kind i)
  then show ?case
    unfolding reply_of.simps from_domain.simps prod.case by (intro error_response_contract domain_code_known)
qed (use error_response_contract [of "''INTERNAL_ERROR''"] in \<open>simp_all add: STATUS_FOR_CODE_def\<close>)

text \<open>
  C16: Every request is answered, and every answer is one the contract allows: a stream, a document
  of version \<open>v1\<close> with status 200 or 202, or an error document whose code is one of those the
  contract lists for its status. The internal code \<open>UNSUPPORTED\<close> never leaves the daemon, and no
  exception reaches the caller as anything but such a document.
\<close>

theorem replies_follow_the_contract: "contract_reply (fst (api_dispatch env refusal rq d))"
proof -
  have "gives success_response (fst (authenticated env refusal rq d))"
    unfolding authenticated_def
    by (auto intro!: gives_abind [where Q = "\<lambda>_. True"] gives_route simp: gives_pure gives_readers)
  then show ?thesis by (simp add: api_dispatch_def case_prod_unfold reply_contract)
qed

section \<open>Requests from outside\<close>

definition demo_env :: api_env where
  "demo_env = \<lparr> ae_token = ''bff-token'', ae_machine_token = Some ''machine-token'', ae_loads = (\<lambda>s. None),
     ae_str = (\<lambda>j. []), ae_rfc3339 = (\<lambda>t. int_str (instant t)), ae_uuid = ''u'' \<rparr>"

definition outside_request :: "string \<Rightarrow> api_request" where
  "outside_request secret = \<lparr> rq_method = ''POST'', rq_path = ''/v1/machine/stop'', rq_query = [],
     rq_headers = [(''authorization'', ''Bearer '' @ secret), (''content-length'', ''-1'')], rq_stream = ''body'' \<rparr>"

text \<open>
  A request that presents neither credential is answered with status 401 and changes nothing,
  whatever its method, path and body, and whether or not the machine credential is configured.
\<close>

theorem unauthenticated_requests_change_nothing:
  assumes "make_api env = Inr api"
    and "\<And>scheme secret. map_of (rq_headers rq) ''authorization'' = Some (scheme @ '' '' @ secret) \<Longrightarrow>
      lower scheme = ''bearer'' \<Longrightarrow> strip secret \<noteq> ae_token api \<and> Some (strip secret) \<noteq> ae_machine_token api"
  shows "\<exists>r. api_dispatch api refusal rq d = (Reply r, d) \<and> rs_status r = 401"
proof -
  have tokens: "ae_token api \<noteq> []" "ae_machine_token api \<noteq> Some []"
    using assms(1) by (auto simp: make_api_def split: if_splits)
  have "authenticate api (map_of (rq_headers rq) ''authorization'') = Inl (ApiError ''UNAUTHENTICATED'' None)"
  proof (cases "map_of (rq_headers rq) ''authorization''")
    case None
    then show ?thesis using tokens by (simp add: authenticate_def lower_def)
  next
    case (Some h)
    obtain scheme rest where split: "split_first (CHR '' '') h = (scheme, rest)" by fastforce
    show ?thesis
    proof (cases rest)
      case None
      then show ?thesis using Some split tokens by (auto simp: authenticate_def strip_def lstrip_def split: option.splits)
    next
      case (Some secret)
      then have "h = scheme @ '' '' @ secret" using split_firstD(1) [OF split] by simp
      then show ?thesis
        using assms(2) [of scheme secret] \<open>map_of _ _ = Some h\<close> split Some
        by (auto simp: authenticate_def Let_def split: option.splits)
    qed
  qed
  then show ?thesis
    by (simp add: api_dispatch_def authenticated_def abind_unfold error_response_def http_response_def error_status_def
        STATUS_FOR_CODE_def)
qed

theorem unauthenticated_requests_change_nothing_witness:
  "\<exists>r. api_dispatch demo_env None (outside_request ''guess'') (demo_domain empty_tables) = (Reply r, demo_domain empty_tables) \<and>
     rs_status r = 401"
proof (rule unauthenticated_requests_change_nothing)
  show "make_api demo_env = Inr demo_env" by (simp add: make_api_def demo_env_def)
  show "strip secret \<noteq> ae_token demo_env \<and> Some (strip secret) \<noteq> ae_machine_token demo_env"
    if h: "map_of (rq_headers (outside_request ''guess'')) ''authorization'' = Some (scheme @ '' '' @ secret)" for scheme secret
  proof -
    have "secret = ''guess''" using h by (auto simp: outside_request_def Cons_eq_append_conv)
    moreover have "strip ''guess'' = ''guess''" by code_simp
    ultimately show ?thesis by (simp add: demo_env_def)
  qed
qed

text \<open>
  A body that is read never exceeds 64 KiB, except where the request declares a negative length:
  then everything the peer sends is read.
\<close>

theorem body_is_bounded_unless_negative:
  "read_body rq = Inr body \<Longrightarrow>
     int (length body) \<le> MAX_BODY_BYTES \<or>
     (\<exists>declared n. map_of (rq_headers rq) ''content-length'' = Some declared \<and> py_int declared = Some n \<and> n < 0 \<and>
        body = rq_stream rq)"
  by (auto simp: read_body_def MAX_BODY_BYTES_def split: option.splits if_splits)

theorem body_is_bounded_unless_negative_witness:
  "\<exists>n < 0. py_int ''-1'' = Some n \<and>
     read_body ((outside_request ''s'')\<lparr> rq_stream := replicate 70000 (CHR ''x'') \<rparr>) = Inr (replicate 70000 (CHR ''x''))"
proof -
  let ?rq = "(outside_request ''s'')\<lparr> rq_stream := replicate 70000 (CHR ''x'') \<rparr>"
  have "py_int ''-1'' = Some (- 1)" by code_simp
  then have read: "read_body ?rq = Inr (replicate 70000 (CHR ''x''))"
    by (simp add: read_body_def outside_request_def MAX_BODY_BYTES_def)
  from body_is_bounded_unless_negative [OF this] read show ?thesis
    by (auto simp: outside_request_def MAX_BODY_BYTES_def)
qed

end
