(* ===== verification/Vision_Api.thy ===== *)
theory Vision_Api
  imports Vision Api
begin

text \<open>
  The HTTP interface of the vision service (\<open>api.py\<close> of \<open>cs71vision\<close>): authentication, reading of the
  body, every resource and command, and the reply. A handler is a task, since every call of the
  store and of the routing session takes a lock of its own and other threads run in between. The
  path of a request is the whole request target. The socket, the server threads and the text of
  messages are left out; \<open>json.loads\<close> and the text of times and floats are parameters.
\<close>

record vision_api =
  va_token :: string
  va_minimum :: int
  va_thresholds :: thresholds
  va_loads :: "string \<Rightarrow> json option"
  va_iso :: "datetime \<Rightarrow> string"
  va_float :: "rat \<Rightarrow> string"

definition make_vision_api :: "vision_api \<Rightarrow> (vision_error, vision_api) result" where
  "make_vision_api api =
     (if va_token api = [] then Inl (OtherVisionError ''ValueError'')
      else if va_minimum api \<le> 0 then Inl (OtherVisionError ''ValueError'')
      else Inr api)"

abbreviation invalid :: vision_error where
  "invalid \<equiv> VisionApiError ''VALIDATION_FAILED''"

abbreviation no_resource :: vision_error where
  "no_resource \<equiv> VisionApiError ''RESOURCE_NOT_FOUND''"

section \<open>Requests\<close>

definition vision_authenticate :: "vision_api \<Rightarrow> string option \<Rightarrow> (vision_error, unit) result" where
  "vision_authenticate api header =
     (let (scheme, rest) = split_first (CHR '' '') (case header of None \<Rightarrow> [] | Some h \<Rightarrow> h);
          presented = strip (case rest of None \<Rightarrow> [] | Some r \<Rightarrow> r)
      in if lower scheme \<noteq> ''bearer'' \<or> presented \<noteq> va_token api then Inl (VisionApiError ''UNAUTHENTICATED'')
         else Inr ())"

definition VISION_MAX_BODY_BYTES :: int where
  "VISION_MAX_BODY_BYTES = 4096"

text \<open>\<open>_read_body\<close>: the body and what stays unread on the connection.\<close>

definition vision_read_body :: "api_request \<Rightarrow> string \<times> string" where
  "vision_read_body rq =
     (case map_of (rq_headers rq) ''content-length'' of
        None \<Rightarrow> ([], rq_stream rq)
      | Some declared \<Rightarrow>
          (case py_int declared of
             None \<Rightarrow> ([], rq_stream rq)
           | Some n \<Rightarrow> let len = min n VISION_MAX_BODY_BYTES in
               if len > 0 then (take (nat len) (rq_stream rq), drop (nat len) (rq_stream rq)) else ([], rq_stream rq)))"

definition vision_json_object :: "vision_api \<Rightarrow> string \<Rightarrow> (vision_error, members) result" where
  "vision_json_object api body =
     (if body = [] then Inl invalid
      else case va_loads api body of
        Some (JObj payload) \<Rightarrow>
          if map_of payload ''api_version'' = Some (JStr ''v1'') then Inr payload else Inl invalid
      | _ \<Rightarrow> Inl invalid)"

fun int_field :: "json \<Rightarrow> (vision_error, int) result" where
  "int_field (JInt v) = Inr v"
| "int_field _ = Inl invalid"

fun bool_field :: "json \<Rightarrow> (vision_error, bool) result" where
  "bool_field (JBool b) = Inr b"
| "bool_field _ = Inl invalid"

fun class_entries :: "members \<Rightarrow> class_map \<Rightarrow> (vision_error, class_map) result" where
  "class_entries [] acc = Inr acc"
| "class_entries ((key, value) # rest) acc =
     bind_r (of_option invalid (py_int key)) (\<lambda>class_id.
     bind_r (int_field value) (\<lambda>slot. class_entries rest (AList.update class_id slot acc)))"

fun class_to_slot_field :: "json \<Rightarrow> (vision_error, class_map) result" where
  "class_to_slot_field (JObj m) = (if m = [] then Inl invalid else class_entries m [])"
| "class_to_slot_field _ = Inl invalid"

fun int_fields :: "json list \<Rightarrow> (vision_error, int list) result" where
  "int_fields [] = Inr []"
| "int_fields (x # xs) = bind_r (int_field x) (\<lambda>v. bind_r (int_fields xs) (\<lambda>vs. Inr (v # vs)))"

fun slot_list :: "json \<Rightarrow> (vision_error, int list) result" where
  "slot_list (JList xs) = (if xs = [] then Inl invalid else int_fields xs)"
| "slot_list _ = Inl invalid"

definition require_fields :: "members \<Rightarrow> string list \<Rightarrow> string list \<Rightarrow> (vision_error, unit) result" where
  "require_fields payload required optional =
     require (list_all (\<lambda>n. n \<in> set (map fst payload)) required \<and>
              list_all (\<lambda>n. n \<in> set (required @ optional)) (map fst payload)) invalid"

definition optional_int :: "json \<Rightarrow> (vision_error, int option) result" where
  "optional_int v = (if v = JNull then Inr None else bind_r (int_field v) (\<lambda>i. Inr (Some i)))"

definition routing_profile_from :: "members \<Rightarrow> (vision_error, routing_profile) result" where
  "routing_profile_from payload =
     (let kind = map_of payload ''kind'' in
      if kind = Some (JStr ''fixed'') then
        bind_r (require_fields payload [''api_version'', ''kind'', ''class_to_slot'', ''overflow_slot''] []) (\<lambda>_.
        bind_r (class_to_slot_field (member payload ''class_to_slot'')) (\<lambda>class_to_slot.
        bind_r (int_field (member payload ''overflow_slot'')) (\<lambda>overflow_slot.
          Inr (FixedMapProfile class_to_slot overflow_slot))))
      else if kind = Some (JStr ''dynamic'') then
        bind_r (require_fields payload [''api_version'', ''kind'', ''available_slots''] []) (\<lambda>_.
        bind_r (slot_list (member payload ''available_slots'')) (\<lambda>slots. Inr (DynamicProfile slots)))
      else if kind = Some (JStr ''two_pass'') then
        bind_r (require_fields payload [''api_version'', ''kind'', ''class_to_slot'', ''overflow_slot''] [''source_group'']) (\<lambda>_.
        bind_r (class_to_slot_field (member payload ''class_to_slot'')) (\<lambda>class_to_slot.
        bind_r (int_field (member payload ''overflow_slot'')) (\<lambda>overflow_slot.
        bind_r (optional_int (member payload ''source_group'')) (\<lambda>source_group.
          Inr (TwoPassProfile class_to_slot overflow_slot source_group)))))
      else Inl invalid)"

text \<open>The body of a review: the attempt and the verdict.\<close>

definition review_from :: "members \<Rightarrow> (vision_error, int \<times> bool) result" where
  "review_from payload =
     bind_r (require (has_exactly payload [''api_version'', ''attempt_id'', ''correct'']) invalid) (\<lambda>_.
     bind_r (int_field (member payload ''attempt_id'')) (\<lambda>attempt_id.
     bind_r (bool_field (member payload ''correct'')) (\<lambda>correct. Inr (attempt_id, correct))))"

text \<open>\<open>/v1/models/<digits>/activate\<close>.\<close>

definition activate_path :: "string \<Rightarrow> string option" where
  "activate_path path =
     (if startswith path ''/v1/models/'' \<and> endswith path ''/activate'' \<and> length path > 20 then
        let v = take (length path - 20) (drop 11 path) in if list_all is_digit v then Some v else None
      else None)"

section \<open>Resources\<close>

definition json_float :: "vision_api \<Rightarrow> rat option \<Rightarrow> json" where
  "json_float api x = (case x of None \<Rightarrow> JNull | Some r \<Rightarrow> JFloat (va_float api r))"

definition json_int :: "int option \<Rightarrow> json" where
  "json_int x = (case x of None \<Rightarrow> JNull | Some i \<Rightarrow> JInt i)"

definition v1 :: "(string \<times> json) list \<Rightarrow> json" where
  "v1 members = JObj ((''api_version'', JStr ''v1'') # members)"

definition dataset_body :: "vision_api \<Rightarrow> json vtask" where
  "dataset_body api = tbind (on_store H_api counts_by_slot) (\<lambda>counts.
     let rows = sort_key fst counts in
     Ret (v1 [(''minimum_examples_per_class'', JInt (va_minimum api)),
       (''classes'', JList (map (\<lambda>(slot, n). JObj [(''slot'', JInt slot), (''count'', JInt (int n)),
          (''eligible'', JBool (int n \<ge> va_minimum api))]) rows)),
       (''training_ready'', JBool (list_ex (\<lambda>(slot, n). int n \<ge> va_minimum api) rows))]))"

definition candidate_body :: "vision_api \<Rightarrow> candidate_summary \<Rightarrow> json" where
  "candidate_body api c = JObj
     [(''version'', JInt (cs_version c)), (''trained_at'', JStr (va_iso api (cs_trained_at c))),
      (''included_classes'', JList (map JInt (cs_included_classes c))),
      (''excluded_classes'', JList (map JInt (cs_excluded_classes c))),
      (''accuracy_by_class'', JObj (map (\<lambda>(slot, a). (int_str slot, JFloat (va_float api a))) (cs_accuracy_by_class c))),
      (''minimum_examples_per_class'', JInt (cs_minimum_examples_per_class c)),
      (''training_example_count'', JInt (cs_training_example_count c)),
      (''holdout_example_count'', JInt (cs_holdout_example_count c))]"

definition models_body :: "vision_api \<Rightarrow> json vtask" where
  "models_body api =
     tbind (on_store H_api active_version) (\<lambda>active.
     tbind (on_store H_api activations) (\<lambda>history.
     tbind (on_store H_api candidates) (\<lambda>cs.
       Ret (v1 [(''active_version'', json_int active), (''can_roll_back'', JBool (length history \<ge> 2)),
         (''candidates'', JList (map (candidate_body api) cs))]))))"

definition suggestion_body :: "vision_api \<Rightarrow> json vtask" where
  "suggestion_body api = tbind (on_store H_api latest_suggestion) (\<lambda>latest.
     case latest of
       None \<Rightarrow> Ret (v1 [(''suggestion'', JNull)])
     | Some sg \<Rightarrow> Ret (v1 [(''suggestion'', JObj
         [(''slot'', JInt (sg_suggested_slot sg)), (''confidence'', JFloat (va_float api (sg_confidence sg))),
          (''model_version'', JInt (sg_model_version sg)), (''suggested_at'', JStr (va_iso api (sg_suggested_at sg))),
          (''primer_present'', case sg_primer_present sg of None \<Rightarrow> JNull | Some b \<Rightarrow> JBool b),
          (''requires_confirmation'', JBool (requires_operator_confirmation (sg_primer_present sg)))])]))"

definition suggestion_accuracy_body :: "vision_api \<Rightarrow> json vtask" where
  "suggestion_accuracy_body api = tbind (on_store H_api read_suggestion_accuracy) (\<lambda>a.
     Ret (v1 [(''total'', JInt (int (sa_total a))), (''correct'', JInt (int (sa_correct a))),
       (''accuracy'', json_float api (accuracy_fraction a))]))"

definition autonomy_body :: "vision_api \<Rightarrow> json vtask" where
  "autonomy_body api =
     tbind (on_store H_api autonomous_accuracy_by_class) (\<lambda>entries.
     tbind (on_store H_api pending_autonomous_reviews) (\<lambda>pending.
       Ret (v1 [(''thresholds'', JObj (map (\<lambda>(slot, v). (int_str slot, JFloat (va_float api v))) (va_thresholds api))),
         (''accuracy_by_class'', JObj (map (\<lambda>e. (int_str (aa_slot e), JObj [(''total'', JInt (int (aa_total e))),
            (''correct'', JInt (int (aa_correct e))), (''false_rate'', json_float api (false_rate e))])) entries)),
         (''pending_review'', JList (map (\<lambda>a. JObj [(''attempt_id'', JInt (at_attempt_id a)),
            (''suggestion_id'', JInt (at_suggestion_id a)), (''operation_id'', JStr (at_operation_id a)),
            (''slot'', JInt (at_slot a)), (''attempted_at'', JStr (va_iso api (at_attempted_at a)))]) pending))])))"

fun profile_kind :: "routing_profile \<Rightarrow> string" where
  "profile_kind (FixedMapProfile m overflow_slot) = ''fixed''"
| "profile_kind (DynamicProfile slots) = ''dynamic''"
| "profile_kind (TwoPassProfile m overflow_slot g) = ''two_pass''"

fun source_group_of :: "routing_profile \<Rightarrow> int option" where
  "source_group_of (TwoPassProfile m overflow_slot g) = g"
| "source_group_of _ = None"

definition routing_document :: "vision_api \<Rightarrow> routing_snapshot \<Rightarrow> json" where
  "routing_document api snap = v1
     [(''active'', JBool (sn_active snap)),
      (''kind'', case sn_profile snap of None \<Rightarrow> JNull | Some p \<Rightarrow> JStr (profile_kind p)),
      (''started_at'', case sn_started_at snap of None \<Rightarrow> JNull | Some started \<Rightarrow> JStr (va_iso api started)),
      (''source_group'', json_int (case sn_profile snap of None \<Rightarrow> None | Some p \<Rightarrow> source_group_of p)),
      (''legend'', JList (map (\<lambda>e. JObj [(''slot'', JInt (le_slot e)), (''class_id'', json_int (le_class_id e)),
         (''overflow'', JBool (le_overflow e))]) (sn_legend snap)))]"

definition routing_body :: "vision_api \<Rightarrow> json vtask" where
  "routing_body api = tbind (section_of (\<lambda>s. (Inr (routing_snapshot_of (vs_routing s)), s)))
     (\<lambda>snap. Ret (routing_document api snap))"

section \<open>Commands\<close>

text \<open>\<open>except ... raise ApiError(code)\<close> around a call.\<close>

definition reporting :: "vision_error \<Rightarrow> string \<Rightarrow> 'a vtask \<Rightarrow> 'a vtask" where
  "reporting caught code t = tcatch t (\<lambda>e. if e = caught then Some (Exc (VisionApiError code)) else None)"

definition autonomous_review_body :: "vision_api \<Rightarrow> string \<Rightarrow> json vtask" where
  "autonomous_review_body api body =
     tbind (of_result (bind_r (vision_json_object api body) review_from)) (\<lambda>(attempt_id, correct).
     tbind now_utc (\<lambda>reviewed_at.
     tbind (reporting DatasetError ''RESOURCE_NOT_FOUND'' (on_store H_api (record_autonomous_review attempt_id correct reviewed_at)))
       (\<lambda>_. Ret (v1 [(''attempt_id'', JInt attempt_id), (''correct'', JBool correct),
          (''reviewed_at'', JStr (va_iso api reviewed_at))]))))"

definition start_session :: "routing_profile \<Rightarrow> unit vtask" where
  "start_session profile = tbind now_utc (\<lambda>started_at. section_of (\<lambda>s.
     let (r, rs) = start_routing profile started_at (vs_routing s) in (r, s\<lparr> vs_routing := rs \<rparr>)))"

definition routing_start_body :: "vision_api \<Rightarrow> string \<Rightarrow> json vtask" where
  "routing_start_body api body =
     tbind (of_result (bind_r (vision_json_object api body) routing_profile_from)) (\<lambda>profile.
     tbind (reporting RoutingError ''VALIDATION_FAILED'' (start_session profile)) (\<lambda>_. routing_body api))"

definition routing_stop_body :: "vision_api \<Rightarrow> json vtask" where
  "routing_stop_body api = tbind (section_of (\<lambda>s. (Inr (), s\<lparr> vs_routing := stop_routing (vs_routing s) \<rparr>)))
     (\<lambda>_. routing_body api)"

definition train_body :: "vision_api \<Rightarrow> json vtask" where
  "train_body api = tbind trigger_training (\<lambda>started. Ret (v1 [(''started'', JBool started)]))"

definition activated :: "vision_api \<Rightarrow> int \<Rightarrow> datetime \<Rightarrow> json" where
  "activated api version activated_at = v1 [(''active_version'', JInt version), (''activated_at'', JStr (va_iso api activated_at))]"

definition activate_body :: "vision_api \<Rightarrow> int \<Rightarrow> json vtask" where
  "activate_body api version = tbind now_utc (\<lambda>activated_at.
     tbind (reporting DatasetError ''RESOURCE_NOT_FOUND'' (on_store H_api (activate_version version activated_at)))
       (\<lambda>_. Ret (activated api version activated_at)))"

definition rollback_body :: "vision_api \<Rightarrow> json vtask" where
  "rollback_body api = tbind (on_store H_api activations) (\<lambda>history.
     if length history < 2 then Exc invalid
     else let previous_version = ac_version (history ! (length history - 2)) in
       tbind now_utc (\<lambda>activated_at.
         tbind (on_store H_api (activate_version previous_version activated_at))
           (\<lambda>_. Ret (activated api previous_version activated_at))))"

section \<open>Dispatch\<close>

definition vision_route :: "vision_api \<Rightarrow> string \<Rightarrow> string \<Rightarrow> string \<Rightarrow> json vtask" where
  "vision_route api method path body =
     (if method = ''GET'' \<or> method = ''HEAD'' then
        (if path = ''/v1/dataset'' then dataset_body api
         else if path = ''/v1/models'' then models_body api
         else if path = ''/v1/suggestion'' then suggestion_body api
         else if path = ''/v1/suggestion-accuracy'' then suggestion_accuracy_body api
         else if path = ''/v1/autonomy'' then autonomy_body api
         else if path = ''/v1/routing'' then routing_body api
         else Exc no_resource)
      else if method = ''POST'' then
        (if path = ''/v1/train'' then train_body api
         else if path = ''/v1/rollback'' then rollback_body api
         else if path = ''/v1/autonomous-reviews'' then autonomous_review_body api body
         else if path = ''/v1/routing/start'' then routing_start_body api body
         else if path = ''/v1/routing/stop'' then routing_stop_body api
         else case activate_path path of
           Some v \<Rightarrow> tbind (of_result (of_option (OtherVisionError ''ValueError'') (py_int v))) (activate_body api)
         | None \<Rightarrow> Exc no_resource)
      else Exc no_resource)"

definition VISION_ERROR_STATUS :: "(string \<times> nat) list" where
  "VISION_ERROR_STATUS = [(''UNAUTHENTICATED'', 401), (''RESOURCE_NOT_FOUND'', 404), (''VALIDATION_FAILED'', 400),
     (''INTERNAL_ERROR'', 500)]"

text \<open>The document of an error without the text of its message.\<close>

definition vision_error_reply :: "string \<Rightarrow> nat \<times> json" where
  "vision_error_reply code =
     (case map_of VISION_ERROR_STATUS code of None \<Rightarrow> 500 | Some st \<Rightarrow> st, JObj [(''code'', JStr code)])"

fun vision_failure :: "vision_error \<Rightarrow> nat \<times> json" where
  "vision_failure (VisionApiError code) = vision_error_reply code"
| "vision_failure e = vision_error_reply ''INTERNAL_ERROR''"

definition vision_dispatch :: "vision_api \<Rightarrow> api_request \<Rightarrow> (nat \<times> json) vtask" where
  "vision_dispatch api rq =
     tcatch (tbind (of_result (vision_authenticate api (map_of (rq_headers rq) ''authorization''))) (\<lambda>_.
             tbind (vision_route api (rq_method rq) (rq_path rq) (fst (vision_read_body rq))) (\<lambda>body. Ret (200, body))))
       (\<lambda>e. Some (Ret (vision_failure e)))"

section \<open>Who may change the service\<close>

text \<open>What a reading request leaves alone, in every section it runs and so under every interleaving.\<close>

definition same_service :: "vision \<Rightarrow> vision \<Rightarrow> bool" where
  "same_service s s' = (vs_tables s' = vs_tables s \<and> vs_routing s' = vs_routing s \<and> vs_training s' = vs_training s \<and>
     vs_submitted s' = vs_submitted s \<and> vs_buffer s' = vs_buffer s \<and> vs_closed s' = vs_closed s)"

primrec silent :: "'a vtask \<Rightarrow> bool" where
  "silent (Ret x) = True"
| "silent (Exc e) = True"
| "silent (Atomic f g) = ((\<forall>s. same_service s (f s)) \<and> (\<forall>s. silent (g s)))"

lemma silent_bind: "silent t \<Longrightarrow> (\<And>x. silent (k x)) \<Longrightarrow> silent (tbind t k)"
  by (induction t) auto

lemma silent_catch: "silent t \<Longrightarrow> (\<And>e t'. handler e = Some t' \<Longrightarrow> silent t') \<Longrightarrow> silent (tcatch t handler)"
  by (induction t) (auto split: option.split)

lemma silent_result [simp]: "silent (of_result r)"
  by (cases r) (simp_all add: of_result_def)

lemma silent_section: "(\<And>s. same_service s (snd (call s))) \<Longrightarrow> silent (section_of call)"
  by (simp add: section_of_def)

lemma silent_read: "silent (on_store h (ds_guard read))"
  unfolding on_store_def
  by (rule silent_section) (simp add: store_call_def put_store_def same_service_def split_beta store_of_def)

lemmas store_reads = counts_by_slot_def activations_def active_version_def candidates_def latest_suggestion_def
  read_suggestion_accuracy_def autonomous_accuracy_by_class_def pending_autonomous_reviews_def

lemma silent_resources:
  "silent (dataset_body api)" "silent (models_body api)" "silent (suggestion_body api)"
  "silent (suggestion_accuracy_body api)" "silent (autonomy_body api)" "silent (routing_body api)"
  unfolding dataset_body_def models_body_def suggestion_body_def suggestion_accuracy_body_def autonomy_body_def
    routing_body_def store_reads Let_def
  by (auto intro!: silent_bind silent_read silent_section simp: same_service_def split: option.split)

lemma silent_if: "silent a \<Longrightarrow> silent b \<Longrightarrow> silent (if c then a else b)"
  by simp

lemma silent_route: "method \<noteq> ''POST'' \<Longrightarrow> silent (vision_route api method path body)"
  unfolding vision_route_def by (simp only: if_False) (intro silent_if silent_resources silent.simps(2) [THEN iffD2] TrueI)

lemma authenticated_header:
  assumes "va_token api \<noteq> []" "vision_authenticate api header = Inr ()"
  shows "\<exists>scheme secret. header = Some (scheme @ '' '' @ secret) \<and> lower scheme = ''bearer'' \<and> strip secret = va_token api"
proof -
  define h where "h = (case header of None \<Rightarrow> [] | Some h \<Rightarrow> h)"
  obtain scheme rest where split: "split_first (CHR '' '') h = (scheme, rest)" by force
  have auth: "lower scheme = ''bearer''" "strip (case rest of None \<Rightarrow> [] | Some r \<Rightarrow> r) = va_token api"
    using assms(2) split by (auto simp: vision_authenticate_def h_def [symmetric] split: if_splits)
  then obtain secret where "rest = Some secret" using assms(1) by (cases rest) (auto simp: strip_def lstrip_def)
  moreover from this split have "h = scheme @ '' '' @ secret"
    by (auto simp: split_first_def Let_def dropWhile_eq_Cons_conv split: list.splits)
  ultimately show ?thesis using auth by (cases header) (auto simp: h_def)
qed

text \<open>
  C37: only an authenticated command changes the vision service. Whatever request arrives, either none
  of the sections it runs touches the database, the routing run, the training job or the frames,
  however other threads interleave with it, or it is a POST that carries the service credential.
\<close>

theorem vision_changes_are_authorised:
  assumes "make_vision_api settings = Inr api"
  shows "silent (vision_dispatch api rq) \<or> (rq_method rq = ''POST'' \<and>
    (\<exists>scheme secret. map_of (rq_headers rq) ''authorization'' = Some (scheme @ '' '' @ secret) \<and>
       lower scheme = ''bearer'' \<and> strip secret = va_token api))"
proof -
  let ?header = "map_of (rq_headers rq) ''authorization''"
  have token: "va_token api \<noteq> []" using assms by (auto simp: make_vision_api_def split: if_splits)
  consider (refused) e where "vision_authenticate api ?header = Inl e" | (read) "rq_method rq \<noteq> ''POST''"
    | (command) "vision_authenticate api ?header = Inr ()" "rq_method rq = ''POST''"
    by (cases "vision_authenticate api ?header") auto
  then show ?thesis
  proof cases
    case refused
    then show ?thesis by (simp add: vision_dispatch_def of_result_def)
  next
    case read
    then have "silent (vision_dispatch api rq)"
      unfolding vision_dispatch_def by (auto intro!: silent_catch silent_bind silent_route)
    then show ?thesis by simp
  next
    case command
    then show ?thesis using authenticated_header [OF token command(1)] by blast
  qed
qed

definition demo_vision_api :: vision_api where
  "demo_vision_api = \<lparr> va_token = ''secret'', va_minimum = 40, va_thresholds = [], va_loads = (\<lambda>_. None),
     va_iso = (\<lambda>_. []), va_float = (\<lambda>_. []) \<rparr>"

definition anonymous_train :: api_request where
  "anonymous_train = \<lparr> rq_method = ''POST'', rq_path = ''/v1/train'', rq_query = [], rq_headers = [], rq_stream = [] \<rparr>"

theorem vision_changes_are_authorised_witness: "silent (vision_dispatch demo_vision_api anonymous_train)"
proof -
  have "make_vision_api demo_vision_api = Inr demo_vision_api" by (simp add: make_vision_api_def demo_vision_api_def)
  from vision_changes_are_authorised [OF this, of anonymous_train] show ?thesis by (simp add: anonymous_train_def)
qed

text \<open>A body beyond the limit, or one of a request that is refused, stays on the connection: it is read
  as the start of the next request.\<close>

lemma oversized_body_stays_on_connection:
  assumes "map_of (rq_headers rq) ''content-length'' = Some declared" "py_int declared = Some n" "n > 4096"
  shows "snd (vision_read_body rq) = drop 4096 (rq_stream rq)"
  using assms by (simp add: vision_read_body_def VISION_MAX_BODY_BYTES_def Let_def min_def)

end
