(* ===== verification/Vision_Service.thy ===== *)
theory Vision_Service
  imports Vision_Api
begin

text \<open>
  The vision service as a whole: the threads of \<open>runtime.py\<close>, among them those of the API, interleaved
  over one state, and what holds however they interleave.
\<close>

section \<open>The threads\<close>

definition close_handle :: "vision_handle \<Rightarrow> int vtask" where
  "close_handle h = section_of (\<lambda>s. (Inr 0, s\<lparr> vs_closed := h # vs_closed s \<rparr>))"

datatype vision_thread = T_capture | T_correlation | T_suggestion | T_autonomy | T_training | T_api nat | T_main

text \<open>What a thread may run next: a turn of its loop, or of the API threads any request. A camera stamps
  frames with \<open>datetime.now(UTC)\<close>.\<close>

inductive vision_job ::
    "('m, 'f) vision_libs \<Rightarrow> (int \<Rightarrow> int vtask) \<Rightarrow> (dataset_example list \<Rightarrow> (vision_error, trained_candidate) result)
       \<Rightarrow> thresholds \<Rightarrow> vision_thread \<Rightarrow> int vtask \<Rightarrow> bool"
  for libs router trainer thresholds where
  "fr_captured_at f = Aware t \<Longrightarrow> vision_job libs router trainer thresholds T_capture (capture_once f)"
| "vision_job libs router trainer thresholds T_correlation poll_once"
| "vision_job libs router trainer thresholds T_suggestion (suggest_once libs router)"
| "vision_job libs router trainer thresholds T_autonomy (attempt_once thresholds)"
| "vision_job libs router trainer thresholds T_training (training_thread trainer)"
| "vision_job libs router trainer thresholds (T_api n) (tbind (vision_dispatch api rq) (\<lambda>reply. Ret (int (fst reply))))"
| "vision_job libs router trainer thresholds T_main (close_handle h)"

definition idle :: "vision_thread \<Rightarrow> int vtask" where
  "idle i = Ret 0"

section \<open>The invariant of the service\<close>

definition labelled :: "vision \<Rightarrow> example_row \<Rightarrow> bool" where
  "labelled s ex = (\<exists>x\<in>set (vs_reported s). \<exists>f\<in>set (vs_captured s).
     ex_operation_id ex = sx_operation_id x \<and> ex_slot ex = sx_slot x \<and>
     sx_created_at x = Some (ex_operation_created_at ex) \<and>
     ex_frame_png ex = fr_png f \<and> ex_frame_captured_at ex = fr_captured_at f \<and>
     instant (fr_captured_at f) \<le> instant (ex_operation_created_at ex))"

definition justified :: "thresholds \<Rightarrow> vision_tables \<Rightarrow> submission \<Rightarrow> bool" where
  "justified thr t sub = (\<exists>sg\<in>set (vt_suggestions t). sb_slot sub = sg_suggested_slot sg \<and>
     sb_key sub = idempotency_key (sg_suggestion_id sg) \<and> may_autonomously_sort (suggestion_of sg) thr)"

text \<open>\<open>t0\<close> are the tables the service started with.\<close>

definition vision_ok :: "thresholds \<Rightarrow> vision_tables \<Rightarrow> vision \<Rightarrow> bool" where
  "vision_ok thr t0 s =
     (vision_wf (vs_tables s) \<and>
      (\<forall>sub\<in>set (vs_submitted s). justified thr (vs_tables s) sub) \<and>
      (\<forall>sg\<in>set (vt_suggestions (vs_tables s)). sg \<in> set (vt_suggestions t0) \<or> sg_primer_present sg = None) \<and>
      (\<forall>ex\<in>set (vt_examples (vs_tables s)). ex \<in> set (vt_examples t0) \<or> labelled s ex) \<and>
      set (fb_frames (vs_buffer s)) \<subseteq> set (vs_captured s) \<and>
      (\<forall>f\<in>set (vs_captured s). \<exists>t. fr_captured_at f = Aware t))"

definition vision_evolves :: "vision \<Rightarrow> vision \<Rightarrow> bool" where
  "vision_evolves s s' = (vision_grows (vs_tables s) (vs_tables s') \<and> prefix (vs_submitted s) (vs_submitted s') \<and>
     set (vs_reported s) \<subseteq> set (vs_reported s') \<and> set (vs_captured s) \<subseteq> set (vs_captured s'))"

interpretation service: rely "vision_ok thr t0" vision_evolves for thr t0
  by unfold_locales (auto simp: vision_evolves_def intro: vision_grows_trans)

text \<open>The tables a call of the store may leave behind.\<close>

definition fresh_ok :: "vision \<Rightarrow> vision_tables \<Rightarrow> bool" where
  "fresh_ok s t' = (vision_wf t' \<and> vision_grows (vs_tables s) t' \<and>
     (\<forall>sg\<in>set (vt_suggestions t'). sg \<in> set (vt_suggestions (vs_tables s)) \<or> sg_primer_present sg = None) \<and>
     (\<forall>ex\<in>set (vt_examples t'). ex \<in> set (vt_examples (vs_tables s)) \<or> labelled s ex))"

lemma grows_rows:
  "vision_grows t t' \<Longrightarrow> set (vt_suggestions t) \<subseteq> set (vt_suggestions t')"
  "vision_grows t t' \<Longrightarrow> set (vt_examples t) \<subseteq> set (vt_examples t')"
  by (auto simp: vision_grows_def dest: set_mono_prefix)

lemma justified_later: "justified thr t sub \<Longrightarrow> vision_grows t t' \<Longrightarrow> justified thr t' sub"
  using grows_rows(1) by (fastforce simp: justified_def)

lemma vision_ok_put:
  assumes "vision_ok thr t0 s" "fresh_ok s (ds_tables d)"
  shows "vision_ok thr t0 (put_store d s) \<and> vision_evolves s (put_store d s)"
proof -
  have l: "labelled (put_store d s) ex = labelled s ex" for ex by (simp add: labelled_def put_store_def)
  have "vision_ok thr t0 (put_store d s)"
    using assms justified_later unfolding vision_ok_def l
    by (fastforce simp: put_store_def fresh_ok_def)
  then show ?thesis using assms by (simp add: vision_evolves_def put_store_def fresh_ok_def)
qed

lemma vision_ok_more:
  assumes "vision_ok thr t0 s" "vs_tables s' = vs_tables s" "vs_submitted s' = vs_submitted s"
    "set (vs_reported s) \<subseteq> set (vs_reported s')" "set (vs_captured s) \<subseteq> set (vs_captured s')"
    "set (fb_frames (vs_buffer s')) \<subseteq> set (vs_captured s')" "\<forall>f\<in>set (vs_captured s'). \<exists>t. fr_captured_at f = Aware t"
  shows "vision_ok thr t0 s' \<and> vision_evolves s s'"
proof -
  have "labelled s' ex" if "labelled s ex" for ex using that assms(4,5) by (auto simp: labelled_def)
  then show ?thesis using assms by (auto simp: vision_ok_def vision_evolves_def)
qed

lemma vision_ok_quiet:
  assumes "vision_ok thr t0 s" "vs_tables s' = vs_tables s" "vs_submitted s' = vs_submitted s"
    "vs_reported s' = vs_reported s" "vs_captured s' = vs_captured s" "vs_buffer s' = vs_buffer s"
  shows "vision_ok thr t0 s' \<and> vision_evolves s s'"
  using assms by (intro vision_ok_more) (auto simp: vision_ok_def)

lemma guar_on_store:
  assumes "\<And>s'. vision_evolves s s' \<Longrightarrow> vision_ok thr t0 s' \<Longrightarrow> fresh_ok s' (ds_tables (snd (call (store_of h s'))))"
    and "\<And>s' x s''. vision_evolves s s' \<Longrightarrow> vision_ok thr t0 s' \<Longrightarrow> fst (call (store_of h s')) = Inr x \<Longrightarrow>
      vision_evolves s' s'' \<Longrightarrow> vision_ok thr t0 s'' \<Longrightarrow> post x s''"
  shows "guar (vision_ok thr t0) vision_evolves post (on_store h call) s"
  unfolding on_store_def
proof (rule service.guar_section)
  fix s' assume s': "vision_evolves s s'" "vision_ok thr t0 s'"
  have put: "snd (store_call h call s') = put_store (snd (call (store_of h s'))) s'"
    "fst (store_call h call s') = fst (call (store_of h s'))"
    by (simp_all add: store_call_def split_beta)
  show ok: "vision_ok thr t0 (snd (store_call h call s')) \<and> vision_evolves s' (snd (store_call h call s'))"
    unfolding put by (rule vision_ok_put [OF s'(2) assms(1) [OF s']])
  fix x s'' assume "fst (store_call h call s') = Inr x" "vision_evolves (snd (store_call h call s')) s''" "vision_ok thr t0 s''"
  then show "post x s''" using assms(2) [OF s'] ok put service.R_trans by auto
qed

lemma fresh_ok_same: "vision_ok thr t0 s \<Longrightarrow> t = vs_tables s \<Longrightarrow> fresh_ok s t"
  by (simp add: fresh_ok_def vision_ok_def)

lemma store_of_tables [simp]: "ds_tables (store_of h s) = vs_tables s"
  by (simp add: store_of_def)

text \<open>A write that is a step of the store and touches neither suggestions nor examples, one that adds a
  suggestion of unknown primer, and one that adds an example.\<close>

lemma fresh_ok_step:
  assumes "vision_ok thr t0 s" "store_step (store_of h s) d"
    and "\<forall>sg\<in>set (vt_suggestions (ds_tables d)). sg \<in> set (vt_suggestions (vs_tables s)) \<or> sg_primer_present sg = None"
    and "\<forall>ex\<in>set (vt_examples (ds_tables d)). ex \<in> set (vt_examples (vs_tables s)) \<or> labelled s ex"
  shows "fresh_ok s (ds_tables d)"
  using assms store_step_wf [OF assms(2)] store_step_grows [OF assms(2)] by (simp add: fresh_ok_def vision_ok_def)

lemma record_example_rows:
  "\<forall>ex\<in>set (vt_examples (ds_tables (snd (record_example op slot png captured created clock d)))).
     ex \<in> set (vt_examples (ds_tables d)) \<or> (ex_operation_id ex = op \<and> ex_slot ex = slot \<and> ex_frame_png ex = png \<and>
       ex_frame_captured_at ex = captured \<and> ex_operation_created_at ex = created)"
  unfolding record_example_def
proof (rule transaction_keeps)
  have time: "encode_time x = Inr y \<Longrightarrow> y = x" for x y by (cases x) auto
  have num: "sqlite_int x = Inr y \<Longrightarrow> y = x" for x y by (auto simp: sqlite_int_def split: if_splits)
  fix x t' assume "bind_r (encode_time captured) (\<lambda>captured. bind_r (encode_time created) (\<lambda>created.
     bind_r (encode_time clock) (\<lambda>recorded. bind_r (sqlite_int slot) (\<lambda>slot.
       if op \<in> set (map ex_operation_id (vt_examples (ds_tables d))) then Inr (False, ds_tables d)
       else Inr (True, ds_tables d\<lparr> vt_examples := vt_examples (ds_tables d) @
         [\<lparr> ex_operation_id = op, ex_slot = slot, ex_frame_png = png,
            ex_frame_captured_at = captured, ex_operation_created_at = created, ex_recorded_at = recorded \<rparr>] \<rparr>))))) = Inr (x, t')"
  then show "\<forall>ex\<in>set (vt_examples t'). ex \<in> set (vt_examples (ds_tables d)) \<or> (ex_operation_id ex = op \<and> ex_slot ex = slot \<and>
      ex_frame_png ex = png \<and> ex_frame_captured_at ex = captured \<and> ex_operation_created_at ex = created)"
    by (auto simp: result_simps split: if_splits dest!: time num)
qed simp

lemma record_suggestion_rows:
  "\<forall>sg\<in>set (vt_suggestions (ds_tables (snd (record_suggestion version slot confidence captured clock primer d)))).
     sg \<in> set (vt_suggestions (ds_tables d)) \<or> sg_primer_present sg = primer"
  unfolding record_suggestion_def by (rule transaction_keeps) (auto simp: result_simps)

lemma other_rows:
  "vt_suggestions (ds_tables (snd (record_example op slot png captured created clock d))) = vt_suggestions (ds_tables d)"
  "vt_examples (ds_tables (snd (record_suggestion version slot confidence captured clock primer d))) = vt_examples (ds_tables d)"
  "vt_suggestions (ds_tables (snd (record_candidate candidate clock d))) = vt_suggestions (ds_tables d)"
  "vt_examples (ds_tables (snd (record_candidate candidate clock d))) = vt_examples (ds_tables d)"
  "vt_suggestions (ds_tables (snd (activate_version version clock d))) = vt_suggestions (ds_tables d)"
  "vt_examples (ds_tables (snd (activate_version version clock d))) = vt_examples (ds_tables d)"
  "vt_suggestions (ds_tables (snd (record_suggestion_outcome sid op slot clock d))) = vt_suggestions (ds_tables d)"
  "vt_examples (ds_tables (snd (record_suggestion_outcome sid op slot clock d))) = vt_examples (ds_tables d)"
  "vt_suggestions (ds_tables (snd (record_autonomous_attempt sid op slot clock d))) = vt_suggestions (ds_tables d)"
  "vt_examples (ds_tables (snd (record_autonomous_attempt sid op slot clock d))) = vt_examples (ds_tables d)"
  "vt_suggestions (ds_tables (snd (record_autonomous_review aid correct clock d))) = vt_suggestions (ds_tables d)"
  "vt_examples (ds_tables (snd (record_autonomous_review aid correct clock d))) = vt_examples (ds_tables d)"
  unfolding store_writes by (rule transaction_keeps, simp, auto simp: result_simps split: if_splits)+

lemma read_tables [simp]:
  "ds_tables (snd (has_example op d)) = ds_tables d"
  "ds_tables (snd (examples d)) = ds_tables d"
  "ds_tables (snd (activations d)) = ds_tables d"
  "ds_tables (snd (active_version d)) = ds_tables d"
  "ds_tables (snd (latest_suggestion d)) = ds_tables d"
  "ds_tables (snd (autonomous_attempt_exists sid d)) = ds_tables d"
  "ds_tables (snd (candidate_model version d)) = ds_tables d"
  "ds_tables (snd (unmatched_suggestion_at_or_before moment d)) = ds_tables d"
  by (simp_all add: has_example_def examples_def activations_def active_version_def latest_suggestion_def
      autonomous_attempt_exists_def candidate_model_def unmatched_suggestion_at_or_before_def then_decode_def split: sum.split)

section \<open>What each task guarantees\<close>

abbreviation (input) tame :: "thresholds \<Rightarrow> vision_tables \<Rightarrow> 'a vtask \<Rightarrow> vision \<Rightarrow> bool" where
  "tame thr t0 \<equiv> guar (vision_ok thr t0) vision_evolves anything"

lemma tame_Finished [simp]: "tame thr t0 (Ret x) s"
  by (simp add: anything_def)

lemma tame_Raised [simp]: "tame thr t0 (Exc e) s"
  by simp

lemma tame_bind: "tame thr t0 t s \<Longrightarrow> (\<And>x s'. tame thr t0 (k x) s') \<Longrightarrow> tame thr t0 (tbind t k) s"
  by (rule service.guar_bind)

lemma tame_if: "tame thr t0 a s \<Longrightarrow> tame thr t0 b s \<Longrightarrow> tame thr t0 (if c then a else b) s"
  by simp

lemma tame_result [simp]: "tame thr t0 (of_result r) s"
  by (simp add: of_result_def anything_def split: sum.split)

lemma tame_reads:
  "tame thr t0 (on_store h examples) s"
  "tame thr t0 (on_store h activations) s"
  "tame thr t0 (on_store h active_version) s"
  "tame thr t0 (on_store h (candidate_model version)) s"
  "tame thr t0 (on_store h (has_example op)) s"
  "tame thr t0 (on_store h (autonomous_attempt_exists sid)) s"
  "tame thr t0 (on_store h (unmatched_suggestion_at_or_before moment)) s"
  by (rule guar_on_store; simp add: fresh_ok_same anything_def)+

lemma tame_writes:
  "tame thr t0 (on_store h (record_candidate candidate clock)) s"
  "tame thr t0 (on_store h (activate_version version clock)) s"
  "tame thr t0 (on_store h (record_suggestion_outcome sid op slot clock)) s"
  "tame thr t0 (on_store h (record_autonomous_attempt sid op slot clock)) s"
  "tame thr t0 (on_store h (record_autonomous_review aid correct clock)) s"
  by (rule guar_on_store, rule fresh_ok_step, assumption, rule store_step.intros, simp_all add: anything_def other_rows)+

lemma tame_suggestion: "tame thr t0 (on_store h (record_suggestion version slot confidence captured clock None)) s"
  by (rule guar_on_store, rule fresh_ok_step, assumption, rule store_step.intros)
    (use record_suggestion_rows [where primer = None] in \<open>fastforce simp: anything_def other_rows\<close>)+

lemma tame_now [simp]: "tame thr t0 now_utc s"
  unfolding now_utc_def by (rule service.guar_section) (auto simp: anything_def vision_ok_quiet)

lemma guar_catch_call:
  "guar (vision_ok thr t0) vision_evolves mid t s \<Longrightarrow>
    guar (vision_ok thr t0) vision_evolves (\<lambda>x s. case x of None \<Rightarrow> True | Some y \<Rightarrow> mid y s) (attempt_call caught t) s"
  unfolding attempt_call_def
  by (rule service.guar_catch, rule service.guar_bind, erule service.guar_stable) (auto split: if_splits)

lemma tame_attempt: "tame thr t0 t s \<Longrightarrow> tame thr t0 (attempt_call caught t) s"
  by (rule service.guar_weaken, rule guar_catch_call) (auto simp: anything_def)

lemma tame_catch: "tame thr t0 t s \<Longrightarrow> (\<And>e t'. handler e = Some t' \<Longrightarrow> ended t') \<Longrightarrow> tame thr t0 (tcatch t handler) s"
proof (rule service.guar_catch)
  fix e t' s' assume "\<And>e t'. handler e = Some t' \<Longrightarrow> ended t'" "handler e = Some t'"
  then have "ended t'" by blast
  then show "tame thr t0 t' s'" by (cases t') simp_all
qed

text \<open>The correlator labels a reported success with a captured frame that is not newer.\<close>

definition early_frame :: "datetime \<Rightarrow> frame option \<Rightarrow> vision \<Rightarrow> bool" where
  "early_frame moment found s = (case found of None \<Rightarrow> True
     | Some f \<Rightarrow> f \<in> set (vs_captured s) \<and> instant (fr_captured_at f) \<le> instant moment)"

lemma early_frame_later: "early_frame moment found s \<Longrightarrow> vision_evolves s s' \<Longrightarrow> early_frame moment found s'"
  by (auto simp: early_frame_def vision_evolves_def split: option.splits)

lemma better_frame_early: "better_frame moment f c = Inr True \<Longrightarrow> instant (fr_captured_at f) \<le> instant moment"
  by (auto simp: better_frame_def result_simps split: if_splits) (cases "fr_captured_at f"; cases moment; simp)

lemma scan_frames_early:
  assumes "set fs \<subseteq> set (vs_captured s)" "early_frame moment candidate s"
  shows "guar (vision_ok thr t0) vision_evolves (early_frame moment) (scan_frames version moment fs candidate) s"
  using assms
proof (induction fs arbitrary: candidate s)
  case Nil
  show ?case
    unfolding scan_frames.simps
  proof (rule service.guar_section)
    fix s' found s'' assume "vision_evolves s s'"
      "fst (if fb_version (vs_buffer s') \<noteq> version then Inl (OtherVisionError ''RuntimeError'') else Inr candidate, s') = Inr found"
      "vision_evolves (snd (if fb_version (vs_buffer s') \<noteq> version then Inl (OtherVisionError ''RuntimeError'') else Inr candidate, s')) s''"
    then show "early_frame moment found s''"
      using early_frame_later [OF Nil(2), of s''] service.R_trans [of s s' s''] by (simp split: if_splits)
  qed (simp add: service.R_refl)
next
  case (Cons f fs)
  let ?mid = "\<lambda>better s'. vision_evolves s s' \<and> (better \<longrightarrow> instant (fr_captured_at f) \<le> instant moment)"
  show ?case
    unfolding scan_frames.simps
  proof (rule service.guar_bind [where mid = ?mid])
    show "guar (vision_ok thr t0) vision_evolves ?mid (section_of (\<lambda>s.
        (if fb_version (vs_buffer s) \<noteq> version then Inl (OtherVisionError ''RuntimeError'')
         else better_frame moment f candidate, s))) s"
      by (rule service.guar_section)
        (auto simp: service.R_refl split: if_splits dest: better_frame_early intro: service.R_trans)
    fix better s' assume "vision_evolves s s'" "?mid better s'"
    moreover from this have "set (f # fs) \<subseteq> set (vs_captured s')" using Cons.prems(1) by (auto simp: vision_evolves_def)
    ultimately show "guar (vision_ok thr t0) vision_evolves (early_frame moment)
        (scan_frames version moment fs (if better then Some f else candidate)) s'"
      using Cons.prems(2) early_frame_later by (intro Cons.IH) (auto simp: early_frame_def)
  qed
qed

lemma closest_early: "guar (vision_ok thr t0) vision_evolves (early_frame moment) (closest_at_or_before moment) s"
  unfolding closest_at_or_before_def
proof (rule service.guar_bind [where mid = "\<lambda>b s'. set (fb_frames b) \<subseteq> set (vs_captured s')"])
  show "guar (vision_ok thr t0) vision_evolves (\<lambda>b s'. set (fb_frames b) \<subseteq> set (vs_captured s'))
      (section_of (\<lambda>s. (Inr (vs_buffer s), s))) s"
    by (rule service.guar_section) (auto simp: service.R_refl vision_ok_def vision_evolves_def)
qed (rule scan_frames_early, auto simp: early_frame_def)

lemma tame_example:
  assumes "x \<in> set (vs_reported s)" "sx_created_at x = Some created" "early_frame created (Some f) s"
  shows "tame thr t0 (on_store h (record_example (sx_operation_id x) (sx_slot x) (fr_png f) (fr_captured_at f) created clock)) s"
proof (rule guar_on_store, rule fresh_ok_step, assumption, rule store_step.intros)
  fix s' assume "vision_evolves s s'"
  then have "x \<in> set (vs_reported s')" "early_frame created (Some f) s'"
    using assms early_frame_later by (auto simp: vision_evolves_def)
  then show "\<forall>ex\<in>set (vt_examples (ds_tables (snd (record_example (sx_operation_id x) (sx_slot x) (fr_png f)
        (fr_captured_at f) created clock (store_of h s'))))). ex \<in> set (vt_examples (vs_tables s')) \<or> labelled s' ex"
    using record_example_rows [of "sx_operation_id x" "sx_slot x" "fr_png f" "fr_captured_at f" created clock "store_of h s'"] assms(2)
    by (auto simp: labelled_def early_frame_def)
qed (auto simp: anything_def other_rows)

lemma tame_match: "tame thr t0 (match_suggestion op slot created) s"
  unfolding match_suggestion_def
  by (rule tame_bind [OF tame_reads(7)]) (auto intro!: tame_bind tame_writes simp: anything_def split: option.split)

lemma tame_label:
  assumes "x \<in> set (vs_reported s)" "sx_created_at x = Some created" "early_frame created found s"
  shows "tame thr t0 (label_success x recorded created found) s"
proof (cases found)
  case (Some f)
  have "tame thr t0 (on_store H_correlation (record_example (sx_operation_id x) (sx_slot x) (fr_png f)
      (fr_captured_at f) created clock)) v" if "vision_evolves s v" for v clock
    using assms Some that early_frame_later by (intro tame_example) (auto simp: vision_evolves_def)
  then show ?thesis
    unfolding Some option.case label_success_def
    by (intro service.guar_bind [OF tame_now] tame_bind [of _ _ "on_store _ _"]) (auto intro!: tame_bind tame_match)
qed (simp add: label_success_def)

lemma tame_poll_success:
  assumes "x \<in> set (vs_reported s)"
  shows "tame thr t0 (poll_success x recorded) s"
proof -
  have label: "tame thr t0 (tbind (closest_at_or_before created) (label_success x recorded created)) s'"
    if "vision_evolves s s'" "sx_created_at x = Some created" for created s'
    by (rule service.guar_bind [OF closest_early], rule tame_label)
      (use assms that in \<open>auto simp: vision_evolves_def\<close>)
  show ?thesis
    unfolding poll_success_def
    by (rule service.guar_bind [OF tame_reads(5)]) (use label in \<open>auto split: option.split\<close>)
qed

lemma reported_successes:
  "guar (vision_ok thr t0) vision_evolves (\<lambda>xs s. set xs \<subseteq> set (vs_reported s)) recent_sort_successes s"
  unfolding recent_sort_successes_def
proof (rule service.guar_section)
  fix s' :: vision assume "vision_ok thr t0 s'"
  then show "vision_ok thr t0 (snd (let r = next_answer (vs_successes s') in (r, s'\<lparr> vs_successes := tl (vs_successes s'),
        vs_reported := vs_reported s' @ (case r of Inl _ \<Rightarrow> [] | Inr xs \<Rightarrow> xs) \<rparr>))) \<and>
      vision_evolves s' (snd (let r = next_answer (vs_successes s') in (r, s'\<lparr> vs_successes := tl (vs_successes s'),
        vs_reported := vs_reported s' @ (case r of Inl _ \<Rightarrow> [] | Inr xs \<Rightarrow> xs) \<rparr>)))"
    by (intro vision_ok_more) (auto simp: Let_def vision_ok_def)
qed (auto simp: Let_def vision_evolves_def)

lemma tame_poll: "tame thr t0 poll_once s"
  unfolding poll_once_def
proof (rule service.guar_bind [OF guar_catch_call [OF reported_successes]])
  fix successes and s' :: vision assume "case successes of None \<Rightarrow> True | Some xs \<Rightarrow> set xs \<subseteq> set (vs_reported s')"
  then show "tame thr t0 (case successes of None \<Rightarrow> Ret 0 | Some xs \<Rightarrow> tfold poll_success xs 0) s'"
    by (auto split: option.splits intro!: service.guar_fold tame_poll_success simp: vision_evolves_def subset_iff)
qed

text \<open>What the suggester needs of a router: it disturbs nothing of the service.\<close>

locale vision_router =
  fixes router :: "int \<Rightarrow> int vtask"
  assumes undisturbed: "tame thr t0 (router class_id) s"
begin

lemma tame_suggest: "tame thr t0 (suggest_once libs router) s"
proof -
  have latest: "tame thr t0 (section_of (\<lambda>s. (Inr (buffer_latest (vs_buffer s)), s))) s" for s
    by (rule service.guar_section) (auto simp: service.R_refl)
  have classified: "guar (vision_ok thr t0) vision_evolves
      (\<lambda>x s. case x of None \<Rightarrow> True | Some sg \<Rightarrow> su_primer_present sg = None)
      (attempt_call ClassificationError (of_result (classify_frame libs blob png))) s" for blob png s
    by (rule guar_catch_call) (auto simp: of_result_def classify_frame_def result_simps split: sum.splits if_splits)
  show ?thesis
    unfolding suggest_once_def
    by (auto intro!: tame_bind tame_reads tame_attempt latest undisturbed tame_now tame_suggestion
        service.guar_bind [OF classified] split: option.split)
qed

end

interpretation routed: vision_router session_router
  unfolding session_router_def
  by unfold_locales (rule service.guar_section, auto simp: split_beta vision_ok_quiet)

interpretation unrouted: vision_router identity_router
  by unfold_locales (simp add: identity_router_def)

lemma may_autonomously_sort_clear:
  "may_autonomously_sort sg thr \<Longrightarrow> su_primer_present sg = Some False \<and> (\<exists>c. map_of thr (su_slot sg) = Some c \<and> c \<le> su_confidence sg)"
  by (auto simp: may_autonomously_sort_def requires_operator_confirmation_def split: if_splits option.splits)

lemma known_suggestion:
  "guar (vision_ok thr t0) vision_evolves (\<lambda>latest s. case latest of None \<Rightarrow> True | Some r \<Rightarrow> r \<in> set (vt_suggestions (vs_tables s)))
     (on_store h latest_suggestion) s"
proof (rule guar_on_store)
  fix latest and s' s'' :: vision assume "fst (latest_suggestion (store_of h s')) = Inr latest" "vision_evolves s' s''"
  then show "case latest of None \<Rightarrow> True | Some r \<Rightarrow> r \<in> set (vt_suggestions (vs_tables s''))"
    using grows_rows(1) [of "vs_tables s'" "vs_tables s''"] last_in_set [of "sort_key sg_suggestion_id (vt_suggestions (vs_tables s'))"]
    by (auto simp: latest_suggestion_def last_row_def vision_evolves_def dest!: ds_guard_InrD split: option.splits if_splits)
qed (auto intro: fresh_ok_same)

lemma tame_submit:
  assumes "r \<in> set (vt_suggestions (vs_tables s))" "may_autonomously_sort (suggestion_of r) thr"
  shows "tame thr t0 (submit_sort (sg_suggested_slot r) generation (idempotency_key (sg_suggestion_id r))) s"
  unfolding submit_sort_def
proof (rule service.guar_section)
  fix s' assume s': "vision_evolves s s'" "vision_ok thr t0 s'"
  then have "r \<in> set (vt_suggestions (vs_tables s'))" using assms(1) grows_rows(1) by (auto simp: vision_evolves_def)
  then have "justified thr (vs_tables s') \<lparr> sb_slot = sg_suggested_slot r, sb_generation = generation,
      sb_key = idempotency_key (sg_suggestion_id r) \<rparr>"
    using assms(2) by (auto simp: justified_def)
  then show "vision_ok thr t0 (snd (next_answer (vs_replies s'), s'\<lparr> vs_replies := tl (vs_replies s'),
        vs_submitted := vs_submitted s' @ [\<lparr> sb_slot = sg_suggested_slot r, sb_generation = generation,
          sb_key = idempotency_key (sg_suggestion_id r) \<rparr>] \<rparr>)) \<and>
      vision_evolves s' (snd (next_answer (vs_replies s'), s'\<lparr> vs_replies := tl (vs_replies s'),
        vs_submitted := vs_submitted s' @ [\<lparr> sb_slot = sg_suggested_slot r, sb_generation = generation,
          sb_key = idempotency_key (sg_suggestion_id r) \<rparr>] \<rparr>))"
    using s'(2) by (auto simp: vision_ok_def vision_evolves_def labelled_def)
qed simp

lemma tame_submit_for:
  assumes "r \<in> set (vt_suggestions (vs_tables s))" "may_autonomously_sort (suggestion_of r) thr"
  shows "tame thr t0 (submit_for r) s"
  unfolding submit_for_def
proof (rule tame_attempt, rule service.guar_bind)
  show "tame thr t0 current_generation s"
    unfolding current_generation_def by (rule service.guar_section) (auto simp: vision_ok_quiet)
qed (rule tame_submit, use assms grows_rows(1) in \<open>auto simp: vision_evolves_def\<close>)

lemma tame_attempt_for: "r \<in> set (vt_suggestions (vs_tables s)) \<Longrightarrow> tame thr t0 (attempt_for thr r already) s"
  unfolding attempt_for_def
  by (auto intro!: tame_bind [OF tame_submit_for] tame_bind [OF tame_now] tame_bind [OF tame_writes(4)] split: option.split)

lemma tame_attempt_once: "tame thr t0 (attempt_once thr) s"
  unfolding attempt_once_def
proof (rule service.guar_bind [OF known_suggestion])
  fix latest and s' :: vision assume known: "case latest of None \<Rightarrow> True | Some r \<Rightarrow> r \<in> set (vt_suggestions (vs_tables s'))"
  show "tame thr t0 (case latest of None \<Rightarrow> Ret 0 | Some r \<Rightarrow>
      tbind (on_store H_autonomy (autonomous_attempt_exists (sg_suggestion_id r))) (attempt_for thr r)) s'"
  proof (cases latest)
    case (Some r)
    show ?thesis unfolding Some option.case
      by (rule service.guar_bind [OF tame_reads(6)], rule tame_attempt_for)
        (use known Some grows_rows(1) in \<open>auto simp: vision_evolves_def\<close>)
  qed simp
qed

lemma tame_training: "tame thr t0 (training_run trainer) s"
  unfolding training_run_def by (auto intro!: tame_catch tame_bind tame_reads tame_writes)

lemma tame_training_thread: "tame thr t0 (training_thread trainer) s"
  unfolding training_thread_def
  by (auto intro!: tame_bind tame_training service.guar_section simp: service.R_refl vision_ok_quiet)

lemma add_frame_frames: "set (fb_frames (add_frame f b)) \<subseteq> insert f (set (fb_frames b))"
  by (cases "fb_frames b") (auto simp: add_frame_def Let_def)

lemma tame_capture: "fr_captured_at f = Aware t \<Longrightarrow> tame thr t0 (capture_once f) s"
  unfolding capture_once_def
proof (rule service.guar_section, unfold snd_conv)
  fix s' :: vision assume "fr_captured_at f = Aware t" "vision_ok thr t0 s'"
  then show "vision_ok thr t0 (s'\<lparr> vs_buffer := add_frame f (vs_buffer s'), vs_captured := vs_captured s' @ [f] \<rparr>) \<and>
      vision_evolves s' (s'\<lparr> vs_buffer := add_frame f (vs_buffer s'), vs_captured := vs_captured s' @ [f] \<rparr>)"
    using add_frame_frames [of f "vs_buffer s'"] by (intro vision_ok_more) (auto simp: vision_ok_def)
qed simp

lemma tame_api_reads:
  "tame thr t0 (on_store h counts_by_slot) s" "tame thr t0 (on_store h candidates) s"
  "tame thr t0 (on_store h read_suggestion_accuracy) s" "tame thr t0 (on_store h autonomous_accuracy_by_class) s"
  "tame thr t0 (on_store h pending_autonomous_reviews) s" "tame thr t0 (on_store h latest_suggestion) s"
  by (rule guar_on_store; simp add: fresh_ok_same anything_def counts_by_slot_def candidates_def
      read_suggestion_accuracy_def autonomous_accuracy_by_class_def pending_autonomous_reviews_def latest_suggestion_def)+

lemma tame_reporting: "tame thr t0 t s \<Longrightarrow> tame thr t0 (reporting e code t) s"
  unfolding reporting_def by (rule tame_catch) (auto split: if_splits)

lemma tame_resources:
  "tame thr t0 (dataset_body api) s" "tame thr t0 (models_body api) s" "tame thr t0 (suggestion_body api) s"
  "tame thr t0 (suggestion_accuracy_body api) s" "tame thr t0 (autonomy_body api) s" "tame thr t0 (routing_body api) s"
  unfolding dataset_body_def models_body_def suggestion_body_def suggestion_accuracy_body_def autonomy_body_def
    routing_body_def Let_def
  by (auto intro!: tame_bind tame_reads tame_api_reads service.guar_section simp: service.R_refl split: option.split)

lemma tame_routing: "tame thr t0 (start_session profile) s"
  "tame thr t0 (section_of (\<lambda>s. (Inr (), s\<lparr> vs_routing := stop_routing (vs_routing s) \<rparr>))) s"
  unfolding start_session_def
  by (auto intro!: tame_bind service.guar_section simp: split_beta vision_ok_quiet)

lemma tame_commands:
  "tame thr t0 (activate_body api version) s" "tame thr t0 (rollback_body api) s" "tame thr t0 (train_body api) s"
  "tame thr t0 (autonomous_review_body api body) s" "tame thr t0 (routing_start_body api body) s"
  "tame thr t0 (routing_stop_body api) s"
proof -
  note b = tame_bind tame_reads tame_writes tame_reporting tame_routing tame_resources
  show "tame thr t0 (activate_body api version) s" unfolding activate_body_def by (auto intro!: b)
  show "tame thr t0 (rollback_body api) s" unfolding rollback_body_def Let_def by (auto intro!: b)
  show "tame thr t0 (train_body api) s" unfolding train_body_def trigger_training_def
    by (rule tame_bind, rule service.guar_section) (auto simp: vision_ok_quiet)
  show "tame thr t0 (autonomous_review_body api body) s" unfolding autonomous_review_body_def
    by (auto intro!: b split: prod.split)
  show "tame thr t0 (routing_start_body api body) s" unfolding routing_start_body_def by (auto intro!: b)
  show "tame thr t0 (routing_stop_body api) s" unfolding routing_stop_body_def by (rule tame_bind) (auto intro!: b)
qed

lemma tame_dispatch: "tame thr t0 (vision_dispatch api rq) s"
proof -
  have "tame thr t0 (vision_route api verb path body) s" for verb path body s
    unfolding vision_route_def
    by (intro tame_if tame_resources tame_commands tame_Raised)
      (auto intro!: tame_bind tame_commands split: option.split)
  then show ?thesis unfolding vision_dispatch_def by (auto intro!: tame_catch tame_bind)
qed

lemma tame_close: "tame thr t0 (close_handle h) s"
  unfolding close_handle_def by (rule service.guar_section) (auto simp: vision_ok_quiet)

context vision_router
begin

lemma tame_jobs: "vision_job libs router trainer thr i t \<Longrightarrow> tame thr t0 t s"
  by (induction rule: vision_job.induct)
    (rule tame_capture tame_poll tame_suggest tame_attempt_once tame_training_thread tame_close
      tame_bind [OF tame_dispatch]; (assumption | simp))+

lemma service_invariant:
  "(pool_step (vision_job libs router trainer thr))\<^sup>*\<^sup>* (idle, s0) (pool, s) \<Longrightarrow> vision_ok thr t0 s0 \<Longrightarrow>
    vision_ok thr t0 s \<and> vision_evolves s0 s"
  by (drule service.pool_invariant [of _ idle _ _ _ thr t0]) (auto simp: idle_def intro: tame_jobs)

end

section \<open>The frame a moment calls for\<close>

definition newest_frame :: "int \<Rightarrow> frame list \<Rightarrow> frame option" where
  "newest_frame moment frames =
     (let early = filter (\<lambda>f. instant (fr_captured_at f) \<le> moment) frames
      in find (\<lambda>f. \<forall>g\<in>set early. instant (fr_captured_at g) \<le> instant (fr_captured_at f)) early)"

definition newer :: "frame option \<Rightarrow> frame list \<Rightarrow> int \<Rightarrow> frame option" where
  "newer candidate fs moment = (case newest_frame moment fs of
     None \<Rightarrow> candidate
   | Some f \<Rightarrow> (case candidate of None \<Rightarrow> Some f
       | Some c \<Rightarrow> if instant (fr_captured_at f) > instant (fr_captured_at c) then Some f else Some c))"

lemma newest_frame_max:
  "newest_frame m fs = Some f \<Longrightarrow> f \<in> set fs \<and> instant (fr_captured_at f) \<le> m \<and>
    (\<forall>g\<in>set fs. instant (fr_captured_at g) \<le> m \<longrightarrow> instant (fr_captured_at g) \<le> instant (fr_captured_at f))"
  by (auto simp: newest_frame_def Let_def find_Some_iff) (metis nth_mem mem_Collect_eq set_filter)+

lemma newest_frame_None: "newest_frame m fs = None \<longleftrightarrow> (\<forall>f\<in>set fs. m < instant (fr_captured_at f))"
proof -
  let ?early = "filter (\<lambda>f. instant (fr_captured_at f) \<le> m) fs"
  let ?at = "\<lambda>f. instant (fr_captured_at f)"
  have "\<exists>f\<in>set ?early. \<forall>g\<in>set ?early. ?at g \<le> ?at f" if "?early \<noteq> []"
  proof -
    have "Max (?at ` set ?early) \<in> ?at ` set ?early" 
      using that by (intro Max_in) (simp_all only: finite_set finite_imageI image_is_empty set_empty not_False_eq_True)
    then obtain f where "f \<in> set ?early" "?at f = Max (?at ` set ?early)" by auto
    then show ?thesis by (intro bexI [of _ f]) (auto intro!: Max_ge)
  qed
  then have "newest_frame m fs = None \<longleftrightarrow> ?early = []"
    by (fastforce simp: newest_frame_def Let_def find_None_iff)
  then show ?thesis by (auto simp: filter_empty_conv not_le)
qed

lemma newest_frame_Cons:
  "newest_frame m (f # fs) =
    (if m < instant (fr_captured_at f) then newest_frame m fs
     else case newest_frame m fs of None \<Rightarrow> Some f
       | Some g \<Rightarrow> if instant (fr_captured_at g) > instant (fr_captured_at f) then Some g else Some f)"
proof -
  let ?at = "\<lambda>f. instant (fr_captured_at f)" let ?early = "filter (\<lambda>f. ?at f \<le> m) fs"
  have late: "newest_frame m (f # fs) = newest_frame m fs" if "m < ?at f" using that by (simp add: newest_frame_def)
  have alone: "newest_frame m (f # fs) = Some f" if "newest_frame m fs = None" "\<not> m < ?at f"
    using that by (auto simp: newest_frame_None) (auto simp: newest_frame_def Let_def)
  have stays: "newest_frame m (f # fs) = Some f" if "newest_frame m fs = Some g" "\<not> m < ?at f" "\<not> ?at g > ?at f" for g
    using newest_frame_max [OF that(1)] that(2,3) by (fastforce simp: newest_frame_def [of m "f # fs"] Let_def)
  have moves: "newest_frame m (f # fs) = Some g" if g: "newest_frame m fs = Some g" "\<not> m < ?at f" "?at g > ?at f" for g
  proof -
    have gmem: "g \<in> set ?early" using newest_frame_max [OF g(1)] by auto
    have "find (\<lambda>x. ?at f \<le> ?at x \<and> (\<forall>y\<in>set ?early. ?at y \<le> ?at x)) ?early = find (\<lambda>x. \<forall>y\<in>set ?early. ?at y \<le> ?at x) ?early"
      using gmem g(3) by (intro find_cong) force+
    moreover have "\<not> (\<forall>y\<in>set ?early. ?at y \<le> ?at f)" using gmem g(3) by force
    ultimately show ?thesis using g(1,2) by (auto simp: newest_frame_def Let_def not_less)
  qed
  show ?thesis using late alone stays moves by (auto split: option.split)
qed

lemma run_scan:
  assumes "\<forall>f\<in>set fs. \<exists>t. fr_captured_at f = Aware t" "\<And>c. candidate = Some c \<Longrightarrow> \<exists>t. fr_captured_at c = Aware t"
    and "fb_version (vs_buffer s) = version"
  shows "run_task (scan_frames version (Aware m) fs candidate) s = (Inr (newer candidate fs m), s)"
  using assms(1,2)
proof (induction fs arbitrary: candidate)
  case Nil
  then show ?case using assms(3) by (simp add: run_section newer_def newest_frame_def)
next
  case (Cons f fs)
  obtain t where f: "fr_captured_at f = Aware t" using Cons.prems(1) by auto
  define better where "better = (t \<le> m \<and> (case candidate of None \<Rightarrow> True | Some c \<Rightarrow> instant (fr_captured_at c) < t))"
  have "better_frame (Aware m) f candidate = Inr better"
    using f Cons.prems(2) by (auto simp: better_frame_def better_def split: option.split)
  then have "run_task (scan_frames version (Aware m) (f # fs) candidate) s =
      run_task (scan_frames version (Aware m) fs (if better then Some f else candidate)) s"
    using assms(3) by (simp add: run_tbind run_section)
  also have "\<dots> = (Inr (newer (if better then Some f else candidate) fs m), s)"
    using Cons.prems f by (intro Cons.IH) (auto split: if_splits)
  also have "newer (if better then Some f else candidate) fs m = newer candidate (f # fs) m"
    using newest_frame_max [of m fs] f
    by (auto simp: newer_def newest_frame_Cons better_def split: option.splits if_splits)
  finally show ?case .
qed

section \<open>Properties\<close>

lemma int_str_inj: "int_str i = int_str j \<longleftrightarrow> i = j"
proof -
  have "\<not> is_digit (CHR ''-'')" by (simp add: is_digit_def ord_def)
  then have "CHR ''-'' # ds \<noteq> nat_str n" "nat_str n \<noteq> CHR ''-'' # ds" for ds n
    using nat_str_digits [of n] by (metis list.set_intros(1))+
  then show ?thesis by (auto simp: int_str_def dest!: nat_str_inj split: if_splits)
qed

definition starting :: "vision \<Rightarrow> bool" where
  "starting s = (vision_wf (vs_tables s) \<and> vs_submitted s = [] \<and> vs_reported s = [] \<and> vs_captured s = [] \<and>
     fb_frames (vs_buffer s) = [])"

lemma starting_ok: "starting s \<Longrightarrow> vision_ok thr (vs_tables s) s"
  by (simp add: starting_def vision_ok_def)

lemmas service_runs = routed.service_invariant [OF _ starting_ok]

text \<open>A database with one active model and one suggestion for chute 3, read as \<open>primer\<close>; one frame and
  one reported sort are to come.\<close>

definition demo_tables :: "bool option \<Rightarrow> vision_tables" where
  "demo_tables primer = ds_tables (snd (record_suggestion 1 3 (9/10) (Aware 2) (Aware 3) primer (demo_store 2)))"

definition demo_service :: "bool option \<Rightarrow> vision" where
  "demo_service primer = \<lparr> vs_tables = demo_tables primer, vs_storage = [], vs_closed = [],
     vs_buffer = \<lparr> fb_frames = [], fb_capacity = 64, fb_version = 0 \<rparr>, vs_routing = new_routing_session,
     vs_clock = [20, 21, 22], vs_successes = [Inr [\<lparr> sx_operation_id = ''op'', sx_slot = 3, sx_created_at = Some (Aware 12) \<rparr>]],
     vs_generations = [Inr 7], vs_replies = [Inr ''auto''], vs_submitted = [], vs_reported = [], vs_captured = [],
     vs_training = False \<rparr>"

definition demo_frame :: frame where
  "demo_frame = \<lparr> fr_png = [7], fr_width = 1, fr_height = 1, fr_captured_at = Aware 10 \<rparr>"

definition demo_libs :: "(unit, unit) vision_libs" where
  "demo_libs = \<lparr> lib_loads = (\<lambda>_. Some ()), lib_features = (\<lambda>_. Some ()),
     lib_predict_proba = (\<lambda>_ _. Inr [1/10, 9/10]), lib_classes = (\<lambda>_. [3, 9]) \<rparr>"

definition demo_trainer :: "dataset_example list \<Rightarrow> (vision_error, trained_candidate) result" where
  "demo_trainer xs = Inl TrainingError"

definition demo_round :: "(vision_thread \<times> int vtask) list" where
  "demo_round = [(T_capture, capture_once demo_frame), (T_autonomy, attempt_once [(3, 1/2)]),
     (T_correlation, poll_once), (T_suggestion, suggest_once demo_libs session_router),
     (T_autonomy, attempt_once [(3, 1/2)])]"

abbreviation demo_end :: "bool option \<Rightarrow> vision" where
  "demo_end primer \<equiv> fold (\<lambda>(i, t) s. snd (run_task t s)) demo_round (demo_service primer)"

lemma demo_starting: "starting (demo_service primer)"
proof -
  have "store_step\<^sup>*\<^sup>* (new_dataset []) (snd (record_suggestion 1 3 (9/10) (Aware 2) (Aware 3) primer (demo_store 2)))"
    using demo_store_reachable ss_suggestion by (rule rtranclp.rtrancl_into_rtrancl)
  from store_reachable_wf [OF this] empty_vision_wf show ?thesis
    by (simp add: starting_def demo_service_def demo_tables_def new_dataset_def)
qed

lemma demo_run:
  "\<exists>pool. (pool_step (vision_job demo_libs session_router demo_trainer [(3, 1/2)]))\<^sup>*\<^sup>* (idle, demo_service primer) (pool, demo_end primer)"
  by (rule pool_runs_jobs) (auto simp: demo_round_def demo_frame_def idle_def intro: vision_job.intros)

text \<open>
  C23: as long as no stored suggestion claims a clear primer, the service sorts nothing by itself:
  started on such a database, whatever the thresholds, the trained models and their classifications,
  the interleaving of the threads, the HTTP requests served and the answers from outside, no autonomous
  sort is ever submitted.
\<close>

theorem autonomy_never_acts:
  assumes "(pool_step (vision_job libs session_router trainer thr))\<^sup>*\<^sup>* (idle, s0) (pool, s)" "starting s0"
    and "list_all (\<lambda>sg. sg_primer_present sg = None) (vt_suggestions (vs_tables s0))"
  shows "vs_submitted s = []"
proof (rule ccontr)
  assume "vs_submitted s \<noteq> []"
  then obtain sub where sub: "sub \<in> set (vs_submitted s)" by (cases "vs_submitted s") auto
  have ok: "vision_ok thr (vs_tables s0) s" using service_runs [OF assms(1,2)] by blast
  then obtain sg where sg: "sg \<in> set (vt_suggestions (vs_tables s))" "may_autonomously_sort (suggestion_of sg) thr"
    using sub by (auto simp: vision_ok_def justified_def)
  have "sg_primer_present sg = None" using ok sg(1) assms(3) by (auto simp: vision_ok_def list_all_iff)
  then show False using may_autonomously_sort_clear [OF sg(2)] by (simp add: suggestion_of_def)
qed

theorem autonomy_never_acts_witness:
  "vs_submitted (demo_end None) = [] \<and> length (vt_suggestions (vs_tables (demo_end None))) = 2"
proof -
  obtain pool where run: "(pool_step (vision_job demo_libs session_router demo_trainer [(3, 1/2)]))\<^sup>*\<^sup>*
      (idle, demo_service None) (pool, demo_end None)" using demo_run by blast
  have "list_all (\<lambda>sg. sg_primer_present sg = None) (vt_suggestions (vs_tables (demo_service None)))" by code_simp
  moreover have "length (vt_suggestions (vs_tables (demo_end None))) = 2" by code_simp
  ultimately show ?thesis using autonomy_never_acts [OF run demo_starting] by simp
qed

text \<open>
  C21: whatever requests its API serves meanwhile, every autonomous sort is warranted and can be repeated
  safely: it was submitted for a stored
  suggestion whose primer reading is confidently clear and whose confidence reaches the threshold
  configured for its slot, it carries that suggestion's slot and key, and two submissions under one key
  ask for the same slot.
\<close>

theorem autonomous_sort_gated:
  assumes "(pool_step (vision_job libs session_router trainer thr))\<^sup>*\<^sup>* (idle, s0) (pool, s)" "starting s0"
    and "sub \<in> set (vs_submitted s)" "sub' \<in> set (vs_submitted s)"
  shows "\<exists>sg c. sg \<in> set (vt_suggestions (vs_tables s)) \<and> sb_slot sub = sg_suggested_slot sg \<and>
      sb_key sub = idempotency_key (sg_suggestion_id sg) \<and> sg_primer_present sg = Some False \<and>
      map_of thr (sg_suggested_slot sg) = Some c \<and> c \<le> sg_confidence sg \<and>
      (sb_key sub' = sb_key sub \<longrightarrow> sb_slot sub' = sb_slot sub)"
proof -
  have ok: "vision_ok thr (vs_tables s0) s" using service_runs [OF assms(1,2)] by blast
  then have j: "justified thr (vs_tables s) sub" "justified thr (vs_tables s) sub'" and wf: "vision_wf (vs_tables s)"
    using assms(3,4) by (auto simp: vision_ok_def)
  obtain sg where sg: "sg \<in> set (vt_suggestions (vs_tables s))" "sb_slot sub = sg_suggested_slot sg"
      "sb_key sub = idempotency_key (sg_suggestion_id sg)" "may_autonomously_sort (suggestion_of sg) thr"
    using j(1) by (auto simp: justified_def)
  obtain sg' where sg': "sg' \<in> set (vt_suggestions (vs_tables s))" "sb_slot sub' = sg_suggested_slot sg'"
      "sb_key sub' = idempotency_key (sg_suggestion_id sg')"
    using j(2) by (auto simp: justified_def)
  have same: "sg' = sg" if "sb_key sub' = sb_key sub"
  proof -
    have num: "numbered sg_suggestion_id (vt_suggestions (vs_tables s))" using wf by (simp add: vision_wf_def)
    have "sg_suggestion_id sg' = sg_suggestion_id sg"
      using that sg(3) sg'(3) by (simp add: idempotency_key_def int_str_inj)
    then show ?thesis using numbered_distinct [OF num] sg(1) sg'(1) by (auto simp: distinct_map inj_on_def)
  qed
  show ?thesis using may_autonomously_sort_clear [OF sg(4)] sg sg' same by (auto simp: suggestion_of_def)
qed

theorem autonomous_sort_gated_witness:
  "\<exists>sub sg c. vs_submitted (demo_end (Some False)) = [sub] \<and> sb_slot sub = 3 \<and> sb_key sub = ''autonomous-sort-1'' \<and>
    sg \<in> set (vt_suggestions (vs_tables (demo_end (Some False)))) \<and> sg_suggested_slot sg = 3 \<and>
    sg_primer_present sg = Some False \<and> map_of [(3, 1/2)] (sg_suggested_slot sg) = Some c \<and> c \<le> sg_confidence sg"
proof -
  obtain pool where run: "(pool_step (vision_job demo_libs session_router demo_trainer [(3, 1/2)]))\<^sup>*\<^sup>*
      (idle, demo_service (Some False)) (pool, demo_end (Some False))" using demo_run by blast
  have sub: "vs_submitted (demo_end (Some False)) = [\<lparr> sb_slot = 3, sb_generation = 7, sb_key = ''autonomous-sort-1'' \<rparr>]"
    by code_simp
  let ?sub = "\<lparr> sb_slot = 3, sb_generation = 7, sb_key = ''autonomous-sort-1'' \<rparr>"
  obtain sg c where "sg \<in> set (vt_suggestions (vs_tables (demo_end (Some False))))" "sg_suggested_slot sg = 3"
      "sg_primer_present sg = Some False" "map_of [(3, 1/2)] (sg_suggested_slot sg) = Some c" "c \<le> sg_confidence sg"
    using autonomous_sort_gated [OF run demo_starting, of ?sub ?sub] sub by auto
  then show ?thesis by (intro exI [of _ ?sub] exI [of _ sg] exI [of _ c]) (use sub in simp)
qed

text \<open>
  C24: examples are never guessed, whatever requests are served: every example recorded since the start labels a frame the camera
  captured at or before the creation of a sort the daemon reported as succeeded, with the slot the
  daemon reported for that operation.
\<close>

theorem examples_are_confirmed:
  assumes "(pool_step (vision_job libs session_router trainer thr))\<^sup>*\<^sup>* (idle, s0) (pool, s)" "starting s0"
    and "ex \<in> set (vt_examples (vs_tables s))" "ex \<notin> set (vt_examples (vs_tables s0))"
  shows "\<exists>x f. x \<in> set (vs_reported s) \<and> f \<in> set (vs_captured s) \<and>
      ex_operation_id ex = sx_operation_id x \<and> ex_slot ex = sx_slot x \<and>
      sx_created_at x = Some (ex_operation_created_at ex) \<and> ex_frame_png ex = fr_png f \<and>
      ex_frame_captured_at ex = fr_captured_at f \<and> instant (fr_captured_at f) \<le> instant (ex_operation_created_at ex)"
proof -
  have "vision_ok thr (vs_tables s0) s" using service_runs [OF assms(1,2)] by blast
  then have "labelled s ex" using assms(3,4) by (auto simp: vision_ok_def)
  then show ?thesis by (auto simp: labelled_def)
qed

theorem examples_are_confirmed_witness:
  "\<exists>ex x f. vt_examples (vs_tables (demo_end None)) = [ex] \<and> x \<in> set (vs_reported (demo_end None)) \<and>
    f \<in> set (vs_captured (demo_end None)) \<and> ex_operation_id ex = sx_operation_id x \<and> ex_slot ex = sx_slot x \<and>
    ex_frame_png ex = fr_png f"
proof -
  obtain pool where run: "(pool_step (vision_job demo_libs session_router demo_trainer [(3, 1/2)]))\<^sup>*\<^sup>*
      (idle, demo_service None) (pool, demo_end None)" using demo_run by blast
  have rows: "vt_examples (vs_tables (demo_end None)) = [\<lparr> ex_operation_id = ''op'', ex_slot = 3, ex_frame_png = [7],
      ex_frame_captured_at = Aware 10, ex_operation_created_at = Aware 12, ex_recorded_at = Aware 20 \<rparr>]"
    "vt_examples (vs_tables (demo_service None)) = []" by code_simp+
  from examples_are_confirmed [OF run demo_starting, of "\<lparr> ex_operation_id = ''op'', ex_slot = 3, ex_frame_png = [7],
      ex_frame_captured_at = Aware 10, ex_operation_created_at = Aware 12, ex_recorded_at = Aware 20 \<rparr>"] rows
  show ?thesis by auto
qed

text \<open>
  the frame a sort is labelled with is the right one: without interference \<open>closest_at_or_before\<close>
  leaves the state alone and returns, of the buffered frames captured at or before the moment, the
  first of the newest, and nothing exactly when there is none.
\<close>

theorem closest_frame_is_newest:
  assumes "\<forall>f\<in>set (fb_frames (vs_buffer s)). \<exists>t. fr_captured_at f = Aware t"
  shows "run_task (closest_at_or_before (Aware m)) s = (Inr (newest_frame m (fb_frames (vs_buffer s))), s)"
proof -
  have "newer None fs m = newest_frame m fs" for fs by (auto simp: newer_def split: option.split)
  moreover have "run_task (scan_frames (fb_version (vs_buffer s)) (Aware m) (fb_frames (vs_buffer s)) None) s =
      (Inr (newer None (fb_frames (vs_buffer s)) m), s)"
    by (rule run_scan) (use assms in auto)
  ultimately show ?thesis by (simp add: closest_at_or_before_def run_tbind run_section)
qed

theorem closest_frame_is_newest_witness:
  "run_task (closest_at_or_before (Aware 12)) (demo_end None) = (Inr (Some demo_frame), demo_end None)"
proof -
  have frames: "fb_frames (vs_buffer (demo_end None)) = [demo_frame]" by code_simp
  then have "newest_frame 12 (fb_frames (vs_buffer (demo_end None))) = Some demo_frame"
    by (simp add: newest_frame_def demo_frame_def)
  with closest_frame_is_newest [of "demo_end None" 12] frames show ?thesis by (simp add: demo_frame_def)
qed

lemma activate_version_InrD:
  assumes "activate_version version clock d = (Inr i, d')"
  shows "ds_tables d' = ds_tables d\<lparr> vt_activations := vt_activations (ds_tables d) @
      [\<lparr> ac_activation_id = next_id (vt_activations (ds_tables d)), ac_version = version, ac_activated_at = clock \<rparr>] \<rparr>"
proof -
  have time: "encode_time x = Inr y \<Longrightarrow> y = x" for x y by (cases x) auto
  show ?thesis using assms unfolding activate_version_def
    by (cases rule: ds_transaction_cases) (auto simp: result_simps dest!: time)
qed

text \<open>The version an activation reports.\<close>

fun reported_version :: "json \<Rightarrow> int option" where
  "reported_version (JObj m) = (case map_of m ''active_version'' of Some (JInt v) \<Rightarrow> Some v | _ \<Rightarrow> None)"
| "reported_version _ = None"

lemma reported_activated [simp]: "reported_version (activated api v moment) = Some v"
  by (simp add: activated_def v1_def)

lemma history_read:
  assumes "vision_wf (vs_tables s)" "store_call H_api activations s = (Inr history, s1)"
  shows "history = vt_activations (vs_tables s)" "vs_tables s1 = vs_tables s"
  using assms ds_guard_InrD [of "\<lambda>t. sort_key ac_activation_id (vt_activations t)" "store_of H_api s" history]
  by (auto simp: store_call_def activations_def put_store_def split_beta store_of_def vision_wf_def numbered_sorted)

lemma run_rollback:
  assumes "run_task (rollback_body api) s = (Inr body, s')" "vision_wf (vs_tables s)"
  shows "\<exists>row. vision_wf (vs_tables s') \<and> vt_activations (vs_tables s') = vt_activations (vs_tables s) @ [row] \<and>
    reported_version body = Some (ac_version row) \<and> 2 \<le> length (vt_activations (vs_tables s)) \<and>
    ac_version row = ac_version (vt_activations (vs_tables s) ! (length (vt_activations (vs_tables s)) - 2))"
proof -
  obtain history s1 where read: "store_call H_api activations s = (Inr history, s1)" and
    rest: "run_task (if length history < 2 then Exc invalid
     else let previous_version = ac_version (history ! (length history - 2)) in
       tbind now_utc (\<lambda>activated_at. tbind (on_store H_api (activate_version previous_version activated_at))
           (\<lambda>_. Ret (activated api previous_version activated_at)))) s1 = (Inr body, s')"
    using assms(1) by (auto simp: rollback_body_def run_tbind on_store_def run_section split: prod.splits sum.splits)
  note h = history_read [OF assms(2) read]
  have long: "\<not> length history < 2" using rest by (cases "length history < 2") simp_all
  let ?prev = "ac_version (history ! (length history - 2))"
  define clock s2 where "clock = Aware (case vs_clock s1 of [] \<Rightarrow> 0 | t # _ \<Rightarrow> t)" and "s2 = s1\<lparr> vs_clock := tl (vs_clock s1) \<rparr>"
  then have s2: "vs_tables s2 = vs_tables s1" and
    act: "run_task (tbind (on_store H_api (activate_version ?prev clock)) (\<lambda>_. Ret (activated api ?prev clock))) s2 = (Inr body, s')"
    using rest long by (simp_all add: Let_def now_utc_def run_tbind [of "section_of _"] run_section)
  obtain i d where d: "activate_version ?prev clock (store_of H_api s2) = (Inr i, d)" "s' = put_store d s2"
      "body = activated api ?prev clock"
    using act by (auto simp: run_tbind on_store_def run_section store_call_def split: prod.splits sum.splits)
  have "vision_wf (ds_tables d)"
    using store_step_wf [OF ss_activate [of "store_of H_api s2" ?prev clock]] assms(2) d(1) s2 h(2) by simp
  then show ?thesis using activate_version_InrD [OF d(1)] d(2,3) h s2 long by (auto simp: put_store_def)
qed

text \<open>
  A roll-back goes one activation back, not one version: rolling back twice in a row makes the
  version active again that was active before the first of the two.
\<close>

theorem rollback_twice_restores:
  assumes "vision_wf (vs_tables s)" "fst (store_call H_api active_version s) = Inr (Some version)"
    and "run_task (rollback_body api) s = (Inr b, s1)" "run_task (rollback_body api) s1 = (Inr b', s2)"
  shows "reported_version b' = Some version"
proof -
  let ?history = "vt_activations (vs_tables s)"
  have "sort_key ac_activation_id ?history = ?history" using assms(1) by (simp add: vision_wf_def numbered_sorted)
  then have active: "?history \<noteq> [] \<and> version = ac_version (last ?history)"
    using assms(2) by (auto simp: store_call_def active_version_def last_row_def split_beta dest!: ds_guard_InrD split: if_splits)
  obtain row where row: "vt_activations (vs_tables s1) = ?history @ [row]" "2 \<le> length ?history" and wf: "vision_wf (vs_tables s1)"
    using run_rollback [OF assms(3,1)] by auto
  have "reported_version b' = Some (ac_version (vt_activations (vs_tables s1) ! (length (vt_activations (vs_tables s1)) - 2)))"
    using run_rollback [OF assms(4) wf] by auto
  also have "\<dots> = Some (ac_version (last ?history))" using row active by (auto simp: nth_append last_conv_nth)
  finally show ?thesis using active by simp
qed

definition demo_models :: vision where
  "demo_models = (demo_service None)\<lparr> vs_tables := ds_tables (snd (activate_version 2 (Aware 6)
     (snd (record_candidate demo_candidate (Aware 5) (demo_store 2))))) \<rparr>"

lemma demo_models_wf: "vision_wf (vs_tables demo_models)"
proof -
  have "store_step\<^sup>*\<^sup>* (new_dataset []) (snd (activate_version 2 (Aware 6) (snd (record_candidate demo_candidate (Aware 5) (demo_store 2)))))"
    using demo_store_reachable ss_candidate ss_activate by (meson rtranclp.rtrancl_into_rtrancl)
  from store_reachable_wf [OF this] empty_vision_wf show ?thesis by (simp add: demo_models_def new_dataset_def)
qed

fun offers_rollback :: "json \<Rightarrow> bool" where
  "offers_rollback (JObj m) = (map_of m ''can_roll_back'' = Some (JBool True))"
| "offers_rollback _ = False"

text \<open>A store that is open on a sound disk.\<close>

lemma sound_read:
  assumes "vs_storage s = []" "h \<notin> set (vs_closed s)"
  shows "store_call h (ds_guard read) s = (Inr (read (vs_tables s)), s)"
  using assms by (simp add: store_call_def ds_guard_def put_store_def store_of_def)

lemma sound_activation:
  assumes "vs_storage s = []" "h \<notin> set (vs_closed s)" "find_model version (vs_tables s) \<noteq> None"
    "- (2 ^ 63) \<le> version" "version < 2 ^ 63"
  shows "is_ok (fst (store_call h (activate_version version (Aware t)) s))"
  using assms
  by (auto simp: store_call_def activate_version_def ds_transaction_def store_of_def sqlite_int_def is_ok_def Let_def
      bind_r_def of_option_def split: option.splits)

lemma active_versions:
  assumes "vision_wf t" "r \<in> set (vt_activations t)"
  shows "find_model (ac_version r) t \<noteq> None \<and> 1 \<le> ac_version r \<and> ac_version r \<le> int (length (vt_models t))"
proof -
  have known: "ac_version r \<in> set (map mo_version (vt_models t))"
    using assms unfolding vision_wf_def by blast
  have num: "map mo_version (vt_models t) = map int [1..<Suc (length (vt_models t))]"
    using assms(1) unfolding vision_wf_def numbered_def by blast
  from known have "find_model (ac_version r) t \<noteq> None" unfolding find_model_def find_key .
  with known [unfolded num] show ?thesis by auto
qed

text \<open>
  The models document tells exactly whether a roll-back is possible. On a sound and open
  store, the flag \<open>can_roll_back\<close> a caller has just read is true if and only if the roll-back it
  asks for next succeeds.
\<close>

theorem can_roll_back_is_exact:
  assumes "vision_wf (vs_tables s)" "vs_storage s = []" "H_api \<notin> set (vs_closed s)"
    and "int (length (vt_models (vs_tables s))) < 2 ^ 63" "run_task (models_body api) s = (Inr doc, s1)"
  shows "offers_rollback doc \<longleftrightarrow> is_ok (fst (run_task (rollback_body api) s1))"
proof -
  let ?history = "vt_activations (vs_tables s)"
  have sorted: "sort_key ac_activation_id ?history = ?history" using assms(1) by (simp add: vision_wf_def numbered_sorted)
  note read = sound_read [OF assms(2,3)]
  have doc: "s1 = s" "offers_rollback doc \<longleftrightarrow> 2 \<le> length ?history"
    using assms(5) sorted by (auto simp: models_body_def run_tbind on_store_def run_section store_reads read v1_def)
  show ?thesis
  proof (cases "2 \<le> length ?history")
    case False
    then show ?thesis
      using doc sorted by (simp add: rollback_body_def run_tbind on_store_def run_section activations_def read is_ok_def)
  next
    case True
    define prev where "prev = ac_version (?history ! (length ?history - 2))"
    define clock s2 where "clock = (case vs_clock s of [] \<Rightarrow> 0 | t # _ \<Rightarrow> t)" and "s2 = s\<lparr> vs_clock := tl (vs_clock s) \<rparr>"
    have "?history ! (length ?history - 2) \<in> set ?history" using True by (intro nth_mem) auto
    from active_versions [OF assms(1) this] have "is_ok (fst (store_call H_api (activate_version prev (Aware clock)) s2))"
      using assms(2,3,4) by (intro sound_activation) (auto simp: prev_def s2_def)
    moreover have "run_task (rollback_body api) s =
        run_task (tbind (on_store H_api (activate_version prev (Aware clock))) (\<lambda>_. Ret (activated api prev (Aware clock)))) s2"
      using True sorted
      by (simp add: rollback_body_def run_tbind [of "section_of _"] run_tbind [of now_utc] on_store_def run_section
          activations_def read now_utc_def prev_def clock_def s2_def Let_def)
    ultimately show ?thesis
      using True doc by (auto simp: run_tbind on_store_def run_section is_ok_def split: prod.splits sum.splits)
  qed
qed

theorem can_roll_back_is_exact_witness:
  "is_ok (fst (run_task (rollback_body demo_vision_api) (snd (run_task (models_body demo_vision_api) demo_models))))"
proof -
  obtain doc s1 where run: "run_task (models_body demo_vision_api) demo_models = (Inr doc, s1)" and flag: "offers_rollback doc"
  proof -
    have "(case run_task (models_body demo_vision_api) demo_models of (Inr doc, s1) \<Rightarrow> offers_rollback doc | _ \<Rightarrow> False)"
      by code_simp
    then show thesis using that by (auto split: prod.splits sum.splits)
  qed
  have facts: "vs_storage demo_models = []" "H_api \<notin> set (vs_closed demo_models)" "int (length (vt_models (vs_tables demo_models))) < 2 ^ 63"
    by code_simp+
  from can_roll_back_is_exact [OF demo_models_wf facts run] flag run show ?thesis by simp
qed

text \<open>
  Thresholds are configured per class but looked up by chute: in a dynamic run over chute 3 a frame
  of class 9 is suggested as slot 3, and once its primer is known to be clear the threshold of class 3
  lets it be sorted autonomously, although class 9 has none.
\<close>

definition demo_routed :: vision where
  "demo_routed = (demo_service None)\<lparr> vs_tables := ds_tables (demo_store 2),
     vs_routing := \<lparr> rs_profile = Some (DynamicProfile [3]), rs_started_at = Some (Aware 0), rs_claimed = [] \<rparr>,
     vs_buffer := add_frame demo_frame (vs_buffer (demo_service None)) \<rparr>"

theorem threshold_follows_chute:
  "classify_frame demo_libs [1] (fr_png demo_frame) = Inr \<lparr> su_slot = 9, su_confidence = 9/10, su_primer_present = None \<rparr> \<and>
   map sg_suggested_slot (vt_suggestions (vs_tables (snd (run_task (suggest_once demo_libs session_router) demo_routed)))) = [3] \<and>
   list_all (\<lambda>sg. may_autonomously_sort (suggestion_of (sg\<lparr> sg_primer_present := Some False \<rparr>)) [(3, 1/2)])
     (vt_suggestions (vs_tables (snd (run_task (suggest_once demo_libs session_router) demo_routed)))) \<and>
   may_autonomously_sort \<lparr> su_slot = 9, su_confidence = 9/10, su_primer_present = Some False \<rparr> [(3, 1/2)] = False"
proof (intro conjI)
  show "classify_frame demo_libs [1] (fr_png demo_frame) = Inr \<lparr> su_slot = 9, su_confidence = 9/10, su_primer_present = None \<rparr>"
    by code_simp
qed code_simp+

end
