(* ===== verification/Api_Pages.thy ===== *)
theory Api_Pages
  imports Api
begin

text \<open>
  The pages of \<open>/v1/operations\<close> and the event stream as their consumers see them: following
  \<open>next_cursor\<close>, and what the frames of a stream make of the cursor of a consumer.
\<close>

section \<open>Pages\<close>

definition matches :: "operation_state option \<Rightarrow> operation_action option \<Rightarrow> operation_record \<Rightarrow> bool" where
  "matches state action r = ((case state of None \<Rightarrow> True | Some s \<Rightarrow> o_state r = s) \<and>
     (case action of None \<Rightarrow> True | Some a \<Rightarrow> o_action r = a))"

lemma page_rows_matches:
  "page_rows n before state action t = take n (filter (\<lambda>(c, r). (case before of None \<Rightarrow> True | Some b \<Rightarrow> c < b) \<and>
     matches state action r) (rev (enumerate 1 (operations t))))"
  unfolding page_rows_def matches_def by (rule arg_cong [where f = "take n"]) (rule filter_cong; auto)

lemma page_rows_all:
  "length (operations t) \<le> n \<Longrightarrow>
     page_rows n before state action t = page_rows (length (operations t)) before state action t"
  unfolding page_rows_matches
  by (metis (no_types, lifting) length_enumerate length_filter_le length_rev order_trans take_all)

lemma page_rows_newest_first:
  "map snd (page_rows (length (operations t)) None state action t) = filter (matches state action) (rev (operations t))"
proof -
  have "map snd (filter (\<lambda>(c, r). matches state action r) xs) = filter (matches state action) (map snd xs)"
    for xs :: "(nat \<times> operation_record) list"
    by (induction xs) auto
  moreover have "map snd (rev (enumerate 1 (operations t))) = rev (operations t)"
    by (simp add: rev_map [symmetric])
  moreover have "length (filter P (rev (enumerate 1 (operations t)))) \<le> length (operations t)" for P
    by (metis length_enumerate length_filter_le length_rev)
  ultimately show ?thesis by (simp add: page_rows_matches)
qed

lemma page_rows_short:
  assumes "length (page_rows n before state action t) \<noteq> n"
  shows "page_rows n before state action t = page_rows (length (operations t)) before state action t"
proof -
  have "length (filter P (rev (enumerate 1 (operations t)))) \<le> length (operations t)" for P
    by (metis length_enumerate length_filter_le length_rev)
  then show ?thesis using assms by (simp add: page_rows_matches)
qed

lemma page_rows_member:
  "(c, r) \<in> set (page_rows n before state action t) \<Longrightarrow> r \<in> set (operations t) \<and> 1 \<le> c \<and> c \<le> length (operations t)"
  by (auto simp: page_rows_matches in_set_enumerate_eq dest!: in_set_takeD)

lemma decode_all_id: "(\<And>c r. (c, r) \<in> set rows \<Longrightarrow> is_ok (decode_operation r)) \<Longrightarrow> decode_all rows = Inr rows"
proof (induction rows rule: decode_all.induct)
  case (2 c row rest)
  then have "decode_operation row = Inr row" by (auto simp: is_ok_iff dest: decode_operation_InrD)
  moreover have "decode_all rest = Inr rest" using 2 by auto
  ultimately show ?case by simp
qed simp

text \<open>A journal whose storage is sound.\<close>

definition healthy :: "domain \<Rightarrow> bool" where
  "healthy d = (\<not> j_closed (d_journal d) \<and> j_storage (d_journal d) = [] \<and> tables_wf (j_tables (d_journal d)) \<and>
     int (length (operations (j_tables (d_journal d)))) \<le> CURSOR_MAX)"

lemma healthy_read: "healthy d \<Longrightarrow> after_outcome (d_journal d) = d_journal d"
  by (simp add: healthy_def after_outcome_def)

lemma page_query_healthy:
  assumes "healthy d" "1 \<le> limit" "\<And>c. cursor = Some c \<Longrightarrow> 0 \<le> c \<and> c \<le> CURSOR_MAX"
  shows "page_query limit cursor state action (d_journal d) =
    (Inr (page_rows (nat limit) (map_option nat cursor) state action (j_tables (d_journal d))), d_journal d)"
proof -
  have "decode_all (page_rows n before state action (j_tables (d_journal d))) =
      Inr (page_rows n before state action (j_tables (d_journal d)))" for n before
    using assms(1) by (intro decode_all_id) (auto dest!: page_rows_member simp: healthy_def tables_wf_def)
  then show ?thesis
    using assms healthy_read [OF assms(1)]
    by (auto simp: page_query_def recent_operations_def guard_def next_outcome_def then_decode_def healthy_def
        split: option.splits)
qed

text \<open>A caller that asks for pages of \<open>limit\<close> operations and follows \<open>next_cursor\<close>, for at most
  \<open>fuel\<close> pages.\<close>

definition page_request :: "(string \<times> string list) list \<Rightarrow> nat \<Rightarrow> string option \<Rightarrow> (string \<times> string list) list" where
  "page_request selection limit cursor = (''limit'', [nat_str limit]) #
     (case cursor of None \<Rightarrow> [] | Some c \<Rightarrow> [(''cursor'', [c])]) @ selection"

definition next_cursor :: "members \<Rightarrow> string option" where
  "next_cursor m = (case map_of m ''next_cursor'' of Some (JStr c) \<Rightarrow> Some c | _ \<Rightarrow> None)"

definition page_items :: "members \<Rightarrow> json list" where
  "page_items m = (case map_of m ''items'' of Some (JList items) \<Rightarrow> items | _ \<Rightarrow> [])"

fun follow_pages ::
    "nat \<Rightarrow> api_env \<Rightarrow> (string \<times> string list) list \<Rightarrow> nat \<Rightarrow> string option \<Rightarrow> domain \<Rightarrow> json list" where
  "follow_pages 0 env selection limit cursor d = []"
| "follow_pages (Suc fuel) env selection limit cursor d =
     (case operation_page env (page_request selection limit cursor) d of
        (Inr (JObj m), d') \<Rightarrow>
          page_items m @ (case next_cursor m of
             None \<Rightarrow> [] | Some c \<Rightarrow> follow_pages fuel env selection limit (Some c) d')
      | _ \<Rightarrow> [])"

lemma page_request_read:
  assumes "1 \<le> limit" "int limit \<le> MAX_PAGE_SIZE" "map_of selection ''cursor'' = None"
    and "\<And>c. cursor = Some c \<Longrightarrow> int c \<le> CURSOR_MAX"
  shows "bounded_int (page_request selection limit (map_option nat_str cursor)) ''limit'' DEFAULT_PAGE_SIZE MAX_PAGE_SIZE = Inr (int limit)"
    and "optional_cursor (page_request selection limit (map_option nat_str cursor)) = Inr (map_option int cursor)"
proof -
  have "py_int (nat_str limit) = Some (int limit)" using assms(2) by (intro py_int_nat_str_64) (simp add: MAX_PAGE_SIZE_def)
  then show "bounded_int (page_request selection limit (map_option nat_str cursor)) ''limit'' DEFAULT_PAGE_SIZE MAX_PAGE_SIZE = Inr (int limit)"
    using assms(1,2) by (simp add: bounded_int_def query_value_def page_request_def)
  have "cursor = Some c \<Longrightarrow> py_int (nat_str c) = Some (int c)" for c
    using assms(4) [of c] by (intro py_int_nat_str_64) (simp add: CURSOR_MAX_def)
  then show "optional_cursor (page_request selection limit (map_option nat_str cursor)) = Inr (map_option int cursor)"
    using assms(3) by (cases cursor) (simp_all add: optional_cursor_def query_value_def page_request_def)
qed

lemma page_request_enum:
  "name \<noteq> ''limit'' \<Longrightarrow> name \<noteq> ''cursor'' \<Longrightarrow>
     optional_enum (page_request selection limit c) name value_of vocabulary = optional_enum selection name value_of vocabulary"
  by (simp add: optional_enum_def query_value_def page_request_def split: option.splits)

lemma operation_page_healthy:
  assumes "healthy d" "1 \<le> limit" "int limit \<le> MAX_PAGE_SIZE" "map_of selection ''cursor'' = None"
    and "optional_enum selection ''state'' state_value STATES = Inr state"
    and "optional_enum selection ''type'' action_value ACTIONS = Inr action"
    and "\<And>c. cursor = Some c \<Longrightarrow> int c \<le> CURSOR_MAX"
  shows "operation_page env (page_request selection limit (map_option nat_str cursor)) d =
    (Inr (page_body env (int limit) (page_rows limit cursor state action (j_tables (d_journal d)))), d)"
proof -
  have "page_query (int limit) (map_option int cursor) state action (d_journal d) =
      (Inr (page_rows limit cursor state action (j_tables (d_journal d))), d_journal d)"
    using page_query_healthy [OF assms(1), of "int limit" "map_option int cursor" state action] assms(2,7)
    by (cases cursor) auto
  then show ?thesis
    using page_request_read [OF assms(2,3,4,7)] assms(5,6)
    by (simp add: operation_page_def abind_unfold api_read_def djournal_def page_request_enum)
qed

lemma follow_pages_rows:
  assumes "healthy d" "1 \<le> limit" "int limit \<le> MAX_PAGE_SIZE" "map_of selection ''cursor'' = None"
    and "optional_enum selection ''state'' state_value STATES = Inr state"
    and "optional_enum selection ''type'' action_value ACTIONS = Inr action"
    and "\<And>c. cursor = Some c \<Longrightarrow> int c \<le> CURSOR_MAX"
    and "length (page_rows (length (operations (j_tables (d_journal d)))) cursor state action (j_tables (d_journal d))) < fuel"
  shows "follow_pages fuel env selection limit (map_option nat_str cursor) d =
    map (operation_body env \<circ> snd) (page_rows (length (operations (j_tables (d_journal d)))) cursor state action (j_tables (d_journal d)))"
  using assms(7,8)
proof (induction fuel arbitrary: cursor)
  case (Suc fuel)
  define t where "t = j_tables (d_journal d)"
  define p where "p = page_rows limit cursor state action t"
  have page: "operation_page env (page_request selection limit (map_option nat_str cursor)) d = (Inr (page_body env (int limit) p), d)"
    using operation_page_healthy [OF assms(1-6) Suc.prems(1)] by (simp add: p_def t_def)
  show ?case
  proof (cases "length p = limit")
    case False
    then show ?thesis
      using page_rows_short [of limit cursor state action t]
      by (simp add: page page_body_def page_items_def next_cursor_def p_def t_def split_def comp_def)
  next
    case True
    then have "p \<noteq> []" using assms(2) by auto
    note more = pages_compose [OF p_def [symmetric] this, of "length (operations t)"]
    have all: "page_rows (limit + length (operations t)) cursor state action t = page_rows (length (operations t)) cursor state action t"
      by (rule page_rows_all) simp
    define b where "b = fst (last p)"
    have "(b, snd (last p)) \<in> set p" using \<open>p \<noteq> []\<close> by (simp add: b_def)
    then have "int b \<le> CURSOR_MAX" using assms(1) page_rows_member by (fastforce simp: p_def t_def healthy_def)
    moreover have total: "page_rows (length (operations t)) cursor state action t =
        p @ page_rows (length (operations t)) (Some b) state action t"
      using more all by (simp add: b_def)
    then have "length (page_rows (length (operations t)) (Some b) state action t) < fuel"
      using Suc.prems(2) True assms(2) by (simp add: t_def)
    ultimately have "follow_pages fuel env selection limit (Some (nat_str b)) d =
        map (operation_body env \<circ> snd) (page_rows (length (operations t)) (Some b) state action t)"
      using Suc.IH [of "Some b"] by (simp add: t_def)
    then show ?thesis
      using True total by (simp add: page page_body_def page_items_def next_cursor_def b_def [symmetric] t_def split_def comp_def)
  qed
qed simp

text \<open>
  C18: A caller that follows \<open>next_cursor\<close> from the first page on, with any page size the daemon
  accepts and any selection by state and type, is given every selected operation exactly once,
  newest first, and stops by itself.
\<close>

theorem pages_list_every_operation_once:
  assumes "healthy d" "1 \<le> limit" "int limit \<le> MAX_PAGE_SIZE" "map_of selection ''cursor'' = None"
    and "optional_enum selection ''state'' state_value STATES = Inr state"
    and "optional_enum selection ''type'' action_value ACTIONS = Inr action"
    and "length (operations (j_tables (d_journal d))) < fuel"
  shows "follow_pages fuel env selection limit None d =
    map (operation_body env) (filter (matches state action) (rev (operations (j_tables (d_journal d)))))"
proof -
  have "length (page_rows (length (operations (j_tables (d_journal d)))) None state action (j_tables (d_journal d))) < fuel"
    using assms(7) by (auto simp: page_rows_def)
  from follow_pages_rows [OF assms(1-6) _ this, where env = env] show ?thesis
    by (simp add: page_rows_newest_first [symmetric])
qed

lemma demo_healthy: "healthy (demo_domain (j_tables demo_journal))"
  using new_journal_wf [OF demo_reachable] by (simp add: healthy_def demo_domain_def demo_tables CURSOR_MAX_def)

theorem pages_list_every_operation_once_witness:
  "follow_pages 3 demo_env [(''state'', [''QUEUED''])] 1 None (demo_domain (j_tables demo_journal)) =
     [operation_body demo_env demo_operation]"
proof -
  have "optional_enum [(''state'', [''QUEUED''])] ''state'' state_value STATES = Inr (Some OS_queued)"
    "optional_enum [(''state'', [''QUEUED''])] ''type'' action_value ACTIONS = Inr None"
    by code_simp+
  from pages_list_every_operation_once [OF demo_healthy _ _ _ this, of 1 3 demo_env] show ?thesis
    by (simp add: demo_domain_def demo_tables MAX_PAGE_SIZE_def matches_def demo_operation_def)
qed

section \<open>The cursor of a stream\<close>

text \<open>What a consumer keeps of a frame, to send as \<open>Last-Event-ID\<close>: the \<open>event_id\<close> of its document.\<close>

definition frame_cursor :: "sse_frame \<Rightarrow> int option" where
  "frame_cursor f = (case fr_data f of
     JObj m \<Rightarrow> (case map_of m ''event_id'' of Some (JInt i) \<Rightarrow> Some i | _ \<Rightarrow> None) | _ \<Rightarrow> None)"

definition reconnect_request :: "int \<Rightarrow> api_request" where
  "reconnect_request cursor = \<lparr> rq_method = ''GET'', rq_path = ''/v1/events'', rq_query = [],
     rq_headers = [(''last-event-id'', int_str cursor)], rq_stream = [] \<rparr>"

lemma frame_cursor_of: "frame_cursor (frame_of env e) = Some (max (ev_event_id e) 1)"
  by (simp add: frame_cursor_def frame_of_def api_event_body_def)

lemma exact_int_str:
  assumes "0 \<le> i" "i \<le> 2 ^ 63"
  shows "exact_int (int_str i) = Inr i"
proof -
  define s where "s = nat_str (nat i)"
  have str: "int_str i = s" using assms by (simp add: int_str_def s_def)
  have digits: "list_all is_digit s" "s \<noteq> []" using nat_str_digits by (simp_all add: s_def list_all_iff)
  have "s = ''0'' \<or> hd s \<noteq> CHR ''0''" using nat_str_hd [of "nat i"] assms by (cases "i = 0") (auto simp: s_def)
  then have "exact_generation_match s" using digits by (auto simp: exact_generation_match_def)
  moreover have "py_int s = Some i" using py_int_nat_str_64 [of "nat i"] assms by (simp add: s_def)
  ultimately show ?thesis by (simp add: exact_int_def str)
qed

lemma reconnect_reads:
  assumes "1 \<le> cursor" "cursor \<le> 2 ^ 63"
  shows "last_event_id (reconnect_request cursor) = Inr (Some cursor)"
proof -
  have "strip (int_str cursor) = int_str cursor" "int_str cursor \<noteq> []"
    using assms nat_str_digits [of "nat cursor"] by (auto simp: int_str_def list_all_iff intro!: strip_digits)
  then show ?thesis
    using exact_int_str [of cursor] assms by (simp add: last_event_id_def reconnect_request_def header_or_empty_def)
qed

lemma resubscribed:
  assumes "ring_wf r" "subscribe (Some a) r = (k, r')" "\<not> sub_overflowed (er_table r' ! k)"
  shows "map ev_event_id (sub_pending (er_table r' ! k)) = [a + 1 .. er_next_id r - 1]"
proof -
  have "\<not> sub_closed (er_table r' ! k)" "er_next_id r' = er_next_id r"
    using assms(2) by (auto simp: subscribe_def Let_def new_subscriber_def mark_overflowed_def prime_subscriber_def
        split: if_splits)
  then show ?thesis using subscribe_inv [OF assms(1,2)] assms(3) by (simp add: stream_inv_def)
qed

text \<open>
  A consumer that lost its connection after the frame of a published event and reconnects with
  the \<open>event_id\<close> of that frame is told to take a snapshot or is given exactly the events after it:
  none twice and none left out.
\<close>

theorem stream_resumes_after_frame:
  assumes "ring_wf r" "1 \<le> ev_event_id e" "ev_event_id e \<le> 2 ^ 63" "frame_cursor (frame_of env e) = Some cursor"
    and "last_event_id (reconnect_request cursor) = Inr after" "subscribe after r = (k, r')"
  shows "sub_overflowed (er_table r' ! k) \<or>
    map ev_event_id (sub_pending (er_table r' ! k)) = [ev_event_id e + 1 .. er_next_id r - 1]"
proof -
  have "cursor = ev_event_id e" using assms(2,4) by (simp add: frame_cursor_of)
  then have "after = Some (ev_event_id e)" using reconnect_reads [of cursor] assms(2,3,5) by simp
  then show ?thesis using resubscribed [OF assms(1), of "ev_event_id e"] assms(6) by blast
qed

definition demo_events :: event_ring where
  "demo_events = snd (ring_run [demo_publish, demo_publish] demo_ring)"

lemma demo_events_wf: "ring_wf demo_events"
  unfolding demo_events_def by (rule ring_run_wf) (simp add: ring_wf_def demo_ring_def)

theorem stream_resumes_after_frame_witness:
  "map ev_event_id (sub_pending (er_table (snd (subscribe (Some 1) demo_events)) ! 0)) = [2]"
proof -
  have "ev_event_id (hd (er_retained demo_events)) = 1" "er_next_id demo_events = 3"
    "\<not> sub_overflowed (er_table (snd (subscribe (Some 1) demo_events)) ! 0)"
    "fst (subscribe (Some 1) demo_events) = 0"
    by code_simp+
  with stream_resumes_after_frame [OF demo_events_wf, of "hd (er_retained demo_events)" demo_env 1 "Some 1" 0
      "snd (subscribe (Some 1) demo_events)"]
  show ?thesis by (simp add: frame_cursor_of reconnect_reads prod_eq_iff upto.simps)
qed

text \<open>
  A heartbeat carries the id 0 in its frame and the event id 1 in its document. A consumer that
  had every event published, was then kept alive by a heartbeat and reconnects with the id it last
  saw is told to take a snapshot or is given again every event but the first: the keepalive moved
  its cursor back to the start.
\<close>

theorem heartbeat_rewinds_the_cursor:
  assumes "ring_wf r" "heartbeat d = (Inr e, d')" "frame_cursor (frame_of env e) = Some cursor"
    and "last_event_id (reconnect_request cursor) = Inr after" "subscribe after r = (k, r')"
  shows "fr_id (frame_of env e) = 0 \<and> (sub_overflowed (er_table r' ! k) \<or>
    map ev_event_id (sub_pending (er_table r' ! k)) = [2 .. er_next_id r - 1])"
proof -
  have e: "ev_event_id e = 0" using assms(2) by (auto simp: heartbeat_def unsequenced_def dbind_now)
  then have "cursor = 1" using assms(3) by (simp add: frame_cursor_of)
  then have "after = Some 1" using reconnect_reads [of 1] assms(4) by simp
  then show ?thesis using e resubscribed [OF assms(1), of 1] assms(5) by (auto simp: frame_of_def)
qed

theorem heartbeat_rewinds_the_cursor_witness:
  "map ev_event_id (sub_pending (er_table (snd (subscribe (Some 1) demo_events)) ! 0)) = [2]"
proof -
  define e where "e = projr (fst (heartbeat (demo_domain empty_tables)))"
  have e: "heartbeat (demo_domain empty_tables) = (Inr e, snd (heartbeat (demo_domain empty_tables)))"
    by (simp add: e_def heartbeat_def unsequenced_def dbind_now)
  have "ev_event_id e = 0" by (simp add: e_def heartbeat_def unsequenced_def dbind_now)
  moreover have "er_next_id demo_events = 3" "\<not> sub_overflowed (er_table (snd (subscribe (Some 1) demo_events)) ! 0)"
    "fst (subscribe (Some 1) demo_events) = 0"
    by code_simp+
  ultimately show ?thesis
    using heartbeat_rewinds_the_cursor [OF demo_events_wf e, of demo_env 1 "Some 1" 0 "snd (subscribe (Some 1) demo_events)"]
    by (simp add: frame_cursor_of reconnect_reads prod_eq_iff upto.simps)
qed

end
