(* ===== verification/Daemon_Client.thy ===== *)
theory Daemon_Client
  imports Api_Pages Vision
begin

text \<open>
  The client of the vision service for the daemon's HTTP interface (\<open>daemon_client.py\<close>), and the two
  services joined over it: what the daemon makes of the requests of the client, and what the client
  makes of the daemon's answers. The connection is an argument: a request goes in and an outcome
  comes out. \<open>json.dumps\<close> is an argument too.
\<close>

section \<open>The client\<close>

record daemon_client =
  dc_token :: string
  dc_machine_token :: "string option"

definition make_daemon_client :: "string \<Rightarrow> string option \<Rightarrow> (vision_error, daemon_client) result" where
  "make_daemon_client service_token machine_service_token =
     (if service_token = [] then Inl (OtherVisionError ''ValueError'')
      else if machine_service_token = Some [] then Inl (OtherVisionError ''ValueError'')
      else Inr \<lparr> dc_token = service_token, dc_machine_token = machine_service_token \<rparr>)"

text \<open>How an exchange ends: an \<open>OSError\<close>, another exception of \<open>http.client\<close> by its name, or a
  status and a payload, the document \<open>json.loads\<close> makes of it or how it fails.\<close>

datatype payload = Document json | Unparseable | Undecodable

datatype http_outcome = Os_error | Http_exception string | Answered nat payload

type_synonym http = "api_request \<Rightarrow> http_outcome"

text \<open>\<open>http.client\<close> adds the length of the body, also of an empty one.\<close>

definition client_request ::
    "string \<Rightarrow> string \<Rightarrow> (string \<times> string list) list \<Rightarrow> string \<Rightarrow> string \<Rightarrow> (string \<times> string) list \<Rightarrow> api_request" where
  "client_request method path query token request_body headers =
     \<lparr> rq_method = method, rq_path = path, rq_query = query,
       rq_headers = (''authorization'', ''Bearer '' @ token) # headers @ [(''content-length'', nat_str (length request_body))],
       rq_stream = request_body \<rparr>"

definition exchange :: "http \<Rightarrow> api_request \<Rightarrow> (vision_error, members) result" where
  "exchange http rq =
     (case http rq of
        Os_error \<Rightarrow> Inl DaemonClientError
      | Http_exception name \<Rightarrow> Inl (OtherVisionError name)
      | Answered status payload \<Rightarrow>
          if status \<noteq> 200 \<and> status \<noteq> 202 then Inl DaemonClientError
          else case payload of
            Document (JObj decoded) \<Rightarrow> Inr decoded
          | Document _ \<Rightarrow> Inl DaemonClientError
          | Unparseable \<Rightarrow> Inl DaemonClientError
          | Undecodable \<Rightarrow> Inl (OtherVisionError ''UnicodeDecodeError''))"

definition client_get ::
    "http \<Rightarrow> daemon_client \<Rightarrow> string \<Rightarrow> (string \<times> string list) list \<Rightarrow> (vision_error, members) result" where
  "client_get http c path query = exchange http (client_request ''GET'' path query (dc_token c) [] [])"

definition client_post ::
    "http \<Rightarrow> string \<Rightarrow> string \<Rightarrow> string \<Rightarrow> (string \<times> string) list \<Rightarrow> (vision_error, members) result" where
  "client_post http path request_body token headers =
     exchange http (client_request ''POST'' path [] token request_body headers)"

record sort_report =
  sr_operation_id :: string
  sr_slot :: int
  sr_created_at :: string

definition sort_success_from :: "json \<Rightarrow> sort_report option" where
  "sort_success_from item =
     (case item of
        JObj m \<Rightarrow>
          if map_of m ''type'' \<noteq> Some (JStr ''SORT'') \<or> map_of m ''state'' \<noteq> Some (JStr ''SUCCEEDED'') then None
          else (case map_of m ''terminal_fields'' of
             Some (JObj fs) \<Rightarrow>
               (case map_of fs ''slot'' of
                  Some (JStr raw_slot) \<Rightarrow>
                    (case py_int raw_slot of
                       None \<Rightarrow> None
                     | Some slot \<Rightarrow>
                         (case (map_of m ''operation_id'', map_of m ''created_at'') of
                            (Some (JStr i), Some (JStr created)) \<Rightarrow>
                              Some \<lparr> sr_operation_id = i, sr_slot = slot, sr_created_at = created \<rparr>
                          | _ \<Rightarrow> None))
                | _ \<Rightarrow> None)
           | _ \<Rightarrow> None)
      | _ \<Rightarrow> None)"

definition recent_sort_query :: "nat \<Rightarrow> (string \<times> string list) list" where
  "recent_sort_query limit = [(''type'', [''SORT'']), (''state'', [''SUCCEEDED'']), (''limit'', [nat_str limit])]"

definition client_recent_sorts :: "http \<Rightarrow> daemon_client \<Rightarrow> nat \<Rightarrow> (vision_error, sort_report list) result" where
  "client_recent_sorts http c limit =
     bind_r (client_get http c ''/v1/operations'' (recent_sort_query limit)) (\<lambda>body.
       case map_of body ''items'' of
         Some (JList items) \<Rightarrow> Inr (List.map_filter sort_success_from items)
       | _ \<Rightarrow> Inl DaemonClientError)"

definition client_current_generation :: "http \<Rightarrow> daemon_client \<Rightarrow> (vision_error, int) result" where
  "client_current_generation http c =
     bind_r (client_get http c ''/v1/snapshot'' []) (\<lambda>body.
       case map_of body ''generation'' of Some (JInt g) \<Rightarrow> Inr g | _ \<Rightarrow> Inl DaemonClientError)"

definition sort_document :: "string \<Rightarrow> int \<Rightarrow> json" where
  "sort_document user_id slot = JObj [(''api_version'', JStr ''v1''),
     (''actor'', JObj [(''user_id'', JStr user_id), (''role'', JStr ''machine'')]), (''slot'', JInt slot)]"

definition sort_headers :: "string \<Rightarrow> int \<Rightarrow> int \<Rightarrow> (string \<times> string) list" where
  "sort_headers key generation deadline_ms = [(''idempotency-key'', key),
     (''if-match-generation'', int_str generation), (''x-deadline-ms'', int_str deadline_ms)]"

definition client_submit_sort ::
    "(json \<Rightarrow> string) \<Rightarrow> http \<Rightarrow> daemon_client \<Rightarrow> int \<Rightarrow> int \<Rightarrow> string \<Rightarrow> int \<Rightarrow> string \<Rightarrow> (vision_error, string) result" where
  "client_submit_sort dumps http c slot generation key deadline_ms user_id =
     (case dc_machine_token c of
        None \<Rightarrow> Inl DaemonClientError
      | Some token \<Rightarrow>
          bind_r (client_post http ''/v1/operations/sort'' (dumps (sort_document user_id slot)) token
                    (sort_headers key generation deadline_ms)) (\<lambda>response.
            case map_of response ''operation_id'' of Some (JStr i) \<Rightarrow> Inr i | _ \<Rightarrow> Inl DaemonClientError))"

section \<open>The two services joined\<close>

text \<open>The daemon at the other end of the connection: one request is served, and its document
  arrives as it was sent.\<close>

definition served :: "api_env \<Rightarrow> worker_error option \<Rightarrow> domain \<Rightarrow> http" where
  "served env refusal d rq =
     (case fst (api_dispatch env refusal rq d) of
        Reply r \<Rightarrow> Answered (rs_status r) (Document (rs_body r))
      | Stream _ \<Rightarrow> Answered 200 Unparseable)"

lemma authenticate_client:
  assumes "strip t = t"
  shows "authenticate env (Some (''Bearer '' @ t)) =
    (if t = ae_token env then Inr SI_bff else if ae_machine_token env = Some t then Inr SI_machine
     else Inl (ApiError ''UNAUTHENTICATED'' None))"
proof -
  have "split_first (CHR '' '') (''Bearer'' @ CHR '' '' # t) = (''Bearer'', Some t)"
    by (rule split_first_append) code_simp
  moreover have "lower ''Bearer'' = ''bearer''" by code_simp
  ultimately show ?thesis using assms by (auto simp: authenticate_def split: option.splits)
qed

lemma read_client_body:
  assumes "int (length body) \<le> MAX_BODY_BYTES" "''content-length'' \<notin> fst ` set headers"
  shows "read_body (client_request method path query token body headers) = Inr body"
proof -
  have "map_of headers ''content-length'' = None" using assms(2) by (simp add: map_of_eq_None_iff)
  moreover have "py_int (nat_str (length body)) = Some (int (length body))"
    using assms(1) by (intro py_int_nat_str_64) (simp add: MAX_BODY_BYTES_def)
  ultimately show ?thesis
    using assms(1) by (simp add: read_body_def client_request_def map_add_def)
qed

lemma key_match:
  assumes "0 \<le> i" "i \<le> 2 ^ 63"
  shows "api_key_match (idempotency_key i)"
proof -
  have "length (nat_str (nat i)) \<le> 19" using assms nat_str_length [of "nat i" 18] by simp
  moreover have "length ''autonomous-sort-'' = 16" by simp
  moreover have "list_all (\<lambda>c. is_alpha c \<or> is_digit c \<or> c \<in> set ''._~-'') ''autonomous-sort-''" by code_simp
  ultimately show ?thesis
    using assms nat_str_digits [of "nat i"]
    by (auto simp: api_key_match_def idempotency_key_def int_str_def list_all_iff)
qed

lemma read_machine_actor:
  "commanding_actor env [(''api_version'', v), (''actor'', JObj [(''user_id'', JStr ''cs71-vision''), (''role'', JStr ''machine'')]), s]
     SI_machine ''sort'' = Inr \<lparr> a_user_id = ''cs71-vision'', a_role = ''machine'' \<rparr>"
proof -
  have "make_actor ''cs71-vision'' ''machine'' = Inr \<lparr> a_user_id = ''cs71-vision'', a_role = ''machine'' \<rparr>"
    by code_simp
  then show ?thesis
    by (simp add: commanding_actor_def actor_members_def has_exactly_def API_ROLES_def COMMANDING_ROLES_def MACHINE_ROLE_def)
qed

text \<open>The request of the client, as the daemon reads it.\<close>

definition machine_sort :: "int \<Rightarrow> int \<Rightarrow> string \<Rightarrow> domain_command" where
  "machine_sort slot generation key = C_submit OA_sort [(''slot'', BV_int slot)]
     \<lparr> a_user_id = ''cs71-vision'', a_role = ''machine'' \<rparr> key generation 15000"

definition sort_request :: "(json \<Rightarrow> string) \<Rightarrow> string \<Rightarrow> int \<Rightarrow> int \<Rightarrow> string \<Rightarrow> api_request" where
  "sort_request dumps token slot generation key = client_request ''POST'' ''/v1/operations/sort'' [] token
     (dumps (sort_document ''cs71-vision'' slot)) (sort_headers key generation 15000)"

lemma sort_request_read:
  assumes "0 \<le> slot" "slot \<le> MAX_API_SLOT" "0 \<le> generation" "generation \<le> 2 ^ 63" "api_key_match key"
    and "ae_loads env body = Some (sort_document ''cs71-vision'' slot)" "body \<noteq> []"
  shows "read_command env SI_machine (sort_request dumps token slot generation key) body = Inr (machine_sort slot generation key)"
proof -
  let ?rq = "sort_request dumps token slot generation key"
  have path: "rq_path ?rq = ''/v1/operations/sort''" by (simp add: sort_request_def client_request_def)
  have key: "api_idempotency_key ?rq = Inr key" and gen: "exact_generation ?rq = Inr generation"
    using assms(5) exact_int_str [OF assms(3,4)]
    by (simp_all add: sort_request_def client_request_def sort_headers_def api_idempotency_key_def header_or_empty_def
        exact_generation_def)
  have "py_int (int_str 15000) = Some 15000" using py_int_nat_str_64 [of 15000] by (simp add: int_str_def)
  then have deadline: "read_deadline_ms ?rq = Inr 15000"
    by (simp add: sort_request_def client_request_def sort_headers_def read_deadline_ms_def header_or_empty_def
        MAX_CONTRACT_DEADLINE_MS_def)
  define payload where "payload = [(''api_version'', JStr ''v1''),
     (''actor'', JObj [(''user_id'', JStr ''cs71-vision''), (''role'', JStr ''machine'')]), (''slot'', JInt slot)]"
  have object: "request_object env body = Inr payload"
    using assms(6,7) by (simp add: request_object_def sort_document_def API_VERSION_def payload_def)
  have actor: "commanding_actor env payload SI_machine ''sort'' = Inr \<lparr> a_user_id = ''cs71-vision'', a_role = ''machine'' \<rparr>"
    unfolding payload_def by (rule read_machine_actor)
  have command: "command_body OA_sort payload = Inr [(''slot'', BV_int slot)]"
    using assms(1,2) by (simp add: command_body_def require_exact_fields_def has_exactly_def member_def payload_def)
  have action: "map_of COMMAND_ACTIONS ''/v1/operations/sort'' = Some OA_sort"
    and session: "''/v1/operations/sort'' \<notin> set SESSION_PATHS" by code_simp+
  show ?thesis
    by (simp add: read_command_def path key gen deadline action session command_name_def object actor command machine_sort_def)
qed

lemma error_status_refused: "error_status code \<noteq> 200" "error_status code \<noteq> 202"
  by (auto simp: error_status_def STATUS_FOR_CODE_def split: option.splits if_splits)

lemma reply_refused:
  assumes "reply_of rid (Inl e) = Reply r"
  shows "rs_status r \<noteq> 200 \<and> rs_status r \<noteq> 202"
proof (cases e)
  case (ApiError code i)
  then show ?thesis using assms by (auto simp: error_response_def http_response_def error_status_refused)
next
  case (Below f)
  then show ?thesis using assms by (cases f) (auto simp: error_response_def http_response_def error_status_refused)
qed (use assms in simp)

lemma authenticated_sort_request:
  assumes "strip t = t" "ae_machine_token env = Some t" "t \<noteq> ae_token env"
    and "0 \<le> slot" "slot \<le> MAX_API_SLOT" "0 \<le> generation" "generation \<le> 2 ^ 63" "api_key_match key"
    and "ae_loads env (dumps (sort_document ''cs71-vision'' slot)) = Some (sort_document ''cs71-vision'' slot)"
    and "dumps (sort_document ''cs71-vision'' slot) \<noteq> []"
    and "int (length (dumps (sort_document ''cs71-vision'' slot))) \<le> MAX_BODY_BYTES"
  shows "authenticated env refusal (sort_request dumps t slot generation key) =
    accept env refusal (Inr (machine_sort slot generation key))"
proof -
  let ?rq = "sort_request dumps t slot generation key"
  have auth: "authenticate env (map_of (rq_headers ?rq) ''authorization'') = Inr SI_machine"
    using authenticate_client [OF assms(1)] assms(2,3) by (simp add: sort_request_def client_request_def)
  have body: "read_body ?rq = Inr (dumps (sort_document ''cs71-vision'' slot))"
    unfolding sort_request_def using assms(11) by (rule read_client_body) (simp add: sort_headers_def)
  have "rq_method ?rq = ''POST''" by (simp add: sort_request_def client_request_def)
  then show ?thesis
    using auth body sort_request_read [OF assms(4-10)]
    by (simp add: authenticated_def abind_unfold api_route_def fun_eq_iff)
qed


definition demo_sort_env :: api_env where
  "demo_sort_env = demo_env\<lparr> ae_loads := (\<lambda>s. if s = ''doc'' then Some (sort_document ''cs71-vision'' 3) else None) \<rparr>"

definition demo_client :: daemon_client where
  "demo_client = \<lparr> dc_token = ''bff-token'', dc_machine_token = Some ''machine-token'' \<rparr>"

lemma demo_machine_sort:
  "map_sum id o_operation_id (fst (submit None OA_sort [(''slot'', BV_int 3)] \<lparr> a_user_id = ''cs71-vision'', a_role = ''machine'' \<rparr>
      (idempotency_key 1) 1 (BV_int 15000) (demo_domain empty_tables))) = Inr ''aaaaaaaa-9a0e-4b5e-8a1c-0f2b7d3e4a55''"
  by code_simp


section \<open>What the client reports\<close>

lemma sort_success_from_body:
  assumes "sort_success_from (operation_body env r) = Some x"
  shows "o_operation_id r = sr_operation_id x \<and> o_action r = OA_sort \<and> o_state r = OS_succeeded \<and>
    sr_created_at x = ae_rfc3339 env (o_created_at r) \<and>
    (\<exists>fs raw. o_terminal_fields r = Some fs \<and> map_of fs ''slot'' = Some raw \<and> py_int raw = Some (sr_slot x))"
proof -
  obtain m where m: "operation_body env r = JObj m" by (simp add: operation_body_def)
  have kind: "action_name (o_action r) = ''SORT'' \<longleftrightarrow> o_action r = OA_sort"
    "state_name (o_state r) = ''SUCCEEDED'' \<longleftrightarrow> o_state r = OS_succeeded"
    by (cases "o_action r"; simp) (cases "o_state r"; simp)
  have lookups: "map_of m ''type'' = Some (JStr (action_name (o_action r)))"
    "map_of m ''state'' = Some (JStr (state_name (o_state r)))" "map_of m ''operation_id'' = Some (JStr (o_operation_id r))"
    "map_of m ''created_at'' = Some (JStr (ae_rfc3339 env (o_created_at r)))"
    "map_of m ''terminal_fields'' = map_option json_fields (o_terminal_fields r)"
    using m by (auto simp: operation_body_def split: option.splits)
  have fields: "map_of (map (\<lambda>(n, v). (n, JStr v)) fs) k = map_option JStr (map_of fs k)" for fs k
    by (induction fs) auto
  show ?thesis
    using assms unfolding sort_success_from_def m json.case lookups kind json.inject option.inject
    by (auto simp: kind json_fields_def fields split: if_splits option.splits json.splits)
qed

lemma page_query_InrD:
  assumes "page_query limit cursor state action j = (Inr rows, j')" "(c, r) \<in> set rows"
  shows "r \<in> set (operations (j_tables j)) \<and> is_ok (decode_operation r)"
proof -
  have decoded: "rows = raw \<and> (\<forall>(c, r) \<in> set raw. is_ok (decode_operation r))" if "decode_all raw = Inr rows" for raw
    using that by (induction raw arbitrary: rows rule: decode_all.induct)
      (fastforce simp: result_simps is_ok_iff dest: decode_operation_InrD)+
  obtain n before where "decode_all (page_rows n before state action (j_tables j)) = Inr rows"
    using assms(1)
    by (auto simp: page_query_def recent_operations_def then_decode_def guard_def split: option.splits if_splits)
  then show ?thesis using decoded assms(2) page_rows_member by fastforce
qed

lemma served_page:
  assumes "exchange (served env refusal d) (client_request ''GET'' ''/v1/operations'' query token [] []) = Inr m"
  shows "\<exists>d'. operation_page env query d = (Inr (JObj m), d')"
proof -
  let ?rq = "client_request ''GET'' ''/v1/operations'' query token [] []"
  obtain r where r: "fst (api_dispatch env refusal ?rq d) = Reply r" "rs_body r = JObj m"
      "rs_status r = 200 \<or> rs_status r = 202"
    using assms by (auto simp: exchange_def served_def split: api_reply.splits if_splits json.splits)
  have ok: "fst (authenticated env refusal ?rq d) = Inr r"
  proof (cases "fst (authenticated env refusal ?rq d)")
    case (Inl e)
    then show ?thesis using r reply_refused [of "request_id_of env ?rq" e r] by (simp add: api_dispatch_def case_prod_unfold)
  qed (use r in \<open>simp add: api_dispatch_def case_prod_unfold\<close>)
  obtain identity where "authenticate env (map_of (rq_headers ?rq) ''authorization'') = Inr identity"
    using ok by (auto simp: authenticated_def abind_unfold split: sum.splits)
  moreover have "read_body ?rq = Inr []" by (rule read_client_body) (simp_all add: MAX_BODY_BYTES_def)
  ultimately have "fst (api_route env refusal identity ?rq [] d) = Inr r"
    using ok by (simp add: authenticated_def abind_unfold)
  moreover have "api_route env refusal identity ?rq [] = ok_response (operation_page env query)"
    by (simp add: api_route_def client_request_def)
  ultimately show ?thesis
    using r(2) by (cases "operation_page env query d") (auto simp: ok_response_def abind_unfold http_response_def split: sum.splits)
qed

text \<open>
  C17: Every sort the client reports to the correlator is an operation of the daemon's journal that is
  a sort, succeeded with a trusted terminal response, and reached exactly the slot that is reported.
\<close>

theorem reported_sorts_are_trusted:
  assumes "client_recent_sorts (served env refusal d) c limit = Inr xs" "x \<in> set xs"
  shows "\<exists>r\<in>set (operations (j_tables (d_journal d))). o_operation_id r = sr_operation_id x \<and> o_action r = OA_sort \<and>
    o_state r = OS_succeeded \<and> o_trusted_terminal r \<and> sr_created_at x = ae_rfc3339 env (o_created_at r) \<and>
    (\<exists>fs raw. o_terminal_fields r = Some fs \<and> map_of fs ''slot'' = Some raw \<and> py_int raw = Some (sr_slot x))"
proof -
  obtain m where m: "client_get (served env refusal d) c ''/v1/operations'' (recent_sort_query limit) = Inr m"
    and rest: "(case map_of m ''items'' of Some (JList items) \<Rightarrow> Inr (List.map_filter sort_success_from items)
       | _ \<Rightarrow> Inl DaemonClientError) = Inr xs"
    using assms(1) unfolding client_recent_sorts_def bind_r_eq_Inr by blast
  obtain items where items: "map_of m ''items'' = Some (JList items)" "xs = List.map_filter sort_success_from items"
    using rest by (cases "the (map_of m ''items'')"; cases "map_of m ''items''") auto
  obtain d' where "operation_page env (recent_sort_query limit) d = (Inr (JObj m), d')"
    using served_page m by (fastforce simp: client_get_def)
  then obtain n cursor state action rows j' where page: "page_query n cursor state action (d_journal d) = (Inr rows, j')"
    and body: "JObj m = page_body env n rows"
    unfolding operation_page_def abind_Inr api_read_Inr djournal_Inr by auto
  have "items = map (\<lambda>(_, r). operation_body env r) rows" using body items(1) by (simp add: page_body_def)
  then obtain k r where r: "(k, r) \<in> set rows" "sort_success_from (operation_body env r) = Some x"
    using assms(2) items(2) by (auto simp: List.map_filter_def)
  from page_query_InrD [OF page r(1)] sort_success_from_body [OF r(2)] show ?thesis
    using decode_operation_trusted [of r] by blast
qed

definition demo_sorted :: operation_record where
  "demo_sorted = demo_operation\<lparr> o_action := OA_sort, o_state := OS_succeeded, o_trusted_terminal := True,
     o_terminal_at := Some (Aware 9), o_terminal_fields := Some [(''slot'', ''3'')] \<rparr>"

lemma demo_reported:
  "client_recent_sorts (served demo_env None (demo_domain (empty_tables\<lparr> operations := [demo_sorted] \<rparr>))) demo_client 25 =
     Inr [\<lparr> sr_operation_id = o_operation_id demo_operation, sr_slot = 3,
            sr_created_at = int_str (instant (o_created_at demo_operation)) \<rparr>]"
  by code_simp

theorem reported_sorts_are_trusted_witness: "o_trusted_terminal demo_sorted \<and> o_action demo_sorted = OA_sort"
  using reported_sorts_are_trusted [OF demo_reported] by (simp add: demo_domain_def)

end
