(* ===== verification/Settings.thy ===== *)
theory Settings
  imports Complex_Main Transport Storage_Health
begin

text \<open>
  Configuration files and credentials: what both services read from a TOML file (\<open>load_config\<close>), the
  configuration of the daemon (\<open>config.py\<close> of \<open>cs71d\<close>), and the token files (\<open>read_service_token\<close>).
  \<open>tomllib.load\<close> is the parameter \<open>loads\<close>: the table of the document, or the exception raised for
  bytes that are no TOML or no UTF-8. A parsed float is a rational, or \<open>TNonfinite\<close> for an infinity
  or a NaN.
\<close>

section \<open>Files\<close>

datatype toml = TStr string | TInt int | TFloat rat | TNonfinite | TBool bool | TTime string
  | TList "toml list" | TTable "(string \<times> toml) list"

type_synonym toml_table = "(string \<times> toml) list"

datatype toml_failure = TOMLDecodeError | TomlUnicodeDecodeError

type_synonym toml_loads = "string \<Rightarrow> (toml_failure, toml_table) result"

datatype startup_error = ConfigError | OtherStartupError string

definition load_document :: "host \<Rightarrow> toml_loads \<Rightarrow> string \<Rightarrow> (startup_error, toml_table) result" where
  "load_document h loads path =
     (case h_files h path of
        File mode bytes \<Rightarrow>
          (case loads bytes of
             Inr document \<Rightarrow> Inr document
           | Inl TOMLDecodeError \<Rightarrow> Inl ConfigError
           | Inl TomlUnicodeDecodeError \<Rightarrow> Inl (OtherStartupError ''UnicodeDecodeError''))
      | _ \<Rightarrow> Inl ConfigError)"

text \<open>The one table a document must contain.\<close>

definition only_table :: "string \<Rightarrow> toml_table \<Rightarrow> (startup_error, toml_table) result" where
  "only_table name document =
     (if document = [] \<or> \<not> list_all (\<lambda>e. fst e = name) document then Inl ConfigError
      else case map_of document name of Some (TTable t) \<Rightarrow> Inr t | _ \<Rightarrow> Inl ConfigError)"

definition only_known_fields :: "string list \<Rightarrow> toml_table \<Rightarrow> (startup_error, unit) result" where
  "only_known_fields allowed raw = require (list_all (\<lambda>e. fst e \<in> set allowed) raw) ConfigError"

definition required_string :: "toml_table \<Rightarrow> string \<Rightarrow> (startup_error, string) result" where
  "required_string raw name =
     (case map_of raw name of Some (TStr v) \<Rightarrow> if v = [] then Inl ConfigError else Inr v | _ \<Rightarrow> Inl ConfigError)"

definition optional_string :: "toml_table \<Rightarrow> string \<Rightarrow> (startup_error, string option) result" where
  "optional_string raw name =
     (case map_of raw name of
        None \<Rightarrow> Inr None
      | Some (TStr v) \<Rightarrow> if v = [] then Inl ConfigError else Inr (Some v)
      | _ \<Rightarrow> Inl ConfigError)"

text \<open>A member of a string enumeration by its value.\<close>

definition enum_value :: "(string \<times> 'a) list \<Rightarrow> string \<Rightarrow> (startup_error, 'a) result" where
  "enum_value vocabulary v = of_option ConfigError (map_of vocabulary v)"

section \<open>Credentials\<close>

text \<open>\<open>read_service_token\<close>: the bits for others are the last octal digit of the mode.\<close>

definition read_service_token :: "host \<Rightarrow> string \<Rightarrow> (startup_error, string) result" where
  "read_service_token h path =
     (case h_files h path of
        File mode bytes \<Rightarrow>
          bind_r (of_option (OtherStartupError ''UnicodeDecodeError'') (h_utf8 h bytes)) (\<lambda>content.
            let token = strip content in
            if mode mod 8 \<noteq> 0 then Inl ConfigError
            else if token = [] then Inl ConfigError
            else Inr token)
      | _ \<Rightarrow> Inl ConfigError)"

definition optional_token :: "host \<Rightarrow> string option \<Rightarrow> (startup_error, string option) result" where
  "optional_token h path =
     (case path of None \<Rightarrow> Inr None | Some p \<Rightarrow> bind_r (read_service_token h p) (\<lambda>t. Inr (Some t)))"

section \<open>The daemon\<close>

datatype profile = P_development | P_test | P_production

definition PROFILES :: "(string \<times> profile) list" where
  "PROFILES = [(''development'', P_development), (''test'', P_test), (''production'', P_production)]"

definition BACKENDS :: "(string \<times> backend) list" where
  "BACKENDS = [(''simulator'', SIMULATOR), (''serial'', SERIAL)]"

definition PRODUCTION_DEVICE_PATH :: string where "PRODUCTION_DEVICE_PATH = ''/dev/cs71''"
definition PRODUCTION_SOCKET_PATH :: string where "PRODUCTION_SOCKET_PATH = ''/run/cs71/cs71d.sock''"
definition PRODUCTION_DATABASE_PATH :: string where "PRODUCTION_DATABASE_PATH = ''/var/lib/cs71d/machine.db''"
definition PRODUCTION_SERVICE_TOKEN_PATH :: string where "PRODUCTION_SERVICE_TOKEN_PATH = ''/etc/cs71d/service-token''"
definition PRODUCTION_MACHINE_SERVICE_TOKEN_PATH :: string where
  "PRODUCTION_MACHINE_SERVICE_TOKEN_PATH = ''/etc/cs71d/machine-service-token''"

definition DAEMON_ALLOWED_FIELDS :: "string list" where
  "DAEMON_ALLOWED_FIELDS = [''profile'', ''backend'', ''device_path'', ''socket_path'', ''database_path'',
     ''service_token_path'', ''machine_service_token_path'']"

record daemon_config =
  dc_profile :: profile
  dc_backend :: backend
  dc_device_path :: "string option"
  dc_socket_path :: string
  dc_database_path :: string
  dc_service_token_path :: "string option"
  dc_machine_service_token_path :: "string option"

definition daemon_development :: daemon_config where
  "daemon_development = \<lparr> dc_profile = P_development, dc_backend = SIMULATOR, dc_device_path = None,
     dc_socket_path = ''/tmp/cs71/cs71d.sock'', dc_database_path = ''/tmp/cs71/machine.db'',
     dc_service_token_path = None, dc_machine_service_token_path = None \<rparr>"

text \<open>The profile rules of \<open>from_mapping\<close>.\<close>

definition daemon_rules :: "daemon_config \<Rightarrow> (startup_error, unit) result" where
  "daemon_rules c =
     (if dc_backend c = SIMULATOR \<and> dc_device_path c \<noteq> None then Inl ConfigError
      else if dc_profile c = P_production then
        (if dc_backend c \<noteq> SERIAL then Inl ConfigError
         else if dc_device_path c \<noteq> Some PRODUCTION_DEVICE_PATH then Inl ConfigError
         else if dc_socket_path c \<noteq> PRODUCTION_SOCKET_PATH then Inl ConfigError
         else if dc_database_path c \<noteq> PRODUCTION_DATABASE_PATH then Inl ConfigError
         else if dc_service_token_path c \<noteq> Some PRODUCTION_SERVICE_TOKEN_PATH then Inl ConfigError
         else if dc_machine_service_token_path c \<noteq> None \<and>
           dc_machine_service_token_path c \<noteq> Some PRODUCTION_MACHINE_SERVICE_TOKEN_PATH then Inl ConfigError
         else Inr ())
      else if dc_backend c = SERIAL then Inl ConfigError
      else Inr ())"

definition daemon_from_mapping :: "toml_table \<Rightarrow> (startup_error, daemon_config) result" where
  "daemon_from_mapping raw =
     bind_r (only_known_fields DAEMON_ALLOWED_FIELDS raw) (\<lambda>_.
     bind_r (bind_r (required_string raw ''profile'') (enum_value PROFILES)) (\<lambda>cfg_profile.
     bind_r (bind_r (required_string raw ''backend'') (enum_value BACKENDS)) (\<lambda>cfg_backend.
     bind_r (optional_string raw ''device_path'') (\<lambda>device_path.
     bind_r (required_string raw ''socket_path'') (\<lambda>socket_path.
     bind_r (required_string raw ''database_path'') (\<lambda>database_path.
     bind_r (optional_string raw ''service_token_path'') (\<lambda>service_token_path.
     bind_r (optional_string raw ''machine_service_token_path'') (\<lambda>machine_service_token_path.
     let c = \<lparr> dc_profile = cfg_profile, dc_backend = cfg_backend, dc_device_path = device_path,
               dc_socket_path = socket_path, dc_database_path = database_path,
               dc_service_token_path = service_token_path,
               dc_machine_service_token_path = machine_service_token_path \<rparr>
     in bind_r (daemon_rules c) (\<lambda>_. Inr c)))))))))"

definition load_daemon_config :: "host \<Rightarrow> toml_loads \<Rightarrow> string option \<Rightarrow> (startup_error, daemon_config) result" where
  "load_daemon_config h loads path =
     (case path of
        None \<Rightarrow> Inr daemon_development
      | Some p \<Rightarrow> bind_r (load_document h loads p) (\<lambda>document.
          bind_r (only_table ''daemon'' document) daemon_from_mapping))"

section \<open>What an accepted configuration is\<close>

lemma bind_r_InrE:
  assumes "bind_r m f = Inr y"
  obtains x where "m = Inr x" "f x = Inr y"
  using assms by (auto simp: bind_r_def split: sum.splits)

definition daemon_config_ok :: "daemon_config \<Rightarrow> bool" where
  "daemon_config_ok c =
     ((dc_profile c = P_production) = (dc_backend c = SERIAL) \<and> (dc_backend c = SIMULATOR \<longrightarrow> dc_device_path c = None) \<and>
      (dc_profile c = P_production \<longrightarrow>
        c = \<lparr> dc_profile = P_production, dc_backend = SERIAL, dc_device_path = Some PRODUCTION_DEVICE_PATH,
              dc_socket_path = PRODUCTION_SOCKET_PATH, dc_database_path = PRODUCTION_DATABASE_PATH,
              dc_service_token_path = Some PRODUCTION_SERVICE_TOKEN_PATH,
              dc_machine_service_token_path = dc_machine_service_token_path c \<rparr> \<and>
        dc_machine_service_token_path c \<in> {None, Some PRODUCTION_MACHINE_SERVICE_TOKEN_PATH}))"

lemma daemon_rules_ok: "daemon_rules c = Inr () \<longleftrightarrow> daemon_config_ok c"
  by (cases "dc_backend c"; cases "dc_profile c"; cases c) (auto simp: daemon_rules_def daemon_config_ok_def)

lemma daemon_from_mapping_ok: "daemon_from_mapping raw = Inr c \<Longrightarrow> daemon_config_ok c"
  unfolding daemon_from_mapping_def Let_def by (elim bind_r_InrE) (simp add: daemon_rules_ok)

lemma daemon_development_ok: "daemon_config_ok daemon_development"
  by (simp add: daemon_config_ok_def daemon_development_def)

lemma load_daemon_config_ok: "load_daemon_config h loads path = Inr c \<Longrightarrow> daemon_config_ok c"
  by (auto simp: load_daemon_config_def daemon_development_ok split: option.splits
      elim!: bind_r_InrE dest: daemon_from_mapping_ok)

text \<open>A credential that is used can be read by no one outside the owner and the group of its file.\<close>

lemma read_service_token_ok:
  assumes "read_service_token h path = Inr token"
  shows "token \<noteq> [] \<and> (\<exists>mode bytes. h_files h path = File mode bytes \<and> mode mod 8 = 0)"
  using assms by (auto simp: read_service_token_def Let_def split: file_node.splits if_splits elim!: bind_r_InrE)

end
