(* ===== verification/Daemon_Runtime.thy ===== *)
theory Daemon_Runtime
  imports Settings Api
begin

text \<open>
  The running daemon (\<open>runtime.py\<close>) and its command line (\<open>cli.py\<close>): the parts in their order of
  dependency, started one after the other and released in reverse. What a part does when it is
  started is \<open>start_env\<close>, a success or an exception; \<open>dm_log\<close> records what was opened and closed.
\<close>

section \<open>The parts\<close>

datatype part = Part_journal | Part_domain | Part_api

datatype part_event = Opened part | Closed part

record daemon =
  dm_config :: daemon_config
  dm_token :: string
  dm_machine_token :: "string option"
  dm_journal :: bool
  dm_domain :: bool
  dm_api :: bool
  dm_factory :: "transport_factory option"
  dm_stopped :: bool
  dm_log :: "part_event list"

text \<open>The environment of a start: opening the journal, starting the worker, binding the socket, the
  platform, and the creation of the development directories.\<close>

record start_env =
  se_journal :: "(startup_error, unit) result"
  se_worker :: "(startup_error, unit) result"
  se_socket :: "(startup_error, unit) result"
  se_platform :: string
  se_directories :: "(startup_error, unit) result"

definition durability_monitor_for :: "daemon_config \<Rightarrow> host \<Rightarrow> int \<Rightarrow> (monitor_error, unit) result option" where
  "durability_monitor_for c h clock =
     (if dc_profile c \<noteq> P_production then None
      else Some (production_durability_monitor h (dc_database_path c) clock))"

text \<open>\<open>Daemon.__init__\<close>\<close>

definition make_daemon :: "host \<Rightarrow> daemon_config \<Rightarrow> (startup_error, daemon) result" where
  "make_daemon h c =
     bind_r (of_option ConfigError (dc_service_token_path c)) (\<lambda>path.
     bind_r (read_service_token h path) (\<lambda>token.
     bind_r (optional_token h (dc_machine_service_token_path c)) (\<lambda>machine_token.
       Inr \<lparr> dm_config = c, dm_token = token, dm_machine_token = machine_token, dm_journal = False,
             dm_domain = False, dm_api = False, dm_factory = None, dm_stopped = False, dm_log = [] \<rparr>)))"

text \<open>\<open>close\<close>: an exception of a part is logged and the next one is still stopped.\<close>

definition close_daemon :: "daemon \<Rightarrow> daemon" where
  "close_daemon dm = dm\<lparr> dm_api := False, dm_domain := False, dm_journal := False, dm_stopped := True,
     dm_log := dm_log dm @ (if dm_api dm then [Closed Part_api] else []) @
       (if dm_domain dm then [Closed Part_domain] else []) @
       (if dm_journal dm then [Closed Part_journal] else []) \<rparr>"

fun device_failure :: "device_error \<Rightarrow> startup_error" where
  "device_failure DevicePolicyError = OtherStartupError ''DevicePolicyError''"
| "device_failure DtrGateError = OtherStartupError ''DtrGateError''"

definition with_part :: "part \<Rightarrow> (daemon \<Rightarrow> daemon) \<Rightarrow> daemon \<Rightarrow> daemon" where
  "with_part p f dm = (f dm)\<lparr> dm_log := dm_log dm @ [Opened p] \<rparr>"

text \<open>What follows the journal in \<open>start\<close>; the state is the one \<open>close\<close> finds when a step raises.\<close>

definition start_api :: "api_env \<Rightarrow> start_env \<Rightarrow> daemon \<Rightarrow> (startup_error, unit) result \<times> daemon" where
  "start_api env se dm =
     (case make_api (env\<lparr> ae_token := dm_token dm, ae_machine_token := dm_machine_token dm \<rparr>) of
        Inl _ \<Rightarrow> (Inl (OtherStartupError ''ValueError''), dm)
      | Inr _ \<Rightarrow>
          (case se_socket se of
             Inl e \<Rightarrow> (Inl e, dm)
           | Inr _ \<Rightarrow> (Inr (), with_part Part_api (\<lambda>dm. dm\<lparr> dm_api := True \<rparr>) dm)))"

definition start_domain :: "api_env \<Rightarrow> start_env \<Rightarrow> daemon \<Rightarrow> (startup_error, unit) result \<times> daemon" where
  "start_domain env se dm =
     (case create_transport_factory (dc_backend (dm_config dm)) (dc_device_path (dm_config dm)) (se_platform se) of
        Inl e \<Rightarrow> (Inl (device_failure e), dm)
      | Inr factory \<Rightarrow>
          let dm' = with_part Part_domain (\<lambda>dm. dm\<lparr> dm_domain := True, dm_factory := Some factory \<rparr>) dm in
          (case se_worker se of Inl e \<Rightarrow> (Inl e, dm') | Inr _ \<Rightarrow> start_api env se dm'))"

definition start_daemon :: "api_env \<Rightarrow> start_env \<Rightarrow> daemon \<Rightarrow> (startup_error, unit) result \<times> daemon" where
  "start_daemon env se dm =
     (case se_journal se of
        Inl e \<Rightarrow> (Inl e, dm)
      | Inr _ \<Rightarrow>
          (case start_domain env se (with_part Part_journal (\<lambda>dm. dm\<lparr> dm_journal := True \<rparr>) dm) of
             (Inl e, dm') \<Rightarrow> (Inl e, close_daemon dm')
           | (Inr _, dm') \<Rightarrow> (Inr (), dm')))"

definition request_shutdown :: "daemon \<Rightarrow> daemon" where
  "request_shutdown dm = dm\<lparr> dm_stopped := True \<rparr>"

text \<open>\<open>serve_forever\<close> once shutdown has been requested.\<close>

definition serve_forever :: "daemon \<Rightarrow> daemon" where
  "serve_forever dm = close_daemon dm"

definition prepare_runtime_directories :: "daemon_config \<Rightarrow> start_env \<Rightarrow> (startup_error, unit) result" where
  "prepare_runtime_directories c se = (if dc_backend c = SERIAL then Inr () else se_directories se)"

section \<open>The command line\<close>

text \<open>The two modes with their path, empty when it is omitted.\<close>

datatype cli_mode = Check_config string | Serve string

fun mode_path :: "cli_mode \<Rightarrow> string option" where
  "mode_path (Check_config p) = (if p = [] then None else Some p)"
| "mode_path (Serve p) = (if p = [] then None else Some p)"

fun exit_code :: "startup_error \<Rightarrow> nat" where
  "exit_code ConfigError = 2"
| "exit_code (OtherStartupError e) = 1"

definition serve_daemon :: "api_env \<Rightarrow> start_env \<Rightarrow> host \<Rightarrow> daemon_config \<Rightarrow> nat \<times> daemon option" where
  "serve_daemon env se h c =
     (case bind_r (prepare_runtime_directories c se) (\<lambda>_. make_daemon h c) of
        Inl e \<Rightarrow> (exit_code e, None)
      | Inr dm \<Rightarrow>
          (case start_daemon env se dm of
             (Inl e, dm') \<Rightarrow> (exit_code e, Some dm')
           | (Inr _, dm') \<Rightarrow> (0, Some (serve_forever (request_shutdown dm')))))"

text \<open>\<open>main\<close>: the exit code and the daemon that was built, or the exception that escapes.\<close>

definition daemon_main ::
    "api_env \<Rightarrow> start_env \<Rightarrow> host \<Rightarrow> toml_loads \<Rightarrow> cli_mode \<Rightarrow> (string, nat \<times> daemon option) result" where
  "daemon_main env se h loads mode =
     (case load_daemon_config h loads (mode_path mode) of
        Inl ConfigError \<Rightarrow> Inr (2, None)
      | Inl (OtherStartupError e) \<Rightarrow> Inl e
      | Inr c \<Rightarrow> (case mode of Check_config _ \<Rightarrow> Inr (0, None) | Serve _ \<Rightarrow> Inr (serve_daemon env se h c)))"

section \<open>Starting and stopping\<close>

definition PARTS :: "part list" where
  "PARTS = [Part_journal, Part_domain, Part_api]"

text \<open>The first \<open>n\<close> parts are open and have been opened in order; or they have been released again, in
  reverse.\<close>

definition parts_opened :: "nat \<Rightarrow> daemon \<Rightarrow> bool" where
  "parts_opened n dm = (dm_journal dm = (1 \<le> n) \<and> dm_domain dm = (2 \<le> n) \<and> dm_api dm = (3 \<le> n) \<and>
     dm_log dm = map Opened (take n PARTS))"

definition parts_released :: "nat \<Rightarrow> daemon \<Rightarrow> bool" where
  "parts_released n dm = (\<not> dm_journal dm \<and> \<not> dm_domain dm \<and> \<not> dm_api dm \<and>
     dm_log dm = map Opened (take n PARTS) @ map Closed (rev (take n PARTS)))"

lemma close_opened:
  assumes "parts_opened n dm" "n \<le> 3"
  shows "parts_released n (close_daemon dm)"
proof -
  have "n = 0 \<or> n = 1 \<or> n = 2 \<or> n = 3" using assms(2) by linarith
  then show ?thesis using assms(1) by (auto simp: parts_opened_def parts_released_def close_daemon_def PARTS_def)
qed

lemma open_parts:
  "parts_opened 0 dm \<Longrightarrow> parts_opened 1 (with_part Part_journal (\<lambda>dm. dm\<lparr> dm_journal := True \<rparr>) dm)"
  "parts_opened 1 dm \<Longrightarrow> parts_opened 2 (with_part Part_domain (\<lambda>dm. dm\<lparr> dm_domain := True, dm_factory := f \<rparr>) dm)"
  "parts_opened 2 dm \<Longrightarrow> parts_opened 3 (with_part Part_api (\<lambda>dm. dm\<lparr> dm_api := True \<rparr>) dm)"
  by (auto simp: parts_opened_def with_part_def PARTS_def)

lemma start_api_opens:
  "parts_opened 2 dm \<Longrightarrow> start_api env se dm = (r, dm') \<Longrightarrow> parts_opened (if is_ok r then 3 else 2) dm'"
  by (auto simp: start_api_def is_ok_def open_parts split: sum.splits)

lemma start_domain_opens:
  assumes "parts_opened 1 dm" "start_domain env se dm = (r, dm')"
  shows "\<exists>n\<le>3. parts_opened n dm' \<and> (is_ok r \<longleftrightarrow> n = 3)"
proof (cases "create_transport_factory (dc_backend (dm_config dm)) (dc_device_path (dm_config dm)) (se_platform se)")
  case (Inl e)
  then show ?thesis using assms by (intro exI [of _ 1]) (auto simp: start_domain_def is_ok_def)
next
  case (Inr factory)
  define dm1 where "dm1 = with_part Part_domain (\<lambda>dm. dm\<lparr> dm_domain := True, dm_factory := Some factory \<rparr>) dm"
  have two: "parts_opened 2 dm1" unfolding dm1_def using assms(1) by (rule open_parts)
  have run: "(case se_worker se of Inl e \<Rightarrow> (Inl e, dm1) | Inr _ \<Rightarrow> start_api env se dm1) = (r, dm')"
    unfolding dm1_def using assms(2) Inr by (simp add: start_domain_def Let_def)
  show ?thesis
  proof (cases "se_worker se")
    case (Inl e)
    show ?thesis using run [unfolded Inl] two by (intro exI [of _ 2]) (auto simp: is_ok_def)
  next
    case ok: (Inr u)
    then have "start_api env se dm1 = (r, dm')" using run by simp
    from start_api_opens [OF two this] show ?thesis
      by (intro exI [of _ "if is_ok r then 3 else 2"]) auto
  qed
qed

lemma start_opens:
  assumes "parts_opened 0 dm" "start_daemon env se dm = (r, dm')"
  shows "if is_ok r then parts_opened 3 dm' else \<exists>n\<le>2. parts_released n dm'"
proof (cases "se_journal se")
  case (Inl e)
  then have "parts_released 0 dm'" using assms by (auto simp: start_daemon_def parts_opened_def parts_released_def)
  moreover have "\<not> is_ok r" using assms(2) by (auto simp: start_daemon_def is_ok_def Inl)
  ultimately show ?thesis by auto
next
  case (Inr u)
  define dm1 where "dm1 = with_part Part_journal (\<lambda>dm. dm\<lparr> dm_journal := True \<rparr>) dm"
  have one: "parts_opened 1 dm1" unfolding dm1_def using assms(1) by (rule open_parts)
  obtain q dm2 where q: "start_domain env se dm1 = (q, dm2)" by force
  from start_domain_opens [OF one q] obtain n where n: "n \<le> 3" "parts_opened n dm2" "is_ok q \<longleftrightarrow> n = 3" by blast
  have "r = q \<and> dm' = (if is_ok q then dm2 else close_daemon dm2)"
    using assms(2) Inr q by (auto simp: start_daemon_def dm1_def is_ok_def split: sum.splits)
  then show ?thesis using n close_opened [OF n(2,1)] by (cases "is_ok q") (auto intro!: exI [of _ n])
qed

lemma make_daemon_opened: "make_daemon h c = Inr dm \<Longrightarrow> parts_opened 0 dm \<and> dm_config dm = c"
  by (auto simp: make_daemon_def parts_opened_def elim!: bind_r_InrE)

text \<open>
  The daemon serves with all of its parts or with none. Whatever fails while it starts, the
  process ends with the journal, the worker and the socket released in the reverse of the order in
  which they were opened, and after a shutdown the socket is released first, so that no request
  is admitted while the worker and the journal go.
\<close>

theorem daemon_releases_in_reverse:
  assumes "serve_daemon env se h c = (code, Some dm)"
  shows "\<exists>n\<le>3. dm_log dm = map Opened (take n [Part_journal, Part_domain, Part_api]) @
      map Closed (rev (take n [Part_journal, Part_domain, Part_api])) \<and>
    \<not> dm_journal dm \<and> \<not> dm_domain dm \<and> \<not> dm_api dm \<and> (code = 0 \<longleftrightarrow> n = 3)"
proof -
  obtain dm0 where dm0: "bind_r (prepare_runtime_directories c se) (\<lambda>_. make_daemon h c) = Inr dm0"
    using assms by (auto simp: serve_daemon_def split: sum.splits)
  then have zero: "parts_opened 0 dm0" by (auto elim!: bind_r_InrE dest: make_daemon_opened)
  obtain r dm1 where r: "start_daemon env se dm0 = (r, dm1)" by force
  show ?thesis
  proof (cases r)
    case (Inl e)
    then have dm: "dm = dm1" "code = exit_code e" using assms dm0 r by (auto simp: serve_daemon_def)
    obtain n where n: "n \<le> 2" "parts_released n dm1" using start_opens [OF zero r] Inl by (auto simp: is_ok_def)
    have "exit_code e \<noteq> 0" by (cases e) auto
    with n dm show ?thesis by (intro exI [of _ n]) (auto simp: parts_released_def PARTS_def)
  next
    case (Inr u)
    then have dm: "dm = close_daemon (request_shutdown dm1)" "code = 0"
      using assms dm0 r by (auto simp: serve_daemon_def serve_forever_def)
    have "parts_opened 3 (request_shutdown dm1)"
      using start_opens [OF zero r] Inr by (simp add: is_ok_def parts_opened_def request_shutdown_def)
    from close_opened [OF this] dm show ?thesis by (intro exI [of _ 3]) (auto simp: parts_released_def PARTS_def)
  qed
qed

text \<open>A daemon in the development profile with its token in \<open>/etc/token\<close>, on a host where the socket
  cannot be bound.\<close>

definition token_host :: host where
  "token_host = \<lparr> h_files = (\<lambda>p. if p = ''/etc/token'' then File 416 ''secret'' else No_file), h_free = (\<lambda>_. None),
     h_utf8 = Some, h_json = (\<lambda>_. None), h_iso = (\<lambda>_. None) \<rparr>"

definition unbound_env :: start_env where
  "unbound_env = \<lparr> se_journal = Inr (), se_worker = Inr (), se_socket = Inl (OtherStartupError ''OSError''),
     se_platform = ''linux'', se_directories = Inr () \<rparr>"

definition plain_api :: api_env where
  "plain_api = \<lparr> ae_token = [], ae_machine_token = None, ae_loads = (\<lambda>_. None), ae_str = (\<lambda>_. []),
     ae_rfc3339 = (\<lambda>_. []), ae_uuid = [] \<rparr>"

theorem daemon_releases_in_reverse_witness:
  "\<exists>dm. serve_daemon plain_api unbound_env token_host (daemon_development\<lparr> dc_service_token_path := Some ''/etc/token'' \<rparr>) = (1, Some dm) \<and>
     \<not> dm_journal dm \<and> \<not> dm_domain dm \<and> \<not> dm_api dm"
proof -
  let ?c = "daemon_development\<lparr> dc_service_token_path := Some ''/etc/token'' \<rparr>"
  have "\<exists>dm. serve_daemon plain_api unbound_env token_host ?c = (1, Some dm)"
    by (simp add: serve_daemon_def prepare_runtime_directories_def make_daemon_def read_service_token_def optional_token_def
        start_daemon_def start_domain_def start_api_def make_api_def create_transport_factory_def with_part_def Let_def
        bind_r_def of_option_def daemon_development_def token_host_def unbound_env_def plain_api_def
        strip_def lstrip_def isspace_def ord_def)
  then obtain dm where dm: "serve_daemon plain_api unbound_env token_host ?c = (1, Some dm)" by blast
  from daemon_releases_in_reverse [OF this] dm show ?thesis by blast
qed

lemma serve_factory:
  assumes "serve_daemon env se h c = (code, Some dm)" "se_platform se \<noteq> ''win32''"
  shows "dm_factory dm = None \<or> (dc_backend c = SIMULATOR \<and> dm_factory dm = Some SimulatorFactory)"
    and "dc_backend c = SERIAL \<Longrightarrow> dm_factory dm = None \<and> code \<noteq> 0"
proof -
  obtain dm0 where "bind_r (prepare_runtime_directories c se) (\<lambda>_. make_daemon h c) = Inr dm0"
    and run: "(case start_daemon env se dm0 of
             (Inl e, dm') \<Rightarrow> (exit_code e, Some dm')
           | (Inr _, dm') \<Rightarrow> (0, Some (serve_forever (request_shutdown dm')))) = (code, Some dm)"
    using assms(1) by (auto simp: serve_daemon_def split: sum.splits)
  then have dm0: "dm_config dm0 = c" "dm_factory dm0 = None"
    by (auto simp: make_daemon_def elim!: bind_r_InrE)
  obtain r dm1 where r: "start_daemon env se dm0 = (r, dm1)" by force
  have nonzero: "exit_code e \<noteq> 0" for e by (cases e) auto
  have "dm_factory dm = dm_factory dm1" "code = 0 \<longleftrightarrow> is_ok r"
    using run r nonzero by (auto simp: is_ok_def serve_forever_def close_daemon_def request_shutdown_def split: sum.splits)
  moreover have "if dc_backend c = SIMULATOR then dm_factory dm1 \<in> {None, Some SimulatorFactory}
      else dm_factory dm1 = None \<and> \<not> is_ok r"
    using r dm0 assms(2)
    by (auto simp: start_daemon_def start_domain_def start_api_def create_transport_factory_def with_part_def
        close_daemon_def is_ok_def Let_def split: sum.splits option.splits if_splits)
  ultimately show "dm_factory dm = None \<or> (dc_backend c = SIMULATOR \<and> dm_factory dm = Some SimulatorFactory)"
    and "dc_backend c = SERIAL \<Longrightarrow> dm_factory dm = None \<and> code \<noteq> 0"
    by (auto split: if_splits)
qed

text \<open>
  C38: no daemon started from a configuration file opens a serial port that has not been qualified.
  On every platform but Windows it is given the simulator or nothing, and the production profile,
  which is fixed to \<open>/dev/cs71\<close> and to the production socket, database and token, does not serve
  at all while the qualification is open.
\<close>

theorem only_qualified_ports_are_opened:
  assumes "load_daemon_config h loads path = Inr c" "serve_daemon env se h c = (code, Some dm)"
    and "se_platform se \<noteq> ''win32''"
  shows "dm_factory dm \<in> {None, Some SimulatorFactory} \<and>
    (if dc_profile c = P_production
     then dm_factory dm = None \<and> code \<noteq> 0 \<and> dc_device_path c = Some ''/dev/cs71'' \<and>
       dc_socket_path c = ''/run/cs71/cs71d.sock'' \<and> dc_database_path c = ''/var/lib/cs71d/machine.db''
     else dc_device_path c = None)"
proof -
  have ok: "daemon_config_ok c" using assms(1) by (rule load_daemon_config_ok)
  show ?thesis
  proof (cases "dc_profile c = P_production")
    case True
    then have "dc_backend c = SERIAL" "dc_device_path c = Some ''/dev/cs71''" "dc_socket_path c = ''/run/cs71/cs71d.sock''"
      "dc_database_path c = ''/var/lib/cs71d/machine.db''"
      using ok unfolding daemon_config_ok_def PRODUCTION_DEVICE_PATH_def PRODUCTION_SOCKET_PATH_def PRODUCTION_DATABASE_PATH_def
      by (metis daemon_config.select_convs)+
    then show ?thesis using True serve_factory(2) [OF assms(2,3)] by simp
  next
    case False
    then have "dc_backend c = SIMULATOR" using ok by (cases "dc_backend c") (auto simp: daemon_config_ok_def)
    then show ?thesis using False ok serve_factory(1) [OF assms(2,3)] by (auto simp: daemon_config_ok_def)
  qed
qed

definition production_table :: toml_table where
  "production_table = [(''profile'', TStr ''production''), (''backend'', TStr ''serial''), (''device_path'', TStr ''/dev/cs71''),
     (''socket_path'', TStr ''/run/cs71/cs71d.sock''), (''database_path'', TStr ''/var/lib/cs71d/machine.db''),
     (''service_token_path'', TStr ''/etc/cs71d/service-token'')]"

definition production_host :: host where
  "production_host = token_host\<lparr> h_files := (\<lambda>p. File 416 ''secret'') \<rparr>"

definition production_config :: daemon_config where
  "production_config = \<lparr> dc_profile = P_production, dc_backend = SERIAL, dc_device_path = Some ''/dev/cs71'',
     dc_socket_path = ''/run/cs71/cs71d.sock'', dc_database_path = ''/var/lib/cs71d/machine.db'',
     dc_service_token_path = Some ''/etc/cs71d/service-token'', dc_machine_service_token_path = None \<rparr>"

theorem only_qualified_ports_are_opened_witness:
  "\<exists>dm. serve_daemon plain_api unbound_env production_host production_config = (1, Some dm) \<and> dm_factory dm = None"
proof -
  have load: "load_daemon_config production_host (\<lambda>_. Inr [(''daemon'', TTable production_table)]) (Some ''cs71d.toml'') =
      Inr production_config"
    by (simp add: load_daemon_config_def load_document_def only_table_def daemon_from_mapping_def only_known_fields_def
        DAEMON_ALLOWED_FIELDS_def required_string_def optional_string_def enum_value_def PROFILES_def BACKENDS_def
        daemon_rules_def production_table_def production_host_def require_def bind_r_def of_option_def Let_def
        PRODUCTION_DEVICE_PATH_def PRODUCTION_SOCKET_PATH_def PRODUCTION_DATABASE_PATH_def PRODUCTION_SERVICE_TOKEN_PATH_def
        production_config_def)
  have "\<exists>dm. serve_daemon plain_api unbound_env production_host production_config = (1, Some dm)"
    by (simp add: serve_daemon_def prepare_runtime_directories_def make_daemon_def read_service_token_def optional_token_def
        start_daemon_def start_domain_def create_transport_factory_def token_host_def unbound_env_def production_host_def
        production_config_def bind_r_def of_option_def Let_def with_part_def strip_def lstrip_def isspace_def ord_def)
  then obtain dm where dm: "serve_daemon plain_api unbound_env production_host production_config = (1, Some dm)" by blast
  have "se_platform unbound_env \<noteq> ''win32''" "dc_profile production_config = P_production"
    by (simp_all add: unbound_env_def production_config_def)
  with only_qualified_ports_are_opened [OF load dm] dm show ?thesis by simp
qed

text \<open>
  Serving the development defaults, which the command line offers when no path is given, is always
  refused: the defaults name no token file, so the process ends with an error code whatever the
  host answers.
\<close>

theorem serving_defaults_is_refused:
  "\<exists>code. daemon_main env se h loads (Serve []) = Inr (code, None) \<and> code \<in> {1, 2}"
proof -
  have "make_daemon h daemon_development = Inl ConfigError"
    by (simp add: make_daemon_def daemon_development_def bind_r_def of_option_def)
  moreover have "exit_code e \<in> {1, 2}" for e by (cases e) auto
  ultimately show ?thesis
    by (auto simp: daemon_main_def load_daemon_config_def serve_daemon_def bind_r_def split: sum.splits)
qed

end
