(* ===== verification/Vision_Settings.thy ===== *)
theory Vision_Settings
  imports Settings Vision
begin

text \<open>
  The configuration file of the vision service (\<open>config.py\<close> of \<open>cs71vision\<close>): its fields, the rules of the
  profiles, the thresholds of the autonomy policy, and what holds of every configuration that is accepted.
\<close>

section \<open>The configuration\<close>

datatype vision_backend = FIXTURE | V4L2

definition VISION_BACKENDS :: "(string \<times> vision_backend) list" where
  "VISION_BACKENDS = [(''fixture'', FIXTURE), (''v4l2'', V4L2)]"

definition VISION_DEVICE_PATH :: string where "VISION_DEVICE_PATH = ''/dev/cs71vision''"
definition VISION_DAEMON_SOCKET_PATH :: string where "VISION_DAEMON_SOCKET_PATH = ''/run/cs71/cs71d.sock''"
definition VISION_DAEMON_TOKEN_PATH :: string where "VISION_DAEMON_TOKEN_PATH = ''/etc/cs71-vision/service-token''"
definition VISION_MACHINE_TOKEN_PATH :: string where "VISION_MACHINE_TOKEN_PATH = ''/etc/cs71-vision/machine-service-token''"
definition VISION_DATASET_PATH :: string where "VISION_DATASET_PATH = ''/var/lib/cs71-vision/vision.db''"
definition VISION_API_SOCKET_PATH :: string where "VISION_API_SOCKET_PATH = ''/run/cs71-vision/cs71vision.sock''"
definition DEVELOPMENT_DAEMON_SOCKET_PATH :: string where "DEVELOPMENT_DAEMON_SOCKET_PATH = ''/tmp/cs71/cs71d.sock''"
definition DEVELOPMENT_DATASET_PATH :: string where "DEVELOPMENT_DATASET_PATH = ''/tmp/cs71-vision/vision.db''"
definition DEVELOPMENT_API_SOCKET_PATH :: string where "DEVELOPMENT_API_SOCKET_PATH = ''/tmp/cs71-vision/cs71vision.sock''"

definition VISION_ALLOWED_FIELDS :: "string list" where
  "VISION_ALLOWED_FIELDS = [''profile'', ''backend'', ''device_path'', ''capture_interval_ms'', ''frame_width'', ''frame_height'',
     ''daemon_socket_path'', ''daemon_service_token_path'', ''dataset_path'', ''api_socket_path'',
     ''minimum_examples_per_class'', ''machine_service_token_path'', ''autonomy_thresholds'']"

definition DEFAULT_INTERVAL_MS :: int where "DEFAULT_INTERVAL_MS = 1000"
definition DEFAULT_WIDTH :: int where "DEFAULT_WIDTH = 640"
definition DEFAULT_HEIGHT :: int where "DEFAULT_HEIGHT = 480"
definition DEFAULT_MINIMUM_EXAMPLES_PER_CLASS :: int where "DEFAULT_MINIMUM_EXAMPLES_PER_CLASS = 40"

record vision_config =
  vc_profile :: profile
  vc_backend :: vision_backend
  vc_device_path :: "string option"
  vc_capture_interval_ms :: int
  vc_frame_width :: int
  vc_frame_height :: int
  vc_daemon_socket_path :: string
  vc_dataset_path :: string
  vc_daemon_service_token_path :: "string option"
  vc_api_socket_path :: string
  vc_minimum_examples_per_class :: int
  vc_machine_service_token_path :: "string option"
  vc_autonomy_thresholds :: thresholds

definition vision_development :: vision_config where
  "vision_development = \<lparr> vc_profile = P_development, vc_backend = FIXTURE, vc_device_path = None,
     vc_capture_interval_ms = DEFAULT_INTERVAL_MS, vc_frame_width = DEFAULT_WIDTH, vc_frame_height = DEFAULT_HEIGHT,
     vc_daemon_socket_path = DEVELOPMENT_DAEMON_SOCKET_PATH, vc_dataset_path = DEVELOPMENT_DATASET_PATH,
     vc_daemon_service_token_path = None, vc_api_socket_path = DEVELOPMENT_API_SOCKET_PATH,
     vc_minimum_examples_per_class = DEFAULT_MINIMUM_EXAMPLES_PER_CLASS, vc_machine_service_token_path = None,
     vc_autonomy_thresholds = [] \<rparr>"

definition positive_int :: "toml_table \<Rightarrow> string \<Rightarrow> int \<Rightarrow> (startup_error, int) result" where
  "positive_int raw name fallback =
     (case map_of raw name of
        None \<Rightarrow> if fallback \<le> 0 then Inl ConfigError else Inr fallback
      | Some (TInt v) \<Rightarrow> if v \<le> 0 then Inl ConfigError else Inr v
      | _ \<Rightarrow> Inl ConfigError)"

definition default_string :: "toml_table \<Rightarrow> string \<Rightarrow> string \<Rightarrow> (startup_error, string) result" where
  "default_string raw name fallback =
     (case map_of raw name of
        None \<Rightarrow> if fallback = [] then Inl ConfigError else Inr fallback
      | Some (TStr v) \<Rightarrow> if v = [] then Inl ConfigError else Inr v
      | _ \<Rightarrow> Inl ConfigError)"

definition VISION_MAX_SLOT :: int where
  "VISION_MAX_SLOT = 63"

fun threshold_slot :: "toml \<Rightarrow> (startup_error, int) result" where
  "threshold_slot (TInt slot) = (if 0 \<le> slot \<and> slot \<le> VISION_MAX_SLOT then Inr slot else Inl ConfigError)"
| "threshold_slot _ = Inl ConfigError"

definition threshold_range :: "rat \<Rightarrow> (startup_error, rat) result" where
  "threshold_range r = (if 0 < r \<and> r \<le> 1 then Inr r else Inl ConfigError)"

fun threshold_value :: "toml \<Rightarrow> (startup_error, rat) result" where
  "threshold_value (TInt i) = threshold_range (of_int i)"
| "threshold_value (TFloat r) = threshold_range r"
| "threshold_value _ = Inl ConfigError"

definition threshold_entry :: "toml \<Rightarrow> thresholds \<Rightarrow> (startup_error, thresholds) result" where
  "threshold_entry entry acc =
     (case entry of
        TTable m \<Rightarrow>
          (case (map_of m ''slot'', map_of m ''threshold'') of
             (Some s, Some v) \<Rightarrow>
               if \<not> list_all (\<lambda>e. fst e \<in> {''slot'', ''threshold''}) m then Inl ConfigError
               else bind_r (threshold_slot s) (\<lambda>slot.
                    if slot \<in> set (map fst acc) then Inl ConfigError
                    else bind_r (threshold_value v) (\<lambda>r. Inr (acc @ [(slot, r)])))
           | _ \<Rightarrow> Inl ConfigError)
      | _ \<Rightarrow> Inl ConfigError)"

fun threshold_entries :: "toml list \<Rightarrow> thresholds \<Rightarrow> (startup_error, thresholds) result" where
  "threshold_entries [] acc = Inr acc"
| "threshold_entries (e # es) acc = bind_r (threshold_entry e acc) (threshold_entries es)"

definition autonomy_thresholds :: "toml_table \<Rightarrow> (startup_error, thresholds) result" where
  "autonomy_thresholds raw =
     (case map_of raw ''autonomy_thresholds'' of
        None \<Rightarrow> Inr []
      | Some (TList entries) \<Rightarrow> threshold_entries entries []
      | _ \<Rightarrow> Inl ConfigError)"

definition vision_rules :: "vision_config \<Rightarrow> (startup_error, unit) result" where
  "vision_rules c =
     (if vc_backend c = FIXTURE \<and> vc_device_path c \<noteq> None then Inl ConfigError
      else if vc_profile c = P_production then
        (if vc_backend c \<noteq> V4L2 then Inl ConfigError
         else if vc_device_path c \<noteq> Some VISION_DEVICE_PATH then Inl ConfigError
         else if vc_daemon_socket_path c \<noteq> VISION_DAEMON_SOCKET_PATH then Inl ConfigError
         else if vc_dataset_path c \<noteq> VISION_DATASET_PATH then Inl ConfigError
         else if vc_daemon_service_token_path c \<noteq> Some VISION_DAEMON_TOKEN_PATH then Inl ConfigError
         else if vc_api_socket_path c \<noteq> VISION_API_SOCKET_PATH then Inl ConfigError
         else if vc_machine_service_token_path c \<noteq> None \<and>
           vc_machine_service_token_path c \<noteq> Some VISION_MACHINE_TOKEN_PATH then Inl ConfigError
         else Inr ())
      else if vc_backend c = V4L2 then Inl ConfigError
      else Inr ())"

definition vision_from_mapping :: "toml_table \<Rightarrow> (startup_error, vision_config) result" where
  "vision_from_mapping raw =
     bind_r (only_known_fields VISION_ALLOWED_FIELDS raw) (\<lambda>_.
     bind_r (bind_r (required_string raw ''profile'') (enum_value PROFILES)) (\<lambda>cfg_profile.
     bind_r (bind_r (required_string raw ''backend'') (enum_value VISION_BACKENDS)) (\<lambda>cfg_backend.
     bind_r (optional_string raw ''device_path'') (\<lambda>device_path.
     bind_r (positive_int raw ''capture_interval_ms'' DEFAULT_INTERVAL_MS) (\<lambda>capture_interval_ms.
     bind_r (positive_int raw ''frame_width'' DEFAULT_WIDTH) (\<lambda>frame_width.
     bind_r (positive_int raw ''frame_height'' DEFAULT_HEIGHT) (\<lambda>frame_height.
     bind_r (default_string raw ''daemon_socket_path'' DEVELOPMENT_DAEMON_SOCKET_PATH) (\<lambda>daemon_socket_path.
     bind_r (default_string raw ''dataset_path'' DEVELOPMENT_DATASET_PATH) (\<lambda>dataset_path.
     bind_r (optional_string raw ''daemon_service_token_path'') (\<lambda>daemon_service_token_path.
     bind_r (default_string raw ''api_socket_path'' DEVELOPMENT_API_SOCKET_PATH) (\<lambda>api_socket_path.
     bind_r (positive_int raw ''minimum_examples_per_class'' DEFAULT_MINIMUM_EXAMPLES_PER_CLASS) (\<lambda>minimum.
     bind_r (optional_string raw ''machine_service_token_path'') (\<lambda>machine_service_token_path.
     bind_r (autonomy_thresholds raw) (\<lambda>thr.
     let c = \<lparr> vc_profile = cfg_profile, vc_backend = cfg_backend, vc_device_path = device_path,
               vc_capture_interval_ms = capture_interval_ms, vc_frame_width = frame_width,
               vc_frame_height = frame_height, vc_daemon_socket_path = daemon_socket_path,
               vc_dataset_path = dataset_path, vc_daemon_service_token_path = daemon_service_token_path,
               vc_api_socket_path = api_socket_path, vc_minimum_examples_per_class = minimum,
               vc_machine_service_token_path = machine_service_token_path, vc_autonomy_thresholds = thr \<rparr>
     in bind_r (vision_rules c) (\<lambda>_. Inr c)))))))))))))))"

definition load_vision_config :: "host \<Rightarrow> toml_loads \<Rightarrow> string option \<Rightarrow> (startup_error, vision_config) result" where
  "load_vision_config h loads path =
     (case path of
        None \<Rightarrow> Inr vision_development
      | Some p \<Rightarrow> bind_r (load_document h loads p) (\<lambda>document.
          bind_r (only_table ''vision'' document) vision_from_mapping))"

section \<open>What an accepted configuration is\<close>

definition thresholds_ok :: "thresholds \<Rightarrow> bool" where
  "thresholds_ok thr = (distinct (map fst thr) \<and> list_all (\<lambda>(slot, r). 0 \<le> slot \<and> slot \<le> 63 \<and> 0 < r \<and> r \<le> 1) thr)"

lemma threshold_slot_ok: "threshold_slot s = Inr slot \<Longrightarrow> 0 \<le> slot \<and> slot \<le> 63"
  by (cases s) (auto simp: VISION_MAX_SLOT_def split: if_splits)

lemma threshold_value_ok: "threshold_value v = Inr r \<Longrightarrow> 0 < r \<and> r \<le> 1"
  by (cases v) (auto simp: threshold_range_def split: if_splits)

lemma threshold_entry_ok:
  assumes "threshold_entry e acc = Inr thr" "thresholds_ok acc"
  shows "thresholds_ok thr"
proof -
  obtain slot r where "thr = acc @ [(slot, r)]" "slot \<notin> set (map fst acc)" "0 \<le> slot" "slot \<le> 63" "0 < r" "r \<le> 1"
    using assms(1)
    by (auto simp: threshold_entry_def bind_r_def split: toml.splits option.splits if_splits sum.splits
        dest!: threshold_slot_ok threshold_value_ok)
  then show ?thesis using assms(2) by (simp add: thresholds_ok_def)
qed

lemma threshold_entries_ok: "threshold_entries es acc = Inr thr \<Longrightarrow> thresholds_ok acc \<Longrightarrow> thresholds_ok thr"
  by (induction es acc rule: threshold_entries.induct)
     (auto elim!: bind_r_InrE dest: threshold_entry_ok)

lemma autonomy_thresholds_ok: "autonomy_thresholds raw = Inr thr \<Longrightarrow> thresholds_ok thr"
  by (auto simp: autonomy_thresholds_def thresholds_ok_def [of "[]"] split: option.splits toml.splits
      dest: threshold_entries_ok)

lemma positive_int_ok: "positive_int raw n d = Inr v \<Longrightarrow> 0 < v"
  by (auto simp: positive_int_def split: option.splits toml.splits if_splits)

definition vision_config_ok :: "vision_config \<Rightarrow> bool" where
  "vision_config_ok c = (thresholds_ok (vc_autonomy_thresholds c) \<and> 0 < vc_capture_interval_ms c \<and>
     0 < vc_minimum_examples_per_class c \<and> 0 < vc_frame_width c \<and> 0 < vc_frame_height c \<and> vision_rules c = Inr ())"

lemma vision_from_mapping_ok: "vision_from_mapping raw = Inr c \<Longrightarrow> vision_config_ok c"
  unfolding vision_from_mapping_def Let_def
  by (elim bind_r_InrE) (auto simp: vision_config_ok_def dest: autonomy_thresholds_ok positive_int_ok)

lemma load_vision_config_ok: "load_vision_config h loads path = Inr c \<Longrightarrow> vision_config_ok c"
proof -
  have "vision_config_ok vision_development"
    by (simp add: vision_config_ok_def vision_development_def thresholds_ok_def vision_rules_def DEFAULT_INTERVAL_MS_def
        DEFAULT_WIDTH_def DEFAULT_HEIGHT_def DEFAULT_MINIMUM_EXAMPLES_PER_CLASS_def)
  then show "load_vision_config h loads path = Inr c \<Longrightarrow> ?thesis"
    by (auto simp: load_vision_config_def split: option.splits elim!: bind_r_InrE dest: vision_from_mapping_ok)
qed

end
