(* ===== verification/Training.thy ===== *)
theory Training
  imports Vision "HOL-Library.Multiset"
begin

text \<open>
  Training of a candidate (\<open>training.py\<close>): the floor of examples per class, the split of each class
  into held-out and training examples, and the measured accuracy. OpenCV, scikit-learn, \<open>pickle\<close>
  and the generator of \<open>random\<close> are the parameter \<open>training_libs\<close>: a decoded gray image and its
  rows of pixels at a given size, the fitted model, its predictions and its bytes, and the
  permutation of the k-th call of \<open>shuffle\<close> on a generator with the given seed. Fractions and pixel
  intensities are rationals; for the default of one fifth no product is near a tie, so rounding the
  float product gives the same count.
\<close>

section \<open>The model\<close>

type_synonym features = "rat list"

record ('i, 'm) training_libs =
  tl_imdecode :: "bytes \<Rightarrow> 'i option"
  tl_resize :: "nat \<Rightarrow> 'i \<Rightarrow> nat list list"
  tl_shuffle :: "nat \<Rightarrow> dataset_example list \<Rightarrow> dataset_example list"
  tl_fit :: "features list \<Rightarrow> int list \<Rightarrow> 'm"
  tl_predict :: "'m \<Rightarrow> features list \<Rightarrow> int list"
  tl_dumps :: "'m \<Rightarrow> bytes"

definition FEATURE_SIZE :: nat where
  "FEATURE_SIZE = 32"

definition extract_features :: "('i, 'm) training_libs \<Rightarrow> bytes \<Rightarrow> (vision_error, features) result" where
  "extract_features libs frame_png =
     bind_r (of_option (OtherVisionError ''FeatureError'') (tl_imdecode libs frame_png)) (\<lambda>decoded.
       Inr (map (\<lambda>pixel. of_nat pixel / 255) (concat (tl_resize libs FEATURE_SIZE decoded))))"

definition DEFAULT_HOLDOUT_FRACTION :: rat where
  "DEFAULT_HOLDOUT_FRACTION = 1/5"

text \<open>\<open>round(x)\<close>: ties go to the even neighbour.\<close>

definition py_round :: "rat \<Rightarrow> int" where
  "py_round x = (let f = floor x; d = x - of_int f in
     if d < 1/2 then f else if d > 1/2 then f + 1 else if even f then f else f + 1)"

definition holdout_count :: "rat \<Rightarrow> nat \<Rightarrow> nat" where
  "holdout_count fraction n =
     min (if n > 1 then nat (max 1 (py_round (of_nat n * fraction))) else 0) (n - 1)"

definition of_class :: "dataset_example list \<Rightarrow> int \<Rightarrow> dataset_example list" where
  "of_class xs slot = filter (\<lambda>e. de_slot e = slot) xs"

definition slots_of :: "dataset_example list \<Rightarrow> int list" where
  "slots_of xs = sort (remdups (map de_slot xs))"

definition included_slots :: "int \<Rightarrow> dataset_example list \<Rightarrow> int list" where
  "included_slots minimum xs = filter (\<lambda>s. int (length (of_class xs s)) \<ge> minimum) (slots_of xs)"

definition excluded_slots :: "int \<Rightarrow> dataset_example list \<Rightarrow> int list" where
  "excluded_slots minimum xs = filter (\<lambda>s. s \<notin> set (included_slots minimum xs)) (slots_of xs)"

text \<open>The held-out and the training examples of a class, the k-th that is shuffled.\<close>

definition class_split ::
    "('i, 'm) training_libs \<Rightarrow> rat \<Rightarrow> dataset_example list \<Rightarrow> nat \<Rightarrow> int \<Rightarrow> dataset_example list \<times> dataset_example list" where
  "class_split libs fraction xs k slot =
     (let items = tl_shuffle libs k (of_class xs slot); n = holdout_count fraction (length items)
      in (take n items, drop n items))"

definition class_splits ::
    "('i, 'm) training_libs \<Rightarrow> rat \<Rightarrow> dataset_example list \<Rightarrow> int list
       \<Rightarrow> (int \<times> dataset_example list \<times> dataset_example list) list" where
  "class_splits libs fraction xs slots =
     map (\<lambda>(k, slot). (slot, class_split libs fraction xs k slot)) (enumerate 0 slots)"

fun features_of :: "('i, 'm) training_libs \<Rightarrow> dataset_example list \<Rightarrow> (vision_error, features list) result" where
  "features_of libs [] = Inr []"
| "features_of libs (e # es) =
     bind_r (extract_features libs (de_frame_png e)) (\<lambda>f.
     bind_r (features_of libs es) (\<lambda>fs. Inr (f # fs)))"

definition class_accuracy :: "('i, 'm) training_libs \<Rightarrow> 'm \<Rightarrow> int \<Rightarrow> features list \<Rightarrow> rat" where
  "class_accuracy libs classifier slot features =
     of_nat (length (filter (\<lambda>(p, l). p = l) (zip (tl_predict libs classifier features) (replicate (length features) slot))))
       / of_nat (length features)"

text \<open>The loop over \<open>holdout_by_slot\<close>, which has the classes with a held-out example.\<close>

fun accuracies ::
    "('i, 'm) training_libs \<Rightarrow> 'm \<Rightarrow> (int \<times> dataset_example list \<times> dataset_example list) list
       \<Rightarrow> (vision_error, (int \<times> rat) list) result" where
  "accuracies libs classifier [] = Inr []"
| "accuracies libs classifier ((slot, held, trained) # rest) =
     bind_r (features_of libs held) (\<lambda>fs.
     bind_r (accuracies libs classifier rest) (\<lambda>more.
       Inr (if held = [] then more else (slot, class_accuracy libs classifier slot fs) # more)))"

definition train_candidate ::
    "('i, 'm) training_libs \<Rightarrow> int \<Rightarrow> rat \<Rightarrow> dataset_example list \<Rightarrow> (vision_error, trained_candidate) result" where
  "train_candidate libs minimum fraction xs =
     (if \<not> (0 < fraction \<and> fraction < 1) then Inl (OtherVisionError ''ValueError'')
      else if length (included_slots minimum xs) < 2 then Inl TrainingError
      else
        let splits = class_splits libs fraction xs (included_slots minimum xs);
            labels = concat (map (\<lambda>(slot, held, trained). map (\<lambda>_. slot) trained) splits)
        in bind_r (features_of libs (concat (map (snd \<circ> snd) splits))) (\<lambda>features.
           let classifier = tl_fit libs features labels
           in bind_r (accuracies libs classifier splits) (\<lambda>accuracy.
              Inr \<lparr> tc_model_blob = tl_dumps libs classifier,
                    tc_included_classes = included_slots minimum xs,
                    tc_excluded_classes = excluded_slots minimum xs,
                    tc_accuracy_by_class = accuracy,
                    tc_minimum_examples_per_class = minimum,
                    tc_training_example_count = int (length labels),
                    tc_holdout_example_count = int (sum_list (map (length \<circ> fst \<circ> snd) splits)) \<rparr>)))"

section \<open>The split\<close>

lemma holdout_leaves_one: "0 < n \<Longrightarrow> holdout_count fraction n < n"
  by (auto simp: holdout_count_def)

lemma holdout_of_two: "1 < n \<Longrightarrow> 1 \<le> holdout_count fraction n"
  by (auto simp: holdout_count_def)

lemma holdout_of_one: "n \<le> 1 \<Longrightarrow> holdout_count fraction n = 0"
  by (auto simp: holdout_count_def)

lemma class_split_parts:
  assumes "class_split libs fraction xs k slot = (held, trained)"
    and "\<And>k es. mset (tl_shuffle libs k es) = mset es" "of_class xs slot \<noteq> []"
  shows "mset held + mset trained = mset (of_class xs slot)" "trained \<noteq> []"
    "held \<noteq> [] \<longleftrightarrow> 1 < length (of_class xs slot)"
proof -
  let ?items = "tl_shuffle libs k (of_class xs slot)"
  have len: "length ?items = length (of_class xs slot)" using assms(2) mset_eq_length by blast
  have parts: "held = take (holdout_count fraction (length ?items)) ?items"
    "trained = drop (holdout_count fraction (length ?items)) ?items"
    using assms(1) by (simp_all add: class_split_def Let_def)
  have "mset held + mset trained = mset ?items"
    unfolding parts by (simp flip: mset_append)
  then show "mset held + mset trained = mset (of_class xs slot)" using assms(2) by simp
  have "0 < length ?items" using len assms(3) by simp
  from holdout_leaves_one [OF this, of fraction] show "trained \<noteq> []" unfolding parts by simp
  show "held \<noteq> [] \<longleftrightarrow> 1 < length (of_class xs slot)"
    unfolding parts using len holdout_of_two [of "length ?items" fraction] holdout_of_one [of "length ?items" fraction]
      \<open>0 < length ?items\<close> by (cases "1 < length ?items") auto
qed

lemma included_class: "slot \<in> set (included_slots minimum xs) \<Longrightarrow> of_class xs slot \<noteq> []"
  by (auto simp: included_slots_def slots_of_def of_class_def filter_empty_conv)

lemma class_splits_mem:
  assumes "(slot, held, trained) \<in> set (class_splits libs fraction xs slots)"
  shows "slot \<in> set slots \<and> (\<exists>k. class_split libs fraction xs k slot = (held, trained))"
  using assms by (auto simp: class_splits_def in_set_enumerate_eq intro: nth_mem)

lemma class_splits_slots: "map fst (class_splits libs fraction xs slots) = slots"
  by (simp add: class_splits_def comp_def case_prod_unfold flip: map_map [of snd fst])

lemma class_accuracy_bounds: "0 \<le> class_accuracy libs m slot fs \<and> class_accuracy libs m slot fs \<le> 1"
proof (cases "fs = []")
  case False
  let ?z = "zip (tl_predict libs m fs) (replicate (length fs) slot)"
  have "length (filter (\<lambda>(p, l). p = l) ?z) \<le> length fs"
    by (rule order_trans [OF length_filter_le]) simp
  then have "rat_of_nat (length (filter (\<lambda>(p, l). p = l) ?z)) \<le> of_nat (length fs)" by (simp only: of_nat_le_iff)
  with False show ?thesis by (simp add: class_accuracy_def divide_le_eq_1)
qed (simp add: class_accuracy_def)

lemma accuracies_entries:
  "accuracies libs m splits = Inr acc \<Longrightarrow> map fst acc = map fst (filter (\<lambda>s. fst (snd s) \<noteq> []) splits) \<and>
    list_all (\<lambda>(s, a). 0 \<le> a \<and> a \<le> 1) acc"
  by (induction libs m splits arbitrary: acc rule: accuracies.induct)
     (auto simp: bind_r_def class_accuracy_bounds split: sum.splits)

lemma sum_split_lengths:
  assumes "\<And>slot held trained. (slot, held, trained) \<in> set splits \<Longrightarrow> length held + length trained = size_of slot"
  shows "sum_list (map (length \<circ> fst \<circ> snd) splits) +
      length (concat (map (\<lambda>(slot, held, trained). map (\<lambda>_. slot) trained) splits)) = sum_list (map size_of (map fst splits))"
  using assms
proof (induction splits)
  case (Cons s splits)
  obtain slot held trained where s: "s = (slot, held, trained)" by (cases s)
  have "length held + length trained = size_of slot" using Cons.prems s by simp
  with Cons s show ?case by (simp add: add.assoc add.left_commute)
qed simp


definition demo_training :: "(unit, unit) training_libs" where
  "demo_training = \<lparr> tl_imdecode = (\<lambda>_. Some ()), tl_resize = (\<lambda>_ _. [[255]]), tl_shuffle = (\<lambda>_. rev), tl_fit = (\<lambda>_ _. ()),
     tl_predict = (\<lambda>_ fs. map (\<lambda>_. 3) fs), tl_dumps = (\<lambda>_. [1]) \<rparr>"

definition demo_examples :: "dataset_example list" where
  "demo_examples = map (\<lambda>s. \<lparr> de_slot = s, de_frame_png = [] \<rparr>) [3, 3, 5, 5, 5, 7]"


end
