(* ===== verification/Vision_Runtime.thy ===== *)
theory Vision_Runtime
  imports Vision_Settings Training Vision_Service Daemon_Client Daemon_Runtime
begin

text \<open>
  The cameras (\<open>camera.py\<close>), the assembly of the vision service from its configuration (the
  \<open>build_...\<close> functions of \<open>runtime.py\<close>), the start and the close of its loops and of its server, and
  the command line (\<open>cli.py\<close>). Opening a device, a store or a socket is the parameter \<open>be\<close>, a
  success or an exception for each of them; the trace lists what was acquired and released. What the
  loops do on their turns is in \<open>Vision_Service\<close>.
\<close>

section \<open>Cameras\<close>

record fixture_camera =
  fc_width :: int
  fc_height :: int
  fc_frame_count :: nat
  fc_closed :: bool

datatype camera_error = CameraError

definition make_fixture_camera :: "int \<Rightarrow> int \<Rightarrow> (camera_error, fixture_camera) result" where
  "make_fixture_camera width height =
     (if width \<le> 0 \<or> height \<le> 0 then Inl CameraError
      else Inr \<lparr> fc_width = width, fc_height = height, fc_frame_count = 0, fc_closed = False \<rparr>)"

text \<open>\<open>imencode w h v\<close> is the PNG of a plain image of value \<open>v\<close>, \<open>None\<close> when OpenCV fails.\<close>

definition fixture_read ::
    "(int \<Rightarrow> int \<Rightarrow> nat \<Rightarrow> bytes option) \<Rightarrow> int \<Rightarrow> fixture_camera \<Rightarrow> (camera_error, frame) result \<times> fixture_camera" where
  "fixture_read imencode clock cam =
     (if fc_closed cam then (Inl CameraError, cam)
      else let cam' = cam\<lparr> fc_frame_count := fc_frame_count cam + 1 \<rparr> in
        (case imencode (fc_width cam) (fc_height cam) (fc_frame_count cam' mod 256) of
           None \<Rightarrow> (Inl CameraError, cam')
         | Some png \<Rightarrow> (Inr \<lparr> fr_png = png, fr_width = fc_width cam, fr_height = fc_height cam,
                               fr_captured_at = Aware clock \<rparr>, cam')))"

definition fixture_close :: "fixture_camera \<Rightarrow> fixture_camera" where
  "fixture_close cam = cam\<lparr> fc_closed := True \<rparr>"

text \<open>One read of a device: the image and its size, and the encoded image.\<close>

definition v4l2_read ::
    "('i \<times> int \<times> int) option \<Rightarrow> ('i \<Rightarrow> bytes option) \<Rightarrow> int \<Rightarrow> (camera_error, frame) result" where
  "v4l2_read captured imencode clock =
     (case captured of
        None \<Rightarrow> Inl CameraError
      | Some (picture, height, width) \<Rightarrow>
          (case imencode picture of
             None \<Rightarrow> Inl CameraError
           | Some png \<Rightarrow> Inr \<lparr> fr_png = png, fr_width = width, fr_height = height, fr_captured_at = Aware clock \<rparr>))"

text \<open>The turn of the capture loop: a frame for the buffer, or nothing.\<close>

definition capture_turn :: "(camera_error, frame) result \<Rightarrow> int vtask" where
  "capture_turn r = (case r of Inl _ \<Rightarrow> Ret 0 | Inr f \<Rightarrow> capture_once f)"

lemma fixture_frames_are_aware: "fixture_read imencode clock cam = (Inr f, cam') \<Longrightarrow> fr_captured_at f = Aware clock"
  by (auto simp: fixture_read_def Let_def split: if_splits option.splits)

lemma v4l2_frames_are_aware: "v4l2_read captured imencode clock = Inr f \<Longrightarrow> fr_captured_at f = Aware clock"
  by (auto simp: v4l2_read_def split: option.splits)

text \<open>Either camera makes the capture thread run a job of the service.\<close>

lemma capture_turn_is_a_job:
  assumes "fst (fixture_read imencode clock cam) = Inr f \<or> v4l2_read captured imencode' clock = Inr f"
  shows "vision_job libs router trainer thr T_capture (capture_turn (Inr f))"
  using assms fixture_frames_are_aware [of imencode clock cam f] v4l2_frames_are_aware [of captured imencode' clock f]
  by (auto simp: capture_turn_def prod_eq_iff intro!: vision_job.intros)

section \<open>Assembly\<close>

datatype resource = R_camera | R_store vision_handle | R_socket

datatype resource_event = Acquired resource | Released resource

type_synonym 'a build = "resource_event list \<Rightarrow> (startup_error, 'a) result \<times> resource_event list"

type_synonym build_env = "resource \<Rightarrow> (startup_error, unit) result"

definition breturn :: "'a \<Rightarrow> 'a build" where
  "breturn x trace = (Inr x, trace)"

definition bbind :: "'a build \<Rightarrow> ('a \<Rightarrow> 'b build) \<Rightarrow> 'b build" where
  "bbind m k trace = (case m trace of (Inl e, trace') \<Rightarrow> (Inl e, trace') | (Inr x, trace') \<Rightarrow> k x trace')"

definition blift :: "(startup_error, 'a) result \<Rightarrow> 'a build" where
  "blift r trace = (r, trace)"

definition acquire :: "build_env \<Rightarrow> resource \<Rightarrow> unit build" where
  "acquire be r trace = (case be r of Inl e \<Rightarrow> (Inl e, trace) | Inr _ \<Rightarrow> (Inr (), trace @ [Acquired r]))"

text \<open>An exception of another kind ends a start in the same way.\<close>

definition as_startup :: "('e, 'a) result \<Rightarrow> (startup_error, 'a) result" where
  "as_startup r = (case r of Inl _ \<Rightarrow> Inl (OtherStartupError ''Exception'') | Inr x \<Rightarrow> Inr x)"

text \<open>The four loops have one shape: the worker, the resource the loop owns, the interval, the stop
  flag and whether it has a thread.\<close>

record 'w loop =
  lp_worker :: 'w
  lp_owned :: resource
  lp_interval_ms :: int
  lp_stop :: bool
  lp_thread :: bool

definition make_loop :: "'w \<Rightarrow> resource \<Rightarrow> int \<Rightarrow> (startup_error, 'w loop) result" where
  "make_loop worker owned interval_ms =
     (if interval_ms \<le> 0 then Inl (OtherStartupError ''ValueError'')
      else Inr \<lparr> lp_worker = worker, lp_owned = owned, lp_interval_ms = interval_ms, lp_stop = False, lp_thread = False \<rparr>)"

definition start_loop :: "'w loop \<Rightarrow> 'w loop" where
  "start_loop lp = (if lp_thread lp then lp else lp\<lparr> lp_stop := False, lp_thread := True \<rparr>)"

definition close_loop :: "'w loop \<Rightarrow> resource_event list \<Rightarrow> 'w loop \<times> resource_event list" where
  "close_loop lp trace = (lp\<lparr> lp_stop := True, lp_thread := False \<rparr>, trace @ [Released (lp_owned lp)])"

definition DEFAULT_POLL_INTERVAL_MS :: int where "DEFAULT_POLL_INTERVAL_MS = 2000"
definition DEFAULT_SUGGESTION_INTERVAL_MS :: int where "DEFAULT_SUGGESTION_INTERVAL_MS = 2000"
definition DEFAULT_AUTONOMY_INTERVAL_MS :: int where "DEFAULT_AUTONOMY_INTERVAL_MS = 1000"

definition build_camera :: "build_env \<Rightarrow> vision_config \<Rightarrow> unit build" where
  "build_camera be c =
     (if vc_backend c = FIXTURE then
        bbind (blift (as_startup (make_fixture_camera (vc_frame_width c) (vc_frame_height c)))) (\<lambda>_ trace.
          (Inr (), trace @ [Acquired R_camera]))
      else if vc_device_path c = None then blift (Inl (OtherStartupError ''ValueError''))
      else acquire be R_camera)"

definition build_correlation_loop :: "build_env \<Rightarrow> host \<Rightarrow> vision_config \<Rightarrow> daemon_client loop option build" where
  "build_correlation_loop be h c =
     (case vc_daemon_service_token_path c of
        None \<Rightarrow> breturn None
      | Some path \<Rightarrow>
          bbind (blift (read_service_token h path)) (\<lambda>token.
          bbind (blift (as_startup (make_daemon_client token None))) (\<lambda>client.
          bbind (acquire be (R_store H_correlation)) (\<lambda>_.
          bbind (blift (make_loop client (R_store H_correlation) DEFAULT_POLL_INTERVAL_MS)) (\<lambda>lp.
            breturn (Some lp))))))"

definition build_suggestion_loop :: "build_env \<Rightarrow> vision_config \<Rightarrow> unit loop option build" where
  "build_suggestion_loop be c =
     (case vc_daemon_service_token_path c of
        None \<Rightarrow> breturn None
      | Some path \<Rightarrow>
          bbind (acquire be (R_store H_suggestion)) (\<lambda>_.
          bbind (blift (make_loop () (R_store H_suggestion) DEFAULT_SUGGESTION_INTERVAL_MS)) (\<lambda>lp.
            breturn (Some lp))))"

text \<open>The client and the thresholds an \<open>Autonomist\<close> acts with.\<close>

record autonomist =
  au_client :: daemon_client
  au_thresholds :: thresholds

definition build_autonomy_loop :: "build_env \<Rightarrow> host \<Rightarrow> vision_config \<Rightarrow> autonomist loop option build" where
  "build_autonomy_loop be h c =
     (case (vc_daemon_service_token_path c, vc_machine_service_token_path c) of
        (Some path, Some machine_path) \<Rightarrow>
          bbind (blift (read_service_token h path)) (\<lambda>token.
          bbind (blift (read_service_token h machine_path)) (\<lambda>machine_token.
          bbind (blift (as_startup (make_daemon_client token (Some machine_token)))) (\<lambda>client.
          bbind (acquire be (R_store H_autonomy)) (\<lambda>_.
          bbind (blift (make_loop \<lparr> au_client = client, au_thresholds = vc_autonomy_thresholds c \<rparr>
                   (R_store H_autonomy) DEFAULT_AUTONOMY_INTERVAL_MS)) (\<lambda>lp.
            breturn (Some lp))))))
      | _ \<Rightarrow> breturn None)"

definition build_training_job ::
    "build_env \<Rightarrow> ('i, 'm) training_libs \<Rightarrow> vision_config
       \<Rightarrow> (dataset_example list \<Rightarrow> (vision_error, trained_candidate) result) option build" where
  "build_training_job be tlibs c =
     (case vc_daemon_service_token_path c of
        None \<Rightarrow> breturn None
      | Some path \<Rightarrow>
          bbind (acquire be (R_store H_training)) (\<lambda>_.
            breturn (Some (train_candidate tlibs (vc_minimum_examples_per_class c) DEFAULT_HOLDOUT_FRACTION))))"

record server =
  sv_api :: vision_api
  sv_trainer :: "dataset_example list \<Rightarrow> (vision_error, trained_candidate) result"
  sv_serving :: bool

text \<open>\<open>api\<close> carries the library functions; its token, floor and thresholds are those of the configuration.\<close>

definition build_api_server ::
    "build_env \<Rightarrow> host \<Rightarrow> ('i, 'm) training_libs \<Rightarrow> vision_api \<Rightarrow> vision_config \<Rightarrow> server option build" where
  "build_api_server be h tlibs api c =
     (case vc_daemon_service_token_path c of
        None \<Rightarrow> breturn None
      | Some path \<Rightarrow>
          bbind (blift (read_service_token h path)) (\<lambda>token.
          bbind (acquire be (R_store H_api)) (\<lambda>_.
          bbind (build_training_job be tlibs c) (\<lambda>job.
          bbind (blift (of_option (OtherStartupError ''AssertionError'') job)) (\<lambda>trainer.
          bbind (blift (as_startup (make_vision_api (api\<lparr> va_token := token,
                   va_minimum := vc_minimum_examples_per_class c, va_thresholds := vc_autonomy_thresholds c \<rparr>)))) (\<lambda>api'.
            breturn (Some \<lparr> sv_api = api', sv_trainer = trainer, sv_serving = False \<rparr>)))))))"

definition start_server :: "build_env \<Rightarrow> server \<Rightarrow> server build" where
  "start_server be sv =
     (if sv_serving sv then breturn sv
      else bbind (acquire be R_socket) (\<lambda>_. breturn (sv\<lparr> sv_serving := True \<rparr>)))"

definition close_server :: "server \<Rightarrow> resource_event list \<Rightarrow> server \<times> resource_event list" where
  "close_server sv trace = (sv\<lparr> sv_serving := False \<rparr>,
     trace @ (if sv_serving sv then [Released R_socket] else []) @ [Released (R_store H_training), Released (R_store H_api)])"

section \<open>The command line\<close>

record parts =
  vp_capture :: "unit loop"
  vp_correlation :: "daemon_client loop option"
  vp_suggestion :: "unit loop option"
  vp_autonomy :: "autonomist loop option"
  vp_api :: "server option"

text \<open>The parts built inside the \<open>try\<close> of \<open>main\<close>; the capture loop is made after it.\<close>

definition build_parts ::
    "build_env \<Rightarrow> host \<Rightarrow> ('i, 'm) training_libs \<Rightarrow> vision_api \<Rightarrow> vision_config \<Rightarrow> (unit loop \<Rightarrow> parts) build" where
  "build_parts be h tlibs api c =
     bbind (build_camera be c) (\<lambda>_.
     bbind (build_correlation_loop be h c) (\<lambda>correlation.
     bbind (build_suggestion_loop be c) (\<lambda>suggestion.
     bbind (build_autonomy_loop be h c) (\<lambda>autonomy.
     bbind (build_api_server be h tlibs api c) (\<lambda>api_server.
       breturn (\<lambda>capture. \<lparr> vp_capture = capture, vp_correlation = correlation, vp_suggestion = suggestion,
                  vp_autonomy = autonomy, vp_api = api_server \<rparr>))))))"

definition start_parts :: "build_env \<Rightarrow> parts \<Rightarrow> parts build" where
  "start_parts be p =
     (let p' = p\<lparr> vp_capture := start_loop (vp_capture p), vp_correlation := map_option start_loop (vp_correlation p),
                  vp_suggestion := map_option start_loop (vp_suggestion p),
                  vp_autonomy := map_option start_loop (vp_autonomy p) \<rparr> in
      (case vp_api p of
         None \<Rightarrow> breturn p'
       | Some sv \<Rightarrow> bbind (start_server be sv) (\<lambda>sv'. breturn (p'\<lparr> vp_api := Some sv' \<rparr>))))"

definition close_parts :: "parts \<Rightarrow> resource_event list \<Rightarrow> resource_event list" where
  "close_parts p trace =
     (let trace = snd (close_loop (vp_capture p) trace);
          trace = (case vp_correlation p of None \<Rightarrow> trace | Some lp \<Rightarrow> snd (close_loop lp trace));
          trace = (case vp_suggestion p of None \<Rightarrow> trace | Some lp \<Rightarrow> snd (close_loop lp trace));
          trace = (case vp_autonomy p of None \<Rightarrow> trace | Some lp \<Rightarrow> snd (close_loop lp trace))
      in (case vp_api p of None \<Rightarrow> trace | Some sv \<Rightarrow> snd (close_server sv trace)))"

text \<open>Serving: an exit code, or the exception that escapes \<open>main\<close>. A shutdown is requested once all is started.\<close>

definition serve_vision ::
    "build_env \<Rightarrow> host \<Rightarrow> ('i, 'm) training_libs \<Rightarrow> vision_api \<Rightarrow> vision_config \<Rightarrow> (startup_error, nat) result \<times> resource_event list" where
  "serve_vision be h tlibs api c =
     (case build_parts be h tlibs api c [] of
        (Inl e, trace) \<Rightarrow> (Inr 1, trace)
      | (Inr rest, trace) \<Rightarrow>
          (case make_loop () R_camera (vc_capture_interval_ms c) of
             Inl e \<Rightarrow> (Inl e, trace)
           | Inr capture \<Rightarrow>
               (case start_parts be (rest capture) trace of
                  (Inl e, trace') \<Rightarrow> (Inl e, trace')
                | (Inr p, trace') \<Rightarrow> (Inr 0, close_parts p trace'))))"

definition vision_main ::
    "build_env \<Rightarrow> host \<Rightarrow> ('i, 'm) training_libs \<Rightarrow> vision_api \<Rightarrow> toml_loads \<Rightarrow> cli_mode
       \<Rightarrow> (startup_error, nat) result \<times> resource_event list" where
  "vision_main be h tlibs api loads mode =
     (case load_vision_config h loads (mode_path mode) of
        Inl ConfigError \<Rightarrow> (Inr 2, [])
      | Inl (OtherStartupError e) \<Rightarrow> (Inl (OtherStartupError e), [])
      | Inr c \<Rightarrow> (case mode of Check_config _ \<Rightarrow> (Inr 0, []) | Serve _ \<Rightarrow> serve_vision be h tlibs api c))"

section \<open>What a start acquires\<close>

text \<open>A step only appends acquisitions to the trace, and when it returns, \<open>P\<close> relates its result to them.\<close>

definition builds :: "'a build \<Rightarrow> ('a \<Rightarrow> resource list \<Rightarrow> bool) \<Rightarrow> bool" where
  "builds m P = (\<forall>trace. \<exists>rs. snd (m trace) = trace @ map Acquired rs \<and> (\<forall>x. fst (m trace) = Inr x \<longrightarrow> P x rs))"

lemma builds_return: "P x [] \<Longrightarrow> builds (breturn x) P"
  by (auto simp: builds_def breturn_def)

lemma builds_lift: "(\<And>x. r = Inr x \<Longrightarrow> P x []) \<Longrightarrow> builds (blift r) P"
  by (auto simp: builds_def blift_def)

lemma builds_acquire: "P () [r] \<Longrightarrow> builds (acquire be r) P"
  by (cases "be r") (auto simp: builds_def acquire_def intro: exI [of _ "[r]"])

lemma builds_bind:
  assumes "builds m Q" "\<And>x rs. Q x rs \<Longrightarrow> builds (k x) (\<lambda>y rs'. P y (rs @ rs'))"
  shows "builds (bbind m k) P"
  unfolding builds_def
proof
  fix trace
  obtain r trace' where m: "m trace = (r, trace')" by force
  obtain rs where rs: "trace' = trace @ map Acquired rs" "\<And>x. r = Inr x \<Longrightarrow> Q x rs"
    using assms(1) m unfolding builds_def by (metis fst_conv snd_conv)
  show "\<exists>rs. snd (bbind m k trace) = trace @ map Acquired rs \<and> (\<forall>y. fst (bbind m k trace) = Inr y \<longrightarrow> P y rs)"
  proof (cases r)
    case (Inl e)
    then show ?thesis using m rs(1) by (auto simp: bbind_def)
  next
    case (Inr x)
    from assms(2) [OF rs(2) [OF this]] obtain rs' where
      "snd (k x trace') = trace' @ map Acquired rs'" "\<forall>y. fst (k x trace') = Inr y \<longrightarrow> P y (rs @ rs')"
      unfolding builds_def by blast
    then show ?thesis using m Inr rs(1) by (intro exI [of _ "rs @ rs'"]) (simp add: bbind_def)
  qed
qed

lemma builds_lift_bind: "(\<And>x. r = Inr x \<Longrightarrow> builds (k x) P) \<Longrightarrow> builds (bbind (blift r) k) P"
  by (rule builds_bind [OF builds_lift, of _ "\<lambda>x rs. r = Inr x \<and> rs = []"]) auto

lemma builds_acquire_bind: "builds (k ()) (\<lambda>y rs. P y (r # rs)) \<Longrightarrow> builds (bbind (acquire be r) k) P"
  by (rule builds_bind [OF builds_acquire, of "\<lambda>_ rs. rs = [r]"]) auto

lemmas builds_rules = builds_lift_bind builds_acquire_bind builds_lift builds_acquire builds_return

lemma buildsD:
  assumes "builds m P" "m [] = (r, trace)"
  obtains rs where "trace = map Acquired rs" "\<And>x. r = Inr x \<Longrightarrow> P x rs"
  using assms unfolding builds_def by (metis append_Nil fst_conv snd_conv)

definition owns :: "'w loop option \<Rightarrow> resource list" where
  "owns lp = (case lp of None \<Rightarrow> [] | Some l \<Rightarrow> [lp_owned l])"

definition server_stores :: "server option \<Rightarrow> resource list" where
  "server_stores sv = (case sv of None \<Rightarrow> [] | Some _ \<Rightarrow> [R_store H_api, R_store H_training])"

text \<open>A file that no one outside its owner and its group can reach.\<close>

definition private_file :: "host \<Rightarrow> string \<Rightarrow> bool" where
  "private_file h path = (\<exists>mode bytes. h_files h path = File mode bytes \<and> mode mod 8 = 0)"

lemma token_private: "read_service_token h path = Inr token \<Longrightarrow> private_file h path"
  using read_service_token_ok by (auto simp: private_file_def)

definition correlation_built :: "daemon_client loop option \<Rightarrow> resource list \<Rightarrow> bool" where
  "correlation_built lp rs = (rs = owns lp \<and> set rs \<subseteq> {R_store H_correlation} \<and>
     (\<forall>l. lp = Some l \<longrightarrow> dc_machine_token (lp_worker l) = None))"

definition autonomy_built :: "host \<Rightarrow> vision_config \<Rightarrow> autonomist loop option \<Rightarrow> resource list \<Rightarrow> bool" where
  "autonomy_built h c lp rs = (rs = owns lp \<and> set rs \<subseteq> {R_store H_autonomy} \<and>
     (\<forall>l. lp = Some l \<longrightarrow> au_thresholds (lp_worker l) = vc_autonomy_thresholds c \<and>
       (\<exists>p q. vc_daemon_service_token_path c = Some p \<and> vc_machine_service_token_path c = Some q \<and>
         private_file h p \<and> private_file h q \<and>
         read_service_token h p = Inr (dc_token (au_client (lp_worker l))) \<and>
         (\<exists>t. read_service_token h q = Inr t \<and> dc_machine_token (au_client (lp_worker l)) = Some t))))"

lemma builds_camera: "builds (build_camera be c) (\<lambda>_ rs. rs = [R_camera])"
proof -
  have "builds (\<lambda>trace. (Inr (), trace @ [Acquired R_camera])) (\<lambda>_ rs. rs = [R_camera])"
    by (auto simp: builds_def intro: exI [of _ "[R_camera]"])
  then show ?thesis unfolding build_camera_def by (auto intro!: builds_rules)
qed

lemma make_loop_owned:
  "make_loop w r i = Inr lp \<Longrightarrow> lp_owned lp = r \<and> lp_worker lp = w \<and> 0 < lp_interval_ms lp \<and> \<not> lp_thread lp"
  by (auto simp: make_loop_def split: if_splits)

lemma client_tokens:
  "as_startup (make_daemon_client t m) = Inr client \<Longrightarrow> dc_token client = t \<and> dc_machine_token client = m"
  by (auto simp: as_startup_def make_daemon_client_def split: sum.splits if_splits)

lemma builds_correlation: "builds (build_correlation_loop be h c) correlation_built"
  unfolding build_correlation_loop_def
  by (cases "vc_daemon_service_token_path c")
    (auto intro!: builds_rules simp: correlation_built_def owns_def dest!: make_loop_owned client_tokens)

lemma builds_suggestion: "builds (build_suggestion_loop be c) (\<lambda>lp rs. rs = owns lp \<and> set rs \<subseteq> {R_store H_suggestion})"
  unfolding build_suggestion_loop_def
  by (cases "vc_daemon_service_token_path c") (auto intro!: builds_rules simp: owns_def dest!: make_loop_owned)

lemma builds_autonomy: "builds (build_autonomy_loop be h c) (autonomy_built h c)"
  unfolding build_autonomy_loop_def
  by (cases "vc_daemon_service_token_path c"; cases "vc_machine_service_token_path c")
    (auto intro!: builds_rules simp: autonomy_built_def owns_def
      dest!: make_loop_owned client_tokens dest: token_private)

text \<open>The server holds the credential of the configured file and trains and reports with the
  configured floor and thresholds.\<close>

definition server_built :: "host \<Rightarrow> ('i, 'm) training_libs \<Rightarrow> vision_config \<Rightarrow> server option \<Rightarrow> resource list \<Rightarrow> bool" where
  "server_built h tlibs c sv rs = (rs = server_stores sv \<and>
     (\<forall>v. sv = Some v \<longrightarrow> \<not> sv_serving v \<and> va_thresholds (sv_api v) = vc_autonomy_thresholds c \<and>
       sv_trainer v = train_candidate tlibs (vc_minimum_examples_per_class c) DEFAULT_HOLDOUT_FRACTION \<and>
       va_minimum (sv_api v) = vc_minimum_examples_per_class c \<and>
       (\<exists>p. vc_daemon_service_token_path c = Some p \<and> private_file h p \<and> read_service_token h p = Inr (va_token (sv_api v)))))"

lemma builds_training:
  "builds (build_training_job be tlibs c) (\<lambda>job rs. case job of None \<Rightarrow> rs = []
     | Some t \<Rightarrow> rs = [R_store H_training] \<and> t = train_candidate tlibs (vc_minimum_examples_per_class c) DEFAULT_HOLDOUT_FRACTION)"
  unfolding build_training_job_def
  by (cases "vc_daemon_service_token_path c") (auto intro!: builds_rules)

lemma make_vision_api_id: "as_startup (make_vision_api api) = Inr api' \<Longrightarrow> api' = api"
  by (auto simp: as_startup_def make_vision_api_def split: sum.splits if_splits)

lemma builds_server: "builds (build_api_server be h tlibs api c) (server_built h tlibs c)"
proof (cases "vc_daemon_service_token_path c")
  case None
  then show ?thesis
    by (auto simp: build_api_server_def server_built_def server_stores_def intro: builds_return)
next
  case (Some p)
  then show ?thesis
    unfolding build_api_server_def
    by (auto intro!: builds_rules builds_bind [OF builds_training]
        simp: of_option_def server_built_def server_stores_def
        dest!: make_vision_api_id dest: token_private split: option.splits)
qed

definition parts_resources :: "parts \<Rightarrow> resource list" where
  "parts_resources p = R_camera # owns (vp_correlation p) @ owns (vp_suggestion p) @ owns (vp_autonomy p) @ server_stores (vp_api p)"

definition parts_built :: "host \<Rightarrow> ('i, 'm) training_libs \<Rightarrow> vision_config \<Rightarrow> parts \<Rightarrow> bool" where
  "parts_built h tlibs c p =
     (correlation_built (vp_correlation p) (owns (vp_correlation p)) \<and> set (owns (vp_suggestion p)) \<subseteq> {R_store H_suggestion} \<and>
      autonomy_built h c (vp_autonomy p) (owns (vp_autonomy p)) \<and> server_built h tlibs c (vp_api p) (server_stores (vp_api p)))"

lemma builds_parts:
  "builds (build_parts be h tlibs api c)
     (\<lambda>rest rs. \<forall>capture. vp_capture (rest capture) = capture \<and> rs = parts_resources (rest capture) \<and> parts_built h tlibs c (rest capture))"
  unfolding build_parts_def
  by (intro builds_bind [OF builds_camera] builds_bind [OF builds_correlation] builds_bind [OF builds_suggestion]
      builds_bind [OF builds_autonomy] builds_bind [OF builds_server] builds_return)
    (auto simp: parts_resources_def parts_built_def correlation_built_def autonomy_built_def server_built_def)

section \<open>Starting and stopping\<close>

lemma start_parts_trace:
  assumes "start_parts be p trace = (r, trace')" "\<And>v. vp_api p = Some v \<Longrightarrow> \<not> sv_serving v"
  shows "\<exists>rs. trace' = trace @ map Acquired rs \<and>
    (\<forall>p'. r = Inr p' \<longrightarrow> rs = (if vp_api p = None then [] else [R_socket]) \<and>
       vp_api p' = map_option (\<lambda>v. v\<lparr> sv_serving := True \<rparr>) (vp_api p) \<and>
       lp_owned (vp_capture p') = lp_owned (vp_capture p) \<and> owns (vp_correlation p') = owns (vp_correlation p) \<and>
       owns (vp_suggestion p') = owns (vp_suggestion p) \<and> owns (vp_autonomy p') = owns (vp_autonomy p))"
proof -
  have owned: "lp_owned (start_loop lp) = lp_owned lp" for lp :: "'a loop" by (simp add: start_loop_def)
  have own: "owns (map_option start_loop lp) = owns lp" for lp :: "'a loop option"
    by (cases lp) (simp_all add: owns_def start_loop_def)
  show ?thesis
  proof (cases "vp_api p")
    case None
    with assms(1) show ?thesis by (auto simp: start_parts_def breturn_def Let_def start_loop_def own)
  next
    case (Some sv)
    with assms show ?thesis
      by (cases "be R_socket")
        (auto simp: start_parts_def start_server_def bbind_def acquire_def breturn_def Let_def start_loop_def own)
  qed
qed

lemma close_parts_trace:
  assumes "\<And>v. vp_api p = Some v \<Longrightarrow> sv_serving v"
  shows "close_parts p trace = trace @ map Released (lp_owned (vp_capture p) # owns (vp_correlation p) @ owns (vp_suggestion p) @
    owns (vp_autonomy p) @ (if vp_api p = None then [] else [R_socket, R_store H_training, R_store H_api]))"
  using assms
  by (cases "vp_correlation p"; cases "vp_suggestion p"; cases "vp_autonomy p"; cases "vp_api p")
    (simp_all add: close_parts_def close_loop_def close_server_def owns_def Let_def)

lemma parts_resources_distinct: "parts_built h tlibs c p \<Longrightarrow> distinct (parts_resources p) \<and> R_socket \<notin> set (parts_resources p)"
  by (auto simp: parts_built_def parts_resources_def correlation_built_def autonomy_built_def server_built_def owns_def
      server_stores_def split: option.splits)

lemma serve_trace:
  assumes "serve_vision be h tlibs api c = (r, trace)" "0 < vc_capture_interval_ms c"
  shows "if r = Inr 0 then \<exists>rs rs'. trace = map Acquired rs @ map Released rs' \<and> mset rs' = mset rs \<and> distinct rs
    else \<exists>rs. trace = map Acquired rs"
proof -
  obtain b trace1 where b: "build_parts be h tlibs api c [] = (b, trace1)" by force
  from buildsD [OF builds_parts b] obtain rs where rs: "trace1 = map Acquired rs"
    and built: "\<And>rest capture. b = Inr rest \<Longrightarrow> vp_capture (rest capture) = capture \<and> rs = parts_resources (rest capture) \<and>
      parts_built h tlibs c (rest capture)"
    by metis
  obtain capture where capture: "make_loop () R_camera (vc_capture_interval_ms c) = Inr capture" "lp_owned capture = R_camera"
    using assms(2) by (simp add: make_loop_def)
  show ?thesis
  proof (cases b)
    case (Inl e)
    then show ?thesis using assms(1) b rs by (auto simp: serve_vision_def)
  next
    case (Inr rest)
    define p where "p = rest capture"
    have p: "vp_capture p = capture" "rs = parts_resources p" "parts_built h tlibs c p"
      using built [OF Inr] by (simp_all add: p_def)
    have idle: "\<not> sv_serving v" if "vp_api p = Some v" for v
      using p(3) that by (auto simp: parts_built_def server_built_def)
    obtain q trace2 where q: "start_parts be p trace1 = (q, trace2)" by force
    from start_parts_trace [OF q idle] obtain rs2 where rs2: "trace2 = trace1 @ map Acquired rs2"
      and started: "\<And>p'. q = Inr p' \<Longrightarrow> rs2 = (if vp_api p = None then [] else [R_socket]) \<and>
        vp_api p' = map_option (\<lambda>v. v\<lparr> sv_serving := True \<rparr>) (vp_api p) \<and>
        lp_owned (vp_capture p') = lp_owned (vp_capture p) \<and> owns (vp_correlation p') = owns (vp_correlation p) \<and>
        owns (vp_suggestion p') = owns (vp_suggestion p) \<and> owns (vp_autonomy p') = owns (vp_autonomy p)"
      by blast
    show ?thesis
    proof (cases q)
      case failed: (Inl e)
      then have "r = Inl e" "trace = map Acquired (rs @ rs2)"
        using assms(1) b Inr capture(1) q rs rs2 by (auto simp: serve_vision_def p_def)
      then show ?thesis by (auto intro: exI [of _ "rs @ rs2"])
    next
      case ok: (Inr p')
      then have r: "r = Inr 0" "trace = close_parts p' trace2"
        using assms(1) b Inr capture(1) q by (auto simp: serve_vision_def p_def)
      define out where "out = R_camera # owns (vp_correlation p) @ owns (vp_suggestion p) @ owns (vp_autonomy p) @
        (if vp_api p = None then [] else [R_socket, R_store H_training, R_store H_api])"
      have "trace = map Acquired (rs @ rs2) @ map Released out"
        using close_parts_trace [of p' trace2] started [OF ok] r(2) rs rs2 p(1) capture(2) by (auto simp: out_def)
      moreover have "mset out = mset (rs @ rs2)"
        using started [OF ok] p(2) by (auto simp: out_def parts_resources_def server_stores_def split: option.splits)
      moreover have "distinct (rs @ rs2)"
        using parts_resources_distinct [OF p(3)] started [OF ok] p(2) by auto
      ultimately show ?thesis unfolding r(1) by (metis (full_types))
    qed
  qed
qed

text \<open>
  A run of the vision service that ends with exit code 0 has released everything it acquired, the
  camera, every store and the socket, each exactly once. A start that fails, whether it ends with
  exit code 1 or with the exception of the server's socket, releases nothing of what was acquired
  before the failure.
\<close>

theorem vision_releases_all_or_nothing:
  assumes "vision_main be h tlibs api loads mode = (r, trace)"
  shows "if r = Inr 0 then \<exists>rs rs'. trace = map Acquired rs @ map Released rs' \<and> mset rs' = mset rs \<and> distinct rs
    else \<exists>rs. trace = map Acquired rs"
proof (cases "load_vision_config h loads (mode_path mode)")
  case (Inl e)
  then have "trace = []" "r \<noteq> Inr 0" using assms by (auto simp: vision_main_def split: startup_error.splits)
  then show ?thesis by simp
next
  case (Inr c)
  have "0 < vc_capture_interval_ms c" using load_vision_config_ok [OF Inr] by (simp add: vision_config_ok_def)
  then show ?thesis using assms Inr serve_trace [of be h tlibs api c r trace]
    by (cases mode) (auto simp: vision_main_def)
qed

text \<open>The development service with its two tokens, on a host where every resource can be opened.\<close>

definition vision_table :: toml_table where
  "vision_table = [(''profile'', TStr ''development''), (''backend'', TStr ''fixture''),
     (''daemon_service_token_path'', TStr ''/etc/token''), (''machine_service_token_path'', TStr ''/etc/machine-token''),
     (''autonomy_thresholds'', TList [TTable [(''slot'', TInt 3), (''threshold'', TFloat (1/2))]])]"

definition armed_config :: vision_config where
  "armed_config = vision_development\<lparr> vc_daemon_service_token_path := Some ''/etc/token'',
     vc_machine_service_token_path := Some ''/etc/machine-token'', vc_autonomy_thresholds := [(3, 1/2)] \<rparr>"

definition vision_loads :: toml_loads where
  "vision_loads _ = Inr [(''vision'', TTable vision_table)]"

definition plain_training :: "(unit, unit) training_libs" where
  "plain_training = \<lparr> tl_imdecode = (\<lambda>_. Some ()), tl_resize = (\<lambda>_ _. [[255]]), tl_shuffle = (\<lambda>_ es. es), tl_fit = (\<lambda>_ _. ()),
     tl_predict = (\<lambda>_ fs. map (\<lambda>_. 0) fs), tl_dumps = (\<lambda>_. []) \<rparr>"

definition vision_host :: host where
  "vision_host = token_host\<lparr> h_files := (\<lambda>p. File 416 (if p = ''/etc/machine-token'' then ''machine'' else ''secret'')) \<rparr>"

lemma armed_load: "load_vision_config vision_host vision_loads (Some ''v.toml'') = Inr armed_config"
  by (simp add: load_vision_config_def load_document_def vision_host_def vision_loads_def only_table_def vision_from_mapping_def
      only_known_fields_def VISION_ALLOWED_FIELDS_def required_string_def optional_string_def default_string_def positive_int_def
      enum_value_def PROFILES_def VISION_BACKENDS_def autonomy_thresholds_def threshold_entry_def threshold_range_def
      VISION_MAX_SLOT_def vision_rules_def vision_table_def require_def bind_r_def of_option_def Let_def
      armed_config_def vision_development_def DEFAULT_INTERVAL_MS_def DEFAULT_WIDTH_def DEFAULT_HEIGHT_def
      DEFAULT_MINIMUM_EXAMPLES_PER_CLASS_def DEVELOPMENT_DAEMON_SOCKET_PATH_def DEVELOPMENT_DATASET_PATH_def
      DEVELOPMENT_API_SOCKET_PATH_def)

lemma armed_token: "read_service_token vision_host p = Inr (if p = ''/etc/machine-token'' then ''machine'' else ''secret'')"
  by (simp add: read_service_token_def vision_host_def token_host_def of_option_def bind_r_def Let_def
      strip_def lstrip_def isspace_def ord_def)

lemmas build_eval = build_camera_def build_correlation_loop_def build_suggestion_loop_def build_autonomy_loop_def
  build_api_server_def build_training_job_def build_parts_def make_fixture_camera_def make_daemon_client_def make_loop_def
  make_vision_api_def as_startup_def acquire_def bbind_def blift_def breturn_def of_option_def armed_token
  DEFAULT_POLL_INTERVAL_MS_def DEFAULT_SUGGESTION_INTERVAL_MS_def DEFAULT_AUTONOMY_INTERVAL_MS_def

theorem vision_releases_all_or_nothing_witness:
  "\<exists>rs rs'. snd (vision_main (\<lambda>_. Inr ()) vision_host plain_training demo_vision_api vision_loads (Serve ''v.toml'')) =
     map Acquired rs @ map Released rs' \<and> mset rs' = mset rs \<and> distinct rs"
proof -
  obtain trace where run:
    "vision_main (\<lambda>_. Inr ()) vision_host plain_training demo_vision_api vision_loads (Serve ''v.toml'') = (Inr 0, trace)"
    by (simp add: vision_main_def armed_load serve_vision_def build_eval start_parts_def start_server_def armed_config_def
        vision_development_def DEFAULT_INTERVAL_MS_def DEFAULT_WIDTH_def DEFAULT_HEIGHT_def DEFAULT_MINIMUM_EXAMPLES_PER_CLASS_def)
  from vision_releases_all_or_nothing [OF this] run show ?thesis by simp
qed

text \<open>
  C22: the vision service can command the machine only through an autonomy loop, and such a loop is
  built only from a configuration that names both credentials, in files that are closed to other
  users. Its thresholds are those of the file, so a suggestion it may act on names a slot from 0 to
  63, has a positive confidence, and comes with a primer that was seen to be absent. The client of
  the correlation loop holds no machine credential and every sort it would submit is refused before
  a request is made.
\<close>

theorem autonomy_needs_both_credentials:
  assumes "load_vision_config h loads path = Inr c" "build_parts be h tlibs api c [] = (Inr rest, trace)"
    and "p = rest capture"
  shows "(case vp_autonomy p of None \<Rightarrow> R_store H_autonomy \<notin> set (parts_resources p)
      | Some l \<Rightarrow> (\<exists>f g. vc_daemon_service_token_path c = Some f \<and> vc_machine_service_token_path c = Some g \<and>
          private_file h f \<and> private_file h g) \<and>
        (\<forall>sg. may_autonomously_sort sg (au_thresholds (lp_worker l)) \<longrightarrow>
          0 \<le> su_slot sg \<and> su_slot sg \<le> 63 \<and> 0 < su_confidence sg \<and> su_primer_present sg = Some False)) \<and>
    (case vp_correlation p of None \<Rightarrow> True
      | Some l \<Rightarrow> client_submit_sort dumps http (lp_worker l) slot generation key deadline_ms user = Inl DaemonClientError)"
proof -
  from buildsD [OF builds_parts assms(2)] have built: "parts_built h tlibs c p" unfolding assms(3) by metis
  have ok: "thresholds_ok (vc_autonomy_thresholds c)"
    using load_vision_config_ok [OF assms(1)] by (simp add: vision_config_ok_def)
  have gated: "0 \<le> su_slot sg \<and> su_slot sg \<le> 63 \<and> 0 < su_confidence sg \<and> su_primer_present sg = Some False"
    if "may_autonomously_sort sg (vc_autonomy_thresholds c)" for sg
  proof -
    from may_autonomously_sort_clear [OF that] obtain t where
      t: "su_primer_present sg = Some False" "map_of (vc_autonomy_thresholds c) (su_slot sg) = Some t" "t \<le> su_confidence sg"
      by blast
    from map_of_SomeD [OF t(2)] ok show ?thesis using t(1,3) by (auto simp: thresholds_ok_def list_all_iff)
  qed
  show ?thesis
    using built gated
    by (auto simp: parts_built_def autonomy_built_def correlation_built_def parts_resources_def client_submit_sort_def
        owns_def server_stores_def split: option.splits)
qed

definition demo_capture :: "unit loop" where
  "demo_capture = \<lparr> lp_worker = (), lp_owned = R_camera, lp_interval_ms = 1000, lp_stop = False, lp_thread = False \<rparr>"

theorem autonomy_needs_both_credentials_witness:
  "\<exists>rest trace l. build_parts (\<lambda>_. Inr ()) vision_host plain_training demo_vision_api armed_config [] = (Inr rest, trace) \<and>
     vp_autonomy (rest demo_capture) = Some l \<and> private_file vision_host ''/etc/machine-token''"
proof -
  obtain rest trace l where built:
    "build_parts (\<lambda>_. Inr ()) vision_host plain_training demo_vision_api armed_config [] = (Inr rest, trace)"
    "vp_autonomy (rest demo_capture) = Some l"
    by (simp add: build_eval armed_config_def vision_development_def DEFAULT_WIDTH_def DEFAULT_HEIGHT_def
        DEFAULT_MINIMUM_EXAMPLES_PER_CLASS_def)
  from autonomy_needs_both_credentials [OF armed_load built(1) refl, of demo_capture] built
  have "private_file vision_host ''/etc/machine-token''" by (simp add: armed_config_def)
  with built show ?thesis by blast
qed

end
