(* ===== verification/Simulator.thy ===== *)
theory Simulator
  imports Parsing Json
begin

text \<open>
  The controller simulator of the daemon (\<open>simulator/clock.py\<close>, \<open>simulator/transport.py\<close>): the clock
  with its scheduled callbacks, the state of the simulated controller and the byte stream. A callback
  is the record of what it was created for. A byte is a character; the heap of the clock is the
  list of its calls in the order they will be taken; \<open>Random.randint\<close> is a sequence of draws. Waiting
  on the condition, the lock and logging are left out.
\<close>

section \<open>The clock\<close>

record 'c manual_clock =
  mc_now_ms :: int
  mc_sequence :: nat
  mc_scheduled :: "(int \<times> nat \<times> 'c) list"

definition new_clock :: "'c manual_clock" where
  "new_clock = \<lparr> mc_now_ms = 0, mc_sequence = 0, mc_scheduled = [] \<rparr>"

definition pending_count :: "'c manual_clock \<Rightarrow> nat" where
  "pending_count c = length (mc_scheduled c)"

fun schedule_insert :: "int \<times> nat \<times> 'c \<Rightarrow> (int \<times> nat \<times> 'c) list \<Rightarrow> (int \<times> nat \<times> 'c) list" where
  "schedule_insert x [] = [x]"
| "schedule_insert x (y # ys) =
     (if fst x < fst y \<or> (fst x = fst y \<and> fst (snd x) < fst (snd y)) then x # y # ys else y # schedule_insert x ys)"

datatype sim_error = Os_closed | Os_disconnected | Runtime_oversized | Value_error

definition call_later :: "int \<Rightarrow> 'c \<Rightarrow> 'c manual_clock \<Rightarrow> (sim_error, 'c manual_clock) result" where
  "call_later delay_ms callback c =
     (if delay_ms < 0 then Inl Value_error
      else Inr (c\<lparr> mc_sequence := Suc (mc_sequence c),
                   mc_scheduled := schedule_insert (mc_now_ms c + delay_ms, Suc (mc_sequence c), callback) (mc_scheduled c) \<rparr>))"

definition clear_clock :: "'c manual_clock \<Rightarrow> 'c manual_clock" where
  "clear_clock c = c\<lparr> mc_scheduled := [] \<rparr>"

section \<open>The state of the simulator\<close>

datatype sim_mode = SimV1 | SimV2

datatype direction = Host_to_simulator | Simulator_to_host | Direction_reset

datatype adverse_scenario = AS_disconnect | AS_event_gap | AS_fault | AS_malformed_frame | AS_terminal_mismatch | AS_timeout

fun scenario_value :: "adverse_scenario \<Rightarrow> string" where
  "scenario_value AS_disconnect = ''disconnect-on-sort''"
| "scenario_value AS_event_gap = ''event-gap-on-ping''"
| "scenario_value AS_fault = ''fault-feed-overtravel''"
| "scenario_value AS_malformed_frame = ''malformed-on-sort''"
| "scenario_value AS_terminal_mismatch = ''terminal-mismatch-on-sort''"
| "scenario_value AS_timeout = ''timeout-on-sort''"

definition SCENARIOS :: "adverse_scenario list" where
  "SCENARIOS = [AS_disconnect, AS_event_gap, AS_fault, AS_malformed_frame, AS_terminal_mismatch, AS_timeout]"

fun scenario_trigger :: "adverse_scenario \<Rightarrow> string" where
  "scenario_trigger AS_event_gap = ''ping''"
| "scenario_trigger _ = ''sortto:3''"

record transcript_entry =
  te_at_ms :: int
  te_direction :: direction
  te_data :: string

record sim_config =
  sc_scenario :: string
  sc_v2_available :: bool
  sc_crc_available :: bool
  sc_operation_duration_ms :: int
  sc_operation_jitter_ms :: int
  sc_slot_count :: nat
  sc_slot_max :: nat

definition default_sim_config :: sim_config where
  "default_sim_config = \<lparr> sc_scenario = ''happy-v2'', sc_v2_available = True, sc_crc_available = True,
     sc_operation_duration_ms = 25, sc_operation_jitter_ms = 0, sc_slot_count = 8, sc_slot_max = 102 \<rparr>"

definition make_sim_config :: "sim_config \<Rightarrow> (sim_error, sim_config) result" where
  "make_sim_config c =
     (if sc_scenario c = [] \<or> list_ex isspace (sc_scenario c) then Inl Value_error
      else if sc_operation_duration_ms c < 1 then Inl Value_error
      else if sc_operation_jitter_ms c < 0 then Inl Value_error
      else if \<not> (1 \<le> sc_slot_count c \<and> sc_slot_count c \<le> 64) then Inl Value_error
      else if \<not> (1 \<le> sc_slot_max c \<and> sc_slot_max c \<le> 102) then Inl Value_error
      else Inr c)"

text \<open>What a scheduled callback was created for: the completion of a sort or of a homing, the
  second phase of a full homing, an injected fault.\<close>

datatype sim_callback = CB_sort nat nat | CB_home nat string | CB_progress nat | CB_fail nat

record simulator =
  sm_config :: sim_config
  sm_clock :: "sim_callback manual_clock"
  sm_draws :: "nat \<Rightarrow> int"
  sm_drawn :: nat
  sm_incoming :: string
  sm_outgoing :: string
  sm_transcript :: "transcript_entry list"
  sm_closed :: bool
  sm_resets :: nat
  sm_mode :: sim_mode
  sm_crc_enabled :: bool
  sm_event_sequence :: nat
  sm_active_id :: "nat option"
  sm_machine_mode :: string
  sm_phase :: string
  sm_feed_homed :: bool
  sm_sort_homed :: bool
  sm_queue_previous :: nat
  sm_queue_next :: nat
  sm_config_generation :: nat
  sm_fault_code :: nat
  sm_read_error :: bool
  sm_boot_at_ms :: int

type_synonym 'a sim = "simulator \<Rightarrow> (sim_error, 'a) result \<times> simulator"

definition sbind :: "'a sim \<Rightarrow> ('a \<Rightarrow> 'b sim) \<Rightarrow> 'b sim" where
  "sbind m f s = (case m s of (Inl e, s') \<Rightarrow> (Inl e, s') | (Inr x, s') \<Rightarrow> f x s')"

definition sreturn :: "'a \<Rightarrow> 'a sim" where
  "sreturn x s = (Inr x, s)"

definition sraise :: "sim_error \<Rightarrow> 'a sim" where
  "sraise e s = (Inl e, s)"

definition supdate :: "(simulator \<Rightarrow> simulator) \<Rightarrow> unit sim" where
  "supdate f s = (Inr (), f s)"

definition swith :: "(simulator \<Rightarrow> 'a sim) \<Rightarrow> 'a sim" where
  "swith f s = f s s"

definition sthen :: "unit sim \<Rightarrow> 'a sim \<Rightarrow> 'a sim" where
  "sthen m k = sbind m (\<lambda>_. k)"

fun sseq :: "unit sim list \<Rightarrow> unit sim" where
  "sseq [] = sreturn ()"
| "sseq (m # ms) = sthen m (sseq ms)"

section \<open>Output\<close>

definition record_entry :: "direction \<Rightarrow> string \<Rightarrow> simulator \<Rightarrow> simulator" where
  "record_entry dir data s = s\<lparr> sm_transcript := sm_transcript s @
     [\<lparr> te_at_ms = mc_now_ms (sm_clock s), te_direction = dir, te_data = data \<rparr>] \<rparr>"

definition emit_unprotected :: "string \<Rightarrow> unit sim" where
  "emit_unprotected line = supdate (\<lambda>s. record_entry Simulator_to_host (line @ [CHR 0x0A])
     (s\<lparr> sm_outgoing := sm_outgoing s @ line @ [CHR 0x0A] \<rparr>))"

definition emit :: "string \<Rightarrow> unit sim" where
  "emit line = swith (\<lambda>s.
     case (if sm_crc_enabled s then append_crc line else Inr line) of
       Inl _ \<Rightarrow> sraise Value_error
     | Inr protected \<Rightarrow> if length protected > 64 then sraise Runtime_oversized else emit_unprotected protected)"

definition respond :: "nat \<Rightarrow> string \<Rightarrow> unit sim" where
  "respond rid body = emit (CHR ''@'' # nat_str rid @ CHR '' '' # body)"

definition next_sequence :: "nat \<Rightarrow> nat" where
  "next_sequence n = (if n = 65535 then 1 else n + 1)"

definition emit_event :: "string \<Rightarrow> unit sim" where
  "emit_event body =
     sthen (supdate (\<lambda>s. s\<lparr> sm_event_sequence := next_sequence (sm_event_sequence s) \<rparr>))
     (swith (\<lambda>s. emit (CHR ''!'' # nat_str (sm_event_sequence s) @ CHR '' '' # body)))"

definition respond_data :: "nat \<Rightarrow> string list \<Rightarrow> unit sim" where
  "respond_data rid field_lines =
     sthen (sseq (map (\<lambda>f. respond rid (''data:'' @ f)) field_lines)) (respond rid ''done'')"

definition bit_text :: "bool \<Rightarrow> string" where
  "bit_text b = (if b then ''1'' else ''0'')"

definition capability_lines :: "simulator \<Rightarrow> string list" where
  "capability_lines s =
     [''protocol=2 max_line=64 crc='' @ (if sc_crc_available (sm_config s) then ''optional'' else ''none''),
      ''queue_depth=2 slot_max='' @ nat_str (sc_slot_max (sm_config s)) @ '' slot_count='' @ nat_str (sc_slot_count (sm_config s)),
      ''pwm=0 airdrop=1 feed_sensor=1'',
      ''feed_home=1 sort_home=1'']"

definition status_lines :: "simulator \<Rightarrow> string list" where
  "status_lines s =
     [''mode='' @ sm_machine_mode s @ '' phase='' @ sm_phase s @ '' feed_homed='' @ bit_text (sm_feed_homed s),
      ''sort_homed='' @ bit_text (sm_sort_homed s) @ '' motor_enabled=0 active_id='' @
        (case sm_active_id s of None \<Rightarrow> ''none'' | Some i \<Rightarrow> nat_str i),
      ''fault_code='' @ nat_str (sm_fault_code s) @ '' queue_previous='' @ nat_str (sm_queue_previous s) @
        '' queue_next='' @ nat_str (sm_queue_next s),
      ''config_generation='' @ nat_str (sm_config_generation s)]"

section \<open>Operations\<close>

definition both_axes_homed :: "simulator \<Rightarrow> bool" where
  "both_axes_homed s = (sm_feed_homed s \<and> sm_sort_homed s)"

definition busy :: "nat \<Rightarrow> unit sim" where
  "busy rid = swith (\<lambda>s. respond rid (''error:2001:busy active_id='' @ (case sm_active_id s of None \<Rightarrow> ''None'' | Some i \<Rightarrow> nat_str i)))"

definition start_operation :: "nat \<Rightarrow> string \<Rightarrow> string \<Rightarrow> bool sim" where
  "start_operation rid operation phase = swith (\<lambda>s.
     if sm_active_id s \<noteq> None then sthen (busy rid) (sreturn False)
     else
       sthen (supdate (\<lambda>s. s\<lparr> sm_active_id := Some rid,
                 sm_machine_mode := (if operation \<noteq> ''home'' \<and> both_axes_homed s then ''running'' else ''recovering''),
                 sm_phase := phase \<rparr>))
      (sthen (respond rid (''accepted:operation='' @ operation))
      (sthen (swith (\<lambda>s. emit_event (''state:mode='' @ sm_machine_mode s @ '' phase='' @ phase)))
             (sreturn True))))"

definition complete_operation :: "nat \<Rightarrow> string \<Rightarrow> unit sim" where
  "complete_operation rid ending = swith (\<lambda>s.
     if sm_active_id s \<noteq> Some rid then sreturn ()
     else
       sthen (supdate (\<lambda>s. s\<lparr> sm_active_id := None,
                 sm_machine_mode := (if both_axes_homed s then ''running'' else ''recovering''), sm_phase := ''idle'' \<rparr>))
      (sthen (swith (\<lambda>s. emit_event (''state:mode='' @ sm_machine_mode s @ '' phase=idle'')))
             (respond rid ending)))"

text \<open>The callbacks.\<close>

fun run_callback :: "sim_callback \<Rightarrow> unit sim" where
  "run_callback (CB_sort rid slot) =
     sthen (supdate (\<lambda>s. s\<lparr> sm_queue_previous := slot, sm_queue_next := slot \<rparr>))
       (complete_operation rid (''done:slot='' @ nat_str slot))"
| "run_callback (CB_home rid command) =
     sthen (supdate (\<lambda>s. s\<lparr> sm_feed_homed := (sm_feed_homed s \<or> command \<in> {''homefeeder'', ''homeall''}),
               sm_sort_homed := (sm_sort_homed s \<or> command \<in> {''homesorter'', ''homeall''}) \<rparr>))
       (swith (\<lambda>s. complete_operation rid (''done:feed_homed='' @ bit_text (sm_feed_homed s) @ '' sort_homed='' @ bit_text (sm_sort_homed s))))"
| "run_callback (CB_progress rid) = swith (\<lambda>s.
     if sm_active_id s \<noteq> Some rid then sreturn ()
     else sseq [supdate (\<lambda>s. s\<lparr> sm_phase := ''sort_home'' \<rparr>), respond rid ''progress:phase=sort_home'',
                emit_event ''state:mode=recovering phase=sort_home''])"
| "run_callback (CB_fail rid) = swith (\<lambda>s.
     if sm_active_id s \<noteq> Some rid then sreturn ()
     else sseq [supdate (\<lambda>s. s\<lparr> sm_active_id := None, sm_machine_mode := ''recovering'', sm_phase := ''idle'',
                   sm_feed_homed := False, sm_fault_code := 3001 \<rparr>),
                respond rid ''error:3001:feed_overtravel'', emit_event ''fault:3001:feed_overtravel latched=1'',
                emit_event ''state:mode=recovering phase=idle''])"

definition call_back_after :: "int \<Rightarrow> sim_callback \<Rightarrow> unit sim" where
  "call_back_after delay_ms callback s =
     (case call_later delay_ms callback (sm_clock s) of
        Inl e \<Rightarrow> (Inl e, s) | Inr c \<Rightarrow> (Inr (), s\<lparr> sm_clock := c \<rparr>))"

definition operation_delay_ms :: "int sim" where
  "operation_delay_ms s =
     (Inr (sc_operation_duration_ms (sm_config s) + sm_draws s (sm_drawn s) mod (sc_operation_jitter_ms (sm_config s) + 1)),
      s\<lparr> sm_drawn := Suc (sm_drawn s) \<rparr>)"

definition start_injected_fault :: "nat \<Rightarrow> unit sim" where
  "start_injected_fault rid =
     sbind (start_operation rid ''sort'' ''sort_move'') (\<lambda>started.
       if \<not> started then sreturn ()
       else sbind operation_delay_ms (\<lambda>delay. call_back_after delay (CB_fail rid)))"

definition sim_enable_crc :: "nat \<Rightarrow> unit sim" where
  "sim_enable_crc rid = swith (\<lambda>s.
     if \<not> sc_crc_available (sm_config s) then respond rid ''error:1007:unsupported key=crc''
     else sthen (supdate (\<lambda>s. s\<lparr> sm_crc_enabled := True \<rparr>)) (respond rid ''done:crc=on''))"

definition sim_disable_crc :: "nat \<Rightarrow> unit sim" where
  "sim_disable_crc rid = sthen (respond rid ''done:crc=off'') (supdate (\<lambda>s. s\<lparr> sm_crc_enabled := False \<rparr>))"

definition start_sort :: "nat \<Rightarrow> string \<Rightarrow> unit sim" where
  "start_sort rid slot_text = swith (\<lambda>s.
     if slot_text = [] \<or> \<not> list_all is_digit slot_text then respond rid ''error:1005:invalid_argument key=slot''
     else if dec_val slot_text > sc_slot_max (sm_config s)
     then respond rid (''error:1006:out_of_range key=slot min=0 max='' @ nat_str (sc_slot_max (sm_config s)))
     else if sm_machine_mode s = ''stopped'' then respond rid ''error:2003:stopped''
     else if \<not> sm_sort_homed s then respond rid ''error:2002:not_homed axis=sorter''
     else sbind (start_operation rid ''sort'' ''sort_move'') (\<lambda>started.
       if \<not> started then sreturn ()
       else sbind operation_delay_ms (\<lambda>delay. call_back_after delay (CB_sort rid (dec_val slot_text)))))"

definition start_home :: "nat \<Rightarrow> string \<Rightarrow> unit sim" where
  "start_home rid command =
     sbind (start_operation rid ''home'' (if command \<in> {''homefeeder'', ''homeall''} then ''feed_home'' else ''sort_home'')) (\<lambda>started.
       if \<not> started then sreturn ()
       else sbind operation_delay_ms (\<lambda>delay.
         sthen (if command = ''homeall''
                then sthen (respond rid ''progress:phase=feed_home'') (call_back_after (max 1 (delay div 2)) (CB_progress rid))
                else sreturn ())
               (call_back_after delay (CB_home rid command))))"

section \<open>Stops\<close>

definition sim_stopped :: "simulator \<Rightarrow> simulator" where
  "sim_stopped s = s\<lparr> sm_active_id := None, sm_machine_mode := ''stopped'', sm_phase := ''idle'',
     sm_feed_homed := False, sm_sort_homed := False \<rparr>"

definition cancel_schedule :: "simulator \<Rightarrow> simulator" where
  "cancel_schedule s = s\<lparr> sm_clock := clear_clock (sm_clock s) \<rparr>"

definition handle_priority_stop :: "unit sim" where
  "handle_priority_stop =
     sthen (supdate (\<lambda>s. sim_stopped (cancel_schedule s)))
     (sthen (swith (\<lambda>s. if sm_mode s = SimV2 then emit_event ''state:mode=stopped phase=idle'' else sreturn ()))
            (emit_unprotected ''stopped''))"

definition handle_correlated_stop :: "nat \<Rightarrow> unit sim" where
  "handle_correlated_stop rid = swith (\<lambda>prior.
     sseq [supdate cancel_schedule,
           (case sm_active_id prior of None \<Rightarrow> sreturn ()
            | Some active \<Rightarrow> respond active (''error:2004:cancelled by='' @ nat_str rid)),
           supdate sim_stopped,
           emit_event ''state:mode=stopped phase=idle'',
           respond rid ''done:mode=stopped''])"

section \<open>Lines from the host\<close>

definition scenario_of :: "simulator \<Rightarrow> adverse_scenario option" where
  "scenario_of s = find (\<lambda>a. scenario_value a = sc_scenario (sm_config s)) SCENARIOS"

fun inject :: "adverse_scenario \<Rightarrow> nat \<Rightarrow> unit sim" where
  "inject AS_disconnect rid = supdate (\<lambda>s. s\<lparr> sm_read_error := True \<rparr>)"
| "inject AS_event_gap rid =
     sseq [swith (\<lambda>s. emit_event (''state:mode='' @ sm_machine_mode s @ '' phase=idle'')),
           supdate (\<lambda>s. s\<lparr> sm_event_sequence := next_sequence (sm_event_sequence s) \<rparr>),
           swith (\<lambda>s. emit_event (''state:mode='' @ sm_machine_mode s @ '' phase=idle'')),
           respond rid ''done:uptime_ms=0'']"
| "inject AS_fault rid = start_injected_fault rid"
| "inject AS_malformed_frame rid = emit_unprotected (CHR ''@'' # nat_str rid @ '' d'' @ CHR 0x01 # ''ne'')"
| "inject AS_terminal_mismatch rid = respond (if rid = 65535 then 1 else rid + 1) ''done:slot=3''"
| "inject AS_timeout rid = sreturn ()"

definition inject_adverse_scenario :: "nat \<Rightarrow> string \<Rightarrow> bool sim" where
  "inject_adverse_scenario rid command = swith (\<lambda>s.
     case scenario_of s of
       None \<Rightarrow> sreturn False
     | Some scenario \<Rightarrow>
         if command \<noteq> scenario_trigger scenario then sreturn False
         else sthen (inject scenario rid) (sreturn True))"

text \<open>\<open>_REQUEST.fullmatch\<close>: an optional \<open>@id\<close> and the rest of the line.\<close>

definition request_match :: "string \<Rightarrow> (string option \<times> string) option" where
  "request_match body =
     (let ds = takeWhile is_digit (tl body); rest = dropWhile is_digit (tl body) in
      if startswith body ''@'' \<and> ds \<noteq> [] \<and> startswith rest '' '' \<and> tl rest \<noteq> [] then Some (Some ds, tl rest)
      else if body = [] then None else Some (None, body))"

definition STATE_CHANGING :: "string list" where
  "STATE_CHANGING = [''crc:on'', ''crc:off'', ''protocol:1'', ''homefeeder'', ''homesorter'', ''homeall'']"

definition sim_leave_v2 :: "simulator \<Rightarrow> simulator" where
  "sim_leave_v2 s = s\<lparr> sm_mode := SimV1, sm_crc_enabled := False, sm_event_sequence := 0 \<rparr>"

definition run_v2_command :: "nat \<Rightarrow> string \<Rightarrow> unit sim" where
  "run_v2_command rid command = swith (\<lambda>s.
     if command = ''protocolversion'' then respond_data rid [''protocol=2'']
     else if command = ''capabilities'' then respond_data rid (capability_lines s)
     else if command = ''status'' then respond_data rid (status_lines s)
     else if command = ''queue'' then
       respond_data rid [''queue_depth=2'', ''queue_previous='' @ nat_str (sm_queue_previous s), ''queue_next='' @ nat_str (sm_queue_next s)]
     else if command = ''ping'' then respond rid (''done:uptime_ms='' @ int_str (mc_now_ms (sm_clock s) - sm_boot_at_ms s))
     else if command = ''version'' then sthen (respond rid ''data:version=7.1.260714.6'') (respond rid ''done'')
     else if command = ''crc:on'' then sim_enable_crc rid
     else if command = ''crc:off'' then sim_disable_crc rid
     else if command = ''protocol:1'' then sthen (respond rid ''done:protocol=1'') (supdate sim_leave_v2)
     else if startswith command ''sortto:'' then start_sort rid (drop 7 command)
     else if command \<in> {''homefeeder'', ''homesorter'', ''homeall''} then start_home rid command
     else respond rid ''error:1004:unknown_command'')"

definition handle_request :: "nat \<Rightarrow> string \<Rightarrow> unit sim" where
  "handle_request rid command = swith (\<lambda>s.
     if rid \<noteq> 0 \<and> sm_active_id s = Some rid then emit_event (''reject:1003:bad_id id='' @ nat_str rid)
     else if rid = 0 \<and> sm_active_id s = Some 0 then respond 0 ''error:2001:busy active_id=0''
     else if command = ''stop'' then handle_correlated_stop rid
     else sbind (inject_adverse_scenario rid command) (\<lambda>injected.
       if injected then sreturn ()
       else swith (\<lambda>s.
         if (command \<in> set STATE_CHANGING \<or> startswith command ''sortto:'') \<and> sm_active_id s \<noteq> None then busy rid
         else run_v2_command rid command)))"

definition handle_v2 :: "string \<Rightarrow> unit sim" where
  "handle_v2 line = swith (\<lambda>s.
     if length line > 64 then emit_event ''reject:1001:bad_frame''
     else case remove_and_verify_crc line (sm_crc_enabled s) of
       Inl _ \<Rightarrow> emit_event ''reject:1002:bad_crc''
     | Inr body \<Rightarrow>
         (case request_match body of
            None \<Rightarrow> emit_event ''reject:1001:bad_frame''
          | Some (id_text, command) \<Rightarrow>
              let rid = (case id_text of None \<Rightarrow> 0 | Some ds \<Rightarrow> dec_val ds) in
              if rid > 65535 \<or> (id_text \<noteq> None \<and> rid = 0) then emit_event ''reject:1003:bad_id''
              else if strip command \<noteq> command \<or> list_ex (\<lambda>c. \<not> (32 \<le> ord c \<and> ord c \<le> 126)) command
              then emit_event ''reject:1001:bad_frame''
              else handle_request rid command))"

definition handle_v1 :: "string \<Rightarrow> unit sim" where
  "handle_v1 line = swith (\<lambda>s.
     if length line > 40 then emit_unprotected ''error:command too long''
     else if line = ''ping'' then emit_unprotected '' ok''
     else if line = ''protocol:2?'' then emit_unprotected (if sc_v2_available (sm_config s) then ''protocol:2 available'' else ''ok'')
     else if line = ''protocol:2'' \<and> sc_v2_available (sm_config s) then
       sthen (emit_unprotected ''protocol:2 ready'')
         (supdate (\<lambda>s. s\<lparr> sm_mode := SimV2, sm_crc_enabled := False, sm_event_sequence := 0 \<rparr>))
     else if line = ''version'' then emit_unprotected ''CS71 7.1.260714.6''
     else emit_unprotected ''ok'')"

definition handle_line :: "string \<Rightarrow> unit sim" where
  "handle_line raw_line = swith (\<lambda>s.
     if raw_line = ''stop'' then handle_priority_stop
     else if \<not> is_ascii raw_line then
       (if sm_mode s = SimV1 then emit_unprotected ''error:invalid command'' else emit_event ''reject:1001:bad_frame'')
     else if sm_mode s = SimV1 then handle_v1 raw_line else handle_v2 raw_line)"

section \<open>The byte stream\<close>

definition reset_state :: "unit sim" where
  "reset_state =
     sthen (supdate (\<lambda>s. s\<lparr> sm_mode := SimV1, sm_crc_enabled := False, sm_event_sequence := 0, sm_active_id := None,
         sm_machine_mode := ''recovering'', sm_phase := ''idle'', sm_feed_homed := False, sm_sort_homed := False,
         sm_queue_previous := 0, sm_queue_next := 0, sm_config_generation := 0, sm_fault_code := 0,
         sm_read_error := False, sm_boot_at_ms := mc_now_ms (sm_clock s) \<rparr>))
       (emit_unprotected ''Ready'')"

definition new_simulator :: "sim_config \<Rightarrow> (nat \<Rightarrow> int) \<Rightarrow> simulator" where
  "new_simulator config draws = snd (reset_state
     \<lparr> sm_config = config, sm_clock = new_clock, sm_draws = draws, sm_drawn = 0, sm_incoming = [], sm_outgoing = [],
       sm_transcript = [], sm_closed = False, sm_resets = 0, sm_mode = SimV1, sm_crc_enabled = False,
       sm_event_sequence = 0, sm_active_id = None, sm_machine_mode = ''recovering'', sm_phase = ''idle'',
       sm_feed_homed = False, sm_sort_homed = False, sm_queue_previous = 0, sm_queue_next = 0,
       sm_config_generation = 0, sm_fault_code = 0, sm_read_error = False, sm_boot_at_ms = 0 \<rparr>)"

definition sim_read :: "int \<Rightarrow> string sim" where
  "sim_read n = swith (\<lambda>s.
     if n < 1 then sreturn []
     else if sm_read_error s then sraise Os_disconnected
     else if sm_outgoing s = [] then sreturn []
     else sthen (supdate (\<lambda>s. s\<lparr> sm_outgoing := drop (nat n) (sm_outgoing s) \<rparr>))
            (sreturn (take (nat n) (sm_outgoing s))))"

definition without_cr :: "string \<Rightarrow> string" where
  "without_cr raw_line = (if endswith raw_line [CHR 0x0D] then butlast raw_line else raw_line)"

text \<open>The loop of \<open>write\<close>; every turn removes a line, so the length of the input is fuel enough.\<close>

fun write_loop :: "nat \<Rightarrow> unit sim" where
  "write_loop 0 = sreturn ()"
| "write_loop (Suc n) = swith (\<lambda>s.
     case split_first (CHR 0x0A) (sm_incoming s) of
       (_, None) \<Rightarrow> sreturn ()
     | (raw_line, Some rest) \<Rightarrow>
         sthen (supdate (\<lambda>s. s\<lparr> sm_incoming := rest \<rparr>))
        (sthen (handle_line (without_cr raw_line)) (write_loop n)))"

definition sim_write :: "string \<Rightarrow> nat sim" where
  "sim_write data = swith (\<lambda>s.
     if sm_closed s then sraise Os_closed
     else
       sthen (supdate (\<lambda>s. (record_entry Host_to_simulator data s)\<lparr> sm_incoming := sm_incoming s @ data \<rparr>))
      (sthen (swith (\<lambda>s. write_loop (Suc (length (sm_incoming s)))))
             (sreturn (length data))))"

text \<open>The loop of \<open>ManualClock.advance\<close>; a callback schedules nothing, so the number of calls
  is fuel enough.\<close>

definition set_now :: "int \<Rightarrow> simulator \<Rightarrow> simulator" where
  "set_now t s = s\<lparr> sm_clock := (sm_clock s)\<lparr> mc_now_ms := t \<rparr> \<rparr>"

fun advance_loop :: "nat \<Rightarrow> int \<Rightarrow> unit sim" where
  "advance_loop 0 target_ms = supdate (set_now target_ms)"
| "advance_loop (Suc n) target_ms = swith (\<lambda>s.
     case mc_scheduled (sm_clock s) of
       [] \<Rightarrow> supdate (set_now target_ms)
     | (due_ms, seq, callback) # rest \<Rightarrow>
         if due_ms > target_ms then supdate (set_now target_ms)
         else
           sthen (supdate (\<lambda>s. s\<lparr> sm_clock := (sm_clock s)\<lparr> mc_now_ms := due_ms, mc_scheduled := rest \<rparr> \<rparr>))
          (sthen (run_callback callback) (advance_loop n target_ms)))"

definition sim_advance :: "int \<Rightarrow> unit sim" where
  "sim_advance delta_ms = swith (\<lambda>s.
     if delta_ms < 0 then sraise Value_error
     else advance_loop (pending_count (sm_clock s)) (mc_now_ms (sm_clock s) + delta_ms))"

definition drain_output :: "string sim" where
  "drain_output s = (Inr (sm_outgoing s), s\<lparr> sm_outgoing := [] \<rparr>)"

definition sim_reset :: "unit sim" where
  "sim_reset = swith (\<lambda>s.
     if sm_closed s then sraise Os_closed
     else sthen (supdate (\<lambda>s. cancel_schedule ((record_entry Direction_reset [] s)
             \<lparr> sm_resets := Suc (sm_resets s), sm_incoming := [], sm_outgoing := [] \<rparr>)))
           reset_state)"

definition sim_close :: "unit sim" where
  "sim_close = supdate (\<lambda>s. cancel_schedule (s\<lparr> sm_closed := True \<rparr>))"

section \<open>One operation at a time\<close>

fun callback_id :: "sim_callback \<Rightarrow> nat" where
  "callback_id (CB_sort rid slot) = rid"
| "callback_id (CB_home rid command) = rid"
| "callback_id (CB_progress rid) = rid"
| "callback_id (CB_fail rid) = rid"

text \<open>What may be scheduled for the active operation: one callback, or the second phase of a full
  homing before its completion. A sort is scheduled only for a slot the configuration has, with
  the sorter homed.\<close>

fun schedule_ok :: "nat \<Rightarrow> bool \<Rightarrow> nat option \<Rightarrow> (int \<times> nat \<times> sim_callback) list \<Rightarrow> bool" where
  "schedule_ok slots homed active [] = True"
| "schedule_ok slots homed active [(due, seq, cb)] = (active = Some (callback_id cb) \<and>
     (case cb of CB_sort rid slot \<Rightarrow> slot \<le> slots \<and> homed | _ \<Rightarrow> True))"
| "schedule_ok slots homed active [(due, seq, cb), (due', seq', cb')] = (active = Some (callback_id cb) \<and>
     active = Some (callback_id cb') \<and> (case (cb, cb') of (CB_progress _, CB_home _ _) \<Rightarrow> due \<le> due' | _ \<Rightarrow> False))"
| "schedule_ok slots homed active _ = False"

definition sim_wf :: "simulator \<Rightarrow> bool" where
  "sim_wf s = (1 \<le> sc_operation_duration_ms (sm_config s) \<and> 0 \<le> sc_operation_jitter_ms (sm_config s) \<and>
     list_all (\<lambda>(due, seq, cb). seq \<le> mc_sequence (sm_clock s)) (mc_scheduled (sm_clock s)) \<and>
     schedule_ok (sc_slot_max (sm_config s)) (sm_sort_homed s) (sm_active_id s) (mc_scheduled (sm_clock s)))"

text \<open>Everything but the output.\<close>

definition core :: "simulator \<Rightarrow> simulator" where
  "core s = s\<lparr> sm_outgoing := [], sm_transcript := [], sm_event_sequence := 0 \<rparr>"

text \<open>A computation started where \<open>P\<close> holds: it ends where \<open>Q\<close> holds of its result, or it raises
  and leaves the simulator well-formed.\<close>

definition holds :: "(simulator \<Rightarrow> bool) \<Rightarrow> 'a sim \<Rightarrow> ('a \<Rightarrow> simulator \<Rightarrow> bool) \<Rightarrow> bool" where
  "holds P m Q = (\<forall>s. P s \<longrightarrow> (case m s of (Inl e, s') \<Rightarrow> sim_wf s' | (Inr x, s') \<Rightarrow> Q x s'))"

lemma holds_bind: "holds P m Q \<Longrightarrow> (\<And>x. holds (Q x) (f x) R) \<Longrightarrow> holds P (sbind m f) R"
  by (fastforce simp: holds_def sbind_def split: prod.splits sum.splits)

lemma holds_then: "holds P m (\<lambda>_. Q) \<Longrightarrow> holds Q k R \<Longrightarrow> holds P (sthen m k) R"
  unfolding sthen_def by (rule holds_bind)

lemma holds_with: "(\<And>t. P t \<Longrightarrow> holds (\<lambda>s. s = t) (f t) R) \<Longrightarrow> holds P (swith f) R"
  by (auto simp: holds_def swith_def)

lemma holds_pre: "holds Q m R \<Longrightarrow> (\<And>s. P s \<Longrightarrow> Q s) \<Longrightarrow> holds P m R"
  by (simp add: holds_def)

lemma holds_post: "holds P m Q \<Longrightarrow> (\<And>x s. Q x s \<Longrightarrow> R x s) \<Longrightarrow> holds P m R"
  by (fastforce simp: holds_def split: prod.splits sum.splits)

lemma holds_return: "(\<And>s. P s \<Longrightarrow> Q x s) \<Longrightarrow> holds P (sreturn x) Q"
  by (simp add: holds_def sreturn_def)

lemma holds_raise: "(\<And>s. P s \<Longrightarrow> sim_wf s) \<Longrightarrow> holds P (sraise e) Q"
  by (simp add: holds_def sraise_def)

lemma holds_update: "(\<And>s. P s \<Longrightarrow> Q () (f s)) \<Longrightarrow> holds P (supdate f) Q"
  by (simp add: holds_def supdate_def)

lemma holds_if: "(c \<Longrightarrow> holds P m R) \<Longrightarrow> (\<not> c \<Longrightarrow> holds P k R) \<Longrightarrow> holds P (if c then m else k) R"
  by simp

lemma core_simps:
  assumes "core s' = core s"
  shows "sm_active_id s' = sm_active_id s" "sm_clock s' = sm_clock s" "sm_config s' = sm_config s"
    "sm_sort_homed s' = sm_sort_homed s" "sm_feed_homed s' = sm_feed_homed s" "sm_closed s' = sm_closed s"
    "sm_incoming s' = sm_incoming s" "sm_machine_mode s' = sm_machine_mode s" "sim_wf s' = sim_wf s"
  using assms by (cases s; cases s'; simp add: core_def sim_wf_def)+

lemma core_record: "core (record_entry dir data s) = core s"
  by (simp add: core_def record_entry_def)

lemma core_emit:
  "core (snd (emit_unprotected l s)) = core s" "core (snd (emit l s)) = core s"
  "core (snd (respond rid b s)) = core s" "core (snd (emit_event b s)) = core s" "core (snd (busy rid s)) = core s"
proof -
  show 1: "core (snd (emit_unprotected l s)) = core s" for l s
    by (simp add: emit_unprotected_def supdate_def core_record) (simp add: core_def)
  show 2: "core (snd (emit l s)) = core s" for l s
    using 1 by (auto simp: emit_def swith_def sraise_def split: sum.splits)
  show 3: "core (snd (respond rid b s)) = core s" for rid b s unfolding respond_def by (rule 2)
  show "core (snd (emit_event b s)) = core s"
    unfolding emit_event_def sthen_def sbind_def supdate_def swith_def using 2
    by (simp add: core_def)
  show "core (snd (busy rid s)) = core s" unfolding busy_def swith_def by (rule 3)
qed

text \<open>Output changes nothing a predicate of the core can see.\<close>

lemma holds_output:
  assumes "\<And>s. core (snd (m s)) = core s" "\<And>s. P s \<Longrightarrow> sim_wf s" "\<And>s s'. P s \<Longrightarrow> core s' = core s \<Longrightarrow> Q s'"
  shows "holds P m (\<lambda>_. Q)"
  unfolding holds_def
proof (intro allI impI)
  fix s assume "P s"
  then have "sim_wf (snd (m s))" "Q (snd (m s))"
    using assms(1) [of s] assms(2,3) core_simps(9) [of "snd (m s)" s] by auto
  then show "case m s of (Inl e, s') \<Rightarrow> sim_wf s' | (Inr x, s') \<Rightarrow> Q s'"
    by (cases "m s") (auto split: sum.splits)
qed

lemmas holds_emission = holds_output [OF core_emit(1)] holds_output [OF core_emit(3)] holds_output [OF core_emit(4)]
  holds_output [OF core_emit(5)]

definition engaged :: "nat \<Rightarrow> simulator \<Rightarrow> bool" where
  "engaged rid s = (sim_wf s \<and> sm_active_id s = Some rid \<and> mc_scheduled (sm_clock s) = [])"

lemma core_engaged: "core s' = core s \<Longrightarrow> engaged rid s' = engaged rid s"
  unfolding engaged_def by (metis core_simps(1,2,9))

lemma idle_schedule: "sim_wf s \<Longrightarrow> sm_active_id s = None \<Longrightarrow> mc_scheduled (sm_clock s) = []"
  by (cases "(sc_slot_max (sm_config s), sm_sort_homed s, sm_active_id s, mc_scheduled (sm_clock s))" rule: schedule_ok.cases)
    (auto simp: sim_wf_def)

lemma holds_respond_wf: "holds sim_wf (respond rid b) (\<lambda>_. sim_wf)" "holds sim_wf (emit_event b) (\<lambda>_. sim_wf)"
  "holds sim_wf (emit_unprotected b) (\<lambda>_. sim_wf)" "holds sim_wf (busy rid) (\<lambda>_. sim_wf)"
  by (rule holds_emission; metis core_simps(9))+

lemma holds_engaged:
  "holds (engaged i) (respond rid b) (\<lambda>_. engaged i)" "holds (engaged i) (emit_event b) (\<lambda>_. engaged i)"
  by (rule holds_emission; metis core_engaged engaged_def)+

lemma holds_with_any: "(\<And>t. P t \<Longrightarrow> holds P (f t) R) \<Longrightarrow> holds P (swith f) R"
  by (rule holds_with, rule holds_pre [where Q = P]) auto

lemma start_operation_holds:
  "holds sim_wf (start_operation rid operation phase) (\<lambda>started s. sim_wf s \<and> (started \<longrightarrow> engaged rid s))"
proof -
  have refused: "holds sim_wf (sthen (busy rid) (sreturn False)) (\<lambda>started s. sim_wf s \<and> (started \<longrightarrow> engaged rid s))"
    by (rule holds_then [OF holds_respond_wf(4)]) (rule holds_return, simp)
  have engage: "holds (\<lambda>s. sim_wf s \<and> sm_active_id s = None)
      (supdate (\<lambda>s. s\<lparr> sm_active_id := Some rid, sm_machine_mode := mode s, sm_phase := phase \<rparr>)) (\<lambda>_. engaged rid)" for mode
  proof (rule holds_update)
    fix s assume "sim_wf s \<and> sm_active_id s = None"
    then have "sim_wf s" "mc_scheduled (sm_clock s) = []" using idle_schedule by blast+
    then show "engaged rid (s\<lparr> sm_active_id := Some rid, sm_machine_mode := mode s, sm_phase := phase \<rparr>)"
      by (simp add: engaged_def sim_wf_def)
  qed
  have tell: "holds (engaged rid) (sthen (respond rid body) (sthen (swith (\<lambda>s. emit_event (line s))) (sreturn True)))
      (\<lambda>started s. sim_wf s \<and> (started \<longrightarrow> engaged rid s))" for body line
  proof (rule holds_then [OF holds_engaged(1)], rule holds_then)
    show "holds (engaged rid) (swith (\<lambda>s. emit_event (line s))) (\<lambda>_. engaged rid)"
      by (rule holds_with_any) (rule holds_engaged(2))
  qed (rule holds_return, simp add: engaged_def)
  show ?thesis
    unfolding start_operation_def
    by (rule holds_with, rule holds_if)
      (rule holds_pre [OF refused], simp, rule holds_pre [OF holds_then [OF engage tell]], simp)
qed

lemma complete_holds: "holds (engaged rid) (complete_operation rid body) (\<lambda>_. sim_wf)"
proof -
  have freed: "holds (engaged rid) (supdate (\<lambda>s. s\<lparr> sm_active_id := None, sm_machine_mode := mode s, sm_phase := ''idle'' \<rparr>)) (\<lambda>_. sim_wf)" for mode
    by (rule holds_update) (simp add: engaged_def sim_wf_def)
  have tell: "holds sim_wf (sthen (swith (\<lambda>s. emit_event (line s))) (respond rid body)) (\<lambda>_. sim_wf)" for line
    by (rule holds_then [OF holds_with_any [OF holds_respond_wf(2)] holds_respond_wf(1)])
  show ?thesis
    unfolding complete_operation_def
    by (rule holds_with, rule holds_if)
      (rule holds_return, simp add: engaged_def, rule holds_pre [OF holds_then [OF freed tell]], simp)
qed

lemma fail_holds: "holds (engaged rid) (run_callback (CB_fail rid)) (\<lambda>_. sim_wf)"
proof -
  have freed: "holds (engaged rid) (supdate (\<lambda>s. s\<lparr> sm_active_id := None, sm_machine_mode := ''recovering'', sm_phase := ''idle'',
      sm_feed_homed := False, sm_fault_code := 3001 \<rparr>)) (\<lambda>_. sim_wf)"
    by (rule holds_update) (simp add: engaged_def sim_wf_def)
  have tell: "holds sim_wf (sseq [respond rid a, emit_event b, emit_event c]) (\<lambda>_. sim_wf)" for a b c
    unfolding sseq.simps by (intro holds_then [OF holds_respond_wf(1)] holds_then [OF holds_respond_wf(2)] holds_return)
  show ?thesis
    unfolding run_callback.simps sseq.simps(2) [of "supdate _"]
    by (rule holds_with, rule holds_if)
      (rule holds_return, simp add: engaged_def, rule holds_pre [OF holds_then [OF freed tell]], simp)
qed

text \<open>The first callback of an operation; the completion of a homing behind its second phase.\<close>

lemma schedule_holds:
  assumes "0 \<le> delay"
  shows "holds (\<lambda>s. engaged (callback_id cb) s \<and> (case cb of CB_sort rid slot \<Rightarrow> slot \<le> sc_slot_max (sm_config s) \<and> sm_sort_homed s | _ \<Rightarrow> True))
    (call_back_after delay cb) (\<lambda>_. sim_wf)"
  using assms by (auto simp: holds_def call_back_after_def call_later_def engaged_def sim_wf_def)

text \<open>What an operation leaves as it is while it starts.\<close>

definition setting :: "simulator \<Rightarrow> sim_config \<times> bool" where
  "setting s = (sm_config s, sm_sort_homed s)"

lemma core_setting: "core s' = core s \<Longrightarrow> setting s' = setting s"
  using core_simps(3,4) [of s' s] by (simp add: setting_def)

lemma holds_frame:
  assumes "holds P m Q" "\<And>s. F (snd (m s)) = F s"
  shows "holds (\<lambda>s. P s \<and> F s = v) m (\<lambda>x s. Q x s \<and> F s = v)"
  unfolding holds_def
proof (intro allI impI)
  fix s assume "P s \<and> F s = v"
  then show "case m s of (Inl e, s') \<Rightarrow> sim_wf s' | (Inr x, s') \<Rightarrow> Q x s' \<and> F s' = v"
    using assms(1) assms(2) [of s] unfolding holds_def by (cases "m s") (auto split: sum.splits)
qed

lemma holds_frame_elim: "(\<And>v. holds (\<lambda>s. P s \<and> F s = v) m Q) \<Longrightarrow> holds P m Q"
  by (simp add: holds_def)

lemma calm_start: "setting (snd (start_operation rid operation phase s)) = setting s"
proof -
  have bind: "(\<And>s. setting (snd (m s)) = setting s) \<Longrightarrow> (\<And>s. setting (snd (k s)) = setting s) \<Longrightarrow>
      setting (snd (sthen m k s)) = setting s" for m :: "unit sim" and k :: "bool sim" and s
    by (auto simp: sthen_def sbind_def split: prod.splits sum.splits) (metis snd_conv)+
  have out: "setting (snd (respond rid b s)) = setting s" "setting (snd (emit_event b s)) = setting s"
    "setting (snd (busy rid s)) = setting s" for b s
    by (intro core_setting core_emit)+
  show ?thesis
    unfolding start_operation_def swith_def
    by (auto intro!: bind simp: out sreturn_def) (auto simp: supdate_def setting_def)
qed

lemma delay_holds:
  "holds (\<lambda>s. engaged rid s \<and> setting s = v) operation_delay_ms (\<lambda>delay s. (engaged rid s \<and> setting s = v) \<and> 1 \<le> delay)"
proof -
  have "1 \<le> a + x mod (j + 1)" if "1 \<le> a" "0 \<le> j" for a x j :: int
    using that pos_mod_sign [of "j + 1" x] by linarith
  then show ?thesis by (auto simp: holds_def operation_delay_ms_def engaged_def sim_wf_def setting_def)
qed

text \<open>An operation that starts, draws its delay and schedules.\<close>

lemma start_holds:
  assumes "\<And>delay. 1 \<le> delay \<Longrightarrow> holds (\<lambda>s. engaged rid s \<and> setting s = v) (k delay) (\<lambda>_. sim_wf)"
  shows "holds (\<lambda>s. sim_wf s \<and> setting s = v) (sbind (start_operation rid operation phase) (\<lambda>started.
     if \<not> started then sreturn () else sbind operation_delay_ms k)) (\<lambda>_. sim_wf)"
proof (rule holds_bind [OF holds_frame [where F = setting, OF start_operation_holds calm_start]])
  fix started
  have "holds (\<lambda>s. engaged rid s \<and> setting s = v) (sbind operation_delay_ms k) (\<lambda>_. sim_wf)"
  proof (rule holds_bind [OF delay_holds])
    fix delay
    show "holds (\<lambda>s. (engaged rid s \<and> setting s = v) \<and> 1 \<le> delay) (k delay) (\<lambda>_. sim_wf)"
    proof (cases "1 \<le> delay")
      case True
      then show ?thesis by (intro holds_pre [OF assms]) auto
    qed (simp add: holds_def)
  qed
  then show "holds (\<lambda>s. (sim_wf s \<and> (started \<longrightarrow> engaged rid s)) \<and> setting s = v)
      (if \<not> started then sreturn () else sbind operation_delay_ms k) (\<lambda>_. sim_wf)"
    by (cases started) (auto intro: holds_pre holds_return)
qed

lemma start_sort_holds: "holds sim_wf (start_sort rid text) (\<lambda>_. sim_wf)"
  unfolding start_sort_def
proof (rule holds_with, intro holds_if)
  fix t assume t: "sim_wf t" "\<not> dec_val text > sc_slot_max (sm_config t)" "\<not> \<not> sm_sort_homed t"
  have "holds (\<lambda>s. engaged rid s \<and> setting s = setting t) (call_back_after delay (CB_sort rid (dec_val text))) (\<lambda>_. sim_wf)"
    if "1 \<le> delay" for delay
    by (rule holds_pre [OF schedule_holds]) (use that t in \<open>auto simp: setting_def\<close>)
  then show "holds (\<lambda>s. s = t) (sbind (start_operation rid ''sort'' ''sort_move'') (\<lambda>started. if \<not> started then sreturn ()
      else sbind operation_delay_ms (\<lambda>delay. call_back_after delay (CB_sort rid (dec_val text))))) (\<lambda>_. sim_wf)"
    using t(1) by (intro holds_pre [OF start_holds [where v = "setting t"]]) auto
qed (auto intro: holds_pre [OF holds_respond_wf(1)])

lemma injected_fault_holds: "holds sim_wf (start_injected_fault rid) (\<lambda>_. sim_wf)"
proof -
  have "holds (\<lambda>s. engaged rid s \<and> setting s = v) (call_back_after delay (CB_fail rid)) (\<lambda>_. sim_wf)" if "1 \<le> delay" for delay v
    by (rule holds_pre [OF schedule_holds]) (use that in auto)
  from start_holds [OF this] show ?thesis
    unfolding start_injected_fault_def by (rule holds_frame_elim)
qed

lemma two_phases_holds:
  assumes "0 \<le> first" "first \<le> delay"
  shows "holds (engaged rid) (sthen (call_back_after first (CB_progress rid)) (call_back_after delay (CB_home rid command))) (\<lambda>_. sim_wf)"
  using assms by (auto simp: holds_def sthen_def sbind_def call_back_after_def call_later_def engaged_def sim_wf_def)

lemma sthen_assoc: "sthen (sthen a b) c = sthen a (sthen b c)"
  by (auto simp: fun_eq_iff sthen_def sbind_def split: prod.splits sum.splits)

lemma sthen_return: "sthen (sreturn ()) k = k"
  by (simp add: fun_eq_iff sthen_def sbind_def sreturn_def)

lemma start_home_holds: "holds sim_wf (start_home rid command) (\<lambda>_. sim_wf)"
proof (rule holds_frame_elim [where F = setting])
  fix v
  have "holds (\<lambda>s. engaged rid s \<and> setting s = v)
      (sthen (if command = ''homeall''
              then sthen (respond rid ''progress:phase=feed_home'') (call_back_after (max 1 (delay div 2)) (CB_progress rid))
              else sreturn ())
             (call_back_after delay (CB_home rid command))) (\<lambda>_. sim_wf)" if "1 \<le> delay" for delay
  proof (cases "command = ''homeall''")
    case True
    have "0 \<le> max 1 (delay div 2)" "max 1 (delay div 2) \<le> delay" using that by auto
    note both = holds_then [OF holds_engaged(1) two_phases_holds [OF this]]
    show ?thesis unfolding True by (simp add: sthen_assoc) (rule holds_pre [OF both], simp)
  next
    case False
    have "holds (engaged rid) (call_back_after delay (CB_home rid command)) (\<lambda>_. sim_wf)"
      by (rule holds_pre [OF schedule_holds]) (use that in auto)
    from holds_pre [OF this, of "\<lambda>s. engaged rid s \<and> setting s = v"] show ?thesis
      using False by (simp add: sthen_return)
  qed
  then show "holds (\<lambda>s. sim_wf s \<and> setting s = v) (start_home rid command) (\<lambda>_. sim_wf)"
    unfolding start_home_def by (rule start_holds)
qed

lemma holds_output_list:
  "list_all (\<lambda>m. holds sim_wf m (\<lambda>_. sim_wf)) ms \<Longrightarrow> holds sim_wf (sseq ms) (\<lambda>_. sim_wf)"
  by (induction ms) (auto intro: holds_return holds_then)

lemma wf_stopped: "sim_wf (sim_stopped (cancel_schedule s)) = sim_wf (cancel_schedule s)" "sim_wf s \<Longrightarrow> sim_wf (cancel_schedule s)"
  by (auto simp: sim_stopped_def cancel_schedule_def clear_clock_def sim_wf_def)

lemma stop_holds: "holds sim_wf handle_priority_stop (\<lambda>_. sim_wf)" "holds sim_wf (handle_correlated_stop rid) (\<lambda>_. sim_wf)"
proof -
  have "holds sim_wf (supdate (\<lambda>s. sim_stopped (cancel_schedule s))) (\<lambda>_. sim_wf)"
    by (rule holds_update) (simp add: wf_stopped)
  moreover have "holds sim_wf (swith (\<lambda>s. if sm_mode s = SimV2 then emit_event line else sreturn ())) (\<lambda>_. sim_wf)" for line
    by (rule holds_with_any) (simp add: holds_respond_wf holds_return)
  ultimately show "holds sim_wf handle_priority_stop (\<lambda>_. sim_wf)"
    unfolding handle_priority_stop_def by (rule holds_then [OF _ holds_then [OF _ holds_respond_wf(3)]])
  define calm where "calm = (\<lambda>s. sim_wf s \<and> mc_scheduled (sm_clock s) = [])"
  have calm: "calm s'" if "calm s" and same: "core s' = core s" for s s'
    using that(1) core_simps(2,9) [OF same] by (simp add: calm_def)
  have out: "holds calm (case active of None \<Rightarrow> sreturn () | Some a \<Rightarrow> respond a line) (\<lambda>_. calm)" for active line
    by (cases active) (simp_all add: holds_return, rule holds_emission(2) [OF _ calm], simp_all add: calm_def)
  have "holds calm (sseq [case active of None \<Rightarrow> sreturn () | Some a \<Rightarrow> respond a line, supdate sim_stopped, emit_event l1, respond rid l2])
      (\<lambda>_. sim_wf)" for active line l1 l2
    unfolding sseq.simps(2) [of "case active of None \<Rightarrow> sreturn () | Some a \<Rightarrow> respond a line"] sseq.simps(2) [of "supdate sim_stopped"]
  proof (rule holds_then [OF out], rule holds_then)
    show "holds calm (supdate sim_stopped) (\<lambda>_. sim_wf)"
      by (rule holds_update) (simp add: calm_def sim_stopped_def sim_wf_def)
  qed (rule holds_output_list, simp add: holds_respond_wf)
  moreover have "holds sim_wf (supdate cancel_schedule) (\<lambda>_. calm)"
    by (rule holds_update) (simp add: calm_def wf_stopped, simp add: cancel_schedule_def clear_clock_def)
  ultimately show "holds sim_wf (handle_correlated_stop rid) (\<lambda>_. sim_wf)"
    unfolding handle_correlated_stop_def sseq.simps(2) [of "supdate cancel_schedule"]
    by (intro holds_with_any holds_then)
qed

lemma update_holds: "(\<And>s. sim_wf (f s) = sim_wf s) \<Longrightarrow> holds sim_wf (supdate f) (\<lambda>_. sim_wf)"
  by (rule holds_update) simp

lemma respond_data_holds: "holds sim_wf (respond_data rid ls) (\<lambda>_. sim_wf)"
  unfolding respond_data_def
  by (intro holds_then [OF holds_output_list holds_respond_wf(1)]) (simp add: list_all_iff holds_respond_wf)

lemma inject_holds: "holds sim_wf (inject scenario rid) (\<lambda>_. sim_wf)"
proof (cases scenario)
  case AS_event_gap
  have line: "holds sim_wf (swith (\<lambda>s. emit_event (f s))) (\<lambda>_. sim_wf)" for f
    by (rule holds_with_any) (rule holds_respond_wf(2))
  have skip: "holds sim_wf (supdate (\<lambda>s. s\<lparr> sm_event_sequence := f s \<rparr>)) (\<lambda>_. sim_wf)" for f
    by (rule update_holds) (simp add: sim_wf_def)
  show ?thesis
    unfolding AS_event_gap inject.simps
    by (rule holds_output_list) (simp add: line skip holds_respond_wf del: append.simps)
qed (auto intro!: holds_respond_wf update_holds injected_fault_holds holds_return simp: sim_wf_def)

lemma crc_holds: "holds sim_wf (sim_enable_crc rid) (\<lambda>_. sim_wf)" "holds sim_wf (sim_disable_crc rid) (\<lambda>_. sim_wf)"
proof -
  have crc: "holds sim_wf (supdate (\<lambda>s. s\<lparr> sm_crc_enabled := b \<rparr>)) (\<lambda>_. sim_wf)" for b
    by (rule update_holds) (simp add: sim_wf_def)
  show "holds sim_wf (sim_enable_crc rid) (\<lambda>_. sim_wf)"
    unfolding sim_enable_crc_def by (rule holds_with_any) (simp add: holds_respond_wf holds_then [OF crc holds_respond_wf(1)])
  show "holds sim_wf (sim_disable_crc rid) (\<lambda>_. sim_wf)"
    unfolding sim_disable_crc_def by (rule holds_then [OF holds_respond_wf(1) crc])
qed

lemma run_v2_command_holds: "holds sim_wf (run_v2_command rid command) (\<lambda>_. sim_wf)"
proof -
  have leave: "holds sim_wf (supdate sim_leave_v2) (\<lambda>_. sim_wf)" by (rule update_holds) (simp add: sim_leave_v2_def sim_wf_def)
  show ?thesis
    unfolding run_v2_command_def
    by (rule holds_with_any) (simp add: holds_respond_wf respond_data_holds crc_holds start_sort_holds start_home_holds
        holds_then [OF holds_respond_wf(1) leave] holds_then [OF holds_respond_wf(1) holds_respond_wf(1)])
qed

lemma handle_request_holds: "holds sim_wf (handle_request rid command) (\<lambda>_. sim_wf)"
proof -
  have injected: "holds sim_wf (inject_adverse_scenario rid command) (\<lambda>_. sim_wf)"
    unfolding inject_adverse_scenario_def
    by (rule holds_with_any) (auto intro!: holds_then [OF inject_holds] holds_return split: option.splits)
  have "holds sim_wf (if done then sreturn () else swith (\<lambda>s. if c s then busy rid else run_v2_command rid command)) (\<lambda>_. sim_wf)" for "done" c
    by (cases "done") (auto intro!: holds_return holds_with_any holds_respond_wf run_v2_command_holds)
  from holds_bind [OF injected this] show ?thesis
    unfolding handle_request_def
    by (intro holds_with_any holds_if holds_respond_wf stop_holds)
qed

lemma handle_line_holds: "holds sim_wf (handle_line line) (\<lambda>_. sim_wf)"
proof -
  have v1: "holds sim_wf (handle_v1 line) (\<lambda>_. sim_wf)"
  proof -
    have enter: "holds sim_wf (supdate (\<lambda>s. s\<lparr> sm_mode := SimV2, sm_crc_enabled := False, sm_event_sequence := 0 \<rparr>)) (\<lambda>_. sim_wf)"
      by (rule update_holds) (simp add: sim_wf_def)
    show ?thesis
      unfolding handle_v1_def
      by (rule holds_with_any) (simp add: holds_respond_wf holds_then [OF holds_respond_wf(3) enter])
  qed
  have v2: "holds sim_wf (handle_v2 line) (\<lambda>_. sim_wf)"
    unfolding handle_v2_def Let_def
    by (rule holds_with_any) (auto split: sum.splits option.splits prod.splits intro!: holds_respond_wf handle_request_holds)
  show ?thesis
    unfolding handle_line_def
    by (rule holds_with_any) (simp add: holds_respond_wf stop_holds v1 v2)
qed

lemma write_holds: "holds sim_wf (sim_write data) (\<lambda>_. sim_wf)"
proof -
  have loop: "holds sim_wf (write_loop n) (\<lambda>_. sim_wf)" for n
  proof (induction n)
    case (Suc n)
    have taken: "holds sim_wf (supdate (\<lambda>s. s\<lparr> sm_incoming := rest \<rparr>)) (\<lambda>_. sim_wf)" for rest
      by (rule update_holds) (simp add: sim_wf_def)
    show ?case
      unfolding write_loop.simps
      by (rule holds_with_any)
        (auto split: prod.splits option.splits intro!: holds_return holds_then [OF taken] holds_then [OF handle_line_holds] Suc)
  qed (simp add: holds_return)
  have "holds sim_wf (supdate (\<lambda>s. (record_entry Host_to_simulator data s)\<lparr> sm_incoming := sm_incoming s @ data \<rparr>)) (\<lambda>_. sim_wf)"
    by (rule update_holds) (simp add: sim_wf_def record_entry_def)
  moreover have "holds sim_wf (swith (\<lambda>s. write_loop (Suc (length (sm_incoming s))))) (\<lambda>_. sim_wf)"
    by (rule holds_with_any) (rule loop)
  moreover have "holds sim_wf (sreturn (length data)) (\<lambda>_. sim_wf)" by (rule holds_return)
  ultimately show ?thesis
    unfolding sim_write_def by (intro holds_with_any holds_if) (auto intro: holds_raise holds_then)
qed

lemma progress_holds: "holds sim_wf (run_callback (CB_progress rid)) (\<lambda>_. sim_wf)"
proof -
  have "holds sim_wf (supdate (\<lambda>s. s\<lparr> sm_phase := ''sort_home'' \<rparr>)) (\<lambda>_. sim_wf)"
    by (rule update_holds) (simp add: sim_wf_def)
  then have "holds sim_wf (sseq [supdate (\<lambda>s. s\<lparr> sm_phase := ''sort_home'' \<rparr>), respond rid a, emit_event b]) (\<lambda>_. sim_wf)" for a b
    by (intro holds_output_list) (simp add: holds_respond_wf)
  then show ?thesis
    unfolding run_callback.simps by (intro holds_with_any holds_if holds_return) auto
qed

lemma callback_holds: "holds (engaged (callback_id cb)) (run_callback cb) (\<lambda>_. sim_wf)"
proof (cases cb)
  case (CB_sort rid slot)
  have "holds (engaged rid) (supdate (\<lambda>s. s\<lparr> sm_queue_previous := slot, sm_queue_next := slot \<rparr>)) (\<lambda>_. engaged rid)"
    by (rule holds_update) (simp add: engaged_def sim_wf_def)
  from holds_then [OF this complete_holds] show ?thesis by (simp add: CB_sort)
next
  case (CB_home rid command)
  have "holds (engaged rid) (supdate (\<lambda>s. s\<lparr> sm_feed_homed := f s, sm_sort_homed := g s \<rparr>)) (\<lambda>_. engaged rid)" for f g
    by (rule holds_update) (simp add: engaged_def sim_wf_def)
  moreover have "holds (engaged rid) (swith (\<lambda>s. complete_operation rid (line s))) (\<lambda>_. sim_wf)" for line
    by (rule holds_with_any) (rule complete_holds)
  ultimately show ?thesis unfolding CB_home run_callback.simps callback_id.simps by (rule holds_then)
next
  case (CB_progress rid)
  have "engaged rid s \<Longrightarrow> sim_wf s" for s by (simp add: engaged_def)
  then show ?thesis unfolding CB_progress callback_id.simps by (rule holds_pre [OF progress_holds])
qed (simp add: fail_holds del: run_callback.simps)

lemma take_due:
  assumes "sim_wf t" "mc_scheduled (sm_clock t) = (due, seq, cb) # rest"
    and "u = t\<lparr> sm_clock := (sm_clock t)\<lparr> mc_now_ms := due, mc_scheduled := rest \<rparr> \<rparr>"
  shows "holds (\<lambda>s. s = u) (run_callback cb) (\<lambda>_. sim_wf)"
proof (cases rest)
  case Nil
  have "engaged (callback_id cb) u" using assms Nil by (auto simp: engaged_def sim_wf_def)
  then show ?thesis by (intro holds_pre [OF callback_holds]) simp
next
  case (Cons x more)
  obtain rid due' seq' command where shape: "cb = CB_progress rid" "rest = [(due', seq', CB_home rid command)]"
      "sm_active_id t = Some rid"
    using assms(1,2) Cons
    by (cases "(sc_slot_max (sm_config t), sm_sort_homed t, sm_active_id t, mc_scheduled (sm_clock t))" rule: schedule_ok.cases)
      (auto simp: sim_wf_def split: sim_callback.splits)
  have "sim_wf u" using assms shape by (simp add: sim_wf_def)
  then show ?thesis unfolding shape(1) by (intro holds_pre [OF progress_holds]) simp
qed

lemma advance_holds: "holds sim_wf (sim_advance delta) (\<lambda>_. sim_wf)"
proof -
  have arrive: "holds sim_wf (supdate (set_now target)) (\<lambda>_. sim_wf)" for target
    by (rule update_holds) (simp add: set_now_def sim_wf_def)
  have "holds sim_wf (advance_loop n target) (\<lambda>_. sim_wf)" for n target
  proof (induction n)
    case (Suc n)
    show ?case
      unfolding advance_loop.simps
    proof (rule holds_with)
      fix t assume t: "sim_wf t"
      have here: "holds (\<lambda>s. s = t) (supdate (set_now target)) (\<lambda>_. sim_wf)"
        by (rule holds_pre [OF arrive]) (use t in simp)
      show "holds (\<lambda>s. s = t) (case mc_scheduled (sm_clock t) of
          [] \<Rightarrow> supdate (set_now target)
        | (due_ms, seq, callback) # rest \<Rightarrow>
            if due_ms > target then supdate (set_now target)
            else sthen (supdate (\<lambda>s. s\<lparr> sm_clock := (sm_clock s)\<lparr> mc_now_ms := due_ms, mc_scheduled := rest \<rparr> \<rparr>))
              (sthen (run_callback callback) (advance_loop n target))) (\<lambda>_. sim_wf)"
      proof (cases "mc_scheduled (sm_clock t)")
        case Nil
        then show ?thesis using here by simp
      next
        case (Cons x rest)
        obtain due seq cb where x: "x = (due, seq, cb)" by (cases x) auto
        define u where "u = t\<lparr> sm_clock := (sm_clock t)\<lparr> mc_now_ms := due, mc_scheduled := rest \<rparr> \<rparr>"
        have "holds (\<lambda>s. s = t) (supdate (\<lambda>s. s\<lparr> sm_clock := (sm_clock s)\<lparr> mc_now_ms := due, mc_scheduled := rest \<rparr> \<rparr>)) (\<lambda>_ s. s = u)"
          by (rule holds_update) (simp add: u_def)
        from holds_then [OF this holds_then [OF take_due [OF t _ u_def] Suc]]
        show ?thesis using Cons x here by simp
      qed
    qed
  qed (simp add: arrive)
  then show ?thesis
    unfolding sim_advance_def by (intro holds_with_any holds_if holds_raise) auto
qed

section \<open>Runs\<close>

inductive sim_step :: "simulator \<Rightarrow> simulator \<Rightarrow> bool" where
  st_write: "sim_step s (snd (sim_write data s))"
| st_read: "sim_step s (snd (sim_read n s))"
| st_advance: "sim_step s (snd (sim_advance delta s))"
| st_drain: "sim_step s (snd (drain_output s))"
| st_reset: "sim_step s (snd (sim_reset s))"
| st_close: "sim_step s (snd (sim_close s))"

lemma holdsD:
  assumes "holds P m (\<lambda>_. sim_wf)" "P s"
  shows "sim_wf (snd (m s))"
proof -
  obtain r s' where "m s = (r, s')" by fastforce
  then show ?thesis using assms unfolding holds_def by (cases r) auto
qed

lemma sim_step_wf:
  assumes "sim_step s s'" "sim_wf s"
  shows "sim_wf s'"
  using assms(1)
proof cases
  case (st_write data)
  then show ?thesis using holdsD [OF write_holds assms(2)] by simp
next
  case (st_advance delta)
  then show ?thesis using holdsD [OF advance_holds assms(2)] by simp
next
  case (st_read n)
  then show ?thesis using assms(2)
    by (auto simp: sim_read_def swith_def sreturn_def sraise_def sthen_def sbind_def supdate_def sim_wf_def)
next
  case st_reset
  then show ?thesis using assms(2)
    by (auto simp: sim_reset_def reset_state_def swith_def sraise_def sthen_def sbind_def supdate_def emit_unprotected_def
        record_entry_def cancel_schedule_def clear_clock_def sim_wf_def)
qed (use assms(2) in \<open>auto simp: drain_output_def sim_close_def supdate_def cancel_schedule_def clear_clock_def sim_wf_def\<close>)

lemma new_simulator_wf: "make_sim_config c = Inr config \<Longrightarrow> sim_wf (new_simulator config draws)"
  by (auto simp: make_sim_config_def new_simulator_def reset_state_def sthen_def sbind_def supdate_def emit_unprotected_def
      record_entry_def new_clock_def sim_wf_def split: if_splits)

lemma sim_reachable_wf:
  "sim_step\<^sup>*\<^sup>* (new_simulator config draws) s \<Longrightarrow> make_sim_config c = Inr config \<Longrightarrow> sim_wf s"
  by (induction rule: rtranclp_induct) (auto intro: new_simulator_wf sim_step_wf)

text \<open>
  Whatever bytes the simulator is given, however its time is advanced and whatever scenario
  it plays, it works on one operation at a time: everything scheduled belongs to the operation
  that is active, at most two steps of it are scheduled, and a sort is scheduled only for a slot
  within the configured maximum while the sorter is homed.
\<close>

theorem simulator_runs_one_operation:
  assumes "make_sim_config c = Inr config" "sim_step\<^sup>*\<^sup>* (new_simulator config draws) s"
    and "(due, seq, cb) \<in> set (mc_scheduled (sm_clock s))"
  shows "sm_active_id s = Some (callback_id cb) \<and> length (mc_scheduled (sm_clock s)) \<le> 2 \<and>
    (case cb of CB_sort rid slot \<Rightarrow> slot \<le> sc_slot_max (sm_config s) \<and> sm_sort_homed s | _ \<Rightarrow> True)"
  using sim_reachable_wf [OF assms(2,1)] assms(3)
  by (cases "(sc_slot_max (sm_config s), sm_sort_homed s, sm_active_id s, mc_scheduled (sm_clock s))" rule: schedule_ok.cases)
    (auto simp: sim_wf_def split: sim_callback.splits)

definition plain_line :: "string \<Rightarrow> string" where
  "plain_line l = l @ [CHR 0x0A]"

text \<open>The host writes a line and time goes on.\<close>

definition exchange_line :: "string \<Rightarrow> simulator \<Rightarrow> simulator" where
  "exchange_line l s = snd (sim_advance 100 (snd (sim_write (plain_line l) s)))"

definition demo_simulator :: "string \<Rightarrow> simulator" where
  "demo_simulator scenario = new_simulator (default_sim_config\<lparr> sc_scenario := scenario \<rparr>) (\<lambda>n. 0)"

lemma exchange_reachable: "sim_step\<^sup>*\<^sup>* s (exchange_line l s)"
  unfolding exchange_line_def by (rule rtranclp_trans [OF r_into_rtranclp r_into_rtranclp]) (rule st_write st_advance)+

lemma exchanges_reachable: "sim_step\<^sup>*\<^sup>* s (fold exchange_line ls s)"
  by (induction ls arbitrary: s) (auto intro: rtranclp_trans [OF exchange_reachable])

lemma nat_str_step:
  "n < 10 \<Longrightarrow> nat_str n = [digit_char n]" "\<not> n < 10 \<Longrightarrow> nat_str n = nat_str (n div 10) @ [digit_char (n mod 10)]"
  by (subst nat_str.simps, simp)+

lemma format_crc_length: "length (format_crc d) = 4"
  by (simp add: format_crc_def)

lemmas sim_eval = sthen_def sbind_def sreturn_def sraise_def supdate_def swith_def emit_unprotected_def record_entry_def
  emit_def respond_def emit_event_def next_sequence_def nat_str_step start_home_def start_sort_def start_operation_def
  start_injected_fault_def complete_operation_def operation_delay_ms_def call_back_after_def call_later_def busy_def bit_text_def
  both_axes_homed_def handle_request_def inject_adverse_scenario_def scenario_of_def SCENARIOS_def run_v2_command_def
  STATE_CHANGING_def startswith_def sim_enable_crc_def handle_line_def handle_v1_def handle_v2_def request_match_def
  sim_write_def sim_advance_def plain_line_def exchange_line_def demo_simulator_def new_simulator_def reset_state_def
  default_sim_config_def new_clock_def pending_count_def set_now_def without_cr_def endswith_def split_first_def
  remove_and_verify_crc_def rpartition_def is_ascii_def strip_def lstrip_def isspace_def is_digit_def dec_val_def digit_val_def
  ord_def Let_def

text \<open>A simulator of the fault scenario that has been homed and has sorted to slot 102; the output,
  the transcript, the clock and the draws do not matter.\<close>

definition sorted_102 :: "sim_callback manual_clock \<Rightarrow> nat \<Rightarrow> string \<Rightarrow> transcript_entry list \<Rightarrow> simulator" where
  "sorted_102 clock drawn out entries = \<lparr> sm_config = default_sim_config\<lparr> sc_scenario := ''fault-feed-overtravel'' \<rparr>,
     sm_clock = clock, sm_draws = (\<lambda>n. 0), sm_drawn = drawn, sm_incoming = [], sm_outgoing = out, sm_transcript = entries,
     sm_closed = False, sm_resets = 0, sm_mode = SimV2, sm_crc_enabled = False, sm_event_sequence = 5, sm_active_id = None,
     sm_machine_mode = ''running'', sm_phase = ''idle'', sm_feed_homed = True, sm_sort_homed = True,
     sm_queue_previous = 102, sm_queue_next = 102, sm_config_generation = 0, sm_fault_code = 0, sm_read_error = False,
     sm_boot_at_ms = 0 \<rparr>"

lemma sorted_102_reached:
  "\<exists>now seq drawn out entries. fold exchange_line [''protocol:2'', ''@1 homeall'', ''@2 sortto:102'']
     (demo_simulator ''fault-feed-overtravel'') =
     sorted_102 \<lparr> mc_now_ms = now, mc_sequence = seq, mc_scheduled = [] \<rparr> drawn out entries"
  by (simp add: sim_eval sorted_102_def)

definition vitals :: "simulator \<Rightarrow> bool \<times> nat option \<times> string \<times> string \<times> bool \<times> bool \<times> nat \<times> nat \<times> nat" where
  "vitals s = (sm_crc_enabled s, sm_active_id s, sm_machine_mode s, sm_phase s, sm_feed_homed s, sm_sort_homed s,
     sm_fault_code s, sm_queue_previous s, sm_queue_next s)"

lemma faulted_vitals:
  "vitals (fold exchange_line [''@3 sortto:3'', ''@4 crc:on'']
     (sorted_102 \<lparr> mc_now_ms = now, mc_sequence = seq, mc_scheduled = [] \<rparr> drawn out entries)) =
   (True, None, ''recovering'', ''idle'', False, True, 3001, 102, 102)"
  by (simp add: sim_eval sorted_102_def append_crc_def digit_char_def format_crc_length vitals_def)

lemma status_line_overflows:
  "vitals s = (True, None, ''recovering'', ''idle'', False, True, 3001, 102, 102) \<Longrightarrow>
     fst (run_v2_command 1000 ''status'' s) = Inl Runtime_oversized"
  by (simp add: vitals_def sim_eval append_crc_def digit_char_def format_crc_length respond_data_def status_lines_def)

text \<open>
  A status can be too long for the frame that carries it. There is a state the simulator reaches
  in five exchanges (a sort to slot 102, an injected fault, the checksum on) where the third line of
  a status for a request id of four digits has 65 bytes: the simulator raises \<open>RuntimeError\<close> out of
  \<open>write\<close> with the answer half sent.
\<close>

theorem status_frame_overflows:
  "\<exists>s. sim_step\<^sup>*\<^sup>* (demo_simulator ''fault-feed-overtravel'') s \<and>
     fst (run_v2_command 1000 ''status'' s) = Inl Runtime_oversized"
proof (intro exI conjI)
  let ?lines = "[''protocol:2'', ''@1 homeall'', ''@2 sortto:102''] @ [''@3 sortto:3'', ''@4 crc:on'']"
  show "sim_step\<^sup>*\<^sup>* (demo_simulator ''fault-feed-overtravel'') (fold exchange_line ?lines (demo_simulator ''fault-feed-overtravel''))"
    by (rule exchanges_reachable)
  show "fst (run_v2_command 1000 ''status'' (fold exchange_line ?lines (demo_simulator ''fault-feed-overtravel''))) = Inl Runtime_oversized"
  proof (rule status_line_overflows)
    show "vitals (fold exchange_line ?lines (demo_simulator ''fault-feed-overtravel'')) =
        (True, None, ''recovering'', ''idle'', False, True, 3001, 102, 102)"
      unfolding fold_append comp_def using sorted_102_reached faulted_vitals by metis
  qed
qed

lemma demo_busy:
  "map (\<lambda>(due, seq, cb). cb) (mc_scheduled (sm_clock (snd (sim_write (plain_line ''@1 homeall'')
     (exchange_line ''protocol:2'' (demo_simulator ''happy-v2'')))))) = [CB_progress 1, CB_home 1 ''homeall'']"
  by (simp add: sim_eval)

theorem simulator_runs_one_operation_witness:
  "sm_active_id (snd (sim_write (plain_line ''@1 homeall'') (exchange_line ''protocol:2'' (demo_simulator ''happy-v2'')))) = Some 1"
proof -
  let ?s = "snd (sim_write (plain_line ''@1 homeall'') (exchange_line ''protocol:2'' (demo_simulator ''happy-v2'')))"
  have "make_sim_config (default_sim_config\<lparr> sc_scenario := ''happy-v2'' \<rparr>) = Inr (default_sim_config\<lparr> sc_scenario := ''happy-v2'' \<rparr>)"
    by code_simp
  moreover have "sim_step\<^sup>*\<^sup>* (demo_simulator ''happy-v2'') ?s"
    by (rule rtranclp.rtrancl_into_rtrancl [OF exchange_reachable st_write])
  moreover obtain due seq where "(due, seq, CB_progress 1) \<in> set (mc_scheduled (sm_clock ?s))"
    using demo_busy by (cases "mc_scheduled (sm_clock ?s)") (auto split: prod.splits)
  ultimately show ?thesis
    using simulator_runs_one_operation [of _ _ "\<lambda>n. 0" ?s] unfolding demo_simulator_def by fastforce
qed

section \<open>Stopping\<close>

lemma emit_event_sent:
  assumes "sm_event_sequence s \<le> 65535" "length body \<le> 52" "is_ascii body"
  shows "fst (emit_event body s) = Inr ()"
proof -
  define q where "q = next_sequence (sm_event_sequence s)"
  have "q < 10 ^ Suc 4" using assms(1) by (simp add: q_def next_sequence_def)
  then have "length (nat_str q) \<le> 5" using nat_str_length [of q 4] by simp
  moreover have "is_ascii (CHR ''!'' # nat_str q @ CHR '' '' # body)"
    using assms(3) nat_str_digits [of q] by (auto simp: is_ascii_def list_all_iff is_digit_def ord_def)
  ultimately show ?thesis
    using assms(2)
    by (simp add: emit_event_def sthen_def sbind_def supdate_def swith_def emit_def append_crc_def format_crc_length
        emit_unprotected_def q_def [symmetric])
qed

lemma priority_stop_sent:
  assumes "sm_event_sequence w \<le> 65535"
  shows "\<exists>v. handle_priority_stop w = (Inr (), v) \<and> core v = core (sim_stopped (cancel_schedule w))"
proof -
  define u where "u = sim_stopped (cancel_schedule w)"
  have "sm_event_sequence u \<le> 65535" using assms by (simp add: u_def sim_stopped_def cancel_schedule_def)
  then have sent: "fst (emit_event ''state:mode=stopped phase=idle'' u) = Inr ()"
    by (intro emit_event_sent) (simp_all add: is_ascii_def ord_def)
  obtain v where v: "emit_event ''state:mode=stopped phase=idle'' u = (Inr (), v)" "core v = core u"
    using sent core_emit(4) [of "''state:mode=stopped phase=idle''" u] by (metis prod.collapse)
  show ?thesis
    using v core_emit(1) [of "''stopped''" v] core_emit(1) [of "''stopped''" u]
    by (auto simp: handle_priority_stop_def sthen_def sbind_def supdate_def swith_def sreturn_def u_def emit_unprotected_def)
qed

lemma write_one_line:
  assumes "\<not> sm_closed s" "sm_incoming s = []" "CHR 0x0A \<notin> set l"
    and "handle_line (without_cr l) ((record_entry Host_to_simulator (plain_line l) s)\<lparr> sm_incoming := [] \<rparr>) = (Inr (), v)"
    and "sm_incoming v = []"
  shows "sim_write (plain_line l) s = (Inr (Suc (length l)), v)"
proof -
  have "split_first (CHR 0x0A) (plain_line l) = (l, Some [])" using assms(3) unfolding plain_line_def by (rule split_first_append)
  moreover have "split_first (CHR 0x0A) [] = ([], None)" by (simp add: split_first_def)
  ultimately show ?thesis
    using assms
    by (simp add: sim_write_def swith_def sthen_def sbind_def supdate_def sreturn_def)
       (simp add: plain_line_def sreturn_def swith_def sbind_def)
qed

text \<open>
  C34: The bare line \<open>stop\<close> always takes effect at once, in either protocol and whatever is active: the
  write succeeds, no operation is active, neither axis counts as homed, and however far time is
  advanced afterwards nothing more happens and nothing more is sent.
\<close>

theorem stop_is_final:
  assumes "\<not> sm_closed s" "sm_incoming s = []" "sm_event_sequence s \<le> 65535" "0 \<le> delta"
    and "sim_write (plain_line ''stop'') s = (r, s')"
  shows "r = Inr 5 \<and> sm_active_id s' = None \<and> \<not> sm_feed_homed s' \<and> \<not> sm_sort_homed s' \<and>
    sim_advance delta s' = (Inr (), set_now (mc_now_ms (sm_clock s') + delta) s')"
proof -
  define w where "w = (record_entry Host_to_simulator (plain_line ''stop'') s)\<lparr> sm_incoming := [] \<rparr>"
  obtain v where v: "handle_priority_stop w = (Inr (), v)" "core v = core (sim_stopped (cancel_schedule w))"
    using priority_stop_sent [of w] assms(3) by (auto simp: w_def record_entry_def)
  note same = core_simps [OF v(2)]
  have calm: "sm_incoming v = []" "mc_scheduled (sm_clock v) = []"
    using same by (simp_all add: w_def sim_stopped_def cancel_schedule_def clear_clock_def)
  have "handle_line (without_cr ''stop'') w = (Inr (), v)"
    using v(1) by (simp add: handle_line_def swith_def without_cr_def endswith_def)
  then have "r = Inr 5 \<and> s' = v"
    using write_one_line [OF assms(1,2), of "''stop''"] assms(5) calm(1) by (simp add: w_def)
  then show ?thesis
    using same calm assms(4)
    by (simp add: sim_stopped_def sim_advance_def swith_def pending_count_def supdate_def)
qed

theorem stop_is_final_witness:
  "sm_active_id (snd (sim_write (plain_line ''stop'') (demo_simulator ''happy-v2''))) = None"
proof -
  let ?s = "demo_simulator ''happy-v2''"
  have "\<not> sm_closed ?s" "sm_incoming ?s = []" "sm_event_sequence ?s \<le> 65535"
    by (simp_all add: demo_simulator_def new_simulator_def reset_state_def sthen_def sbind_def supdate_def
        emit_unprotected_def record_entry_def)
  from stop_is_final [OF this, of 50] show ?thesis by (cases "sim_write (plain_line ''stop'') ?s") simp
qed

end
