(* ===== verification/Simulator_Protocol.thy ===== *)
theory Simulator_Protocol
  imports Client Simulator
begin

text \<open>
  The simulator and the protocol library joined: the answers of the simulator as the client of the
  library reads them.
\<close>

text \<open>The fields of a status, line by line, and what they say.\<close>

definition status_fields :: "simulator \<Rightarrow> fields list" where
  "status_fields s =
     [[(''mode'', sm_machine_mode s), (''phase'', sm_phase s), (''feed_homed'', bit_text (sm_feed_homed s))],
      [(''sort_homed'', bit_text (sm_sort_homed s)), (''motor_enabled'', ''0''),
       (''active_id'', case sm_active_id s of None \<Rightarrow> ''none'' | Some i \<Rightarrow> nat_str i)],
      [(''fault_code'', nat_str (sm_fault_code s)), (''queue_previous'', nat_str (sm_queue_previous s)),
       (''queue_next'', nat_str (sm_queue_next s))],
      [(''config_generation'', nat_str (sm_config_generation s))]]"

definition simulator_status :: "simulator \<Rightarrow> status" where
  "simulator_status s = \<lparr> s_mode = sm_machine_mode s, s_phase = sm_phase s, s_feed_homed = sm_feed_homed s,
     s_sort_homed = sm_sort_homed s, s_motor_enabled = False, s_active_id = sm_active_id s,
     s_fault_code = sm_fault_code s, s_queue_previous = sm_queue_previous s, s_queue_next = sm_queue_next s,
     s_config_generation = sm_config_generation s, s_extras = [] \<rparr>"

definition data_line :: "nat \<Rightarrow> string \<Rightarrow> string" where
  "data_line rid l = CHR ''@'' # nat_str rid @ CHR '' '' # ''data:'' @ l"

definition spoken :: "simulator \<Rightarrow> bool" where
  "spoken s = (sm_machine_mode s \<in> set status_modes \<and> sm_phase s \<in> set status_phases \<and>
     (case sm_active_id s of None \<Rightarrow> True | Some i \<Rightarrow> i \<le> 65535))"

lemma status_lines_printed: "status_lines s = map print_fields (status_fields s)"
  by (simp add: status_lines_def status_fields_def print_fields_def print_field_def)

lemma data_line_printed: "fs \<noteq> [] \<Longrightarrow> data_line rid (print_fields fs) = print_response (plain_response rid RK_DATA fs)"
  by (simp add: data_line_def print_response_def plain_response_def print_response_body_def print_tagged_def)

definition plain_value :: "string \<Rightarrow> bool" where
  "plain_value v = (v \<noteq> [] \<and> \<not> list_ex isspace v \<and> CHR ''='' \<notin> set v)"

lemma bit_text_value: "plain_value (bit_text b)" "plain_value ''0''" "plain_value ''none''"
  by (simp_all add: plain_value_def bit_text_def isspace_def ord_def Let_def)

lemma nat_str_value: "plain_value (nat_str n)"
proof -
  have "\<not> isspace c" "c \<noteq> CHR ''=''" if "is_digit c" for c
    using that by (auto simp: is_digit_def isspace_def ord_def Let_def)
  then show ?thesis using nat_str_digits [of n] by (auto simp: plain_value_def list_ex_iff)
qed

lemma status_names: "list_all (name_match \<circ> fst) (concat (status_fields s))"
  by (simp add: status_fields_def name_match_def is_alpha_def is_upper_def is_lower_def is_digit_def ord_def)

lemma vocabulary_values:
  assumes "v \<in> set status_modes \<or> v \<in> set status_phases"
  shows "plain_value v"
  using assms by (auto simp: plain_value_def status_modes_def status_phases_def isspace_def ord_def Let_def)

lemma status_fields_wf:
  assumes "spoken s" "fs \<in> set (status_fields s)"
  shows "wf_fields fs \<and> fs \<noteq> []"
proof -
  have "list_all (\<lambda>kv. plain_value (snd kv)) (concat (status_fields s))"
    using assms(1) nat_str_value bit_text_value vocabulary_values
    by (simp add: status_fields_def spoken_def split: option.splits)
  then have "list_all wf_field fs"
    using assms(2) status_names [of s] by (fastforce simp: wf_field_def plain_value_def list_all_iff)
  moreover have "distinct (map fst fs) \<and> fs \<noteq> []" using assms(2) by (auto simp: status_fields_def)
  ultimately show ?thesis by (simp add: wf_fields_def)
qed

lemma status_decoded:
  assumes "spoken s"
  shows "status_from_fields (concat (status_fields s)) = Inr (simulator_status s)"
proof -
  have bits: "bit_field (bit_text b) = Inr b" for b by (simp add: bit_field_def bit_text_def)
  have none: "bit_field ''0'' = Inr False" using bits [of False] by (simp add: bit_text_def)
  have ids: "nat_str i \<noteq> ''none''" for i
    using nat_str_digits [of i] by (auto simp: is_digit_def ord_def)
  show ?thesis
    using assms
    by (auto simp: status_from_fields_def status_fields_def simulator_status_def all_present_def status_required_def spoken_def
        field_def extras_def uint_text_nat_str bits none ids split: option.splits)
qed

lemma dict_set_fresh: "k \<notin> fst ` set d \<Longrightarrow> dict_set d k v = d @ [(k, v)]"
  by (induction d k v rule: dict_set.induct) auto

lemma merge_fresh:
  "distinct (map fst (acc @ fs)) \<Longrightarrow> fold (\<lambda>(k, v) d. dict_set d k v) fs acc = acc @ fs"
proof (induction fs arbitrary: acc)
  case (Cons kv fs)
  obtain k v where kv: "kv = (k, v)" by fastforce
  have "dict_set acc k v = acc @ [(k, v)]" using Cons.prems kv by (intro dict_set_fresh) auto
  then show ?case using Cons kv by simp
qed simp

lemma merged_data: "distinct (map fst (concat fss)) \<Longrightarrow> merged_fields (map (plain_response rid RK_DATA) fss) = concat fss"
proof -
  have "distinct (map fst (acc @ concat fss)) \<Longrightarrow>
      fold (\<lambda>r acc. fold (\<lambda>(k, v) d. dict_set d k v) (r_fields r) acc) (map (plain_response rid RK_DATA) fss) acc = acc @ concat fss" for acc
  proof (induction fss arbitrary: acc)
    case (Cons fs fss)
    have "fold (\<lambda>(k, v) d. dict_set d k v) fs acc = acc @ fs" using Cons.prems by (intro merge_fresh) auto
    moreover have "distinct (map fst ((acc @ fs) @ concat fss))" using Cons.prems by simp
    ultimately show ?case using Cons.IH [of "acc @ fs"] by (simp add: plain_response_def)
  qed simp
  from this [of "[]"] show "distinct (map fst (concat fss)) \<Longrightarrow> ?thesis" by (simp add: merged_fields_def)
qed

text \<open>
  C35: The status the simulator sends is read back by the protocol library as the state the simulator
  is in: each line of it that fits the 64 bytes of a frame, protected or not, parses as a data response
  to the request, and the merged fields decode to the mode, phase, axes, active request, fault and
  queue of the simulator.
\<close>

theorem status_read_back:
  assumes "spoken s" "rid \<le> 65535"
    and "map (\<lambda>l. protect crc (data_line rid l)) (status_lines s) = map Inr wires"
    and "list_all (\<lambda>w. length w \<le> 64 \<and> list_all is_printable w \<and> (crc \<or> CHR ''*'' \<notin> set w)) wires"
  shows "\<exists>rs. map (\<lambda>w. parse_v2_line w crc) wires = map (\<lambda>r. Inr (V2_Response r)) rs \<and>
    status_from_fields (merged_fields rs) = Inr (simulator_status s)"
proof (intro exI conjI)
  let ?rs = "map (plain_response rid RK_DATA) (status_fields s)"
  have "distinct (map fst (concat (status_fields s)))" by (simp add: status_fields_def)
  then show "status_from_fields (merged_fields ?rs) = Inr (simulator_status s)"
    using status_decoded [OF assms(1)] by (simp add: merged_data)
  have parsed: "parse_v2_line w crc = Inr (V2_Response (plain_response rid RK_DATA fs))"
    if "fs \<in> set (status_fields s)" "protect crc (data_line rid (print_fields fs)) = Inr w" "w \<in> set wires" for fs w
  proof (rule parse_printed_response)
    show "wf_response (plain_response rid RK_DATA fs)"
      using status_fields_wf [OF assms(1) that(1)] assms(2) by (simp add: wf_response_def plain_response_def)
    show "protect crc (print_response (plain_response rid RK_DATA fs)) = Inr w"
      using that(2) status_fields_wf [OF assms(1) that(1)] by (simp add: data_line_printed)
  qed (use assms(4) that(3) in \<open>auto simp: list_all_iff\<close>)
  show "map (\<lambda>w. parse_v2_line w crc) wires = map (\<lambda>r. Inr (V2_Response r)) ?rs"
  proof (rule nth_equalityI)
    have len: "length wires = length (status_fields s)"
      using arg_cong [OF assms(3), of length] by (simp add: status_lines_printed)
    then show "length (map (\<lambda>w. parse_v2_line w crc) wires) = length (map (\<lambda>r. Inr (V2_Response r)) ?rs)" by simp
    fix i assume "i < length (map (\<lambda>w. parse_v2_line w crc) wires)"
    then have i: "i < length wires" "i < length (status_fields s)" using len by auto
    have "protect crc (data_line rid (print_fields (status_fields s ! i))) = Inr (wires ! i)"
      using arg_cong [OF assms(3), of "\<lambda>xs. xs ! i"] i by (simp add: status_lines_printed)
    then show "map (\<lambda>w. parse_v2_line w crc) wires ! i = map (\<lambda>r. Inr (V2_Response r)) ?rs ! i"
      using parsed [of "status_fields s ! i" "wires ! i"] i by simp
  qed
qed

text \<open>The status of the simulator at rest, answered to request 7 in the clear.\<close>

definition resting_status :: "string list" where
  "resting_status =
     [''@7 data:mode=recovering phase=idle feed_homed=0'', ''@7 data:sort_homed=0 motor_enabled=0 active_id=none'',
      ''@7 data:fault_code=0 queue_previous=0 queue_next=0'', ''@7 data:config_generation=0'']"

theorem status_read_back_witness:
  "\<exists>rs. map (\<lambda>w. parse_v2_line w False) resting_status = map (\<lambda>r. Inr (V2_Response r)) rs \<and>
    status_from_fields (merged_fields rs) = Inr (simulator_status (demo_simulator ''happy-v2''))"
proof (rule status_read_back)
  show "spoken (demo_simulator ''happy-v2'')"
    by (simp add: spoken_def sim_eval status_modes_def status_phases_def)
  show "map (\<lambda>l. protect False (data_line 7 l)) (status_lines (demo_simulator ''happy-v2'')) = map Inr resting_status"
    by (simp add: status_lines_def data_line_def protect_def resting_status_def sim_eval digit_char_def char_of_def bit_0)
qed (simp_all add: resting_status_def is_printable_def ord_def)

end
