(* ===== verification/Switcher.thy ===== *)
theory Switcher
  imports Client Json
begin

text \<open>
  The command \<open>cs71-protocol\<close> that switches a controller between v1 and v2 (\<open>cli.py\<close> of the host
  library), the lock of the port (\<open>locking.py\<close>) and the serial adapter (\<open>SerialTransport\<close> of
  \<open>transport.py\<close>). The port, the operating system's lock and the launched application are the
  parameters \<open>deps\<close>; the protocol is that of \<open>Client\<close>. A time-out is a number of ticks, \<open>None\<close> for
  one that is not finite. \<open>argparse\<close> and what is printed are left out; the text of an exception is
  the function \<open>dp_text\<close>.
\<close>

section \<open>Legacy lines\<close>

text \<open>\<open>classify_v1_response\<close> of \<open>parsing.py\<close>; \<open>loads\<close> is \<open>json.loads\<close>.\<close>

datatype v1_response_kind = V1_READY | V1_OK | V1_PING | V1_DONE | V1_STOPPED | V1_WAITING | V1_ERROR | V1_CONFIG | V1_UNKNOWN

definition V1_EXACT :: "(string \<times> v1_response_kind) list" where
  "V1_EXACT = [(''Ready'', V1_READY), (''ok'', V1_OK), ('' ok'', V1_PING), (''done'', V1_DONE), (''stopped'', V1_STOPPED),
     (''waiting for brass'', V1_WAITING)]"

definition classify_v1_response :: "(string \<Rightarrow> json option) \<Rightarrow> string \<Rightarrow> v1_response_kind" where
  "classify_v1_response loads line =
     (case map_of V1_EXACT line of
        Some kind \<Rightarrow> kind
      | None \<Rightarrow>
          if startswith line ''error:'' then V1_ERROR
          else if startswith line ''{'' \<and> endswith line ''}'' then
            (case loads line of Some (JObj _) \<Rightarrow> V1_CONFIG | _ \<Rightarrow> V1_UNKNOWN)
          else V1_UNKNOWN)"

text \<open>The barrier's answer to \<open>ping\<close> and the plain \<open>ok\<close> are told apart by the leading space alone.\<close>

lemma classify_v1_ping: "classify_v1_response loads line = V1_PING \<longleftrightarrow> line = '' ok''"
  by (auto simp: classify_v1_response_def V1_EXACT_def split: option.splits if_splits json.splits)

section \<open>Errors and exit codes\<close>

datatype cli_error = DtrGuaranteeError | SafetyGuaranteeError | PortLockError | DtrSuppressionError | RuntimeError
  | Client_error protocol_error

definition EXIT_SUCCESS :: int where "EXIT_SUCCESS = 0"
definition EXIT_USAGE :: int where "EXIT_USAGE = 2"
definition EXIT_PORT_UNAVAILABLE :: int where "EXIT_PORT_UNAVAILABLE = 3"
definition EXIT_PROTOCOL :: int where "EXIT_PROTOCOL = 4"
definition EXIT_RECOVERY :: int where "EXIT_RECOVERY = 5"
definition EXIT_DTR_GUARANTEE :: int where "EXIT_DTR_GUARANTEE = 6"
definition EXIT_CHILD_LAUNCH :: int where "EXIT_CHILD_LAUNCH = 7"

lemmas exit_codes = EXIT_SUCCESS_def EXIT_USAGE_def EXIT_PORT_UNAVAILABLE_def EXIT_PROTOCOL_def EXIT_RECOVERY_def
  EXIT_DTR_GUARANTEE_def EXIT_CHILD_LAUNCH_def

text \<open>The handlers of \<open>execute\<close>; \<open>None\<close> for an exception that none of them catches.\<close>

fun error_report :: "(cli_error \<Rightarrow> string) \<Rightarrow> cli_error \<Rightarrow> (int \<times> members) option" where
  "error_report text DtrGuaranteeError =
     Some (EXIT_DTR_GUARANTEE, [(''error'', JStr (text DtrGuaranteeError)), (''dtr_suppression_guaranteed'', JBool False)])"
| "error_report text DtrSuppressionError =
     Some (EXIT_DTR_GUARANTEE, [(''error'', JStr (text DtrSuppressionError)), (''dtr_suppression_guaranteed'', JBool False)])"
| "error_report text SafetyGuaranteeError =
     Some (EXIT_DTR_GUARANTEE, [(''error'', JStr (text SafetyGuaranteeError)), (''safety_guarantee'', JBool False)])"
| "error_report text PortLockError = Some (EXIT_PORT_UNAVAILABLE, [(''error'', JStr (text PortLockError))])"
| "error_report text RuntimeError = Some (EXIT_PORT_UNAVAILABLE, [(''error'', JStr (text RuntimeError))])"
| "error_report text (Client_error OSError) =
     Some (EXIT_PORT_UNAVAILABLE, [(''error'', JStr (text (Client_error OSError)))])"
| "error_report text (Client_error (RecoveryError recovered)) =
     (if recovered
      then Some (EXIT_PROTOCOL, [(''error'', JStr (text (Client_error (RecoveryError True)))), (''mode'', JStr ''v1''),
             (''recovered'', JBool True)])
      else Some (EXIT_RECOVERY, [(''error'', JStr (text (Client_error (RecoveryError False)))), (''mode'', JStr ''uncertain'')]))"
| "error_report text (Client_error ValueError) = None"
| "error_report text (Client_error e) = Some (EXIT_PROTOCOL, [(''error'', JStr (text (Client_error e)))])"

section \<open>The port\<close>

text \<open>\<open>PortLock\<close>: the lock file of a port, and the files locked by any process. \<open>digest\<close> is the
  hash of the absolute path.\<close>

record port_lock =
  pl_path :: string
  pl_held :: bool

definition new_port_lock :: "(string \<Rightarrow> string) \<Rightarrow> (string \<Rightarrow> string) \<Rightarrow> string \<Rightarrow> string \<Rightarrow> port_lock" where
  "new_port_lock abspath digest root port =
     \<lparr> pl_path = root @ ''/cs71-protocol/locks/'' @ digest (abspath port) @ ''.lock'', pl_held = False \<rparr>"

text \<open>\<open>made\<close> and \<open>opened\<close> are the outcomes of creating the directory and of opening the file.\<close>

definition acquire_lock ::
    "(protocol_error, unit) result \<Rightarrow> (protocol_error, unit) result \<Rightarrow> port_lock \<Rightarrow> string set
       \<Rightarrow> (cli_error, unit) result \<times> port_lock \<times> string set" where
  "acquire_lock made opened l locked =
     (case made of
        Inl e \<Rightarrow> (Inl (Client_error e), l, locked)
      | Inr _ \<Rightarrow>
          (case opened of
             Inl OSError \<Rightarrow> (Inl PortLockError, l, locked)
           | Inl e \<Rightarrow> (Inl (Client_error e), l, locked)
           | Inr _ \<Rightarrow>
               if pl_path l \<in> locked then (Inl PortLockError, l, locked)
               else (Inr (), l\<lparr> pl_held := True \<rparr>, insert (pl_path l) locked)))"

definition release_lock :: "port_lock \<Rightarrow> string set \<Rightarrow> port_lock \<times> string set" where
  "release_lock l locked = (if pl_held l then (l\<lparr> pl_held := False \<rparr>, locked - {pl_path l}) else (l, locked))"

text \<open>What \<open>SerialTransport.open\<close> meets: whether pyserial is there, whether DTR can be set before
  opening, the module of its port object, and opening it.\<close>

record 'w serial_driver =
  sd_installed :: bool
  sd_dtr_settable :: bool
  sd_module :: string
  sd_open :: "(protocol_error, 'w) result"

definition serial_open :: "string \<Rightarrow> 'w serial_driver \<Rightarrow> (cli_error, bool \<times> 'w) result" where
  "serial_open platform drv =
     (if \<not> sd_installed drv then Inl RuntimeError
      else if \<not> sd_dtr_settable drv then Inl DtrSuppressionError
      else if \<not> supports_preopen_dtr_suppression (sd_module drv) platform then Inl DtrSuppressionError
      else case sd_open drv of Inl e \<Rightarrow> Inl (Client_error e) | Inr w \<Rightarrow> Inr (True, w))"

text \<open>\<open>SerialTransport.read\<close>: the time-out of the port is lowered for the call and put back.\<close>

definition serial_read ::
    "(nat \<Rightarrow> int option \<Rightarrow> 'w \<Rightarrow> 'r \<times> 'w) \<Rightarrow> nat \<Rightarrow> int option \<Rightarrow> int option \<times> 'w \<Rightarrow> 'r \<times> int option \<times> 'w" where
  "serial_read raw n timeout s =
     (let previous = fst s;
          limited = (case timeout of
             None \<Rightarrow> previous
           | Some t \<Rightarrow> Some (case previous of None \<Rightarrow> t | Some p \<Rightarrow> min p t))
      in case raw n limited (snd s) of (r, w) \<Rightarrow> (r, previous, w))"

text \<open>\<open>SerialTransport.reset\<close>: DTR is lowered and raised.\<close>

definition serial_reset ::
    "(bool \<Rightarrow> 'w \<Rightarrow> (protocol_error, unit) result \<times> 'w) \<Rightarrow> 'w \<Rightarrow> (protocol_error, unit) result \<times> 'w" where
  "serial_reset set_dtr w =
     (case set_dtr False w of (Inl e, w') \<Rightarrow> (Inl e, w') | (Inr _, w') \<Rightarrow> set_dtr True w')"

lemma acquire_excludes:
  "acquire_lock made opened l locked = (Inr (), l', locked') \<Longrightarrow>
     pl_path l \<notin> locked \<and> pl_held l' \<and> fst (acquire_lock made' opened' m locked') \<noteq> Inr () \<or> pl_path m \<noteq> pl_path l"
  by (auto simp: acquire_lock_def split: sum.splits if_splits protocol_error.splits)

lemma release_undoes:
  "acquire_lock made opened l locked = (Inr (), l', locked') \<Longrightarrow> snd (release_lock l' locked') = locked"
  by (auto simp: acquire_lock_def release_lock_def split: sum.splits if_splits protocol_error.splits)

lemma serial_read_keeps_timeout: "fst (snd (serial_read raw n timeout s)) = fst s"
  by (simp add: serial_read_def Let_def split: prod.splits)

lemma serial_open_only_windows: "serial_open platform drv = Inr (dtr, w) \<Longrightarrow> platform = ''win32'' \<and> dtr"
  by (auto simp: serial_open_def supports_preopen_dtr_suppression_def split: if_splits sum.splits)

section \<open>Sessions\<close>

record 'w deps =
  dp_lock :: "(cli_error, unit) result"
  dp_release :: "(cli_error, unit) result"
  dp_open :: "(cli_error, bool \<times> 'w) result"
  dp_close :: "(cli_error, unit) result"
  dp_io :: "'w stream_io"
  dp_reset :: "'w \<Rightarrow> (protocol_error, unit) result \<times> 'w"
  dp_runner :: "string list \<Rightarrow> (cli_error, int) result"
  dp_text :: "cli_error \<Rightarrow> string"

datatype switch_event = Port_locked | Port_opened | Port_closed | Port_unlocked | Launched "string list"

text \<open>The client of a session; more turns than ticks in the time-out are fuel enough for its loops.\<close>

definition switch_env :: "'w deps \<Rightarrow> int \<Rightarrow> 'w client_env" where
  "switch_env d timeout = \<lparr> ce_io = dp_io d, ce_reset = Some (dp_reset d), ce_timeout = timeout, ce_fuel = nat timeout + 1 \<rparr>"

text \<open>The \<open>finally\<close> blocks of \<open>_session\<close>: a later exception replaces an earlier one.\<close>

definition end_session :: "'w deps \<Rightarrow> bool \<Rightarrow> (cli_error, 'a) result \<Rightarrow> (cli_error, 'a) result \<times> switch_event list" where
  "end_session d opened r =
     (let r1 = (if opened then (case dp_close d of Inl e \<Rightarrow> Inl e | Inr _ \<Rightarrow> r) else r);
          r2 = (case dp_release d of Inl e \<Rightarrow> Inl e | Inr _ \<Rightarrow> r1)
      in (r2, (if opened then [Port_closed] else []) @ [Port_unlocked]))"

definition lift_client :: "(protocol_error, 'a) result \<Rightarrow> (cli_error, 'a) result" where
  "lift_client r = (case r of Inl e \<Rightarrow> Inl (Client_error e) | Inr x \<Rightarrow> Inr x)"

text \<open>What a session gives: its result, its client if one was made, and what happened to the port.\<close>

type_synonym ('w, 'a) session_outcome = "(cli_error, 'a) result \<times> 'w client option \<times> switch_event list"

definition with_session :: "'w deps \<Rightarrow> int \<Rightarrow> ('w client_env \<Rightarrow> ('w, 'a) ccall) \<Rightarrow> ('w, 'a) session_outcome option" where
  "with_session d timeout body =
     (case dp_lock d of
        Inl e \<Rightarrow> Some (Inl e, None, [])
      | Inr _ \<Rightarrow>
          (case dp_open d of
             Inl e \<Rightarrow> (case end_session d False (Inl e) of (r, evs) \<Rightarrow> Some (r, None, Port_locked # evs))
           | Inr (dtr, w) \<Rightarrow>
               if \<not> dtr then
                 (case end_session d True (Inl DtrGuaranteeError) of
                    (r, evs) \<Rightarrow> Some (r, None, [Port_locked, Port_opened] @ evs))
               else
                 (case body (switch_env d timeout) (new_client w) of
                    None \<Rightarrow> None
                  | Some (r, c) \<Rightarrow>
                      (case end_session d True (lift_client r) of
                         (r', evs) \<Rightarrow> Some (r', Some c, [Port_locked, Port_opened] @ evs)))))"

section \<open>Commands\<close>

definition reset_and_verify_v1 :: "'w deps \<Rightarrow> 'w client_env \<Rightarrow> ('w, unit) ccall" where
  "reset_and_verify_v1 d env =
     cbind (out_of_band_stop env) (\<lambda>_.
       ccatch
         (cbind (creset (dp_reset d)) (\<lambda>_.
          cbind (cupdate (\<lambda>c. c\<lparr> cl_reader := reader_clear (cl_reader c) \<rparr>)) (\<lambda>_.
          cbind (wait_ready env) (\<lambda>_. v1_ping_barrier env))))
         (\<lambda>e. craise (if e = RecoveryError True then RecoveryError True else RecoveryError False)))"

definition detect :: "'w deps \<Rightarrow> 'w client_env \<Rightarrow> ('w, bool \<times> string) ccall" where
  "detect d env =
     cbind (reset_and_verify_v1 d env) (\<lambda>_.
     cbind (write_v1 env ''version'') (\<lambda>_.
     cbind (read_v1 env None) (\<lambda>version.
     cbind (discover env) (\<lambda>available. creturn (available, version)))))"

definition detect_report :: "bool \<times> string \<Rightarrow> members" where
  "detect_report r = [(''v2_available'', JBool (fst r)),
     (''firmware'', JStr (if fst r then ''v2-capable'' else ''v1-only'')), (''mode'', JStr ''v1''),
     (''version'', JStr (snd r)), (''reset'', JBool True)]"

definition prepare_body :: "'w deps \<Rightarrow> 'w client_env \<Rightarrow> ('w, members) ccall" where
  "prepare_body d env = cbind (reset_and_verify_v1 d env) (\<lambda>_.
     creturn [(''mode'', JStr ''v1''), (''volatile_settings_reset'', JBool True)])"

definition detect_body :: "'w deps \<Rightarrow> 'w client_env \<Rightarrow> ('w, members) ccall" where
  "detect_body d env = cbind (detect d env) (\<lambda>r. creturn (detect_report r))"

fun mode_value :: "session_mode \<Rightarrow> string" where
  "mode_value SM_V1 = ''v1''"
| "mode_value SM_V2 = ''v2''"
| "mode_value SM_UNCERTAIN = ''uncertain''"

definition v2_report :: "bool \<times> string \<Rightarrow> 'w client \<Rightarrow> members" where
  "v2_report r c = [(''v2_available'', JBool (fst r)),
     (''firmware'', JStr (if fst r then ''v2-capable'' else ''v1-only'')), (''mode'', JStr (mode_value (cl_mode c))),
     (''version'', JStr (snd r)), (''reset'', JBool True), (''crc'', JBool (cl_crc_enabled c)),
     (''validated'', JList [JStr ''protocolversion'', JStr ''capabilities'', JStr ''status''])]"

definition enter_v2_body :: "bool \<Rightarrow> 'w deps \<Rightarrow> 'w client_env \<Rightarrow> ('w, members) ccall" where
  "enter_v2_body crc d env =
     cbind (detect d env) (\<lambda>r.
       if \<not> fst r then creturn (detect_report r)
       else cbind (activate_known_available env) (\<lambda>_.
            cbind (if crc then cbind (enable_crc env None) (\<lambda>_. creturn ()) else creturn ()) (\<lambda>_ c.
              creturn (v2_report r c) c)))"

definition leave_v2_body :: "'w deps \<Rightarrow> 'w client_env \<Rightarrow> ('w, members) ccall" where
  "leave_v2_body d env = cbind (reset_and_verify_v1 d env) (\<lambda>_.
     creturn [(''mode'', JStr (mode_value SM_V1)), (''method'', JStr ''safe-stop-reset-fallback'')])"

datatype switch_command = Detect bool | Enter_v2 bool bool | Leave_v2 | Prepare_legacy | Run_legacy "string list"

record switch_args =
  ar_command :: switch_command
  ar_timeout :: "int option"

fun no_reset :: "switch_command \<Rightarrow> bool" where
  "no_reset (Detect n) = n"
| "no_reset (Enter_v2 n crc) = n"
| "no_reset _ = False"

text \<open>What \<open>execute\<close> gives: its code and report or the exception that escapes, the client of its session,
  and the events in order.\<close>

record 'w switch_outcome =
  oc_result :: "(cli_error, int \<times> members) result"
  oc_client :: "'w client option"
  oc_log :: "switch_event list"

definition handled :: "'w deps \<Rightarrow> (cli_error, int \<times> members) result \<Rightarrow> (cli_error, int \<times> members) result" where
  "handled d r = (case r of Inr x \<Rightarrow> Inr x
     | Inl e \<Rightarrow> (case error_report (dp_text d) e of None \<Rightarrow> Inl e | Some x \<Rightarrow> Inr x))"

definition succeed :: "(cli_error, members) result \<Rightarrow> (cli_error, int \<times> members) result" where
  "succeed r = (case r of Inl e \<Rightarrow> Inl e | Inr m \<Rightarrow> Inr (EXIT_SUCCESS, m))"

definition in_session ::
    "'w deps \<Rightarrow> int \<Rightarrow> ('w client_env \<Rightarrow> ('w, members) ccall) \<Rightarrow> 'w switch_outcome option" where
  "in_session d timeout body = map_option (\<lambda>(r, c, evs).
     \<lparr> oc_result = handled d (succeed r), oc_client = c, oc_log = evs \<rparr>) (with_session d timeout body)"

text \<open>\<open>application\<close> is the list behind the subcommand, which must start with \<open>--\<close>.\<close>

definition launch ::
    "'w deps \<Rightarrow> string list \<Rightarrow> (cli_error, int \<times> members) result \<times> switch_event list" where
  "launch d application =
     (let app = (if take 1 application = [''--''] then drop 1 application else [])
      in if app = [] then (Inr (EXIT_USAGE, [(''error'', JStr ''run-legacy requires an application after --'')]), [])
         else (case dp_runner d app of
           Inl (Client_error OSError) \<Rightarrow>
             (Inr (EXIT_CHILD_LAUNCH, [(''error'', JStr (dp_text d (Client_error OSError))), (''prepared'', JBool True)]), [Launched app])
         | Inl e \<Rightarrow> (Inl e, [Launched app])
         | Inr code \<Rightarrow> (Inr (code, [(''prepared'', JBool True), (''child_exit'', JInt code)]), [Launched app])))"

definition run_legacy :: "'w deps \<Rightarrow> int \<Rightarrow> string list \<Rightarrow> 'w switch_outcome option" where
  "run_legacy d timeout application =
     map_option (\<lambda>(r, c, evs). case r of
         Inl e \<Rightarrow> \<lparr> oc_result = handled d (Inl e), oc_client = c, oc_log = evs \<rparr>
       | Inr _ \<Rightarrow> (case launch d application of (r', evs') \<Rightarrow>
           \<lparr> oc_result = handled d r', oc_client = c, oc_log = evs @ evs' \<rparr>))
     (with_session d timeout (prepare_body d))"

definition execute :: "'w deps \<Rightarrow> switch_args \<Rightarrow> 'w switch_outcome option" where
  "execute d a =
     (case ar_timeout a of
        None \<Rightarrow> Some \<lparr> oc_result = Inr (EXIT_USAGE, [(''error'', JStr ''--timeout must be finite and greater than zero'')]),
                      oc_client = None, oc_log = [] \<rparr>
      | Some timeout \<Rightarrow>
          if timeout \<le> 0 then
            Some \<lparr> oc_result = Inr (EXIT_USAGE, [(''error'', JStr ''--timeout must be finite and greater than zero'')]),
                   oc_client = None, oc_log = [] \<rparr>
          else if no_reset (ar_command a) then
            Some \<lparr> oc_result = handled d (Inl SafetyGuaranteeError), oc_client = None, oc_log = [] \<rparr>
          else (case ar_command a of
            Prepare_legacy \<Rightarrow> in_session d timeout (prepare_body d)
          | Run_legacy application \<Rightarrow> run_legacy d timeout application
          | Detect _ \<Rightarrow> in_session d timeout (detect_body d)
          | Enter_v2 _ crc \<Rightarrow> in_session d timeout (enter_v2_body crc d)
          | Leave_v2 \<Rightarrow> in_session d timeout (leave_v2_body d)))"

text \<open>\<open>main\<close> after the options are parsed: the exit code and the document printed with \<open>--json\<close>.\<close>

definition json_report :: "int \<times> members \<Rightarrow> json" where
  "json_report r = JObj ([(''ok'', JBool (fst r = EXIT_SUCCESS)), (''exit_code'', JInt (fst r))] @ snd r)"

definition usage_ok :: "switch_args \<Rightarrow> bool" where
  "usage_ok a = ((case ar_command a of Run_legacy application \<Rightarrow> take 1 application = [''--''] \<and> drop 1 application \<noteq> [] | _ \<Rightarrow> True) \<and>
     (case ar_timeout a of None \<Rightarrow> False | Some t \<Rightarrow> t > 0))"

definition switcher_main :: "'w deps \<Rightarrow> switch_args \<Rightarrow> (cli_error, int \<times> json option) result option" where
  "switcher_main d a =
     (if \<not> usage_ok a then Some (Inr (EXIT_USAGE, None))
      else map_option (\<lambda>oc. case oc_result oc of Inl e \<Rightarrow> Inl e | Inr r \<Rightarrow> Inr (fst r, Some (json_report r))) (execute d a))"

section \<open>Every command comes back\<close>

context client_world
begin

lemma returns_wait_ready: "returns (wait_ready env)"
  unfolding wait_ready_def by (intro returns_intros returns_read_v1)

lemma returns_guard: "returns m \<Longrightarrow> returns h \<Longrightarrow> returns (cguard m h)"
  unfolding cguard_def by (rule returns_catch) (auto intro: returns_pure split: protocol_error.split)

lemma returns_v1_ping_barrier: "returns (v1_ping_barrier env)"
  unfolding v1_ping_barrier_def by (intro returns_intros returns_read_v1 returns_fail_request)

lemma returns_discover: "returns (discover env)"
  unfolding discover_def
  by (intro returns_guard returns_intros returns_read_v1 returns_v1_ping_barrier returns_fail_request)

lemma returns_plain_request: "ro_interrupt opts = None \<Longrightarrow> ro_timeout opts = None \<Longrightarrow> returns (request env opts command wanted)"
  using env_fuel by (intro returns_request) auto

lemma returns_query: "returns (query env wanted command decode)"
  unfolding query_def by (intro returns_intros returns_plain_request) (simp_all add: default_options_def)

lemma returns_recover_and_raise: "returns (recover_and_raise env)"
  unfolding recover_and_raise_def by (intro returns_intros returns_recover)

lemma returns_activate: "returns (activate_known_available env)"
  unfolding activate_known_available_def get_protocol_version_def get_capabilities_def get_status_def
  by (intro returns_guard returns_intros returns_read_v1 returns_query returns_recover_and_raise) simp_all

lemma returns_enable_crc: "returns (enable_crc env wanted)"
proof -
  have "returns (cbind (request env (default_options\<lparr> ro_response_crc := Some True \<rparr>) ''crc:on'' wanted) (\<lambda>completion.
      cbind (clift (confirms completion ''crc'' ''on'')) (\<lambda>ok. if \<not> ok then fail_request env
        else cbind (cupdate (\<lambda>c. c\<lparr> cl_crc_enabled := True \<rparr>)) (\<lambda>_. creturn completion))))"
    by (intro returns_intros returns_plain_request returns_fail_request) (simp_all add: default_options_def)
  then show ?thesis
    by (auto simp: returns_def returns_from_def enable_crc_def craise_def)
qed

lemma returns_barrier:
  assumes "ce_reset env = Some (dp_reset d)"
  shows "returns (reset_and_verify_v1 d env)"
  unfolding reset_and_verify_v1_def
  by (intro returns_intros returns_out_of_band_stop returns_reset returns_wait_ready returns_v1_ping_barrier assms) simp

lemma returns_detect: "ce_reset env = Some (dp_reset d) \<Longrightarrow> returns (detect d env)"
  unfolding detect_def by (intro returns_intros returns_barrier returns_read_v1 returns_discover)

lemma returns_bodies:
  assumes "ce_reset env = Some (dp_reset d)"
  shows "returns (prepare_body d env)" "returns (detect_body d env)" "returns (leave_v2_body d env)"
    "returns (enter_v2_body crc d env)"
proof -
  have "returns (\<lambda>c. creturn (v2_report r c) c)" for r :: "bool \<times> string"
    by (auto simp: returns_def returns_from_def creturn_def)
  then show "returns (enter_v2_body crc d env)"
    unfolding enter_v2_body_def
    by (intro returns_intros returns_detect returns_activate returns_enable_crc assms)
qed (auto simp: prepare_body_def detect_body_def leave_v2_body_def
      intro!: returns_intros returns_barrier returns_detect assms)

end

section \<open>What a command leaves behind\<close>

abbreviation in_v1 :: "'w client \<Rightarrow> bool" where
  "in_v1 c \<equiv> given_up SM_V1 (session c)"

text \<open>An error that claims a verified v1 session comes with one.\<close>

definition honest :: "protocol_error \<Rightarrow> 'w client \<Rightarrow> bool" where
  "honest e c = (e = RecoveryError True \<longrightarrow> in_v1 c)"

lemma honest_closed: "failed_closed e c \<Longrightarrow> honest e c"
  by (auto simp: failed_closed_def honest_def split: if_splits)

lemma honest_ended: "ended_closed e c \<Longrightarrow> honest e c"
  by (auto simp: ended_closed_def honest_closed) (simp add: honest_def)

lemma honest_io: "io_keeps m \<Longrightarrow> triple in_v1 m (\<lambda>_. in_v1) honest"
  by (rule triple_conseq [OF io_keeps_triple [where P = "given_up SM_V1"]]) (auto simp: honest_def)

lemma honest_fail: "triple P (fail_request env) Q honest"
  by (rule triple_conseq [OF fail_request_outcome]) (auto intro: honest_closed)

lemma honest_recover: "triple P (recover_and_raise env) Q honest"
  by (rule triple_conseq [OF recover_and_raise_outcome]) (auto intro: honest_closed)

lemma honest_raise: "e \<noteq> RecoveryError True \<Longrightarrow> triple P (craise e) Q honest"
  by (rule triple_raise) (simp add: honest_def)

lemma honest_guard:
  assumes "triple P m Q honest" "\<And>P. triple P h Q honest"
  shows "triple P (cguard m h) Q honest"
  unfolding cguard_def
proof (rule triple_catch [OF assms(1)])
  fix e show "triple (honest e) (case e of RecoveryError b \<Rightarrow> craise (RecoveryError b) | _ \<Rightarrow> h) Q honest"
    by (cases e) (auto intro: assms(2) triple_raise)
qed

lemma io_keeps_read_v1: "io_keeps (read_v1 env t)"
  unfolding read_v1_def by (rule io_keeps_basic)

lemma v1_update: "(\<And>c. in_v1 c \<Longrightarrow> in_v1 (f c)) \<Longrightarrow> triple in_v1 (cupdate f) (\<lambda>_. in_v1) E"
  by (rule triple_update)

lemma stop_in_v1: "triple in_v1 (out_of_band_stop env) (\<lambda>_. in_v1) honest"
  unfolding out_of_band_stop_def
  by (rule triple_catch [OF triple_bind [OF honest_io [OF io_keeps_send_stop] v1_update] honest_fail])
    (simp add: given_up_def session_def)

lemma ping_in_v1: "triple in_v1 (v1_ping_barrier env) (\<lambda>_. in_v1) honest"
proof -
  have "triple in_v1 (cbind (write_v1 env ''ping'') (\<lambda>_. cbind (read_v1 env None) (\<lambda>line.
      if line \<noteq> '' ok'' then craise ParseError else creturn ()))) (\<lambda>_. in_v1) honest"
    by (intro triple_bind [OF honest_io] triple_if honest_raise triple_return io_keeps_write_v1 io_keeps_read_v1) simp_all
  then show ?thesis unfolding v1_ping_barrier_def by (rule triple_catch) (rule honest_fail)
qed

lemma barrier_in_v1: "triple in_v1 (reset_and_verify_v1 d env) (\<lambda>_. in_v1) honest"
proof -
  have ready: "triple in_v1 (wait_ready env) (\<lambda>_. in_v1) honest"
    unfolding wait_ready_def
    by (intro triple_bind [OF honest_io] triple_if honest_raise triple_return io_keeps_read_v1) simp_all
  have clear: "triple in_v1 (cupdate (\<lambda>c. c\<lparr> cl_reader := reader_clear (cl_reader c) \<rparr>)) (\<lambda>_. in_v1) honest"
    by (rule v1_update) (simp add: session_def)
  have inner: "triple in_v1 (cbind (creset (dp_reset d)) (\<lambda>_.
      cbind (cupdate (\<lambda>c. c\<lparr> cl_reader := reader_clear (cl_reader c) \<rparr>)) (\<lambda>_.
      cbind (wait_ready env) (\<lambda>_. v1_ping_barrier env)))) (\<lambda>_. in_v1) honest"
    by (intro triple_bind [OF honest_io [OF io_keeps_basic(4)]] triple_bind [OF clear] triple_bind [OF ready] ping_in_v1)
  show ?thesis unfolding reset_and_verify_v1_def
    by (rule triple_bind [OF stop_in_v1], rule triple_catch [OF inner], rule triple_raise) (auto simp: honest_def)
qed

lemma discover_in_v1: "triple in_v1 (discover env) (\<lambda>_. in_v1) honest"
proof -
  have lift: "triple in_v1 (clift r) (\<lambda>_. in_v1) honest" for r :: "(protocol_error, 'b) result"
    by (rule triple_lift) (simp_all add: honest_def)
  show ?thesis unfolding discover_def
    by (rule honest_guard [OF _ honest_fail],
        intro triple_bind [OF honest_io] triple_if triple_bind [OF ping_in_v1] triple_bind [OF lift] triple_return
          io_keeps_write_v1 io_keeps_read_v1)
qed

lemma detect_in_v1: "triple in_v1 (detect d env) (\<lambda>_. in_v1) honest"
  unfolding detect_def
  by (intro triple_bind [OF barrier_in_v1] triple_bind [OF honest_io] triple_bind [OF discover_in_v1] triple_return
      io_keeps_write_v1 io_keeps_read_v1)

lemma start_request_honest: "triple (\<lambda>_. True) (start_request env command wanted) (\<lambda>_. in_v2) honest"
proof -
  have alloc: "fst (allocate_loop n t) = Inl e \<Longrightarrow> e \<noteq> RecoveryError True" for n t e
    by (induction n t rule: allocate_loop.induct) (auto simp: Let_def split: if_splits)
  have get: "triple in_v2 (case wanted of None \<Rightarrow> crequests allocate
      | Some i \<Rightarrow> cbind (crequests (reserve i)) (\<lambda>_. creturn (nat i))) (\<lambda>_. in_v2) honest"
    using alloc
    by (auto simp: triple_def crequests_def cbind_def creturn_def session_def honest_def allocate_def reserve_def
        split: option.splits prod.splits sum.splits if_splits) (metis fst_conv)+
  have frame: "format_request (int i) command crc = Inl e \<Longrightarrow> e \<noteq> RecoveryError True" for i crc e
    by (auto simp: format_request_def Let_def bind_r_def append_crc_def split: if_splits sum.splits)
  have fmt: "triple in_v2 (ccatch (\<lambda>c. clift (format_request (int i) command (cl_crc_enabled c)) c)
      (\<lambda>e. cbind (cupdate (\<lambda>c. c\<lparr> cl_requests := release i (cl_requests c) \<rparr>)) (\<lambda>_. craise e))) (\<lambda>_. in_v2) honest" for i
    by (auto simp: triple_def ccatch_def clift_def cbind_def cupdate_def craise_def session_def honest_def
        split: option.splits prod.splits sum.splits dest: frame)
  have send: "triple in_v2 (ccatch (write_bytes env data) (\<lambda>_. fail_request env)) (\<lambda>_. in_v2) honest" for data
    by (rule triple_catch [OF io_v2 [OF io_keeps_basic(3)] honest_fail])
  have "triple in_v2 (cbind (case wanted of None \<Rightarrow> crequests allocate
      | Some i \<Rightarrow> cbind (crequests (reserve i)) (\<lambda>_. creturn (nat i))) (\<lambda>i.
        cbind (ccatch (\<lambda>c. clift (format_request (int i) command (cl_crc_enabled c)) c)
          (\<lambda>e. cbind (cupdate (\<lambda>c. c\<lparr> cl_requests := release i (cl_requests c) \<rparr>)) (\<lambda>_. craise e))) (\<lambda>frame.
        cbind (ccatch (write_bytes env (frame @ [LF])) (\<lambda>_. fail_request env)) (\<lambda>_. creturn i)))) (\<lambda>_. in_v2) honest"
    by (intro triple_bind [OF get] triple_bind [OF fmt] triple_bind [OF send] triple_return)
  then show ?thesis unfolding start_request_def
    by (auto simp: triple_def session_def craise_def honest_def)
qed

lemma request_honest: "triple (\<lambda>_. True) (request env opts command wanted) (\<lambda>_. in_v2) honest"
  unfolding request_def Let_def
  by (intro triple_if honest_raise triple_bind [OF start_request_honest] triple_bind [OF clock_v2],
      simp_all, rule triple_conseq [OF request_loop_outcome]) (auto intro: honest_ended)

text \<open>Decoding a reply never claims a recovery.\<close>

definition plain_reply :: "(protocol_error, 'a) result \<Rightarrow> bool" where
  "plain_reply r = (r \<noteq> Inl (RecoveryError True))"

lemma plain_bind: "plain_reply m \<Longrightarrow> (\<And>x. plain_reply (f x)) \<Longrightarrow> plain_reply (bind_r m f)"
  by (auto simp: plain_reply_def bind_r_def split: sum.splits)

lemma plain_basic:
  "plain_reply (Inr x)" "plain_reply (require b ParseError)" "plain_reply (field fs k)" "plain_reply (uint_text v lo hi)" "plain_reply (bit_field v)"
  "plain_reply (of_option ParseError o')" "e \<noteq> RecoveryError True \<Longrightarrow> plain_reply (Inl e)"
  by (auto simp: plain_reply_def require_def field_def uint_text_def bit_field_def of_option_def Let_def split: option.splits)

lemma plain_if: "plain_reply a \<Longrightarrow> plain_reply b \<Longrightarrow> plain_reply (if c then a else b)"
  by simp

lemmas plain_intros = plain_bind plain_basic plain_if

lemma plain_decoders: "plain_reply (status_from_fields fs)" "plain_reply (capabilities_from_fields fs)" "plain_reply (decode_protocol_version fs)"
  unfolding status_from_fields_def capabilities_from_fields_def decode_protocol_version_def
  by (intro plain_intros; simp)+

lemma query_honest: "(\<And>fs. plain_reply (decode fs)) \<Longrightarrow> triple (\<lambda>_. True) (query env wanted command decode) (\<lambda>_. in_v2) honest"
  unfolding query_def plain_reply_def
  by (intro triple_bind [OF request_honest] triple_if honest_raise triple_lift) (auto simp: honest_def)

lemma activate_in_v2: "triple in_v1 (activate_known_available env) (\<lambda>_. in_v2) honest"
proof -
  have query: "triple P (query env None command decode) (\<lambda>_. in_v2) honest"
    if "\<And>fs. plain_reply (decode fs)" for P command and decode :: "fields \<Rightarrow> (protocol_error, 'b) result"
    by (rule triple_pre [OF query_honest [OF that]]) simp
  have keep: "triple in_v2 (cupdate f) (\<lambda>_. in_v2) honest" if "\<And>c. cl_mode (f c) = cl_mode c" for f :: "'a client \<Rightarrow> 'a client"
    by (rule triple_update) (simp add: session_def that)
  have enter: "triple in_v1 (cupdate (\<lambda>c. c\<lparr> cl_mode := SM_V2, cl_crc_enabled := False,
      cl_requests := clear_requests (cl_requests c), cl_events := new_event_tracker \<rparr>)) (\<lambda>_. in_v2) honest"
    by (rule triple_update) (simp add: session_def)
  have status: "triple in_v2 (get_status env None) (\<lambda>_. in_v2) honest"
    unfolding get_status_def
    by (intro triple_bind [OF query] triple_bind [OF keep] triple_return plain_decoders) simp_all
  show ?thesis unfolding activate_known_available_def get_protocol_version_def get_capabilities_def
    by (rule honest_guard [OF _ honest_recover],
        intro triple_bind [OF honest_io] triple_if honest_raise triple_bind [OF enter] triple_bind [OF query]
          triple_bind [OF status] triple_return io_keeps_write_v1 io_keeps_read_v1 plain_decoders) simp_all
qed

lemma enable_crc_in_v2: "triple in_v2 (enable_crc env wanted) (\<lambda>_ c. in_v2 c \<and> cl_crc_enabled c) honest"
proof -
  have confirmed: "triple in_v2 (clift (confirms k ''crc'' ''on'')) (\<lambda>_. in_v2) honest" for k
    by (rule triple_lift)
      (auto simp: honest_def confirms_def terminal_fields_def terminal_response_def bind_r_def Let_def
        split: if_splits sum.splits)
  have fin: "triple in_v2 (cupdate (\<lambda>c. c\<lparr> cl_crc_enabled := True \<rparr>)) (\<lambda>_ c. in_v2 c \<and> cl_crc_enabled c) honest"
    by (rule triple_update) (simp add: session_def)
  have "triple in_v2 (cbind (request env (default_options\<lparr> ro_response_crc := Some True \<rparr>) ''crc:on'' wanted) (\<lambda>completion.
      cbind (clift (confirms completion ''crc'' ''on'')) (\<lambda>ok. if \<not> ok then fail_request env
        else cbind (cupdate (\<lambda>c. c\<lparr> cl_crc_enabled := True \<rparr>)) (\<lambda>_. creturn completion)))) (\<lambda>_ c. in_v2 c \<and> cl_crc_enabled c) honest"
    by (rule triple_bind [OF triple_pre [OF request_honest]], simp)
      (intro triple_bind [OF confirmed] triple_if honest_fail triple_bind [OF fin] triple_return, simp)
  then show ?thesis unfolding enable_crc_def
    by (auto simp: triple_def craise_def honest_def)
qed

text \<open>A report names the mode of the client.\<close>

definition report_ok :: "members \<Rightarrow> 'w client \<Rightarrow> bool" where
  "report_ok m c = (case map_of m ''mode'' of
     Some (JStr mode) \<Rightarrow> (mode = ''v1'' \<and> in_v1 c) \<or>
       (mode = ''v2'' \<and> in_v2 c \<and> map_of m ''crc'' = Some (JBool (cl_crc_enabled c)))
   | _ \<Rightarrow> False)"

lemma body_reports:
  "triple in_v1 (prepare_body d env) report_ok honest" "triple in_v1 (detect_body d env) report_ok honest"
  "triple in_v1 (leave_v2_body d env) report_ok honest"
  unfolding prepare_body_def detect_body_def leave_v2_body_def
  by (intro triple_bind [OF barrier_in_v1] triple_bind [OF detect_in_v1] triple_return; simp add: report_ok_def detect_report_def)+

lemma enter_v2_reports:
  "triple in_v1 (enter_v2_body crc d env) (\<lambda>m c. report_ok m c \<and>
     (map_of m ''mode'' = Some (JStr ''v2'') \<longleftrightarrow> map_of m ''v2_available'' = Some (JBool True)) \<and>
     (crc \<and> map_of m ''mode'' = Some (JStr ''v2'') \<longrightarrow> cl_crc_enabled c)) honest"
proof -
  have crc: "triple in_v2 (if crc then cbind (enable_crc env None) (\<lambda>_. creturn ()) else creturn ())
      (\<lambda>_ c. in_v2 c \<and> (crc \<longrightarrow> cl_crc_enabled c)) honest"
    by (intro triple_if triple_bind [OF enable_crc_in_v2] triple_return) simp_all
  have fin: "triple (\<lambda>c. in_v2 c \<and> (crc \<longrightarrow> cl_crc_enabled c)) (\<lambda>c. creturn (v2_report r c) c)
      (\<lambda>m c. report_ok m c \<and> (map_of m ''mode'' = Some (JStr ''v2'') \<longleftrightarrow> map_of m ''v2_available'' = Some (JBool True)) \<and>
        (crc \<and> map_of m ''mode'' = Some (JStr ''v2'') \<longrightarrow> cl_crc_enabled c)) honest" if "fst r" for r :: "bool \<times> string"
    using that by (auto simp: triple_def creturn_def report_ok_def v2_report_def session_def)
  show ?thesis unfolding enter_v2_body_def
    by (intro triple_bind [OF detect_in_v1] triple_if triple_bind [OF activate_in_v2] triple_bind [OF crc] triple_return fin)
      (simp_all add: report_ok_def detect_report_def)
qed

text \<open>The barrier ended with the legacy answer to \<open>ping\<close>.\<close>

definition verified :: "'w client_env \<Rightarrow> 'w client \<Rightarrow> bool" where
  "verified env c = (in_v1 c \<and> (\<exists>c0. read_v1 env None c0 = Some (Inr '' ok'', c)))"

lemma fail_request_never_returns: "fail_request env c \<noteq> Some (Inr x, c')"
  using tripleD [OF fail_request_outcome [where P = "\<lambda>_. True" and Q = "\<lambda>_ _. False"], of env c "Inr x" c'] by auto

lemma ping_verifies: "v1_ping_barrier env c = Some (Inr u, c') \<Longrightarrow> \<exists>c0. read_v1 env None c0 = Some (Inr '' ok'', c')"
  by (auto simp: v1_ping_barrier_def ccatch_def cbind_def creturn_def craise_def fail_request_never_returns
      split: option.splits prod.splits sum.splits if_splits)

lemma barrier_verifies:
  assumes "reset_and_verify_v1 d env c = Some (Inr u, c')" "in_v1 c"
  shows "verified env c'"
proof -
  have "\<exists>c0. read_v1 env None c0 = Some (Inr '' ok'', c')"
    using assms(1)
    by (auto simp: reset_and_verify_v1_def ccatch_def craise_def cbind_def [of "out_of_band_stop env"]
        cbind_def [of "creset (dp_reset d)"] cbind_def [of "cupdate f" for f] cbind_def [of "wait_ready env"]
        split: option.splits prod.splits sum.splits if_splits dest: ping_verifies)
  with tripleD [OF barrier_in_v1 assms(2,1)] show ?thesis by (auto simp: verified_def)
qed

section \<open>Sessions and commands\<close>

lemma lift_client_simps [simp]:
  "Inr m = lift_client r \<longleftrightarrow> r = Inr m" "lift_client r = Inr m \<longleftrightarrow> r = Inr m"
  "Inl e = lift_client r \<longleftrightarrow> (\<exists>x. e = Client_error x \<and> r = Inl x)" "lift_client r = Inl e \<longleftrightarrow> (\<exists>x. e = Client_error x \<and> r = Inl x)"
  by (auto simp: lift_client_def split: sum.splits)

lemma new_client_in_v1: "in_v1 (new_client w)"
  by (simp add: given_up_def session_def new_client_def idle_def new_request_tracker_def)

text \<open>A session that ran a client, and one that did not.\<close>

definition ran :: "'w deps \<Rightarrow> int \<Rightarrow> ('w client_env \<Rightarrow> ('w, 'a) ccall) \<Rightarrow> ('w, 'a) session_outcome \<Rightarrow> bool" where
  "ran d timeout body out = (\<exists>w r0 c. dp_open d = Inr (True, w) \<and> body (switch_env d timeout) (new_client w) = Some (r0, c) \<and>
     fst (snd out) = Some c \<and> snd (snd out) = [Port_locked, Port_opened, Port_closed, Port_unlocked] \<and>
     (fst out = lift_client r0 \<or> (\<exists>e. fst out = Inl e \<and> (dp_close d = Inl e \<or> dp_release d = Inl e))))"

definition refused :: "('w, 'a) session_outcome \<Rightarrow> bool" where
  "refused out = (\<not> is_ok (fst out) \<and> fst (snd out) = None \<and>
     snd (snd out) \<in> {[], [Port_locked, Port_unlocked], [Port_locked, Port_opened, Port_closed, Port_unlocked]})"

lemma with_session_cases: "with_session d timeout body = Some out \<Longrightarrow> ran d timeout body out \<or> refused out"
  by (auto simp: with_session_def ran_def refused_def is_ok_def end_session_def Let_def
      split: sum.splits prod.splits if_splits option.splits)

lemma with_session_returns:
  assumes "client_world io unread clock slack ok (switch_env d timeout)" "\<forall>w. dp_open d = Inr (True, w) \<longrightarrow> ok w"
    and "client_world.returns clock ok (body (switch_env d timeout))"
  shows "\<exists>out. with_session d timeout body = Some out"
proof -
  have "body (switch_env d timeout) (new_client w) \<noteq> None" if "dp_open d = Inr (True, w)" for w
    using client_world.returnsD [OF assms(1,3), of "new_client w"] assms(2) that
    by (auto simp: client_world.returns_from_def [OF assms(1)] new_client_def)
  then show ?thesis by (auto simp: with_session_def split: sum.splits prod.splits if_splits option.splits)
qed

lemma switch_reset: "ce_reset (switch_env d timeout) = Some (dp_reset d)"
  by (simp add: switch_env_def)

lemma in_session_log:
  assumes "client_world io unread clock slack ok (switch_env d timeout)" "\<forall>w. dp_open d = Inr (True, w) \<longrightarrow> ok w"
    and "client_world.returns clock ok (body (switch_env d timeout))"
  shows "\<exists>oc. in_session d timeout body = Some oc \<and>
    oc_log oc \<in> {[], [Port_locked, Port_unlocked], [Port_locked, Port_opened, Port_closed, Port_unlocked]} \<and>
    (oc_client oc \<noteq> None \<longrightarrow> (\<exists>w. dp_open d = Inr (True, w)))"
proof -
  obtain r c evs where s: "with_session d timeout body = Some (r, c, evs)"
    using with_session_returns [where body = body, OF assms] by (metis prod_cases3)
  from with_session_cases [OF this] show ?thesis
    by (auto simp: in_session_def s ran_def refused_def)
qed

lemma run_legacy_log:
  assumes "client_world io unread clock slack ok (switch_env d timeout)" "\<forall>w. dp_open d = Inr (True, w) \<longrightarrow> ok w"
  shows "\<exists>oc. run_legacy d timeout application = Some oc \<and>
    (oc_log oc \<in> {[], [Port_locked, Port_unlocked], [Port_locked, Port_opened, Port_closed, Port_unlocked]} \<or>
     (\<exists>app. application = ''--'' # app \<and> oc_log oc = [Port_locked, Port_opened, Port_closed, Port_unlocked, Launched app] \<and>
        (\<exists>c. oc_client oc = Some c \<and> verified (switch_env d timeout) c))) \<and>
    (oc_client oc \<noteq> None \<longrightarrow> (\<exists>w. dp_open d = Inr (True, w)))"
proof -
  obtain r c evs where s: "with_session d timeout (prepare_body d) = Some (r, c, evs)"
    using with_session_returns [where body = "prepare_body d", OF assms client_world.returns_bodies(1) [OF assms(1) switch_reset]]
    by (metis prod_cases3)
  note cases = with_session_cases [OF s]
  show ?thesis
  proof (cases r)
    case (Inl e)
    then show ?thesis using cases by (auto simp: run_legacy_def s ran_def refused_def)
  next
    case (Inr m)
    then have "ran d timeout (prepare_body d) (Inr m, c, evs)" using cases by (auto simp: refused_def is_ok_def)
    then obtain w c' where ran: "dp_open d = Inr (True, w)" "c = Some c'"
      "evs = [Port_locked, Port_opened, Port_closed, Port_unlocked]"
      "prepare_body d (switch_env d timeout) (new_client w) = Some (Inr m, c')"
      unfolding ran_def by auto
    have "\<exists>u. reset_and_verify_v1 d (switch_env d timeout) (new_client w) = Some (Inr u, c')"
      using ran(4) by (auto simp: prepare_body_def cbind_def creturn_def split: option.splits prod.splits sum.splits)
    then have v: "verified (switch_env d timeout) c'" by (auto intro: barrier_verifies [OF _ new_client_in_v1])
    obtain r' evs' where l: "launch d application = (r', evs')" by force
    then have "evs' = [] \<or> (\<exists>app. application = ''--'' # app \<and> evs' = [Launched app])"
      by (cases application)
        (auto simp: launch_def Let_def split: if_splits sum.splits cli_error.splits protocol_error.splits)
    with v ran l Inr show ?thesis by (auto simp: run_legacy_def s)
  qed
qed

text \<open>A controller that answers the stop, starts again after a reset, answers \<open>ping\<close>, and then sends
  further lines.\<close>

definition scripted_deps :: "bool \<Rightarrow> string list \<Rightarrow> scripted_world deps" where
  "scripted_deps dtr lines = \<lparr> dp_lock = Inr (), dp_release = Inr (),
     dp_open = Inr (dtr, (new_scripted [''stopped'' @ [LF]] (map (\<lambda>l. l @ [LF]) ([''Ready'', '' ok''] @ lines)), 0)),
     dp_close = Inr (), dp_io = scripted_io, dp_reset = (\<lambda>w. (Inr (), (scripted_reset (fst w), snd w))),
     dp_runner = (\<lambda>_. Inr 0), dp_text = (\<lambda>_. []) \<rparr>"

lemma scripted_switch: "client_world scripted_io scripted_unread snd 1 scripted_ready (switch_env (scripted_deps dtr lines) timeout)"
proof (rule client_world.intro [OF scripted.byte_source_axioms], unfold_locales)
  show "ce_io (switch_env (scripted_deps dtr lines) timeout) = scripted_io"
    "nat (ce_timeout (switch_env (scripted_deps dtr lines) timeout)) < ce_fuel (switch_env (scripted_deps dtr lines) timeout)"
    by (simp_all add: switch_env_def scripted_deps_def)
next
  fix w w' :: scripted_world and data r assume "scripted_ready w" "io_write scripted_io data w = (r, w')"
  then show "scripted_ready w' \<and> snd w \<le> snd w'" by (rule scripted_session.write_law)
next
  fix w w' :: scripted_world and hook r'
  assume "ce_reset (switch_env (scripted_deps dtr lines) timeout) = Some hook" "scripted_ready w" "hook w = (r', w')"
  then show "scripted_ready w' \<and> snd w \<le> snd w'"
    by (auto simp: switch_env_def scripted_deps_def scripted_ready_def scripted_reset_def)
qed

lemma scripted_deps_ready: "\<forall>w. dp_open (scripted_deps dtr lines) = Inr (True, w) \<longrightarrow> scripted_ready w"
  by (auto simp: scripted_deps_def new_scripted_def scripted_ready_def list_all_iff)


lemma demo_legacy_run:
  "map_option oc_log (execute (scripted_deps True []) \<lparr> ar_command = Run_legacy [''--'', ''app''], ar_timeout = Some 60 \<rparr>) =
     Some [Port_locked, Port_opened, Port_closed, Port_unlocked, Launched [''app'']]"
  by code_simp


lemma error_report_mode:
  "error_report text e = Some (code, m) \<Longrightarrow> code \<noteq> 0 \<and>
     (map_of m ''mode'' = Some (JStr ''v1'') \<longrightarrow> e = Client_error (RecoveryError True)) \<and> map_of m ''mode'' \<noteq> Some (JStr ''v2'')"
  by (cases "(text, e)" rule: error_report.cases) (auto simp: exit_codes split: if_splits)

text \<open>What a report says of the client whose session made it.\<close>

definition told :: "bool \<Rightarrow> int \<times> members \<Rightarrow> 'w client \<Rightarrow> bool" where
  "told crc r c =
     ((map_of (snd r) ''mode'' = Some (JStr ''v1'') \<longrightarrow> in_v1 c) \<and>
      (map_of (snd r) ''mode'' = Some (JStr ''v2'') \<longrightarrow> fst r = 0 \<and> in_v2 c \<and>
         map_of (snd r) ''crc'' = Some (JBool (cl_crc_enabled c)) \<and> (crc \<longrightarrow> cl_crc_enabled c)))"

lemma told_error:
  assumes "handled d (Inl e) = Inr r" "e = Client_error (RecoveryError True) \<Longrightarrow> in_v1 c"
  shows "told crc r c"
proof -
  obtain code m where "error_report (dp_text d) e = Some (code, m)" "r = (code, m)"
    using assms(1) by (auto simp: handled_def split: option.splits)
  with error_report_mode [OF this(1)] assms(2) show ?thesis by (auto simp: told_def)
qed

lemma in_session_told:
  assumes "in_session d timeout body = Some oc" "oc_result oc = Inr r" "oc_client oc = Some c"
    and "triple in_v1 (body (switch_env d timeout)) (\<lambda>m c. report_ok m c \<and> (crc \<and> map_of m ''mode'' = Some (JStr ''v2'') \<longrightarrow> cl_crc_enabled c)) honest"
    and "dp_close d \<in> {Inr (), Inl (Client_error OSError)}" "dp_release d \<in> {Inr (), Inl (Client_error OSError)}"
  shows "told crc r c \<and> (fst r = 0 \<longrightarrow> map_of (snd r) ''mode'' \<in> {Some (JStr ''v1''), Some (JStr ''v2'')})"
proof -
  obtain x c' evs where s: "with_session d timeout body = Some (x, c', evs)" "handled d (succeed x) = Inr r" "c' = Some c"
    using assms(1-3) by (auto simp: in_session_def)
  from with_session_cases [OF s(1)] s(3) obtain w r0 where run: "body (switch_env d timeout) (new_client w) = Some (r0, c)"
    "x = lift_client r0 \<or> (\<exists>e. x = Inl e \<and> (dp_close d = Inl e \<or> dp_release d = Inl e))"
    by (auto simp: ran_def refused_def)
  note post = tripleD [OF assms(4) new_client_in_v1 run(1)]
  show ?thesis
  proof (cases x)
    case (Inl e)
    have "e = Client_error (RecoveryError True) \<Longrightarrow> in_v1 c"
      using run(2) post Inl assms(5,6) by (auto simp: honest_def)
    moreover have "handled d (Inl e) = Inr r" using s(2) Inl by (simp add: succeed_def)
    moreover from this have "fst r \<noteq> 0"
      using error_report_mode [of "dp_text d" e "fst r" "snd r"] by (auto simp: handled_def split: option.splits)
    ultimately show ?thesis using told_error by blast
  next
    case (Inr m)
    then have "r = (0, m)" "r0 = Inr m" using s(2) run(2) by (auto simp: succeed_def handled_def EXIT_SUCCESS_def)
    with post show ?thesis by (auto simp: told_def report_ok_def split: option.splits json.splits)
  qed
qed

lemma run_legacy_told:
  assumes "run_legacy d timeout application = Some oc" "oc_result oc = Inr r" "oc_client oc = Some c"
    and "dp_close d \<in> {Inr (), Inl (Client_error OSError)}" "dp_release d \<in> {Inr (), Inl (Client_error OSError)}"
  shows "told crc r c"
proof -
  obtain x c' evs where s: "with_session d timeout (prepare_body d) = Some (x, c', evs)"
    using assms(1) by (auto simp: run_legacy_def)
  then have c': "c' = Some c" using assms(1,3) by (auto simp: run_legacy_def split: sum.splits prod.splits)
  from with_session_cases [OF s] c' obtain w r0 where run: "prepare_body d (switch_env d timeout) (new_client w) = Some (r0, c)"
    "x = lift_client r0 \<or> (\<exists>e. x = Inl e \<and> (dp_close d = Inl e \<or> dp_release d = Inl e))"
    by (auto simp: ran_def refused_def)
  note post = tripleD [OF body_reports(1) new_client_in_v1 run(1)]
  show ?thesis
  proof (cases x)
    case (Inl e)
    have "e = Client_error (RecoveryError True) \<Longrightarrow> in_v1 c"
      using run(2) post Inl assms(4,5) by (auto simp: honest_def)
    moreover have "handled d (Inl e) = Inr r" using assms(1,2) s Inl by (auto simp: run_legacy_def)
    ultimately show ?thesis using told_error by blast
  next
    case (Inr m)
    then have r0: "r0 = Inr m" using run(2) by auto
    have v1: "in_v1 c"
      using tripleD [OF triple_bind [OF barrier_in_v1 triple_return, of "\<lambda>_. in_v1"] new_client_in_v1
          run(1) [unfolded prepare_body_def r0]] by simp
    obtain r' evs' where l: "launch d application = (r', evs')" "handled d r' = Inr r"
      using assms(1,2) s Inr by (auto simp: run_legacy_def split: prod.splits)
    show ?thesis
    proof (cases r')
      case (Inl e)
      then show ?thesis using l(2) v1 told_error by blast
    next
      case ok: (Inr y)
      then have "r = y" using l(2) by (simp add: handled_def)
      moreover have "map_of (snd y) ''mode'' = None"
        using l(1) ok by (auto simp: launch_def Let_def split: if_splits sum.splits cli_error.splits protocol_error.splits)
      ultimately show ?thesis by (simp add: told_def)
    qed
  qed
qed


lemma demo_detect:
  "map_option (\<lambda>oc. (oc_result oc, map_option cl_mode (oc_client oc)))
     (execute (scripted_deps True [''CS7.1'', ''ok'']) \<lparr> ar_command = Detect False, ar_timeout = Some 60 \<rparr>) =
   Some (Inr (0, detect_report (False, ''CS7.1'')), Some SM_V1)"
  by code_simp


end
