(* ===== verification/Fixtures.thy ===== *)
theory Fixtures
  imports Framing
begin

text \<open>
  The normative protocol fixtures and their replay (\<open>simulator/fixtures.py\<close> of the daemon): the
  decoder of C escapes, the loaders of both file formats over the lines of a file, and the strict
  transport that releases the recorded responses after exactly the recorded host actions. Bytes
  are characters.
\<close>

section \<open>Definitions\<close>

datatype fixture_error = FixtureValueError | FixtureReplayError | ReplayOSError

fun hex_value :: "char \<Rightarrow> nat option" where
  "hex_value c =
     (if is_digit c then Some (ord c - 48)
      else if 65 \<le> ord c \<and> ord c \<le> 70 then Some (ord c - 55)
      else if 97 \<le> ord c \<and> ord c \<le> 102 then Some (ord c - 87) else None)"

definition simple_escape :: "char \<Rightarrow> char option" where
  "simple_escape c = map_of [(CHR ''n'', CHR 0x0A), (CHR ''r'', CHR 0x0D), (CHR ''t'', CHR 0x09), (CHR 0x5C, CHR 0x5C)] c"

text \<open>\<open>decode_c_escaped_bytes\<close>\<close>

fun decode_c_escaped_bytes :: "string \<Rightarrow> (fixture_error, string) result" where
  "decode_c_escaped_bytes [] = Inr []"
| "decode_c_escaped_bytes (c # cs) =
     (if c \<noteq> CHR 0x5C then
        if ord c > 127 then Inl FixtureValueError
        else bind_r (decode_c_escaped_bytes cs) (\<lambda>rest. Inr (c # rest))
      else case cs of
        [] \<Rightarrow> Inl FixtureValueError
      | escaped # others \<Rightarrow>
          (case simple_escape escaped of
             Some b \<Rightarrow> bind_r (decode_c_escaped_bytes others) (\<lambda>rest. Inr (b # rest))
           | None \<Rightarrow>
               (case others of
                  d1 # d2 # tail \<Rightarrow>
                    (case (hex_value d1, hex_value d2) of
                       (Some h, Some l) \<Rightarrow>
                         if escaped = CHR ''x'' then
                           bind_r (decode_c_escaped_bytes tail) (\<lambda>rest. Inr (char_of (16 * h + l) # rest))
                         else Inl FixtureValueError
                     | _ \<Rightarrow> Inl FixtureValueError)
                | _ \<Rightarrow> Inl FixtureValueError)))"

datatype replay_action = RESET | WRITE

record replay_step =
  rp_action :: replay_action
  rp_request :: "string option"
  rp_responses :: "string list"

record fixture_exchange =
  fx_section :: string
  fx_request :: "string option"
  fx_request_marker :: "string option"
  fx_response :: "string option"
  fx_response_marker :: "string option"

definition replayable :: "fixture_exchange \<Rightarrow> bool" where
  "replayable x = ((fx_request x \<noteq> None \<or> fx_request_marker x = Some ''<reset>'') \<and> fx_response x \<noteq> None)"

definition to_replay_step :: "fixture_exchange \<Rightarrow> (fixture_error, replay_step) result" where
  "to_replay_step x =
     (if \<not> replayable x then Inl FixtureValueError
      else Inr \<lparr> rp_action = (if fx_request_marker x = Some ''<reset>'' then RESET else WRITE),
                 rp_request = fx_request x, rp_responses = (case fx_response x of None \<Rightarrow> [] | Some r \<Rightarrow> [r]) \<rparr>)"

text \<open>The loop of \<open>load_v1_wire_fixture\<close>: the section and the request that waits for its response.\<close>

definition removeprefix :: "string \<Rightarrow> string \<Rightarrow> string" where
  "removeprefix s p = (if startswith s p then drop (length p) s else s)"

record load_state =
  ld_section :: string
  ld_request :: "string option"
  ld_marker :: "string option"
  ld_exchanges :: "fixture_exchange list"

definition waiting :: "load_state \<Rightarrow> bool" where
  "waiting s = (ld_request s \<noteq> None \<or> ld_marker s \<noteq> None)"

definition load_line :: "string \<Rightarrow> load_state \<Rightarrow> (fixture_error, load_state) result" where
  "load_line raw s =
     (if raw = [] \<or> startswith raw ''#'' then Inr s
      else if startswith raw ''['' \<and> endswith raw '']'' then Inr (s\<lparr> ld_section := drop 1 (take (length raw - 1) raw) \<rparr>)
      else if startswith raw ''request='' then
        let value = removeprefix raw ''request='' in
        if startswith value ''<'' \<and> endswith value ''>'' then Inr (s\<lparr> ld_marker := Some value, ld_request := None \<rparr>)
        else bind_r (decode_c_escaped_bytes value) (\<lambda>bs. Inr (s\<lparr> ld_marker := None, ld_request := Some bs \<rparr>))
      else if startswith raw ''precondition='' \<or> startswith raw ''postcondition='' \<or> startswith raw ''maximum-rate='' then Inr s
      else if startswith raw ''response='' \<and> waiting s then
        let value = removeprefix raw ''response='';
            exchange = (\<lambda>response marker. \<lparr> fx_section = ld_section s, fx_request = ld_request s,
              fx_request_marker = ld_marker s, fx_response = response, fx_response_marker = marker \<rparr>);
            finish = (\<lambda>x. s\<lparr> ld_exchanges := ld_exchanges s @ [x], ld_request := None, ld_marker := None \<rparr>)
        in if startswith value ''<'' then Inr (finish (exchange None (Some value)))
           else bind_r (decode_c_escaped_bytes value) (\<lambda>bs. Inr (finish (exchange (Some bs) None)))
      else if startswith raw ''response='' then Inr s
      else Inl FixtureValueError)"

fun load_lines :: "string list \<Rightarrow> load_state \<Rightarrow> (fixture_error, load_state) result" where
  "load_lines [] s = Inr s"
| "load_lines (l # ls) s = bind_r (load_line l s) (load_lines ls)"

definition load_v1_wire_fixture :: "string list \<Rightarrow> (fixture_error, fixture_exchange list) result" where
  "load_v1_wire_fixture lines =
     bind_r (load_lines lines \<lparr> ld_section = [], ld_request = None, ld_marker = None, ld_exchanges = [] \<rparr>) (\<lambda>s.
       if waiting s then Inl FixtureValueError else Inr (ld_exchanges s))"

fun load_line_fixture :: "string list \<Rightarrow> (fixture_error, string list) result" where
  "load_line_fixture [] = Inr []"
| "load_line_fixture (l # ls) =
     (if l = [] \<or> startswith l ''#'' then load_line_fixture ls
      else bind_r (decode_c_escaped_bytes l) (\<lambda>bs. bind_r (load_line_fixture ls) (\<lambda>rest. Inr (bs # rest))))"

section \<open>The replay transport\<close>

record replay_transport =
  ry_steps :: "replay_step list"
  ry_incoming :: string
  ry_writes :: "string list"
  ry_resets :: nat
  ry_closed :: bool

definition new_replay :: "replay_step list \<Rightarrow> replay_transport" where
  "new_replay steps = \<lparr> ry_steps = steps, ry_incoming = [], ry_writes = [], ry_resets = 0, ry_closed = False \<rparr>"

definition replay_complete :: "replay_transport \<Rightarrow> bool" where
  "replay_complete t = (ry_steps t = [] \<and> ry_incoming t = [])"

definition replay_read :: "int \<Rightarrow> replay_transport \<Rightarrow> string \<times> replay_transport" where
  "replay_read n t =
     (if n < 1 \<or> ry_incoming t = [] then ([], t)
      else (take (nat n) (ry_incoming t), t\<lparr> ry_incoming := drop (nat n) (ry_incoming t) \<rparr>))"

definition replay_consume :: "replay_action \<Rightarrow> string option \<Rightarrow> replay_transport \<Rightarrow> (fixture_error, unit) result \<times> replay_transport" where
  "replay_consume action sent t =
     (case ry_steps t of
        [] \<Rightarrow> (Inl FixtureReplayError, t)
      | step # rest \<Rightarrow>
          let t' = t\<lparr> ry_steps := rest \<rparr> in
          if rp_action step \<noteq> action \<or> rp_request step \<noteq> sent then (Inl FixtureReplayError, t')
          else (Inr (), t'\<lparr> ry_incoming := ry_incoming t @ concat (rp_responses step) \<rparr>))"

definition replay_write :: "string \<Rightarrow> replay_transport \<Rightarrow> (fixture_error, nat) result \<times> replay_transport" where
  "replay_write data t =
     (if ry_closed t then (Inl ReplayOSError, t)
      else case replay_consume WRITE (Some data) (t\<lparr> ry_writes := ry_writes t @ [data] \<rparr>) of
        (Inl e, t') \<Rightarrow> (Inl e, t')
      | (Inr _, t') \<Rightarrow> (Inr (length data), t'))"

definition replay_reset :: "replay_transport \<Rightarrow> (fixture_error, unit) result \<times> replay_transport" where
  "replay_reset t =
     (if ry_closed t then (Inl ReplayOSError, t)
      else replay_consume RESET None (t\<lparr> ry_resets := Suc (ry_resets t) \<rparr>))"

definition replay_close :: "replay_transport \<Rightarrow> replay_transport" where
  "replay_close t = t\<lparr> ry_closed := True \<rparr>"

definition assert_complete :: "replay_transport \<Rightarrow> (fixture_error, unit) result" where
  "assert_complete t = (if replay_complete t then Inr () else Inl FixtureReplayError)"

text \<open>What a host does with the transport, and what it reads.\<close>

datatype host_action = Do_write string | Do_reset | Do_read int

fun replay_run :: "host_action list \<Rightarrow> replay_transport \<Rightarrow> (fixture_error, string) result \<times> replay_transport" where
  "replay_run [] t = (Inr [], t)"
| "replay_run (a # as) t =
     (case (case a of
              Do_write data \<Rightarrow> (case replay_write data t of (r, t') \<Rightarrow> (map_sum id (\<lambda>_. []) r, t'))
            | Do_reset \<Rightarrow> (case replay_reset t of (r, t') \<Rightarrow> (map_sum id (\<lambda>_. []) r, t'))
            | Do_read n \<Rightarrow> (case replay_read n t of (bs, t') \<Rightarrow> (Inr bs, t'))) of
        (Inl e, t') \<Rightarrow> (Inl e, t')
      | (Inr bs, t') \<Rightarrow> (case replay_run as t' of (r, t'') \<Rightarrow> (map_sum id (\<lambda>rest. bs @ rest) r, t'')))"

section \<open>Properties\<close>

text \<open>The escaped form of a byte: itself when it is printable, otherwise two hexadecimal digits.\<close>

definition escape_byte :: "char \<Rightarrow> string" where
  "escape_byte c =
     (if c = CHR 0x5C then [CHR 0x5C, CHR 0x5C]
      else if 32 \<le> ord c \<and> ord c < 127 then [c]
      else [CHR 0x5C, CHR ''x'', hex_char (ord c div 16), hex_char (ord c mod 16)])"

lemma hex_value_char: "n < 16 \<Longrightarrow> hex_value (hex_char n) = Some n"
  by (auto simp: hex_char_def is_digit_def)

lemma ord_parts: "ord c div 16 < 16" "ord c mod 16 < 16" "16 * (ord c div 16) + ord c mod 16 = ord c"
  using less_mult_imp_div_less [of "ord c" 16 16] ord_less_256 [of c] by simp_all

lemma decode_hex_escape:
  "h < 16 \<Longrightarrow> l < 16 \<Longrightarrow> decode_c_escaped_bytes (CHR 0x5C # CHR ''x'' # hex_char h # hex_char l # rest) =
     bind_r (decode_c_escaped_bytes rest) (\<lambda>r. Inr (char_of (16 * h + l) # r))"
  using hex_value_char [of h] hex_value_char [of l] by (simp add: simple_escape_def del: hex_value.simps)

lemma decode_escape_byte: "decode_c_escaped_bytes (escape_byte c @ rest) = bind_r (decode_c_escaped_bytes rest) (\<lambda>r. Inr (c # r))"
proof -
  have "decode_c_escaped_bytes ([CHR 0x5C, CHR ''x'', hex_char (ord c div 16), hex_char (ord c mod 16)] @ rest) =
      bind_r (decode_c_escaped_bytes rest) (\<lambda>r. Inr (c # r))"
    using decode_hex_escape [OF ord_parts(1,2), of c c rest] unfolding ord_parts(3) by (simp add: ord_def del: decode_c_escaped_bytes.simps)
  then show ?thesis by (auto simp: escape_byte_def simple_escape_def simp del: hex_value.simps)
qed

text \<open>Every byte string has an escaped form, and the decoder reads it back.\<close>

theorem escaped_bytes_read_back: "decode_c_escaped_bytes (concat (map escape_byte bs)) = Inr bs"
  by (induction bs) (simp_all add: decode_escape_byte bind_r_def)

text \<open>A loaded exchange has exactly one of request and marker, and one of response and marker.\<close>

definition exchange_ok :: "fixture_exchange \<Rightarrow> bool" where
  "exchange_ok x = ((fx_request x = None) \<noteq> (fx_request_marker x = None) \<and> (fx_response x = None) \<noteq> (fx_response_marker x = None))"

definition load_ok :: "load_state \<Rightarrow> bool" where
  "load_ok s = ((ld_request s = None \<or> ld_marker s = None) \<and> list_all exchange_ok (ld_exchanges s))"

lemma load_line_ok: "load_line raw s = Inr s' \<Longrightarrow> load_ok s \<Longrightarrow> load_ok s'"
  by (auto simp: load_line_def load_ok_def exchange_ok_def waiting_def Let_def bind_r_def split: if_splits sum.splits)

lemma load_lines_ok: "load_lines ls s = Inr s' \<Longrightarrow> load_ok s \<Longrightarrow> load_ok s'"
  by (induction ls s rule: load_lines.induct) (auto simp: bind_r_def load_line_ok split: sum.splits)

theorem loaded_exchanges_ok: "load_v1_wire_fixture lines = Inr xs \<Longrightarrow> list_all exchange_ok xs"
  by (auto simp: load_v1_wire_fixture_def bind_r_def load_ok_def split: sum.splits if_splits dest!: load_lines_ok)

text \<open>The actions of a host that the fixture speaks about.\<close>

fun demanded :: "host_action list \<Rightarrow> (replay_action \<times> string option) list" where
  "demanded [] = []"
| "demanded (Do_write data # as) = (WRITE, Some data) # demanded as"
| "demanded (Do_reset # as) = (RESET, None) # demanded as"
| "demanded (Do_read n # as) = demanded as"

lemma consume_step:
  assumes "replay_consume action sent t = (Inr (), t')"
  shows "\<exists>step. ry_steps t = step # ry_steps t' \<and> (rp_action step, rp_request step) = (action, sent) \<and>
    ry_incoming t' = ry_incoming t @ concat (rp_responses step) \<and> ry_closed t' = ry_closed t"
  using assms by (auto simp: replay_consume_def Let_def split: list.splits if_splits)

text \<open>One action of the host, as the steps it consumes and the bytes it reads.\<close>

definition replay_act :: "host_action \<Rightarrow> replay_transport \<Rightarrow> (fixture_error, string) result \<times> replay_transport" where
  "replay_act a t = (case a of
      Do_write data \<Rightarrow> (case replay_write data t of (r, t') \<Rightarrow> (map_sum id (\<lambda>_. []) r, t'))
    | Do_reset \<Rightarrow> (case replay_reset t of (r, t') \<Rightarrow> (map_sum id (\<lambda>_. []) r, t'))
    | Do_read n \<Rightarrow> (case replay_read n t of (bs, t') \<Rightarrow> (Inr bs, t')))"

definition keys :: "replay_step list \<Rightarrow> (replay_action \<times> string option) list" where
  "keys steps = map (\<lambda>s. (rp_action s, rp_request s)) steps"

definition played :: "host_action list \<Rightarrow> string \<Rightarrow> replay_transport \<Rightarrow> replay_transport \<Rightarrow> bool" where
  "played as bs t t' = (\<exists>done. ry_steps t = done @ ry_steps t' \<and> keys done = demanded as \<and>
     bs @ ry_incoming t' = ry_incoming t @ concat (concat (map rp_responses done)))"

lemma consume_played:
  assumes "replay_consume action sent (f t) = (Inr (), t')" "ry_steps (f t) = ry_steps t" "ry_incoming (f t) = ry_incoming t"
    "demanded [a] = [(action, sent)]"
  shows "played [a] [] t t'"
proof -
  from consume_step [OF assms(1)] obtain step where "ry_steps t = step # ry_steps t'" "(rp_action step, rp_request step) = (action, sent)"
    "ry_incoming t' = ry_incoming t @ concat (rp_responses step)" using assms(2,3) by auto
  then show ?thesis using assms(4) unfolding played_def by (intro exI [of _ "[step]"]) (simp add: keys_def)
qed

lemma act_played:
  assumes "replay_act a t = (Inr bs, t')"
  shows "played [a] bs t t'"
proof (cases a)
  case (Do_write data)
  then have "replay_consume WRITE (Some data) (t\<lparr> ry_writes := ry_writes t @ [data] \<rparr>) = (Inr (), t')" "bs = []"
    using assms by (auto simp: replay_act_def replay_write_def split: prod.splits sum.splits if_splits)
  then show ?thesis using consume_played [of WRITE "Some data" "\<lambda>t. t\<lparr> ry_writes := ry_writes t @ [data] \<rparr>" t t' a] Do_write
    by simp
next
  case Do_reset
  then have "replay_consume RESET None (t\<lparr> ry_resets := Suc (ry_resets t) \<rparr>) = (Inr (), t')" "bs = []"
    using assms by (auto simp: replay_act_def replay_reset_def map_sum_def split: prod.splits sum.splits if_splits)
  then show ?thesis using consume_played [of RESET None "\<lambda>t. t\<lparr> ry_resets := Suc (ry_resets t) \<rparr>" t t' a] Do_reset
    by simp
next
  case (Do_read n)
  then show ?thesis using assms
    by (auto simp: replay_act_def replay_read_def played_def keys_def split: if_splits)
qed

lemma demanded_Cons: "demanded (a # as) = demanded [a] @ demanded as"
  by (cases a) auto

lemma played_trans: "played [a] bs t t1 \<Longrightarrow> played as rest t1 t2 \<Longrightarrow> played (a # as) (bs @ rest) t t2"
  unfolding played_def demanded_Cons [of a as]
proof (elim exE conjE)
  fix d1 d2
  assume "ry_steps t = d1 @ ry_steps t1" "keys d1 = demanded [a]" "bs @ ry_incoming t1 = ry_incoming t @ concat (concat (map rp_responses d1))"
    "ry_steps t1 = d2 @ ry_steps t2" "keys d2 = demanded as" "rest @ ry_incoming t2 = ry_incoming t1 @ concat (concat (map rp_responses d2))"
  then show "\<exists>done. ry_steps t = done @ ry_steps t2 \<and> keys done = demanded [a] @ demanded as \<and>
      (bs @ rest) @ ry_incoming t2 = ry_incoming t @ concat (concat (map rp_responses done))"
    by (intro exI [of _ "d1 @ d2"]) (simp add: keys_def)
qed

lemma run_played: "replay_run as t = (Inr bs, t') \<Longrightarrow> played as bs t t'"
proof (induction as arbitrary: t bs)
  case Nil
  then show ?case by (simp add: played_def keys_def)
next
  case (Cons a as)
  obtain r t1 where act: "replay_act a t = (r, t1)" by force
  with Cons.prems obtain bs1 rest where "r = Inr bs1" "replay_run as t1 = (Inr rest, t')" "bs = bs1 @ rest"
    unfolding replay_run.simps replay_act_def [symmetric]
    by (cases r; cases "fst (replay_run as t1)") (auto split: prod.splits)
  with act_played [of a t bs1 t1] act Cons.IH [of t1 rest] show ?case by (auto intro: played_trans)
qed

text \<open>
  The replay accepts a host exactly as far as it follows the fixture: its writes and resets are the
  requests of a prefix of the steps, in order, and what it has read and may still read are the
  responses of those steps; \<open>assert_complete\<close> passes exactly when nothing of the fixture is left.
\<close>

theorem replay_is_strict:
  assumes "replay_run as (new_replay steps) = (Inr bs, t)"
  shows "\<exists>done. steps = done @ ry_steps t \<and> map (\<lambda>s. (rp_action s, rp_request s)) done = demanded as \<and>
    bs @ ry_incoming t = concat (concat (map rp_responses done)) \<and>
    (assert_complete t = Inr () \<longleftrightarrow> done = steps \<and> bs = concat (concat (map rp_responses steps)))"
proof -
  from run_played [OF assms] obtain d where d: "steps = d @ ry_steps t" "keys d = demanded as"
    "bs @ ry_incoming t = concat (concat (map rp_responses d))"
    by (auto simp: played_def new_replay_def)
  then show ?thesis
    by (intro exI [of _ d]) (auto simp: keys_def assert_complete_def replay_complete_def split: if_splits)
qed

end
