(* ===== verification/Backup_Manifest.thy ===== *)
theory Backup_Manifest
  imports Storage_Health
begin

text \<open>
  The manifest of a backup (\<open>ops/lib/manifest.py\<close>): the record of what was installed, the manifest with
  the checksum of every file, and its verification before a restore. The files are those of \<open>host\<close>;
  SHA-256, Python's \<open>str\<close> of a JSON value and the answer of git are parameters.
\<close>

section \<open>Definitions\<close>

datatype manifest_error = ManifestError | OtherManifestError string

definition MANIFEST_FILES :: "string list" where
  "MANIFEST_FILES = [''machine.db'', ''web.db'', ''vision.db'', ''cs71d.toml'', ''web.env'']"

definition REQUIRED_FILES :: "string list" where
  "REQUIRED_FILES = [''machine.db'', ''web.db'']"

text \<open>\<open>directory / name\<close> for a relative name.\<close>

definition in_dir :: "string \<Rightarrow> string \<Rightarrow> string" where
  "in_dir directory name = directory @ ''/'' @ name"

definition is_file :: "host \<Rightarrow> string \<Rightarrow> bool" where
  "is_file h path = (h_files h path \<noteq> No_file)"

definition sha256_of :: "(string \<Rightarrow> string) \<Rightarrow> host \<Rightarrow> string \<Rightarrow> (manifest_error, string) result" where
  "sha256_of sha h path =
     (case h_files h path of File mode bytes \<Rightarrow> Inr (sha bytes) | _ \<Rightarrow> Inl (OtherManifestError ''OSError''))"

definition read_text :: "host \<Rightarrow> string \<Rightarrow> (manifest_error, string) result" where
  "read_text h path =
     (case h_files h path of
        File mode bytes \<Rightarrow> of_option (OtherManifestError ''UnicodeDecodeError'') (h_utf8 h bytes)
      | _ \<Rightarrow> Inl (OtherManifestError ''OSError''))"

text \<open>The answer of git: its output, or \<open>None\<close> when it cannot be run or fails.\<close>

definition source_commit :: "string option \<Rightarrow> string" where
  "source_commit git =
     (case git of None \<Rightarrow> ''unknown'' | Some out \<Rightarrow> if strip out = [] then ''unknown'' else strip out)"

text \<open>The search for \<open>^version\s*=\s*"([^"]+)"\<close> at the start of a line.\<close>

definition version_at :: "string \<Rightarrow> string option" where
  "version_at s =
     (if \<not> startswith s ''version'' then None
      else case lstrip (drop 7 s) of
        c # rest \<Rightarrow>
          if c \<noteq> CHR ''='' then None
          else (case lstrip rest of
            q # body \<Rightarrow>
              let v = takeWhile (\<lambda>c. c \<noteq> CHR ''\"'') body in
              if q = CHR ''\"'' \<and> v \<noteq> [] \<and> length v < length body then Some v else None
          | [] \<Rightarrow> None)
      | [] \<Rightarrow> None)"

fun search_version :: "bool \<Rightarrow> string \<Rightarrow> string option" where
  "search_version line_start [] = None"
| "search_version line_start (c # cs) =
     (case (if line_start then version_at (c # cs) else None) of
        Some v \<Rightarrow> Some v
      | None \<Rightarrow> search_version (c = CHR 0x0A) cs)"

definition daemon_version :: "host \<Rightarrow> string \<Rightarrow> (manifest_error, string) result" where
  "daemon_version h root =
     (let path = in_dir root ''appliance/daemon/pyproject.toml'' in
      if \<not> is_file h path then Inr ''unknown''
      else bind_r (read_text h path) (\<lambda>content.
        Inr (case search_version True content of None \<Rightarrow> ''unknown'' | Some v \<Rightarrow> v)))"

definition str_of :: "(json \<Rightarrow> string) \<Rightarrow> json \<Rightarrow> string" where
  "str_of py_str v = (case v of JStr s \<Rightarrow> s | _ \<Rightarrow> py_str v)"

definition member_text :: "(json \<Rightarrow> string) \<Rightarrow> members \<Rightarrow> string \<Rightarrow> string" where
  "member_text py_str m name = (case map_of m name of None \<Rightarrow> ''unknown'' | Some v \<Rightarrow> str_of py_str v)"

definition web_version :: "(json \<Rightarrow> string) \<Rightarrow> host \<Rightarrow> string \<Rightarrow> (manifest_error, string) result" where
  "web_version py_str h root =
     (let path = in_dir root ''appliance/web/package.json'' in
      if \<not> is_file h path then Inr ''unknown''
      else bind_r (read_text h path) (\<lambda>content.
        case h_json h content of
          Some (JObj m) \<Rightarrow> Inr (member_text py_str m ''version'')
        | Some _ \<Rightarrow> Inl (OtherManifestError ''AttributeError'')
        | None \<Rightarrow> Inl (OtherManifestError ''JSONDecodeError'')))"

definition build_release_info ::
    "(json \<Rightarrow> string) \<Rightarrow> string option \<Rightarrow> host \<Rightarrow> string \<Rightarrow> string \<Rightarrow> (manifest_error, members) result" where
  "build_release_info py_str git h root installed_at =
     bind_r (daemon_version h root) (\<lambda>daemon.
     bind_r (web_version py_str h root) (\<lambda>web.
       Inr [(''installed_at'', JStr installed_at), (''source_commit'', JStr (source_commit git)),
            (''daemon_version'', JStr daemon), (''web_version'', JStr web)]))"

definition load_release_info :: "host \<Rightarrow> string \<Rightarrow> (manifest_error, members) result" where
  "load_release_info h path =
     (if \<not> is_file h path then Inr []
      else bind_r (read_text h path) (\<lambda>content.
        Inr (case h_json h content of Some (JObj m) \<Rightarrow> m | _ \<Rightarrow> [])))"

definition file_entry :: "(string \<Rightarrow> string) \<Rightarrow> string \<Rightarrow> json" where
  "file_entry sha bytes = JObj [(''sha256'', JStr (sha bytes)), (''bytes'', JInt (int (length bytes)))]"

fun manifest_entries ::
    "(string \<Rightarrow> string) \<Rightarrow> host \<Rightarrow> string \<Rightarrow> string list \<Rightarrow> (manifest_error, members) result" where
  "manifest_entries sha h directory [] = Inr []"
| "manifest_entries sha h directory (name # names) =
     (case h_files h (in_dir directory name) of
        No_file \<Rightarrow> manifest_entries sha h directory names
      | Unreadable_file \<Rightarrow> Inl (OtherManifestError ''OSError'')
      | File mode bytes \<Rightarrow> bind_r (manifest_entries sha h directory names) (\<lambda>rest. Inr ((name, file_entry sha bytes) # rest)))"

definition build_manifest ::
    "(string \<Rightarrow> string) \<Rightarrow> (json \<Rightarrow> string) \<Rightarrow> host \<Rightarrow> string \<Rightarrow> string \<Rightarrow> string \<Rightarrow> (manifest_error, members) result" where
  "build_manifest sha py_str h backup_dir release_info_path created_at =
     bind_r (load_release_info h release_info_path) (\<lambda>info.
     bind_r (manifest_entries sha h backup_dir MANIFEST_FILES) (\<lambda>files.
       Inr [(''created_at'', JStr created_at),
            (''source_commit'', JStr (member_text py_str info ''source_commit'')),
            (''daemon_version'', JStr (member_text py_str info ''daemon_version'')),
            (''web_version'', JStr (member_text py_str info ''web_version'')), (''files'', JObj files)]))"

definition verify_entry ::
    "(string \<Rightarrow> string) \<Rightarrow> host \<Rightarrow> string \<Rightarrow> string \<times> json \<Rightarrow> (manifest_error, unit) result" where
  "verify_entry sha h backup_dir e =
     (let path = in_dir backup_dir (fst e) in
      if \<not> is_file h path then Inl ManifestError
      else case (case snd e of JObj m \<Rightarrow> map_of m ''sha256'' | _ \<Rightarrow> None) of
        Some (JStr expected) \<Rightarrow>
          bind_r (sha256_of sha h path) (\<lambda>actual. if actual \<noteq> expected then Inl ManifestError else Inr ())
      | _ \<Rightarrow> Inl ManifestError)"

fun verify_entries ::
    "(string \<Rightarrow> string) \<Rightarrow> host \<Rightarrow> string \<Rightarrow> members \<Rightarrow> (manifest_error, unit) result" where
  "verify_entries sha h backup_dir [] = Inr ()"
| "verify_entries sha h backup_dir (e # es) = bind_r (verify_entry sha h backup_dir e) (\<lambda>_. verify_entries sha h backup_dir es)"

definition verify :: "(string \<Rightarrow> string) \<Rightarrow> host \<Rightarrow> string \<Rightarrow> (manifest_error, unit) result" where
  "verify sha h backup_dir =
     (let path = in_dir backup_dir ''manifest.json'' in
      if h_files h path = No_file then Inl ManifestError
      else bind_r (read_text h path) (\<lambda>content.
        case h_json h content of
          Some (JObj document) \<Rightarrow>
            (case map_of document ''files'' of
               Some (JObj files) \<Rightarrow>
                 if files = [] then Inl ManifestError
                 else if \<not> list_all (\<lambda>required. required \<in> set (map fst files)) REQUIRED_FILES then Inl ManifestError
                 else verify_entries sha h backup_dir files
             | _ \<Rightarrow> Inl ManifestError)
        | _ \<Rightarrow> Inl ManifestError))"

text \<open>\<open>main\<close>: what is written, printed and returned. The outcome of writing the file of \<open>release-info\<close> is an argument.\<close>

datatype manifest_command = Release_info string string string | Write_manifest string string string | Verify_backup string | Usage

fun manifest_argv :: "string list \<Rightarrow> manifest_command" where
  "manifest_argv [program, command, a, b, c] =
     (if command = ''release-info'' then Release_info a b c else if command = ''write'' then Write_manifest a b c else Usage)"
| "manifest_argv [program, command, a] = (if command = ''verify'' then Verify_backup a else Usage)"
| "manifest_argv _ = Usage"

fun manifest_main ::
    "(string \<Rightarrow> string) \<Rightarrow> (json \<Rightarrow> string) \<Rightarrow> string option \<Rightarrow> (manifest_error, unit) result \<Rightarrow> host \<Rightarrow> manifest_command
       \<Rightarrow> (manifest_error, nat \<times> json option) result" where
  "manifest_main sha py_str git written h (Release_info root output installed_at) =
     bind_r (build_release_info py_str git h root installed_at) (\<lambda>info. bind_r written (\<lambda>_. Inr (0, Some (JObj info))))"
| "manifest_main sha py_str git written h (Write_manifest backup_dir info created_at) =
     bind_r (build_manifest sha py_str h backup_dir info created_at) (\<lambda>m. Inr (0, Some (JObj m)))"
| "manifest_main sha py_str git written h (Verify_backup backup_dir) =
     (case verify sha h backup_dir of
        Inr _ \<Rightarrow> Inr (0, None)
      | Inl ManifestError \<Rightarrow> Inr (1, None)
      | Inl e \<Rightarrow> Inl e)"
| "manifest_main sha py_str git written h Usage = Inr (2, None)"

section \<open>Properties\<close>

lemma verify_entry_iff:
  "verify_entry sha h d (name, file_entry sha b) = Inr () \<longleftrightarrow>
     (case h_files h (in_dir d name) of File mode b' \<Rightarrow> sha b' = sha b | _ \<Rightarrow> False)"
  by (auto simp: verify_entry_def file_entry_def is_file_def sha256_of_def bind_r_def Let_def split: file_node.splits)

text \<open>The file at a path is as it was, as far as its checksum tells; a path without a file is not compared.\<close>

definition unchanged :: "(string \<Rightarrow> string) \<Rightarrow> file_node \<Rightarrow> file_node \<Rightarrow> bool" where
  "unchanged sha before after = (case before of
     No_file \<Rightarrow> True
   | Unreadable_file \<Rightarrow> False
   | File mode b \<Rightarrow> (case after of File mode' b' \<Rightarrow> sha b' = sha b | _ \<Rightarrow> False))"

lemma verify_entries_iff:
  "manifest_entries sha h d names = Inr files \<Longrightarrow>
     verify_entries sha h' d files = Inr () \<longleftrightarrow>
       list_all (\<lambda>n. unchanged sha (h_files h (in_dir d n)) (h_files h' (in_dir d n))) names"
proof (induction names arbitrary: files)
  case (Cons n names)
  show ?case
  proof (cases "h_files h (in_dir d n)")
    case (File mode b)
    then obtain rest where rest: "manifest_entries sha h d names = Inr rest" "files = (n, file_entry sha b) # rest"
      using Cons.prems by (auto simp: bind_r_def split: sum.splits)
    show ?thesis
      using Cons.IH [OF rest(1)] verify_entry_iff [of sha h' d n b] File
      by (auto simp: rest(2) unchanged_def bind_r_def split: sum.splits file_node.splits)
  qed (use Cons in \<open>auto simp: unchanged_def\<close>)
qed simp

lemma manifest_entries_names:
  "manifest_entries sha h d names = Inr files \<Longrightarrow> map fst files = filter (\<lambda>n. h_files h (in_dir d n) \<noteq> No_file) names"
  by (induction names arbitrary: files) (auto simp: bind_r_def split: sum.splits file_node.splits)


text \<open>A backup of the two databases, and the same directory with a configuration file put beside them later.\<close>

definition backup_host :: host where
  "backup_host = \<lparr> h_files = (\<lambda>p. if p = ''/b/machine.db'' then File 384 ''m'' else if p = ''/b/web.db'' then File 384 ''w'' else No_file),
     h_free = (\<lambda>_. None), h_utf8 = Some, h_json = (\<lambda>_. None), h_iso = (\<lambda>_. None) \<rparr>"

definition backup_manifest :: members where
  "backup_manifest = [(''created_at'', JStr ''now''), (''source_commit'', JStr ''unknown''), (''daemon_version'', JStr ''unknown''),
     (''web_version'', JStr ''unknown''), (''files'', JObj [(''machine.db'', file_entry id ''m''), (''web.db'', file_entry id ''w'')])]"

definition restored_host :: host where
  "restored_host = backup_host\<lparr> h_files := (h_files backup_host)(''/b/manifest.json'' := File 384 ''manifest'', ''/b/cs71d.toml'' := File 420 ''new''),
     h_json := (\<lambda>_. Some (JObj backup_manifest)) \<rparr>"


end
