(* ===== verification/Sockets.thy ===== *)
theory Sockets
  imports Prelude
begin

text \<open>
  The socket path of both HTTP servers (\<open>_claim_socket_path\<close>, \<open>start\<close>, \<open>close\<close> and \<open>_unlink_stale_socket\<close>
  of \<open>api.py\<close>), shared by the processes that want to serve it. The state of the path is the process
  whose socket file is there and the processes that are listening. A connection attempt to the path
  is the parameter \<open>probe\<close>; the code takes every \<open>OSError\<close> of it, and not only a refused connection,
  for a stale file.
\<close>

section \<open>Definitions\<close>

record socket_path =
  sp_file :: "nat option"
  sp_serving :: "nat set"

datatype probe = Connected | Refused | Timed_out | Denied

datatype socket_error = SocketOSError

definition claim_socket_path :: "probe \<Rightarrow> socket_path \<Rightarrow> (socket_error, unit) result \<times> socket_path" where
  "claim_socket_path probe s =
     (if sp_file s = None then (Inr (), s)
      else if probe = Connected then (Inl SocketOSError, s)
      else (Inr (), s\<lparr> sp_file := None \<rparr>))"

text \<open>Binding fails when there is a file at the path.\<close>

definition bind_socket :: "nat \<Rightarrow> socket_path \<Rightarrow> (socket_error, unit) result \<times> socket_path" where
  "bind_socket i s =
     (if sp_file s \<noteq> None then (Inl SocketOSError, s)
      else (Inr (), s\<lparr> sp_file := Some i, sp_serving := insert i (sp_serving s) \<rparr>))"

definition start_serving :: "nat \<Rightarrow> probe \<Rightarrow> socket_path \<Rightarrow> (socket_error, unit) result \<times> socket_path" where
  "start_serving i probe s =
     (if i \<in> sp_serving s then (Inr (), s)
      else case claim_socket_path probe s of
        (Inl e, s') \<Rightarrow> (Inl e, s')
      | (Inr _, s') \<Rightarrow> bind_socket i s')"

definition unlink_stale_socket :: "socket_path \<Rightarrow> socket_path" where
  "unlink_stale_socket s = s\<lparr> sp_file := None \<rparr>"

definition close_serving :: "nat \<Rightarrow> socket_path \<Rightarrow> socket_path" where
  "close_serving i s =
     (if i \<notin> sp_serving s then s
      else unlink_stale_socket (s\<lparr> sp_serving := sp_serving s - {i} \<rparr>))"

section \<open>Processes\<close>

text \<open>A connection is accepted while the owner of the file listens, and refused otherwise.\<close>

definition probe_answer :: "socket_path \<Rightarrow> probe" where
  "probe_answer s = (case sp_file s of Some i \<Rightarrow> if i \<in> sp_serving s then Connected else Refused | None \<Rightarrow> Refused)"

inductive socket_step :: "socket_path \<Rightarrow> socket_path \<Rightarrow> bool" where
  started: "socket_step s (snd (start_serving i (probe_answer s) s))"
| closed: "socket_step s (close_serving i s)"
| crashed: "socket_step s (s\<lparr> sp_serving := sp_serving s - {i} \<rparr>)"

inductive_cases socket_stepE: "socket_step s s'"

definition no_socket :: socket_path where
  "no_socket = \<lparr> sp_file = None, sp_serving = {} \<rparr>"

definition path_ok :: "socket_path \<Rightarrow> bool" where
  "path_ok s = (\<forall>i. i \<in> sp_serving s \<longrightarrow> sp_file s = Some i)"

lemma start_serving_ok: "path_ok s \<Longrightarrow> path_ok (snd (start_serving i (probe_answer s) s))"
  by (auto simp: path_ok_def start_serving_def claim_socket_path_def bind_socket_def probe_answer_def split: option.splits)

lemma path_ok_unique: "path_ok s \<Longrightarrow> i \<in> sp_serving s \<Longrightarrow> j \<in> sp_serving s \<Longrightarrow> i = j"
  unfolding path_ok_def by (metis option.inject)

lemma close_serving_ok: "path_ok s \<Longrightarrow> path_ok (close_serving i s)"
proof (cases "i \<in> sp_serving s")
  case True
  assume "path_ok s"
  then have "sp_serving s - {i} = {}" using path_ok_unique True by blast
  with True show ?thesis by (auto simp: close_serving_def unlink_stale_socket_def path_ok_def)
qed (simp add: close_serving_def)

lemma crash_ok: "path_ok s \<Longrightarrow> path_ok (s\<lparr> sp_serving := sp_serving s - {i} \<rparr>)"
  by (simp add: path_ok_def)

lemma socket_step_ok: "socket_step s s' \<Longrightarrow> path_ok s \<Longrightarrow> path_ok s'"
  by (erule socket_stepE) (simp_all add: start_serving_ok close_serving_ok crash_ok)

text \<open>
  As long as connections are answered at once and no two starts overlap (a step is a whole start), the
  processes that start, stop and crash on one path never steal it from each other: at most one of them
  serves, the file at the path is its own, and closing it removes no other process's socket.
\<close>

theorem one_server_per_path:
  assumes "socket_step\<^sup>*\<^sup>* no_socket s"
  shows "path_ok s \<and> (\<forall>i j. i \<in> sp_serving s \<longrightarrow> j \<in> sp_serving s \<longrightarrow> i = j)"
proof -
  from assms have "path_ok s"
  proof (induction rule: rtranclp_induct)
    case base
    show ?case by (simp add: path_ok_def no_socket_def)
  qed (rule socket_step_ok)
  then show ?thesis using path_ok_unique by blast
qed

text \<open>
  Both conditions are needed. A probe that fails while another process serves, because that process is too
  busy to accept, or because the file was stale when it was probed and has been replaced since, lets the
  second process take the path: both serve, the first one can be reached no longer, and when it
  closes it removes the socket of the second, which is then unreachable as well.
\<close>

theorem failed_probe_steals_path:
  assumes "probe \<noteq> Connected" "sp_serving s = {i}" "sp_file s = Some i" "i \<noteq> j"
  shows "\<exists>s1. start_serving j probe s = (Inr (), s1) \<and> sp_serving s1 = {i, j} \<and> sp_file s1 = Some j \<and>
    sp_serving (close_serving i s1) = {j} \<and> sp_file (close_serving i s1) = None"
  using assms
  by (auto simp: start_serving_def claim_socket_path_def bind_socket_def close_serving_def unlink_stale_socket_def)

end
