(* ===== verification/Spec2Isabelle.thy ===== *)
theory Spec2Isabelle
  imports Client Serial_Worker Domain Vision_Service Daemon_Client Daemon_Runtime Vision_Runtime Simulator_Protocol Switcher Fixtures
    Backup_Manifest Sockets
begin

text \<open>
  Verification of the control software of the CS7.1 case sorter.

  \<^bold>\<open>The program.\<close> A Raspberry Pi daemon (\<open>appliance/daemon/src/cs71d\<close>) drives the sorter's controller
  over a serial line. It speaks a line protocol implemented by a library of its own
  (\<open>host/src/cs71_protocol\<close>). A caller's request becomes a durable operation: the domain admits it,
  records it in a SQLite journal, publishes a machine view and an event, and hands an intent to the
  serial worker, the one thread that owns the transport and the protocol client. The worker's
  future settles the operation again. What makes the daemon correct is that it never claims more
  than it knows: nothing is transmitted that is not recorded, nothing is transmitted twice, no
  success without a trusted terminal response, no silent gap in the event stream. A second service
  (\<open>appliance/vision/src/cs71vision\<close>) watches a camera, labels frames with the sorts the daemon reports,
  suggests where a case belongs and, gated by a primer reading and thresholds, may submit a sort.

  \<^bold>\<open>Theories and what they model\<close>, bottom up. Each opens with a text of its own.
  \<^item> \<open>Prelude\<close>: results as sums, Python's string functions on char lists, decimal and hexadecimal text.
  \<^item> \<open>Crc\<close> (\<open>crc.py\<close>, \<open>errors.py\<close>): the CRC loop on 16-bit words, the protected frame and its check.
    A frame is accepted exactly when it is the protected form of its body, and damage to one or two
    adjacent characters is always found.
  \<^item> \<open>Framing\<close> (\<open>framing.py\<close>): the line reader over an arbitrary byte stream. Locale
    \<open>byte_source\<close> is the contract of the stream and its clock.
  \<^item> \<open>Transport\<close> (\<open>transport.py\<close>, \<open>device.py\<close>): the scripted transport interprets \<open>byte_source\<close>; the
    DTR predicate; the device policy.
  \<^item> \<open>Models\<close>, \<open>Parsing\<close> (\<open>models.py\<close>, \<open>parsing.py\<close>): typed protocol values; parser and formatter, with
    the round trip and its converse.
  \<^item> \<open>Tracking\<close> (\<open>tracking.py\<close>): request identifiers and event order.
  \<^item> \<open>Client\<close> (\<open>client.py\<close>): every method of the protocol client as a state transformer with exceptions;
    a program logic \<open>triple\<close> for partial correctness, and locale \<open>client_world\<close>, an extension of
    \<open>byte_source\<close>, in which every call comes back.
  \<^item> \<open>Switcher\<close> (\<open>cli.py\<close>, \<open>locking.py\<close> and \<open>SerialTransport\<close> of the host library): the command that takes a
    controller from one protocol to the other. It always releases the port, sends nothing without
    the DTR guarantee and reports no session it has not verified.
  \<^item> \<open>Operations\<close>, \<open>Machine\<close>, \<open>Events\<close>, \<open>Configuration\<close>, \<open>Adapters\<close> (files of the same names and
    \<open>session.py\<close>): the operation vocabulary, machine view, event ring, bounded configuration and the
    adapters from requests to intents.
  \<^item> \<open>Journal\<close> (\<open>journal.py\<close>): the tables, transactions that commit or roll back, and a script of
    storage failures; the audit trail is a chain of legal transitions and never rewritten.
  \<^item> \<open>Serial_Worker\<close> (\<open>serial_worker.py\<close>): callers and the owning thread as interleaved atomic steps.
    The thread is a program of critical sections and calls, so its definitions follow the methods
    of the source; \<open>hoare\<close> is a logic for it under interference, \<open>inevitable\<close> what its runs reach.
  \<^item> \<open>Domain\<close> (\<open>domain.py\<close>): admission, idempotent replay, dispatch, settlement, stop, session
    operations and configuration; locale \<open>domain_core\<close> states what its entry points share and
    \<open>domain_relation\<close> what relations between states they respect, interpreted for the evolution of the
    daemon, of the ring and of the deadline limit.
  \<^item> \<open>Storage_Health\<close> (\<open>storage_health.py\<close>): the disk and backup checks over the answers of the host; while
    one fails the domain admits nothing.
  \<^item> \<open>Backup_Manifest\<close> (\<open>ops/lib/manifest.py\<close>): the manifest of a backup and its verification.
  \<^item> \<open>Json\<close>: JSON documents as values, with the member order of Python's \<open>dict\<close>.
  \<^item> \<open>Api\<close>, \<open>Api_Pages\<close> (\<open>api.py\<close> of the daemon): authentication, parsing of every request, every route, the
    error table and the replies; the pages of operations and the event stream. A request changes the
    daemon only as its credential, its headers and its body allow, every reply follows the contract,
    and the pages list every operation once.
  \<^item> \<open>Sockets\<close> (the socket path of both \<open>api.py\<close>): processes that claim, serve and release one path. Starts
    that do not overlap leave at most one server; a probe that fails against a live server steals its path.
  \<^item> \<open>Settings\<close>, \<open>Daemon_Runtime\<close> (\<open>config.py\<close>, \<open>runtime.py\<close>, \<open>cli.py\<close> of the daemon): configuration files,
    token files, the start and the close of the parts, exit codes.
  \<^item> \<open>Simulator\<close>, \<open>Simulator_Protocol\<close> (\<open>simulator/transport.py\<close>, \<open>simulator/clock.py\<close>): the simulated
    controller with its schedule, both protocols and its adverse scenarios; its frames are read
    back by the protocol library, which joins the two ends of the line.
  \<^item> \<open>Fixtures\<close> (\<open>simulator/fixtures.py\<close>): the loaders of the recorded exchanges and their strict replay.
  \<^item> \<open>Routing\<close> (\<open>vision/src/cs71vision/routing.py\<close>): routing profiles and the session that maps classes
    to chutes.
  \<^item> \<open>Dataset\<close> (\<open>dataset.py\<close>): the tables of \<open>vision.db\<close>, every read and write with its transaction; the
    tables only grow and stay consistent.
  \<^item> \<open>Tasks\<close>: threads as tasks of locked sections that interleave in a pool, with a rely-guarantee logic
    (locale \<open>rely\<close>).
  \<^item> \<open>Vision\<close> (\<open>correlator.py\<close>, \<open>classifier.py\<close>, \<open>primer.py\<close>, \<open>autonomy.py\<close>, the loops of \<open>runtime.py\<close>): what
    the threads of the vision service do, as tasks.
  \<^item> \<open>Vision_Api\<close> (\<open>api.py\<close> of the vision service): every resource and command as a task.
  \<^item> \<open>Vision_Service\<close>: all of these threads and any number of requests in one pool, with the invariant of
    the service; locale \<open>vision_router\<close> is what the suggester needs of a router, interpreted for both
    routers. Autonomous sorts are gated and examples are confirmed under every interleaving.
  \<^item> \<open>Daemon_Client\<close> (\<open>daemon_client.py\<close>): the vision service's client joined to the daemon's API: what is
    submitted arrives as asked, and what is reported is trusted.
  \<^item> \<open>Training\<close> (\<open>training.py\<close>): the floor of examples, the split, the accuracy of a candidate.
  \<^item> \<open>Vision_Settings\<close>, \<open>Vision_Runtime\<close> (\<open>config.py\<close>, \<open>camera.py\<close>, \<open>runtime.py\<close>, \<open>cli.py\<close> of the vision
    service): configuration, cameras, assembly of the loops, start and close, exit codes.
  \<^item> This theory: properties that span components.

  \<^bold>\<open>State and effects.\<close> A class is a record, a method a function of that record that returns its
  result or exception and the new record. Locks make methods atomic where the source holds them
  throughout; where it does not (publishing events, the worker) the parts are separate steps.
  Time is an integer number of ticks. External code is a parameter or an input: the byte stream,
  clock and reset hook of the client, storage failures of the journal, the answers to the worker's
  calls (\<open>legal\<close> is their contract), exception texts (\<open>d_text\<close>), the files of the host (\<open>host\<close>), the
  parsers of JSON and TOML, images and models.

  \<^bold>\<open>Loops and fuel.\<close> The loops bounded by a deadline take fuel: the line reader, waiting for
  \<open>stopped\<close>, and a request. Every turn reads the clock, which advances, so more fuel than ticks in
  the time-out is enough; \<open>read_line_terminates\<close> and \<open>request_terminates\<close> say so. The simulator's loops
  over its buffer and its schedule recurse on what is left of them. All other functions are total.
  The run loop of the worker is a step relation.

  \<^bold>\<open>Not modelled.\<close> pyserial itself (a driver); of both
  HTTP servers the connections, the threads that accept connections, and message texts; logging and
  option parsing of the command lines; OpenCV, scikit-learn and SQLite themselves; the measuring
  script \<open>measure_nfr.py\<close>; the web client in TypeScript, the Arduino firmware, operations scripts and
  documents. Observer callbacks of the client are absent as in the daemon.
\<close>

section \<open>Worker and domain\<close>

text \<open>
  C2: cancelled means that the machine did not move unsupervised: when the domain classifies the
  failure of an intent's future as cancelled, the intent was never transmitted, or a trusted stop
  ended its request, interrupting it or acknowledged after it.
\<close>

theorem cancelled_only_if_unsent_or_stopped:
  assumes "new_worker capacity timeout poll attempts observed = Some w0" "worker_reachable w0 (w, th)"
    and "w_futures w f = FINISHED (Inl e)" "classify str current e = (OS_cancelled, reason)"
  shows "f \<notin> set (sent w) \<or> stop_confirmed f (w_trace w)"
proof -
  have "credible e f (w_trace w)"
    using worker_good(2) [OF assms(1,2)] assms(3) by (auto simp: good_def winv_def trace_inv_def)
  moreover have "unsent_error e \<or> e = Worker_failure PreemptedByStopError"
    using assms(4)
    by (cases "(str, current, e)" rule: classify.cases)
      (auto simp: classify_other_def unsent_error_def NEVER_DISPATCHED_def split: if_splits)
  ultimately show ?thesis by (auto simp: credible_def)
qed

text \<open>A sort that a priority stop interrupts.\<close>

definition demo_interrupted :: "worker_event list" where
  "demo_interrupted = demo_start @ [Ev_submit (SortIntent 3) False, Ev_thread A_unit, Ev_thread A_unit, Ev_stop,
     Ev_thread (Raised (Protocol_failure RequestInterruptedError)), Ev_thread A_unit]"

lemma demo_interrupted_state:
  "map_option (\<lambda>(w, th). (w_futures w 0, sent w)) (schedule demo_interrupted (demo_worker, Unstarted))
     = Some (FINISHED (Inl (Worker_failure PreemptedByStopError)), [0])"
  by code_simp

theorem cancelled_only_if_unsent_or_stopped_witness:
  "\<exists>w th. worker_reachable demo_worker (w, th) \<and> sent w = [0] \<and> stop_confirmed 0 (w_trace w)"
proof -
  obtain w th where w: "schedule demo_interrupted (demo_worker, Unstarted) = Some (w, th)"
      "w_futures w 0 = FINISHED (Inl (Worker_failure PreemptedByStopError))" "sent w = [0]"
    using demo_interrupted_state by auto
  with cancelled_only_if_unsent_or_stopped [OF demo_worker_new demo_worker_reachable [OF w(1)] w(2),
      of "\<lambda>_. []" OS_running "''invalidated by a trusted priority stop''"] demo_worker_reachable [OF w(1)]
  show ?thesis by auto
qed

section \<open>Client and domain\<close>

text \<open>
  The domain trusts what the client completes: a completion that \<open>request\<close> returns has a
  terminal response, so settling never raises on it, and the domain finds it trusted exactly when
  the client calls it a success.
\<close>

theorem request_completion_trusted:
  assumes "request env opts command wanted c = Some (Inr k, c')"
  shows "is_trusted_terminal k = Inr (c_succeeded k) \<and> is_ok (terminal_fields k)"
proof -
  have k: "\<exists>i. correlated i k" using tripleD [OF request_outcome refl assms] by auto
  then obtain i where i: "correlated i k" ..
  then have "terminal_response k = Inr (last (c_responses k))" "request_id (last (c_responses k)) = c_request_id k"
    by (auto simp: correlated_def terminal_response_def list_all_iff)
  with i show ?thesis by (auto simp: is_trusted_terminal_def terminal_fields_def correlated_def)
qed

theorem request_completion_trusted_witness:
  "\<exists>k c'. demo_request [''@1 accepted'', ''@1 done:slot=3''] [] = Some (Inr k, c') \<and> is_trusted_terminal k = Inr True"
proof -
  obtain k c' where k: "demo_request [''@1 accepted'', ''@1 done:slot=3''] [] = Some (Inr k, c')" "c_succeeded k"
    using demo_request_done by (auto elim: map_sum_Inr)
  with request_completion_trusted [OF k(1) [unfolded demo_request_def]] show ?thesis by auto
qed

end
